(* ===== verification/Fraktor_Prelude.thy ===== *)
theory Fraktor_Prelude
  imports Main "HOL-Library.Word" "HOL-Library.Finite_Map" "HOL-Library.Char_ord"
    "HOL-Library.List_Lexorder" "HOL-Library.Option_ord" "HOL-Library.Product_Lexorder"
begin

text \<open>
  The vocabulary every component of the development shares: the collections of rewrite and
  introduction rules, Rust's machine integers with their checked and saturating operations,
  \<open>Result\<close> as a sum with the error on the left, and the options the sources unwrap.
\<close>

section \<open>Collections of facts\<close>

named_theorems lookup_simps \<open>what a key holds after an operation on an ordered map\<close>
named_theorems wf_intros \<open>operations keep the well-formedness of their component\<close>

section \<open>Machine integers\<close>

type_synonym u16 = "16 word"
type_synonym u64 = "64 word"
type_synonym u128 = "128 word"

text \<open>Rust's \<open>checked_add\<close> and \<open>saturating_add\<close> on unsigned integers.\<close>

definition checked_add :: "'a::len word \<Rightarrow> 'a word \<Rightarrow> 'a word option" where
  "checked_add a b = (if unat a + unat b < 2 ^ LENGTH('a) then Some (a + b) else None)"

definition saturating_add :: "'a::len word \<Rightarrow> 'a word \<Rightarrow> 'a word" where
  "saturating_add a b = (case checked_add a b of Some c \<Rightarrow> c | None \<Rightarrow> - 1)"

lemma checked_add_Some_iff:
  "checked_add a b = Some c \<longleftrightarrow> unat c = unat (a :: 'a::len word) + unat b"
proof
  assume "checked_add a b = Some c"
  then show "unat c = unat a + unat b"
    by (auto simp: checked_add_def unat_add_lem [symmetric] split: if_splits)
next
  assume c: "unat c = unat a + unat b"
  then have lt: "unat a + unat b < 2 ^ LENGTH('a)"
    using unsigned_less [of c, where ?'a = nat] by simp
  then have "unat (a + b) = unat c"
    using c by (simp add: unat_add_lem [symmetric])
  with lt show "checked_add a b = Some c"
    by (simp add: checked_add_def word_unat_eq_iff)
qed

lemma checked_add_None_iff:
  "checked_add a b = None \<longleftrightarrow> 2 ^ LENGTH('a) \<le> unat (a :: 'a::len word) + unat b"
  by (auto simp: checked_add_def)

lemma checked_add_one_None: "checked_add w 1 = None \<longleftrightarrow> w = (- 1 :: 'a::len word)"
proof -
  have "unat w < 2 ^ LENGTH('a)" by (rule unsigned_less)
  moreover have "unat (- 1 :: 'a word) = 2 ^ LENGTH('a) - 1"
    by (simp add: unsigned_minus_1_eq_mask mask_eq_exp_minus_1)
  ultimately show ?thesis
    unfolding checked_add_None_iff word_unat_eq_iff unsigned_1 by linarith
qed

text \<open>The overflow test on the words themselves, for evaluation.\<close>

lemma checked_add_code [code]:
  "checked_add a b = (let c = a + b in if c < a then None else Some c)"
  using no_olen_add_nat [of a b] by (auto simp: checked_add_def Let_def not_less)

lemma checked_add_less:
  "checked_add a b = Some c \<Longrightarrow> b \<noteq> 0 \<Longrightarrow> a < (c :: 'a::len word)"
  by (simp add: checked_add_Some_iff word_less_nat_alt unat_gt_0)

lemma checked_add_nonzero:
  "checked_add a b = Some c \<Longrightarrow> b \<noteq> 0 \<Longrightarrow> (c :: 'a::len word) \<noteq> 0"
  by (drule (1) checked_add_less) (auto simp: not_less_zero)

lemma checked_add_commute: "checked_add a b = checked_add b a"
  by (simp add: checked_add_def add.commute)

lemma saturating_add_ge: "a \<le> saturating_add a (b :: 'a::len word)"
proof (cases "checked_add a b")
  case None
  then show ?thesis by (simp add: saturating_add_def)
next
  case (Some c)
  moreover from Some have "unat a \<le> unat c"
    by (simp add: checked_add_Some_iff)
  ultimately show ?thesis
    by (simp add: saturating_add_def word_le_nat_alt)
qed

lemma saturating_add_nonzero:
  "b \<noteq> 0 \<Longrightarrow> saturating_add a b \<noteq> (0 :: 'a::len word)"
  by (auto simp: saturating_add_def dest: checked_add_nonzero split: option.splits)

text \<open>Signed 64-bit integers are \<open>int\<close>s with the range written out.\<close>

definition i64_min :: int where
  "i64_min = - (2 ^ 63)"

definition i64_max :: int where
  "i64_max = 2 ^ 63 - 1"

definition clamp_i64 :: "int \<Rightarrow> int" where
  "clamp_i64 x = max i64_min (min i64_max x)"

definition is_i64 :: "int \<Rightarrow> bool" where
  "is_i64 x \<longleftrightarrow> i64_min \<le> x \<and> x \<le> i64_max"

lemma is_i64_clamp [simp]: "is_i64 (clamp_i64 x)"
  by (auto simp: is_i64_def clamp_i64_def i64_min_def i64_max_def)

section \<open>Result and Option\<close>

text \<open>\<open>Result<T, E>\<close> is \<open>'e + 't\<close>; the question-mark operator is \<open>and_then\<close>.\<close>

definition and_then :: "'e + 'a \<Rightarrow> ('a \<Rightarrow> 'e + 'b) \<Rightarrow> 'e + 'b" where
  "and_then r f = (case r of Inl e \<Rightarrow> Inl e | Inr x \<Rightarrow> f x)"

definition ok_or :: "'a option \<Rightarrow> 'e \<Rightarrow> 'e + 'a" where
  "ok_or x e = (case x of None \<Rightarrow> Inl e | Some v \<Rightarrow> Inr v)"

definition unwrap_or :: "'a option \<Rightarrow> 'a \<Rightarrow> 'a" where
  "unwrap_or x d = (case x of None \<Rightarrow> d | Some v \<Rightarrow> v)"

lemma and_then_simps [simp]:
  "and_then (Inl e) f = Inl e"
  "and_then (Inr x) f = f x"
  by (simp_all add: and_then_def)

lemma and_then_eq_Inr: "and_then r f = Inr y \<longleftrightarrow> (\<exists>x. r = Inr x \<and> f x = Inr y)"
  by (cases r) simp_all

lemma ok_or_simps [simp]:
  "ok_or None e = Inl e"
  "ok_or (Some v) e = Inr v"
  by (simp_all add: ok_or_def)

lemma ok_or_eq_Inr: "ok_or x e = Inr v \<longleftrightarrow> x = Some v"
  by (cases x) simp_all

lemma unwrap_or_simps [simp]:
  "unwrap_or None d = d"
  "unwrap_or (Some v) d = v"
  by (simp_all add: unwrap_or_def)

end
