(* ===== verification/BTree_Map.thy ===== *)
theory BTree_Map
  imports Fraktor_Prelude
begin

text \<open>
  Rust's \<open>BTreeMap\<close> as a finite map whose entries are visited in key order. The sources walk
  these maps with \<open>for (k, v) in &m\<close>, with iterator chains and with the entry interface; each
  has its counterpart here, and \<open>look_for_each\<close> says what any such loop leaves under a key.
\<close>

section \<open>The operations\<close>

definition entries :: "('k::linorder, 'v) fmap \<Rightarrow> ('k \<times> 'v) list" where
  "entries m = sorted_list_of_fmap m"

definition map_values :: "('k::linorder, 'v) fmap \<Rightarrow> 'v list" where
  "map_values m = map snd (entries m)"

definition contains_key :: "('k, 'v) fmap \<Rightarrow> 'k \<Rightarrow> bool" where
  "contains_key m k \<longleftrightarrow> fmlookup m k \<noteq> None"

definition get_or :: "('k, 'v) fmap \<Rightarrow> 'k \<Rightarrow> 'v \<Rightarrow> 'v" where
  "get_or m k d = unwrap_or (fmlookup m k) d"

definition for_each :: "('k::linorder \<Rightarrow> 'v \<Rightarrow> 's \<Rightarrow> 's) \<Rightarrow> ('k, 'v) fmap \<Rightarrow> 's \<Rightarrow> 's" where
  "for_each f m s = fold (\<lambda>(k, v). f k v) (entries m) s"

text \<open>\<open>iter().filter_map(..).collect()\<close>, and \<open>iter().filter(..).collect()\<close>.\<close>

definition collect_map :: "('k::linorder \<Rightarrow> 'v \<Rightarrow> 'w option) \<Rightarrow> ('k, 'v) fmap \<Rightarrow> ('k, 'w) fmap" where
  "collect_map f m =
     for_each (\<lambda>k v acc. case f k v of None \<Rightarrow> acc | Some w \<Rightarrow> fmupd k w acc) m fmempty"

definition filter_map :: "('k::linorder \<Rightarrow> 'v \<Rightarrow> bool) \<Rightarrow> ('k, 'v) fmap \<Rightarrow> ('k, 'v) fmap" where
  "filter_map P m = collect_map (\<lambda>k v. if P k v then Some v else None) m"

text \<open>\<open>entry(k).and_modify(f).or_insert(d)\<close>.\<close>

definition upsert :: "'k \<Rightarrow> ('v \<Rightarrow> 'v) \<Rightarrow> 'v \<Rightarrow> ('k, 'v) fmap \<Rightarrow> ('k, 'v) fmap" where
  "upsert k f d m = fmupd k (case fmlookup m k of None \<Rightarrow> d | Some c \<Rightarrow> f c) m"

text \<open>A loop whose body may return early with an error.\<close>

fun try_fold :: "('s \<Rightarrow> 'a \<Rightarrow> 'e + 's) \<Rightarrow> 's \<Rightarrow> 'a list \<Rightarrow> 'e + 's" where
  "try_fold f s [] = Inr s"
| "try_fold f s (x # xs) = and_then (f s x) (\<lambda>s'. try_fold f s' xs)"

definition try_for_each ::
    "('k::linorder \<Rightarrow> 'v \<Rightarrow> 's \<Rightarrow> 'e + 's) \<Rightarrow> ('k, 'v) fmap \<Rightarrow> 's \<Rightarrow> 'e + 's" where
  "try_for_each f m s = try_fold (\<lambda>s (k, v). f k v s) s (entries m)"

section \<open>Entries\<close>

lemma set_entries: "(k, v) \<in> set (entries m) \<longleftrightarrow> fmlookup m k = Some v"
  by (auto simp: entries_def sorted_list_of_fmap_def fmlookup_dom_iff image_iff)

lemma distinct_entries [simp]: "distinct (map fst (entries m))"
  by (simp add: entries_def sorted_list_of_fmap_def comp_def sorted_list_of_fset.rep_eq)

lemma map_of_entries [simp]: "map_of (entries m) = fmlookup m"
proof
  fix k
  show "map_of (entries m) k = fmlookup m k"
  proof (cases "fmlookup m k")
    case None
    then show ?thesis
      by (auto simp: map_of_eq_None_iff set_entries)
  next
    case (Some v)
    then show ?thesis
      by (simp add: set_entries)
  qed
qed

lemma set_keys: "set (map fst (entries m)) = {k. fmlookup m k \<noteq> None}"
  using map_of_eq_None_iff [of "entries m"] by auto

lemma lookup_filter_pairs:
  assumes "distinct (map fst es)"
  shows "map_of (filter Q es) j = Option.bind (map_of es j) (\<lambda>x. if Q (j, x) then Some x else None)"
  using assms
proof (induction es)
  case (Cons e es)
  then show ?case by (cases e) (auto simp: map_of_eq_None_iff split: bind_split dest: map_of_SomeD)
qed simp

lemma map_of_filter_entries:
  "map_of (filter P (entries m)) k =
     (case fmlookup m k of None \<Rightarrow> None | Some v \<Rightarrow> if P (k, v) then Some v else None)"
  by (cases "fmlookup m k") (simp_all add: lookup_filter_pairs)

lemma distinct_filter_entries: "distinct (map fst (filter P (entries m)))"
  by (rule distinct_map_filter) simp

lemma entries_empty [simp]: "entries fmempty = []"
  by (simp add: entries_def sorted_list_of_fmap_def sorted_list_of_fset.rep_eq)

lemma entries_eq_Nil [simp]: "entries m = [] \<longleftrightarrow> m = fmempty"
proof
  assume "entries m = []"
  then have "\<And>k. fmlookup m k = None"
    by (metis map_of_entries map_of.simps(1))
  then show "m = fmempty"
    by (auto intro: fmap_ext)
qed simp

lemma set_map_values: "set (map_values m) = {v. \<exists>k. fmlookup m k = Some v}"
  by (auto simp: map_values_def image_iff set_entries intro: bexI [rotated]) (metis set_entries snd_conv)

section \<open>Loops over entries\<close>

text \<open>
  A loop body that touches only its own key, and whose effect there depends only on what that
  key held before, leaves under every key the body's effect at that key. \<open>look\<close> is any way to
  observe the loop's state under a key: a map, or several maps updated together.
\<close>

lemma look_fold:
  assumes step: "\<And>k v s k'. look (f k v s) k' = (if k' = k then g k v (look s k) else look s k')"
    and "distinct (map fst xs)"
  shows "look (fold (\<lambda>(k, v). f k v) xs s) k =
    (case map_of xs k of None \<Rightarrow> look s k | Some v \<Rightarrow> g k v (look s k))"
  using assms(2)
proof (induction xs arbitrary: s)
  case Nil
  then show ?case by simp
next
  case (Cons x xs)
  obtain k' v where x: "x = (k', v)" by (cases x)
  from Cons have IH: "look (fold (\<lambda>(k, v). f k v) xs (f k' v s)) k =
      (case map_of xs k of None \<Rightarrow> look (f k' v s) k | Some v' \<Rightarrow> g k v' (look (f k' v s) k))"
    by simp
  show ?case
  proof (cases "k = k'")
    case True
    with Cons.prems x have "map_of xs k = None"
      by (auto simp: map_of_eq_None_iff)
    with True IH x step show ?thesis by simp
  next
    case False
    with IH x step show ?thesis by (simp split: option.splits)
  qed
qed

lemma look_for_each:
  assumes "\<And>k v s k'. look (f k v s) k' = (if k' = k then g k v (look s k) else look s k')"
  shows "look (for_each f m s) k =
    (case fmlookup m k of None \<Rightarrow> look s k | Some v \<Rightarrow> g k v (look s k))"
  unfolding for_each_def
  by (subst look_fold [OF assms]) simp_all

lemma for_each_empty [simp]: "for_each f fmempty s = s"
  by (simp add: for_each_def)

lemma for_each_invariant:
  assumes "P s" and "\<And>k v s. fmlookup m k = Some v \<Longrightarrow> P s \<Longrightarrow> P (f k v s)"
  shows "P (for_each f m s)"
proof -
  have "P (fold (\<lambda>(k, v). f k v) xs s)" if "set xs \<subseteq> set (entries m)" for xs
    using that assms(1)
  proof (induction xs arbitrary: s)
    case Nil
    then show ?case by simp
  next
    case (Cons x xs)
    then show ?case
      by (cases x) (auto simp: set_entries intro: assms(2))
  qed
  then show ?thesis by (simp add: for_each_def)
qed

section \<open>What a key holds\<close>

lemma lookup_collect_map [lookup_simps]:
  "fmlookup (collect_map f m) k = Option.bind (fmlookup m k) (f k)"
  unfolding collect_map_def
  by (subst look_for_each [where look = fmlookup and
        g = "\<lambda>k v c. case f k v of None \<Rightarrow> c | Some w \<Rightarrow> Some w"])
    (auto split: option.splits)

lemma lookup_filter_map [lookup_simps]:
  "fmlookup (filter_map P m) k =
     (case fmlookup m k of None \<Rightarrow> None | Some v \<Rightarrow> if P k v then Some v else None)"
  by (simp add: filter_map_def lookup_simps split: option.splits)

lemma lookup_upsert [lookup_simps]:
  "fmlookup (upsert k f d m) k' =
     (if k' = k then Some (case fmlookup m k of None \<Rightarrow> d | Some c \<Rightarrow> f c) else fmlookup m k')"
  by (simp add: upsert_def)

lemma contains_key_iff: "contains_key m k \<longleftrightarrow> (\<exists>v. fmlookup m k = Some v)"
  by (auto simp: contains_key_def)

lemma fmap_eq_iff: "m = n \<longleftrightarrow> (\<forall>k. fmlookup m k = fmlookup n k)"
  by (auto intro: fmap_ext)

section \<open>Loops with early return\<close>

lemma try_fold_Inr_invariant:
  assumes "try_fold f s xs = Inr s'" and "P s"
    and "\<And>x s s'. x \<in> set xs \<Longrightarrow> P s \<Longrightarrow> f s x = Inr s' \<Longrightarrow> P s'"
  shows "P s'"
  using assms
proof (induction xs arbitrary: s)
  case Nil
  then show ?case by simp
next
  case (Cons x xs)
  from Cons.prems(1) obtain t where t: "f s x = Inr t" "try_fold f t xs = Inr s'"
    by (auto simp: and_then_eq_Inr)
  show ?case
    by (rule Cons.IH [OF t(2)]) (use Cons.prems t in \<open>auto intro: Cons.prems(3)\<close>)
qed

lemma look_try_fold:
  assumes step: "\<And>k v s s' k'. f k v s = Inr s' \<Longrightarrow>
      look s' k' = (if k' = k then h k v (look s k) else look s k')"
    and "try_fold (\<lambda>s (k, v). f k v s) s xs = Inr s'" and "distinct (map fst xs)"
  shows "look s' k = (case map_of xs k of None \<Rightarrow> look s k | Some v \<Rightarrow> h k v (look s k))"
  using assms(2,3)
proof (induction xs arbitrary: s)
  case Nil
  then show ?case by simp
next
  case (Cons x xs)
  obtain j v where x: "x = (j, v)" by (cases x)
  with Cons.prems(1) obtain t where t: "f j v s = Inr t" "try_fold (\<lambda>s (k, v). f k v s) t xs = Inr s'"
    by (auto simp: and_then_eq_Inr)
  have IH: "look s' k = (case map_of xs k of None \<Rightarrow> look t k | Some v \<Rightarrow> h k v (look t k))"
    using Cons.IH [OF t(2)] Cons.prems(2) by simp
  show ?case
  proof (cases "k = j")
    case True
    with Cons.prems(2) x have "map_of xs k = None" by (auto simp: map_of_eq_None_iff)
    with True IH x step [OF t(1)] show ?thesis by simp
  next
    case False
    with IH x step [OF t(1)] show ?thesis by (simp split: option.splits)
  qed
qed

lemma look_try_for_each:
  assumes "\<And>k v s s' k'. f k v s = Inr s' \<Longrightarrow>
      look s' k' = (if k' = k then h k v (look s k) else look s k')"
    and "try_for_each f m s = Inr s'"
  shows "look s' k = (case fmlookup m k of None \<Rightarrow> look s k | Some v \<Rightarrow> h k v (look s k))"
  using look_try_fold [where look = look and h = h, OF assms(1) assms(2) [unfolded try_for_each_def]] by simp

lemma try_fold_all_Inr:
  assumes "try_fold f s xs = Inr s'" and "x \<in> set xs"
  shows "\<exists>t t'. f t x = Inr t'"
  using assms by (induction xs arbitrary: s) (auto simp: and_then_eq_Inr)

lemma try_for_each_all_Inr:
  assumes "try_for_each f m s = Inr s'" and "fmlookup m k = Some v"
  shows "\<exists>t t'. f k v t = Inr t'"
  using try_fold_all_Inr [OF assms(1) [unfolded try_for_each_def], of "(k, v)"] assms(2)
  by (simp add: set_entries)

lemma try_fold_total: "(\<And>s x. x \<in> set xs \<Longrightarrow> \<exists>s'. f s x = Inr s') \<Longrightarrow> \<exists>s'. try_fold f s xs = Inr s'"
proof (induction xs arbitrary: s)
  case Nil
  then show ?case by simp
next
  case (Cons x xs)
  then obtain t where "f s x = Inr t" by fastforce
  with Cons show ?case by simp
qed

lemma try_for_each_total:
  "(\<And>k v s. fmlookup m k = Some v \<Longrightarrow> \<exists>s'. f k v s = Inr s') \<Longrightarrow> \<exists>s'. try_for_each f m s = Inr s'"
  unfolding try_for_each_def by (rule try_fold_total) (auto simp: set_entries)

end
