(* ===== verification/Slot_Map.thy ===== *)
theory Slot_Map
  imports BTree_Map
begin

text \<open>
  Maps from keys to unsigned slots, an absent key standing for zero: version vectors, counter
  slots, dots and clocks all have this shape and all merge by taking the greater slot per key.
  The lemmas here carry the merge laws of every one of them.
\<close>

type_synonym ('k, 'l) slots = "('k, 'l word) fmap"

abbreviation slot :: "('k, 'l::len word) fmap \<Rightarrow> 'k \<Rightarrow> 'l word" where
  "slot m k \<equiv> get_or m k 0"

definition no_zero :: "('k, 'l::len word) fmap \<Rightarrow> bool" where
  "no_zero m \<longleftrightarrow> (\<forall>k. fmlookup m k \<noteq> Some 0)"

text \<open>The loop the sources write to merge two slot maps.\<close>

definition max_loop :: "('k::linorder, 'l::len word) fmap \<Rightarrow> ('k, 'l word) fmap \<Rightarrow> ('k, 'l word) fmap" where
  "max_loop right left = for_each
     (\<lambda>k v m. let current = get_or m k 0 in if v > current then fmupd k v m else m) right left"

lemma slot_alt: "slot m k = (case fmlookup m k of None \<Rightarrow> 0 | Some v \<Rightarrow> v)"
  by (simp add: get_or_def unwrap_or_def)

lemma slot_simps [simp]:
  "slot fmempty k = 0"
  "slot (fmupd k v m) k' = (if k' = k then v else slot m k')"
  "slot (fmdrop k m) k' = (if k' = k then 0 else slot m k')"
  by (simp_all add: slot_alt)

lemma lookup_no_zero: "no_zero m \<Longrightarrow> fmlookup m k = (if slot m k = 0 then None else Some (slot m k))"
  by (auto simp: no_zero_def slot_alt split: option.splits)

lemma no_zero_dom: "no_zero m \<Longrightarrow> k |\<in>| fmdom m \<longleftrightarrow> slot m k \<noteq> 0"
  by (simp add: fmlookup_dom_iff lookup_no_zero)

lemma no_zero_contains: "no_zero m \<Longrightarrow> contains_key m k \<longleftrightarrow> slot m k \<noteq> 0"
  by (simp add: contains_key_def lookup_no_zero)

lemma no_zero_eqI:
  assumes "no_zero a" and "no_zero b" and "\<And>k. slot a k = slot b k"
  shows "a = b"
  using assms by (intro fmap_ext) (simp add: lookup_no_zero)

lemma no_zero_empty [simp, intro]: "no_zero fmempty"
  by (simp add: no_zero_def)

lemma no_zero_upd: "no_zero m \<Longrightarrow> v \<noteq> 0 \<Longrightarrow> no_zero (fmupd k v m)"
  by (simp add: no_zero_def)

lemma no_zero_drop: "no_zero m \<Longrightarrow> no_zero (fmdrop k m)"
  by (simp add: no_zero_def)

lemma no_zero_collect: "(\<And>k v. fmlookup m k = Some v \<Longrightarrow> f k v \<noteq> Some 0) \<Longrightarrow> no_zero (collect_map f m)"
  by (auto simp: no_zero_def lookup_simps split: option.splits bind_splits)

lemma no_zero_filter_map: "no_zero m \<Longrightarrow> no_zero (filter_map P m)"
  by (auto simp: no_zero_def lookup_simps split: option.splits)

lemma slot_filter_map [simp]: "slot (filter_map P m) k = (if P k (slot m k) then slot m k else 0)"
  by (auto simp: slot_alt lookup_simps split: option.splits)

lemma slot_max_loop [simp]: "slot (max_loop r l) k = max (slot l k) (slot r k)"
proof -
  have "fmlookup (max_loop r l) k =
      (case fmlookup r k of None \<Rightarrow> fmlookup l k
       | Some v \<Rightarrow> if v > unwrap_or (fmlookup l k) 0 then Some v else fmlookup l k)"
    unfolding max_loop_def
    by (subst look_for_each [where look = fmlookup and
          g = "\<lambda>k v c. if v > unwrap_or c 0 then Some v else c"]) (auto simp: get_or_def Let_def)
  then show ?thesis
    by (auto simp: slot_alt unwrap_or_def max_def not_less split: option.splits if_splits)
qed

lemma no_zero_max_loop: "no_zero l \<Longrightarrow> no_zero (max_loop r l)"
  unfolding max_loop_def
  by (rule for_each_invariant) (auto simp: Let_def intro: no_zero_upd)

lemmas no_zero_intros = no_zero_empty no_zero_upd no_zero_drop no_zero_filter_map no_zero_max_loop

lemma max_loop_commute: "no_zero a \<Longrightarrow> no_zero b \<Longrightarrow> max_loop b a = max_loop a b"
  by (rule no_zero_eqI) (auto intro: no_zero_intros simp: max.commute)

lemma max_loop_assoc:
  "no_zero a \<Longrightarrow> no_zero b \<Longrightarrow> max_loop c (max_loop b a) = max_loop (max_loop c b) a"
  by (rule no_zero_eqI) (auto intro: no_zero_intros simp: max.assoc)

lemma max_loop_idem: "no_zero a \<Longrightarrow> max_loop a a = a"
  by (rule no_zero_eqI) (auto intro: no_zero_intros)

section \<open>Totals\<close>

definition slot_total :: "('k::linorder, 'l::len word) fmap \<Rightarrow> nat" where
  "slot_total m = (\<Sum>k\<in>fset (fmdom m). unat (slot m k))"

lemma sum_list_map_values: "(\<Sum>x\<leftarrow>map_values m. unat x) = slot_total m"
proof -
  have "(\<Sum>x\<leftarrow>map_values m. unat x) =
      (\<Sum>k\<leftarrow>sorted_list_of_fset (fmdom m). unat (the (fmlookup m k)))"
    by (simp add: map_values_def entries_def sorted_list_of_fmap_def comp_def)
  also have "\<dots> = (\<Sum>k\<in>fset (fmdom m). unat (the (fmlookup m k)))"
    by (simp add: sorted_list_of_fset.rep_eq sum_list_distinct_conv_sum_set)
  also have "\<dots> = slot_total m"
    unfolding slot_total_def
    by (rule sum.cong) (auto simp: slot_alt fmlookup_dom_iff)
  finally show ?thesis .
qed

lemma slot_total_superset:
  assumes "finite S" and "fset (fmdom m) \<subseteq> S"
  shows "slot_total m = (\<Sum>k\<in>S. unat (slot m k))"
  unfolding slot_total_def
  using assms by (intro sum.mono_neutral_left) (auto simp: slot_alt fmlookup_dom_iff split: option.splits)

lemma slot_total_upd: "slot_total (fmupd k v m) + unat (slot m k) = slot_total m + unat v"
proof -
  let ?S = "insert k (fset (fmdom m))"
  have S: "(\<Sum>j\<in>?S. f j) = f k + (\<Sum>j\<in>?S - {k}. f j)" for f :: "'a \<Rightarrow> nat"
    by (rule sum.remove) auto
  have "slot_total (fmupd k v m) = unat v + (\<Sum>j\<in>?S - {k}. unat (slot (fmupd k v m) j))"
    by (subst slot_total_superset [of ?S], simp, simp, subst S, simp)
  also have "(\<Sum>j\<in>?S - {k}. unat (slot (fmupd k v m) j)) = (\<Sum>j\<in>?S - {k}. unat (slot m j))"
    by (rule sum.cong) auto
  finally have u: "slot_total (fmupd k v m) = unat v + (\<Sum>j\<in>?S - {k}. unat (slot m j))" .
  have "slot_total m = unat (slot m k) + (\<Sum>j\<in>?S - {k}. unat (slot m j))"
    by (subst slot_total_superset [of ?S], simp, force, subst S, simp)
  with u show ?thesis by simp
qed

lemma slot_total_drop: "slot_total (fmdrop k m) + unat (slot m k) = slot_total m"
proof (cases "fmlookup m k")
  case None
  then have "fmdrop k m = m" by (auto intro: fmap_ext)
  with None show ?thesis by (simp add: slot_alt)
next
  case (Some v)
  then have "m = fmupd k v (fmdrop k m)" by (auto intro: fmap_ext)
  then have "slot_total m = slot_total (fmdrop k m) + unat v"
    using slot_total_upd [of k v "fmdrop k m"] by simp
  with Some show ?thesis by (simp add: slot_alt)
qed

end
