(* ===== verification/Node_Address.thy ===== *)
theory Node_Address
  imports Slot_Map
begin

text \<open>
  Node identities: \<open>Address\<close> and \<open>UniqueAddress\<close> of \<open>remote-core\<close> with the orders Rust derives
  for them (field by field, in declaration order), \<open>SelfUniqueAddress\<close>, and the node under which
  observed-remove types keep the dots of a removed node (\<open>pruning_node_for\<close>).
\<close>

section \<open>Addresses and their derived orders\<close>

datatype address = Address (host: string) (port: u16) (system: string)

datatype unique_address = UniqueAddress (address_of: address) (uid: u64)

definition address_new :: "string \<Rightarrow> string \<Rightarrow> u16 \<Rightarrow> address" where
  "address_new sys h p = Address h p sys"

definition unique_address_new :: "address \<Rightarrow> u64 \<Rightarrow> unique_address" where
  "unique_address_new a u = UniqueAddress a u"

definition address_key :: "address \<Rightarrow> string \<times> u16 \<times> string" where
  "address_key a = (host a, port a, system a)"

lemma address_key_inject [simp]: "address_key a = address_key b \<longleftrightarrow> a = b"
  by (cases a; cases b) (simp add: address_key_def)

instantiation address :: linorder
begin

definition less_eq_address :: "address \<Rightarrow> address \<Rightarrow> bool" where
  "less_eq_address a b \<longleftrightarrow> address_key a \<le> address_key b"

definition less_address :: "address \<Rightarrow> address \<Rightarrow> bool" where
  "less_address a b \<longleftrightarrow> address_key a < address_key b"

instance
  by standard
    (auto simp: less_eq_address_def less_address_def less_le_not_le dest: order_antisym)

end

definition unique_address_key :: "unique_address \<Rightarrow> address \<times> u64" where
  "unique_address_key a = (address_of a, uid a)"

lemma unique_address_key_inject [simp]: "unique_address_key a = unique_address_key b \<longleftrightarrow> a = b"
  by (cases a; cases b) (simp add: unique_address_key_def)

instantiation unique_address :: linorder
begin

definition less_eq_unique_address :: "unique_address \<Rightarrow> unique_address \<Rightarrow> bool" where
  "less_eq_unique_address a b \<longleftrightarrow> unique_address_key a \<le> unique_address_key b"

definition less_unique_address :: "unique_address \<Rightarrow> unique_address \<Rightarrow> bool" where
  "less_unique_address a b \<longleftrightarrow> unique_address_key a < unique_address_key b"

instance
  by standard
    (auto simp: less_eq_unique_address_def less_unique_address_def less_le_not_le
      dest: order_antisym)

end

section \<open>The local node\<close>

text \<open>\<open>SelfUniqueAddress\<close> marks the local node; it wraps a \<open>UniqueAddress\<close>.\<close>

datatype self_unique_address = SelfUniqueAddress (unique_address_of: unique_address)

section \<open>Decimal printing and the pruning node\<close>

definition digit :: "nat \<Rightarrow> char" where
  "digit n = char_of (48 + n mod 10)"

fun decimal :: "nat \<Rightarrow> string" where
  "decimal n = (if n < 10 then [digit n] else decimal (n div 10) @ [digit n])"

declare decimal.simps [simp del]

definition pruning_node_for :: "unique_address \<Rightarrow> unique_address" where
  "pruning_node_for removed_node =
     (let address = address_of removed_node in
      unique_address_new
        (address_new (system address)
          (host address @ ''#pruned-'' @ decimal (unat (uid removed_node)))
          (port address))
        0)"

text \<open>
  A uid of zero is the sentinel for a node whose handshake is not complete; cluster members have
  a nonzero uid. Pruning nodes carry the sentinel, so no member's identity is a pruning node.
\<close>

definition confirmed :: "unique_address \<Rightarrow> bool" where
  "confirmed n \<longleftrightarrow> uid n \<noteq> 0"

lemma uid_pruning_node_for [simp]: "uid (pruning_node_for n) = 0"
  by (simp add: pruning_node_for_def unique_address_new_def Let_def)

lemma pruning_node_for_not_confirmed [simp]: "\<not> confirmed (pruning_node_for n)"
  by (simp add: confirmed_def)

lemma host_pruning_node_for:
  "host (address_of (pruning_node_for n)) =
     host (address_of n) @ ''#pruned-'' @ decimal (unat (uid n))"
  by (simp add: pruning_node_for_def unique_address_new_def address_new_def Let_def)

lemma pruning_node_for_neq [simp]: "pruning_node_for n \<noteq> n" "n \<noteq> pruning_node_for n"
proof -
  have "length (host (address_of (pruning_node_for n))) \<noteq> length (host (address_of n))"
    by (simp add: host_pruning_node_for)
  then show "pruning_node_for n \<noteq> n" by auto
  then show "n \<noteq> pruning_node_for n" by simp
qed

section \<open>Two concrete members\<close>

text \<open>The members used where a property is applied at a concrete input.\<close>

definition node_a :: unique_address where
  "node_a = unique_address_new (address_new ''sys'' ''a'' 1) 1"

definition node_b :: unique_address where
  "node_b = unique_address_new (address_new ''sys'' ''b'' 1) 2"

lemma node_simps [simp]: "node_a \<noteq> node_b" "node_b \<noteq> node_a" "confirmed node_a" "confirmed node_b"
  by (simp_all add: node_a_def node_b_def unique_address_new_def address_new_def confirmed_def)

lemma node_order [simp]: "node_a < node_b" "\<not> node_b < node_a" "node_a \<le> node_b" "\<not> node_b \<le> node_a"
proof -
  show *: "node_a < node_b"
    by (simp add: node_a_def node_b_def unique_address_new_def address_new_def
        less_unique_address_def unique_address_key_def less_address_def address_key_def
        less_prod_def less_char_def)
  from * show "\<not> node_b < node_a" "node_a \<le> node_b" "\<not> node_b \<le> node_a" by auto
qed

end
