(* ===== verification/CRDT_Contract.thy ===== *)
theory CRDT_Contract
  imports Node_Address
begin

text \<open>
  The contracts behind the traits of \<open>cluster-core-kernel/src/ddata\<close>: \<open>ReplicatedData\<close> (a merge
  that is a join up to \<open>PartialEq\<close>), \<open>DeltaReplicatedData\<close> (the accumulated delta stands for the
  full state) and \<open>RemovedNodePruning\<close> (a pruned value no longer depends on the removed node).
  What their clients rely on - strong eventual consistency, delta synchronisation, idempotence of
  pruning - is proved once here; every replicated type interprets the locales.
\<close>

section \<open>State-based replicated data\<close>

locale replicated_data =
  fixes valid :: "'s \<Rightarrow> bool"
    and eqv :: "'s \<Rightarrow> 's \<Rightarrow> bool"
    and merge :: "'s \<Rightarrow> 's \<Rightarrow> 's"
  assumes eqv_refl: "eqv a a"
    and eqv_sym: "eqv a b \<Longrightarrow> eqv b a"
    and eqv_trans: "eqv a b \<Longrightarrow> eqv b c \<Longrightarrow> eqv a c"
    and merge_cong: "valid a \<Longrightarrow> valid a' \<Longrightarrow> valid b \<Longrightarrow> valid b' \<Longrightarrow> eqv a a' \<Longrightarrow> eqv b b' \<Longrightarrow>
          eqv (merge a b) (merge a' b')"
    and valid_merge: "valid a \<Longrightarrow> valid b \<Longrightarrow> valid (merge a b)"
    and merge_commute: "valid a \<Longrightarrow> valid b \<Longrightarrow> eqv (merge a b) (merge b a)"
    and merge_assoc: "valid a \<Longrightarrow> valid b \<Longrightarrow> valid c \<Longrightarrow>
          eqv (merge (merge a b) c) (merge a (merge b c))"
    and merge_idem: "valid a \<Longrightarrow> eqv (merge a a) a"
begin

definition below :: "'s \<Rightarrow> 's \<Rightarrow> bool" where
  "below a b \<longleftrightarrow> eqv (merge a b) b"

lemma below_refl: "valid a \<Longrightarrow> below a a"
  by (simp add: below_def merge_idem)

lemma below_trans:
  assumes "below a b" and "below b c" and "valid a" and "valid b" and "valid c"
  shows "below a c"
proof -
  have "eqv (merge a c) (merge a (merge b c))"
    using assms(2-5) by (auto simp: below_def intro: merge_cong valid_merge eqv_refl eqv_sym)
  moreover have "eqv (merge a (merge b c)) (merge (merge a b) c)"
    using assms(3-5) by (blast intro: merge_assoc eqv_sym)
  moreover have "eqv (merge (merge a b) c) (merge b c)"
    using assms(1,3-5) by (auto simp: below_def intro: merge_cong valid_merge eqv_refl)
  ultimately show ?thesis
    using assms(2) unfolding below_def by (blast intro: eqv_trans)
qed

lemma below_antisym:
  assumes "below a b" and "below b a" and "valid a" and "valid b"
  shows "eqv a b"
  using assms merge_commute [of a b] unfolding below_def by (blast intro: eqv_trans eqv_sym)

lemma below_merge1:
  assumes "valid a" and "valid b"
  shows "below a (merge a b)"
proof -
  have "eqv (merge a (merge a b)) (merge (merge a a) b)"
    using assms by (blast intro: merge_assoc eqv_sym)
  moreover have "eqv (merge (merge a a) b) (merge a b)"
    using assms by (blast intro: merge_cong merge_idem valid_merge eqv_refl)
  ultimately show ?thesis unfolding below_def by (rule eqv_trans)
qed

lemma below_eqv: "below a b \<Longrightarrow> eqv b c \<Longrightarrow> valid a \<Longrightarrow> valid b \<Longrightarrow> valid c \<Longrightarrow> below a c"
  unfolding below_def by (meson eqv_refl eqv_sym eqv_trans merge_cong)

lemma below_merge2: "valid a \<Longrightarrow> valid b \<Longrightarrow> below b (merge a b)"
  by (blast intro: below_eqv below_merge1 merge_commute valid_merge)

lemma merge_least:
  assumes "below a c" and "below b c" and "valid a" and "valid b" and "valid c"
  shows "below (merge a b) c"
proof -
  have "eqv (merge (merge a b) c) (merge a (merge b c))"
    using assms by (blast intro: merge_assoc)
  moreover have "eqv (merge a (merge b c)) (merge a c)"
    using assms(2-5) unfolding below_def by (blast intro: merge_cong valid_merge eqv_refl)
  ultimately show ?thesis
    using assms(1) unfolding below_def by (blast intro: eqv_trans)
qed

text \<open>A replica that starts in \<open>s\<close> and receives the states \<open>xs\<close> in that order.\<close>

definition receive_all :: "'s list \<Rightarrow> 's \<Rightarrow> 's" where
  "receive_all xs s = fold (\<lambda>x s. merge s x) xs s"

lemma receive_all_simps [simp]:
  "receive_all [] s = s"
  "receive_all (x # xs) s = receive_all xs (merge s x)"
  by (simp_all add: receive_all_def)

lemma valid_receive_all: "valid s \<Longrightarrow> \<forall>x\<in>set xs. valid x \<Longrightarrow> valid (receive_all xs s)"
  by (induction xs arbitrary: s) (auto intro: valid_merge)

lemma receive_all_upper:
  assumes "valid s" and "\<forall>x\<in>set xs. valid x" and "y \<in> set (s # xs)"
  shows "below y (receive_all xs s)"
  using assms
proof (induction xs arbitrary: s y)
  case Nil
  then show ?case by (simp add: below_refl)
next
  case (Cons x xs)
  have v: "valid s" "valid x" "valid (merge s x)" "\<forall>x\<in>set xs. valid x"
    using Cons.prems by (auto intro: valid_merge)
  have m: "below (merge s x) (receive_all xs (merge s x))"
    using v by (intro Cons.IH) auto
  show ?case
  proof (cases "y \<in> set xs")
    case True
    with v show ?thesis by (auto intro: Cons.IH)
  next
    case False
    then have "valid y" "below y (merge s x)"
      using Cons.prems(3) v by (auto intro: below_merge1 below_merge2)
    with m v show ?thesis
      by (auto intro: below_trans valid_receive_all)
  qed
qed

lemma receive_all_least:
  assumes "valid s" and "\<forall>x\<in>set xs. valid x" and "valid c" and "\<forall>y\<in>set (s # xs). below y c"
  shows "below (receive_all xs s) c"
  using assms by (induction xs arbitrary: s) (auto intro: merge_least valid_merge)

text \<open>
  Strong eventual consistency: replicas that have taken in the same set of states are equal, no
  matter in which order the states arrived and how often each was delivered.
\<close>

lemma convergence:
  assumes "\<forall>x\<in>set (s # xs). valid x" and "set (s # xs) = set (t # ys)"
  shows "eqv (receive_all xs s) (receive_all ys t)"
proof -
  have v: "\<forall>x\<in>set (t # ys). valid x"
    using assms by auto
  have "below (receive_all xs s) (receive_all ys t)"
    using assms v by (intro receive_all_least ballI receive_all_upper valid_receive_all) auto
  moreover have "below (receive_all ys t) (receive_all xs s)"
    using assms v by (intro receive_all_least ballI receive_all_upper valid_receive_all) auto
  ultimately show ?thesis
    using assms v by (intro below_antisym valid_receive_all) auto
qed

end

section \<open>Delta-state replicated data\<close>

locale delta_replicated_data = replicated_data valid eqv merge
  for valid :: "'s \<Rightarrow> bool" and eqv and merge +
  fixes delta :: "'s \<Rightarrow> 's option"
    and merge_delta :: "'s \<Rightarrow> 's \<Rightarrow> 's"
    and reset_delta :: "'s \<Rightarrow> 's"
    and local_update :: "'s \<Rightarrow> 's \<Rightarrow> bool"
  assumes valid_reset: "valid s \<Longrightarrow> valid (reset_delta s)"
    and reset_eqv: "eqv (reset_delta s) s"
    and delta_reset: "delta (reset_delta s) = None"
    and valid_delta: "valid s \<Longrightarrow> delta s = Some d \<Longrightarrow> valid d"
    and merge_delta_eqv: "valid s \<Longrightarrow> valid d \<Longrightarrow> eqv (merge_delta s d) (merge s d)"
    and valid_update: "valid s \<Longrightarrow> local_update s s' \<Longrightarrow> valid s'"
    and update_delta: "valid b \<Longrightarrow> valid s \<Longrightarrow> local_update s s' \<Longrightarrow>
          eqv s (case delta s of None \<Rightarrow> b | Some d \<Rightarrow> merge b d) \<Longrightarrow>
          eqv s' (case delta s' of None \<Rightarrow> b | Some d \<Rightarrow> merge b d)"
begin

lemma updates_delta:
  assumes "local_update\<^sup>*\<^sup>* (reset_delta b) s" and "valid b"
  shows "valid s \<and> eqv s (case delta s of None \<Rightarrow> b | Some d \<Rightarrow> merge b d)"
  using assms
proof (induction rule: rtranclp_induct)
  case base
  then show ?case by (simp add: valid_reset delta_reset reset_eqv)
next
  case (step s s')
  then show ?case by (blast intro: valid_update update_delta)
qed

text \<open>
  A peer that already merged the state \<open>b\<close> at the last reset needs only the delta: it ends in
  the state it would reach by merging the full state.
\<close>

lemma delta_sync:
  assumes "local_update\<^sup>*\<^sup>* (reset_delta b) s" and "valid b" and "valid t"
  shows "eqv (case delta s of None \<Rightarrow> merge t b | Some d \<Rightarrow> merge_delta (merge t b) d) (merge t s)"
proof -
  from updates_delta [OF assms(1,2)] have s: "valid s"
    and cov: "eqv s (case delta s of None \<Rightarrow> b | Some d \<Rightarrow> merge b d)" by auto
  show ?thesis
  proof (cases "delta s")
    case None
    with cov s assms(2,3) show ?thesis by (auto intro: merge_cong eqv_refl eqv_sym)
  next
    case (Some d)
    with s have d: "valid d" by (blast intro: valid_delta)
    have "eqv (merge_delta (merge t b) d) (merge (merge t b) d)"
      using assms d by (intro merge_delta_eqv valid_merge)
    moreover have "eqv (merge (merge t b) d) (merge t (merge b d))"
      using assms d by (intro merge_assoc)
    moreover have "eqv (merge t (merge b d)) (merge t s)"
      using cov Some s d assms(2,3) by (auto intro: merge_cong valid_merge eqv_refl eqv_sym)
    ultimately show ?thesis
      using Some by (auto intro: eqv_trans)
  qed
qed

end

section \<open>Removed-node pruning\<close>

locale removed_node_pruning =
  fixes valid :: "'s \<Rightarrow> bool"
    and modified_by_nodes :: "'s \<Rightarrow> unique_address fset"
    and need_pruning_from :: "'s \<Rightarrow> unique_address \<Rightarrow> bool"
    and prune :: "'s \<Rightarrow> unique_address \<Rightarrow> unique_address \<Rightarrow> 'e + 's"
    and pruning_cleanup :: "'s \<Rightarrow> unique_address \<Rightarrow> 's"
  assumes valid_prune: "valid s \<Longrightarrow> prune s r c = Inr s' \<Longrightarrow> valid s'"
    and need_pruning_iff: "valid s \<Longrightarrow> need_pruning_from s n \<longleftrightarrow> n |\<in>| modified_by_nodes s"
    and prune_removes: "valid s \<Longrightarrow> r \<noteq> c \<Longrightarrow> prune s r c = Inr s' \<Longrightarrow> \<not> need_pruning_from s' r"
    and cleanup_keeps: "valid s \<Longrightarrow> \<not> need_pruning_from s r \<Longrightarrow>
          \<not> need_pruning_from (pruning_cleanup s r) r"
begin

lemma prune_forgets:
  assumes "valid s" and "r \<noteq> c" and "prune s r c = Inr s'"
  shows "r |\<notin>| modified_by_nodes s'" and "\<not> need_pruning_from (pruning_cleanup s' r) r"
proof -
  from assms have v: "valid s'" and n: "\<not> need_pruning_from s' r"
    by (auto intro: valid_prune dest: prune_removes)
  then show "r |\<notin>| modified_by_nodes s'"
    by (simp add: need_pruning_iff)
  from v n show "\<not> need_pruning_from (pruning_cleanup s' r) r"
    by (rule cleanup_keeps)
qed

end

text \<open>
  Most types leave a value alone when the removed node has no share in it, so that pruning settles
  after one round.
\<close>

locale settled_pruning = removed_node_pruning valid modified_by_nodes need_pruning_from prune
    pruning_cleanup
  for valid :: "'s \<Rightarrow> bool" and modified_by_nodes and need_pruning_from
    and prune :: "'s \<Rightarrow> unique_address \<Rightarrow> unique_address \<Rightarrow> 'e + 's" and pruning_cleanup +
  fixes eqv :: "'s \<Rightarrow> 's \<Rightarrow> bool"
  assumes prune_unneeded: "valid s \<Longrightarrow> \<not> need_pruning_from s r \<Longrightarrow> prune s r c = Inr s' \<Longrightarrow> eqv s' s"
begin

lemma prune_twice:
  assumes "valid s" and "r \<noteq> c" and "prune s r c = Inr s'" and "prune s' r c' = Inr s''"
  shows "eqv s'' s'"
  using assms by (blast intro: prune_unneeded valid_prune dest: prune_removes)

end

end
