(* ===== verification/Version_Vector.thy ===== *)
theory Version_Vector
  imports CRDT_Contract
begin

text \<open>
  \<open>VersionVector\<close> (\<open>ddata/version_vector.rs\<close>): the causal history of a replicated value, one
  version per node, absent nodes standing for version zero. The well-formed vectors hold no
  explicit zero; every operation keeps that, and on them the vector is determined by
  \<open>version_at\<close>. \<open>vv_compare_causal\<close> shows that the two-pass comparison with early return decides
  the pointwise order.
\<close>

section \<open>Data\<close>

datatype counter_arithmetic_error = Overflow

datatype version_vector_ordering = VVSame | VVBefore | VVAfter | VVConcurrent

record version_vector =
  versions :: "(unique_address, u64) fmap"

section \<open>Operations\<close>

definition vv_new :: version_vector where
  "vv_new = \<lparr>versions = fmempty\<rparr>"

definition vv_from_entries_step ::
    "unique_address \<times> u64 \<Rightarrow> (unique_address, u64) fmap \<Rightarrow> (unique_address, u64) fmap" where
  "vv_from_entries_step entry vs =
     (let (node, version) = entry in
      if version = 0 then vs
      else let current = get_or vs node 0 in
           if version > current then fmupd node version vs else vs)"

definition vv_from_entries :: "(unique_address \<times> u64) list \<Rightarrow> version_vector" where
  "vv_from_entries es = \<lparr>versions = fold vv_from_entries_step es fmempty\<rparr>"

definition vv_is_empty :: "version_vector \<Rightarrow> bool" where
  "vv_is_empty v \<longleftrightarrow> versions v = fmempty"

definition vv_len :: "version_vector \<Rightarrow> nat" where
  "vv_len v = length (entries (versions v))"

definition vv_contains_node :: "version_vector \<Rightarrow> unique_address \<Rightarrow> bool" where
  "vv_contains_node v node \<longleftrightarrow> contains_key (versions v) node"

definition version_at :: "version_vector \<Rightarrow> unique_address \<Rightarrow> u64" where
  "version_at v node = get_or (versions v) node 0"

definition vv_entries :: "version_vector \<Rightarrow> (unique_address \<times> u64) list" where
  "vv_entries v = entries (versions v)"

definition vv_increment_unique_address ::
    "version_vector \<Rightarrow> unique_address \<Rightarrow> counter_arithmetic_error + version_vector" where
  "vv_increment_unique_address v node =
     and_then (ok_or (checked_add (version_at v node) 1) Overflow)
       (\<lambda>next. Inr \<lparr>versions = fmupd node next (versions v)\<rparr>)"

definition vv_increment ::
    "version_vector \<Rightarrow> self_unique_address \<Rightarrow> counter_arithmetic_error + version_vector" where
  "vv_increment v node = vv_increment_unique_address v (unique_address_of node)"

text \<open>The flags are \<open>(has_less, has_greater)\<close>; the early return is an \<open>Inl\<close> that ends both loops.\<close>

definition update_ordering_flags :: "u64 \<Rightarrow> u64 \<Rightarrow> bool \<times> bool \<Rightarrow> bool \<times> bool" where
  "update_ordering_flags left right flags =
     (if left < right then (True, snd flags)
      else if left > right then (fst flags, True)
      else flags)"

definition ordering_step ::
    "u64 \<Rightarrow> u64 \<Rightarrow> bool \<times> bool \<Rightarrow> version_vector_ordering + (bool \<times> bool)" where
  "ordering_step left right flags =
     (let flags' = update_ordering_flags left right flags in
      if fst flags' \<and> snd flags' then Inl VVConcurrent else Inr flags')"

definition vv_compare :: "version_vector \<Rightarrow> version_vector \<Rightarrow> version_vector_ordering" where
  "vv_compare self other =
     (case and_then
         (try_fold (\<lambda>flags (node, left_version). ordering_step left_version (version_at other node) flags)
           (False, False) (entries (versions self)))
         (\<lambda>flags. try_fold (\<lambda>flags (node, right_version).
             if contains_key (versions self) node then Inr flags
             else ordering_step 0 right_version flags)
           flags (entries (versions other)))
      of Inl outcome \<Rightarrow> outcome
       | Inr (has_less, has_greater) \<Rightarrow>
           if \<not> has_less \<and> \<not> has_greater then VVSame
           else if has_less \<and> \<not> has_greater then VVBefore
           else if \<not> has_less \<and> has_greater then VVAfter
           else VVConcurrent)"

definition vv_is_before :: "version_vector \<Rightarrow> version_vector \<Rightarrow> bool" where
  "vv_is_before a b \<longleftrightarrow> vv_compare a b = VVBefore"

definition vv_is_after :: "version_vector \<Rightarrow> version_vector \<Rightarrow> bool" where
  "vv_is_after a b \<longleftrightarrow> vv_compare a b = VVAfter"

definition vv_is_same :: "version_vector \<Rightarrow> version_vector \<Rightarrow> bool" where
  "vv_is_same a b \<longleftrightarrow> vv_compare a b = VVSame"

definition vv_is_concurrent :: "version_vector \<Rightarrow> version_vector \<Rightarrow> bool" where
  "vv_is_concurrent a b \<longleftrightarrow> vv_compare a b = VVConcurrent"

definition subtract_dots :: "version_vector \<Rightarrow> version_vector \<Rightarrow> version_vector" where
  "subtract_dots v vvector =
     \<lparr>versions = for_each
        (\<lambda>node version vs. if version_at vvector node < version then fmupd node version vs else vs)
        (versions v) fmempty\<rparr>"

definition vv_merge :: "version_vector \<Rightarrow> version_vector \<Rightarrow> version_vector" where
  "vv_merge self other =
     \<lparr>versions = for_each
        (\<lambda>node version vs.
           let current = get_or vs node 0 in
           if version > current then fmupd node version vs else vs)
        (versions other) (versions self)\<rparr>"

definition vv_modified_by_nodes :: "version_vector \<Rightarrow> unique_address fset" where
  "vv_modified_by_nodes v = fmdom (versions v)"

definition vv_need_pruning_from :: "version_vector \<Rightarrow> unique_address \<Rightarrow> bool" where
  "vv_need_pruning_from v removed_node \<longleftrightarrow> contains_key (versions v) removed_node"

definition vv_prune ::
    "version_vector \<Rightarrow> unique_address \<Rightarrow> unique_address \<Rightarrow> counter_arithmetic_error + version_vector"
where
  "vv_prune v removed_node collapse_into =
     (let removed_version = version_at v removed_node in
      if removed_version = 0 then Inr v
      else
        let vs = fmdrop removed_node (versions v) in
        if removed_node \<noteq> collapse_into then
          let collapse_version = get_or vs collapse_into 0 in
          and_then (ok_or (checked_add collapse_version 1) Overflow)
            (\<lambda>next. Inr \<lparr>versions = fmupd collapse_into next vs\<rparr>)
        else Inr \<lparr>versions = vs\<rparr>)"

definition vv_pruning_cleanup :: "version_vector \<Rightarrow> unique_address \<Rightarrow> version_vector" where
  "vv_pruning_cleanup v removed_node = \<lparr>versions = fmdrop removed_node (versions v)\<rparr>"

section \<open>Well-formed vectors\<close>

definition vv_wf :: "version_vector \<Rightarrow> bool" where
  "vv_wf v \<longleftrightarrow> no_zero (versions v)"

named_theorems version_simps \<open>the version of a node after an operation on version vectors\<close>

lemma version_at_alt:
  "version_at v n = (case fmlookup (versions v) n of None \<Rightarrow> 0 | Some x \<Rightarrow> x)"
  by (simp add: version_at_def slot_alt)

lemma lookup_eq_version_at:
  "vv_wf v \<Longrightarrow> fmlookup (versions v) n = (if version_at v n = 0 then None else Some (version_at v n))"
  by (simp add: vv_wf_def version_at_def lookup_no_zero)

lemma vv_eqI:
  assumes "vv_wf a" and "vv_wf b" and "\<And>n. version_at a n = version_at b n"
  shows "a = b"
  using assms no_zero_eqI [of "versions a" "versions b"] by (simp add: vv_wf_def version_at_def)

lemma version_at_new [version_simps]: "version_at vv_new n = 0"
  by (simp add: version_at_def vv_new_def)

lemma vv_is_empty_iff: "vv_wf v \<Longrightarrow> vv_is_empty v \<longleftrightarrow> (\<forall>n. version_at v n = 0)"
  by (auto simp: vv_is_empty_def fmap_eq_iff lookup_eq_version_at)

lemma contains_node_iff: "vv_wf v \<Longrightarrow> vv_contains_node v n \<longleftrightarrow> version_at v n \<noteq> 0"
  by (simp add: vv_contains_node_def contains_key_def lookup_eq_version_at)

text \<open>Building a vector from entries keeps the greatest version of every node.\<close>

lemma version_at_fold_step:
  "version_at \<lparr>versions = fold vv_from_entries_step es vs\<rparr> n =
     fold max (map snd (filter (\<lambda>e. fst e = n) es)) (version_at \<lparr>versions = vs\<rparr> n)"
  by (induction es arbitrary: vs)
    (auto simp: vv_from_entries_step_def version_at_def get_or_def max_def Let_def split: prod.splits)

lemma version_at_from_entries:
  "version_at (vv_from_entries es) n = fold max (map snd (filter (\<lambda>e. fst e = n) es)) 0"
  by (simp add: vv_from_entries_def version_at_fold_step) (simp add: version_at_alt)

lemma version_at_from_entries_distinct:
  "distinct (map fst es) \<Longrightarrow>
     version_at (vv_from_entries es) n = (case map_of es n of None \<Rightarrow> 0 | Some v \<Rightarrow> v)"
proof -
  assume "distinct (map fst es)"
  then have "map snd (filter (\<lambda>e. fst e = n) es) = (case map_of es n of None \<Rightarrow> [] | Some v \<Rightarrow> [v])"
  proof (induction es)
    case Nil
    then show ?case by simp
  next
    case (Cons e es)
    then show ?case
      by (cases e) (auto simp: filter_empty_conv split: option.splits dest: map_of_SomeD)
  qed
  then show ?thesis
    by (simp add: version_at_from_entries split: option.splits)
qed

lemma version_at_filter_entries [version_simps]:
  "version_at (vv_from_entries (filter P (vv_entries v))) n =
     (if P (n, version_at v n) then version_at v n else 0)"
  by (subst version_at_from_entries_distinct [OF distinct_filter_entries [of P "versions v", folded vv_entries_def]])
    (auto simp: vv_entries_def map_of_filter_entries version_at_alt split: option.splits)

lemma vv_wf_from_entries [wf_intros, simp]: "vv_wf (vv_from_entries es)"
proof -
  have "no_zero (fold vv_from_entries_step es vs)" if "no_zero vs" for vs
    using that
    by (induction es arbitrary: vs)
      (auto simp: vv_from_entries_step_def Let_def no_zero_upd split: prod.splits)
  then show ?thesis by (simp add: vv_from_entries_def vv_wf_def)
qed

lemma vv_wf_new [wf_intros, simp]: "vv_wf vv_new"
  by (simp add: vv_wf_def vv_new_def)

lemma vv_merge_max_loop: "vv_merge a b = \<lparr>versions = max_loop (versions b) (versions a)\<rparr>"
  by (simp add: vv_merge_def max_loop_def)

lemma version_at_merge [version_simps]:
  "version_at (vv_merge a b) n = max (version_at a n) (version_at b n)"
  by (simp add: vv_merge_max_loop version_at_def)

lemma vv_wf_merge [wf_intros]: "vv_wf a \<Longrightarrow> vv_wf (vv_merge a b)"
  by (simp add: vv_wf_def vv_merge_max_loop no_zero_max_loop)

lemma lookup_subtract_dots:
  "fmlookup (versions (subtract_dots a b)) n =
     (case fmlookup (versions a) n of None \<Rightarrow> None
      | Some v \<Rightarrow> if version_at b n < v then Some v else None)"
  unfolding subtract_dots_def version_vector.simps
  by (subst look_for_each [where look = fmlookup and
        g = "\<lambda>k v c. if version_at b k < v then Some v else c"]) (auto split: option.splits)

lemma version_at_subtract_dots [version_simps]:
  "version_at (subtract_dots a b) n = (if version_at b n < version_at a n then version_at a n else 0)"
  by (simp add: version_at_alt [of "subtract_dots a b"] lookup_subtract_dots version_at_alt [of a]
      split: option.splits)

lemma vv_wf_subtract_dots [wf_intros]: "vv_wf (subtract_dots a b)"
  by (auto simp: vv_wf_def no_zero_def lookup_subtract_dots split: option.splits)

lemma version_at_cleanup [version_simps]:
  "version_at (vv_pruning_cleanup v r) n = (if n = r then 0 else version_at v n)"
  by (simp add: version_at_alt vv_pruning_cleanup_def)

lemma vv_wf_cleanup [wf_intros]: "vv_wf v \<Longrightarrow> vv_wf (vv_pruning_cleanup v r)"
  by (simp add: vv_wf_def vv_pruning_cleanup_def no_zero_drop)

lemma vv_increment_Inr_iff:
  "vv_increment_unique_address v n = Inr v' \<longleftrightarrow>
     (\<exists>x. unat x = unat (version_at v n) + 1 \<and> v' = \<lparr>versions = fmupd n x (versions v)\<rparr>)"
  by (auto simp: vv_increment_unique_address_def and_then_eq_Inr ok_or_eq_Inr checked_add_Some_iff)

lemma vv_wf_increment:
  "vv_wf v \<Longrightarrow> vv_increment_unique_address v n = Inr v' \<Longrightarrow> vv_wf v'"
  by (auto simp: vv_increment_Inr_iff vv_wf_def intro!: no_zero_upd)

lemma vv_prune_Inr:
  assumes "vv_prune v r c = Inr v'"
  shows "(version_at v r = 0 \<and> v' = v) \<or>
    (version_at v r \<noteq> 0 \<and> r = c \<and> v' = \<lparr>versions = fmdrop r (versions v)\<rparr>) \<or>
    (version_at v r \<noteq> 0 \<and> r \<noteq> c \<and>
      (\<exists>x. checked_add (get_or (fmdrop r (versions v)) c 0) 1 = Some x \<and>
        v' = \<lparr>versions = fmupd c x (fmdrop r (versions v))\<rparr>))"
  using assms by (auto simp: vv_prune_def Let_def and_then_eq_Inr ok_or_eq_Inr split: if_splits)

lemma vv_wf_prune:
  "vv_wf v \<Longrightarrow> vv_prune v r c = Inr v' \<Longrightarrow> vv_wf v'"
  by (drule vv_prune_Inr) (auto simp: vv_wf_def dest: checked_add_nonzero intro!: no_zero_upd no_zero_drop)

section \<open>The contracts\<close>

interpretation vv: replicated_data vv_wf "(=)" vv_merge
proof
  show "vv_merge (vv_merge a b) c = vv_merge a (vv_merge b c)"
    if "vv_wf a" "vv_wf b" "vv_wf c" for a b c
    using that by (intro vv_eqI) (auto simp: version_simps max.assoc intro: wf_intros)
  show "vv_merge a b = vv_merge b a" if "vv_wf a" "vv_wf b" for a b
    using that by (intro vv_eqI) (auto simp: version_simps max.commute intro: wf_intros)
  show "vv_merge a a = a" if "vv_wf a" for a
    using that by (intro vv_eqI) (auto simp: version_simps intro: wf_intros)
qed (auto intro: wf_intros)

interpretation vv: settled_pruning vv_wf vv_modified_by_nodes vv_need_pruning_from
  vv_prune vv_pruning_cleanup "(=)"
proof
  fix s s' r c
  assume wf: "vv_wf s" and p: "vv_prune s r c = Inr s'"
  show "vv_wf s'" using wf p by (rule vv_wf_prune)
  show "\<not> vv_need_pruning_from s' r" if "r \<noteq> c"
    using vv_prune_Inr [OF p] that wf
    by (auto simp: vv_need_pruning_from_def contains_key_def lookup_eq_version_at)
  show "s' = s" if "\<not> vv_need_pruning_from s r"
    using vv_prune_Inr [OF p] that wf
    by (auto simp: vv_need_pruning_from_def contains_key_def lookup_eq_version_at split: if_splits)
qed (auto simp: vv_need_pruning_from_def vv_modified_by_nodes_def contains_key_def
    vv_pruning_cleanup_def fmlookup_dom_iff)

section \<open>The causal order\<close>

definition vv_le :: "version_vector \<Rightarrow> version_vector \<Rightarrow> bool" where
  "vv_le a b \<longleftrightarrow> (\<forall>n. version_at a n \<le> version_at b n)"

lemma ordering_loop:
  assumes step: "\<And>flags x. f flags x =
      (case cmp x of None \<Rightarrow> Inr flags | Some (a, b) \<Rightarrow> ordering_step a b flags)"
    and "\<not> (l \<and> g)"
  shows "try_fold f (l, g) xs =
    (let l' = (l \<or> (\<exists>x\<in>set xs. \<exists>a b. cmp x = Some (a, b) \<and> a < b));
         g' = (g \<or> (\<exists>x\<in>set xs. \<exists>a b. cmp x = Some (a, b) \<and> a > b))
     in if l' \<and> g' then Inl VVConcurrent else Inr (l', g'))"
  using assms(2)
proof (induction xs arbitrary: l g)
  case Nil
  then show ?case by (auto simp: Let_def)
next
  case (Cons x xs)
  show ?case
  proof (cases "cmp x")
    case None
    with Cons show ?thesis by (simp add: step Let_def)
  next
    case (Some p)
    obtain a b where p: "p = (a, b)" by (cases p)
    consider "a < b" | "a > b" | "a = b" by fastforce
    then show ?thesis
    proof cases
      case 1
      with Cons Some p show ?thesis
        by (cases g) (auto simp: step ordering_step_def update_ordering_flags_def Let_def)
    next
      case 2
      with Cons Some p show ?thesis
        by (cases l) (auto simp: step ordering_step_def update_ordering_flags_def Let_def)
    next
      case 3
      with Cons Some p show ?thesis
        by (auto simp: step ordering_step_def update_ordering_flags_def Let_def)
    qed
  qed
qed

lemma version_less_iff:
  "version_at a n < version_at b n \<longleftrightarrow>
     (\<exists>x. fmlookup (versions a) n = Some x \<and> x < version_at b n) \<or>
     (fmlookup (versions a) n = None \<and> (\<exists>x. fmlookup (versions b) n = Some x \<and> 0 < x))"
  by (cases "fmlookup (versions a) n"; cases "fmlookup (versions b) n") (simp_all add: version_at_alt)

lemma version_greater_iff:
  "version_at a n > version_at b n \<longleftrightarrow> (\<exists>x. fmlookup (versions a) n = Some x \<and> x > version_at b n)"
  by (cases "fmlookup (versions a) n") (simp_all add: version_at_alt)

lemma vv_compare_flags:
  "vv_compare a b =
     (let l = (\<exists>n. version_at a n < version_at b n); g = (\<exists>n. version_at a n > version_at b n) in
      if l \<and> g then VVConcurrent else if l then VVBefore else if g then VVAfter else VVSame)"
proof -
  define c1 where "c1 = (\<lambda>(node, x). Some (x, version_at b node) :: (u64 \<times> u64) option)"
  define c2 where "c2 = (\<lambda>(node, x). if contains_key (versions a) node then None else Some (0 :: u64, x :: u64))"
  define l1 where "l1 = (\<exists>x\<in>set (entries (versions a)). \<exists>u v. c1 x = Some (u, v) \<and> u < v)"
  define g1 where "g1 = (\<exists>x\<in>set (entries (versions a)). \<exists>u v. c1 x = Some (u, v) \<and> u > v)"
  define l2 where "l2 = (l1 \<or> (\<exists>x\<in>set (entries (versions b)). \<exists>u v. c2 x = Some (u, v) \<and> u < v))"
  define g2 where "g2 = (g1 \<or> (\<exists>x\<in>set (entries (versions b)). \<exists>u v. c2 x = Some (u, v) \<and> u > v))"
  have first: "try_fold (\<lambda>flags (node, x). ordering_step x (version_at b node) flags) (False, False)
      (entries (versions a)) = (if l1 \<and> g1 then Inl VVConcurrent else Inr (l1, g1))"
    by (subst ordering_loop [where cmp = c1]) (simp_all add: l1_def g1_def Let_def, simp add: c1_def case_prod_beta)
  have second: "try_fold (\<lambda>flags (node, x). if contains_key (versions a) node then Inr flags
      else ordering_step 0 x flags) (l1, g1) (entries (versions b)) =
      (if l2 \<and> g2 then Inl VVConcurrent else Inr (l2, g2))" if "\<not> (l1 \<and> g1)"
    using that
    by (subst ordering_loop [where cmp = c2])
      (simp add: c2_def case_prod_beta, simp, simp only: l2_def g2_def Let_def)
  have cmp: "vv_compare a b =
      (if l2 \<and> g2 then VVConcurrent else if l2 then VVBefore else if g2 then VVAfter else VVSame)"
  proof (cases "l1 \<and> g1")
    case True
    then have "l2 \<and> g2" by (simp add: l2_def g2_def)
    with True first show ?thesis by (simp add: vv_compare_def)
  next
    case False
    with first second show ?thesis by (simp add: vv_compare_def)
  qed
  have l: "l2 \<longleftrightarrow> (\<exists>n. version_at a n < version_at b n)"
    by (auto simp: version_less_iff l2_def l1_def c1_def c2_def set_entries Bex_def contains_key_def
        split: if_splits)
  have g: "g2 \<longleftrightarrow> (\<exists>n. version_at a n > version_at b n)"
    by (auto simp: version_greater_iff g2_def g1_def c1_def c2_def set_entries Bex_def split: if_splits)
  show ?thesis by (simp add: cmp l g Let_def)
qed

text \<open>
  Claim C24. \<open>VersionVector::compare\<close>, with its two loops and its early returns, decides the causal
  order: \<open>Same\<close> exactly when both vectors give every node the same version, \<open>Before\<close> and
  \<open>After\<close> when one is pointwise below the other, \<open>Concurrent\<close> in every other case.
\<close>

theorem vv_compare_causal:
  "vv_compare a b =
     (if vv_le a b \<and> vv_le b a then VVSame
      else if vv_le a b then VVBefore
      else if vv_le b a then VVAfter
      else VVConcurrent)"
proof -
  have "(\<exists>n. version_at x n < version_at y n) \<longleftrightarrow> \<not> vv_le y x" for x y
    by (auto simp: vv_le_def not_le)
  then show ?thesis by (simp add: vv_compare_flags)
qed

end
