(* ===== verification/G_Counter.thy ===== *)
theory G_Counter
  imports Version_Vector
begin

text \<open>
  \<open>GCounter\<close> (\<open>ddata/g_counter.rs\<close>): one 128-bit slot per node and the slots changed since the
  last delta reset. Equality ignores the delta, as in the source. The lemmas show the merge laws,
  that the delta stands for the full state, that the value is the exact sum whenever it fits, and
  that pruning moves a node's slot without changing the total.
\<close>

section \<open>Data and operations\<close>

type_synonym counter_slots = "(unique_address, u128) fmap"

record g_counter =
  gc_state :: counter_slots
  gc_delta :: counter_slots

definition gc_from_parts :: "counter_slots \<Rightarrow> counter_slots \<Rightarrow> g_counter" where
  "gc_from_parts st dl = \<lparr>gc_state = st, gc_delta = dl\<rparr>"

definition gc_new :: g_counter where
  "gc_new = gc_from_parts fmempty fmempty"

definition gc_retain_nodes :: "g_counter \<Rightarrow> (unique_address, u64) fmap \<Rightarrow> g_counter" where
  "gc_retain_nodes c nodes =
     \<lparr>gc_state = filter_map (\<lambda>node _. contains_key nodes node) (gc_state c),
      gc_delta = filter_map (\<lambda>node _. contains_key nodes node) (gc_delta c)\<rparr>"

definition gc_replace_nodes :: "g_counter \<Rightarrow> (unique_address, u64) fmap \<Rightarrow> g_counter \<Rightarrow> g_counter" where
  "gc_replace_nodes c nodes replacement =
     (let (st, dl) = for_each
        (\<lambda>node _ (st, dl).
           (case fmlookup (gc_state replacement) node of
              Some x \<Rightarrow> if x \<noteq> 0 then fmupd node x st else fmdrop node st
            | None \<Rightarrow> fmdrop node st,
            fmdrop node dl))
        nodes (gc_state c, gc_delta c)
      in \<lparr>gc_state = st, gc_delta = dl\<rparr>)"

definition gc_state_value :: "g_counter \<Rightarrow> unique_address \<Rightarrow> u128" where
  "gc_state_value c node = get_or (gc_state c) node 0"

definition gc_increment ::
    "g_counter \<Rightarrow> self_unique_address \<Rightarrow> u64 \<Rightarrow> counter_arithmetic_error + g_counter" where
  "gc_increment c node n =
     (if n = 0 then Inr c
      else
        let unique_address = unique_address_of node;
            current = get_or (gc_state c) unique_address 0
        in and_then (ok_or (checked_add current (ucast n)) Overflow)
             (\<lambda>next. Inr \<lparr>gc_state = fmupd unique_address next (gc_state c),
                          gc_delta = fmupd unique_address next (gc_delta c)\<rparr>))"

definition checked_sum :: "u128 list \<Rightarrow> counter_arithmetic_error + u128" where
  "checked_sum xs = try_fold (\<lambda>acc x. ok_or (checked_add acc x) Overflow) 0 xs"

definition gc_value :: "g_counter \<Rightarrow> counter_arithmetic_error + u128" where
  "gc_value c = checked_sum (map_values (gc_state c))"

definition gc_merge_state :: "counter_slots \<Rightarrow> counter_slots \<Rightarrow> counter_slots" where
  "gc_merge_state left right =
     for_each
       (\<lambda>node x merged.
          let current = get_or merged node 0 in
          if x > current then fmupd node x merged else merged)
       right left"

definition gc_merge :: "g_counter \<Rightarrow> g_counter \<Rightarrow> g_counter" where
  "gc_merge self other =
     \<lparr>gc_state = gc_merge_state (gc_state self) (gc_state other), gc_delta = gc_delta self\<rparr>"

definition gc_delta_of :: "g_counter \<Rightarrow> g_counter option" where
  "gc_delta_of c =
     (if gc_delta c = fmempty then None else Some \<lparr>gc_state = gc_delta c, gc_delta = fmempty\<rparr>)"

definition gc_merge_delta :: "g_counter \<Rightarrow> g_counter \<Rightarrow> g_counter" where
  "gc_merge_delta self d =
     \<lparr>gc_state = gc_merge_state (gc_state self) (gc_state d), gc_delta = gc_delta self\<rparr>"

definition gc_reset_delta :: "g_counter \<Rightarrow> g_counter" where
  "gc_reset_delta c = \<lparr>gc_state = gc_state c, gc_delta = fmempty\<rparr>"

definition gc_zero :: "g_counter \<Rightarrow> g_counter" where
  "gc_zero c = gc_new"

definition gc_modified_by_nodes :: "g_counter \<Rightarrow> unique_address fset" where
  "gc_modified_by_nodes c = fmdom (gc_state c)"

definition gc_need_pruning_from :: "g_counter \<Rightarrow> unique_address \<Rightarrow> bool" where
  "gc_need_pruning_from c removed_node \<longleftrightarrow> contains_key (gc_state c) removed_node"

definition gc_prune ::
    "g_counter \<Rightarrow> unique_address \<Rightarrow> unique_address \<Rightarrow> counter_arithmetic_error + g_counter" where
  "gc_prune c removed_node collapse_into =
     (case fmlookup (gc_state c) removed_node of
        None \<Rightarrow> Inr c
      | Some removed_value \<Rightarrow>
          let st = fmdrop removed_node (gc_state c);
              dl = fmdrop removed_node (gc_delta c)
          in if removed_node = collapse_into then Inr \<lparr>gc_state = st, gc_delta = dl\<rparr>
             else
               let current = get_or st collapse_into 0
               in and_then (ok_or (checked_add current removed_value) Overflow)
                    (\<lambda>next. Inr \<lparr>gc_state = fmupd collapse_into next st,
                                 gc_delta = fmupd collapse_into next dl\<rparr>))"

definition gc_pruning_cleanup :: "g_counter \<Rightarrow> unique_address \<Rightarrow> g_counter" where
  "gc_pruning_cleanup c removed_node =
     \<lparr>gc_state = fmdrop removed_node (gc_state c), gc_delta = fmdrop removed_node (gc_delta c)\<rparr>"

definition gc_eq :: "g_counter \<Rightarrow> g_counter \<Rightarrow> bool" where
  "gc_eq a b \<longleftrightarrow> gc_state a = gc_state b"

section \<open>Well-formed counters\<close>

definition gc_wf :: "g_counter \<Rightarrow> bool" where
  "gc_wf c \<longleftrightarrow> no_zero (gc_state c) \<and> no_zero (gc_delta c)"

lemma gc_merge_state_max_loop: "gc_merge_state l r = max_loop r l"
  by (simp add: gc_merge_state_def max_loop_def)

lemma gc_wf_new [wf_intros, simp]: "gc_wf gc_new"
  by (simp add: gc_wf_def gc_new_def gc_from_parts_def)

lemma gc_wf_merge [wf_intros]: "gc_wf a \<Longrightarrow> gc_wf b \<Longrightarrow> gc_wf (gc_merge a b)"
  by (simp add: gc_wf_def gc_merge_def gc_merge_state_max_loop no_zero_max_loop)

lemma gc_wf_reset [wf_intros]: "gc_wf c \<Longrightarrow> gc_wf (gc_reset_delta c)"
  by (simp add: gc_wf_def gc_reset_delta_def)

lemma gc_wf_delta: "gc_wf c \<Longrightarrow> gc_delta_of c = Some d \<Longrightarrow> gc_wf d"
  by (auto simp: gc_wf_def gc_delta_of_def split: if_splits)

lemma gc_increment_Inr:
  assumes "gc_increment c node n = Inr c'" and "n \<noteq> 0"
  obtains x where "x \<noteq> 0"
    and "unat x = unat (slot (gc_state c) (unique_address_of node)) + unat n"
    and "c' = \<lparr>gc_state = fmupd (unique_address_of node) x (gc_state c),
               gc_delta = fmupd (unique_address_of node) x (gc_delta c)\<rparr>"
proof -
  from assms obtain x where x: "checked_add (slot (gc_state c) (unique_address_of node)) (ucast n) = Some x"
    and c': "c' = \<lparr>gc_state = fmupd (unique_address_of node) x (gc_state c),
                   gc_delta = fmupd (unique_address_of node) x (gc_delta c)\<rparr>"
    by (auto simp: gc_increment_def Let_def and_then_eq_Inr ok_or_eq_Inr)
  have n: "unat (ucast n :: u128) = unat n"
    using order.strict_trans2 [OF unsigned_less [of n, where ?'a = nat], of "2 ^ 128"]
    by (simp add: unsigned_ucast_eq take_bit_nat_eq_self_iff)
  from x n have "unat x = unat (slot (gc_state c) (unique_address_of node)) + unat n"
    by (simp add: checked_add_Some_iff)
  moreover from this assms(2) have "x \<noteq> 0"
    by (auto simp: unat_eq_0)
  ultimately show thesis using c' that by blast
qed

lemma gc_wf_increment:
  assumes "gc_wf c" and "gc_increment c node n = Inr c'"
  shows "gc_wf c'"
proof (cases "n = 0")
  case True
  with assms show ?thesis by (simp add: gc_increment_def)
next
  case False
  from gc_increment_Inr [OF assms(2) this] obtain x where "x \<noteq> 0"
    "c' = \<lparr>gc_state = fmupd (unique_address_of node) x (gc_state c),
           gc_delta = fmupd (unique_address_of node) x (gc_delta c)\<rparr>"
    by blast
  with assms(1) show ?thesis by (simp add: gc_wf_def no_zero_upd)
qed

lemma gc_prune_Inr:
  assumes "gc_prune c r i = Inr c'"
  shows "(fmlookup (gc_state c) r = None \<and> c' = c) \<or>
    (r = i \<and> c' = \<lparr>gc_state = fmdrop r (gc_state c), gc_delta = fmdrop r (gc_delta c)\<rparr>) \<or>
    (r \<noteq> i \<and> (\<exists>v x. fmlookup (gc_state c) r = Some v \<and> checked_add (slot (gc_state c) i) v = Some x \<and>
       c' = \<lparr>gc_state = fmupd i x (fmdrop r (gc_state c)), gc_delta = fmupd i x (fmdrop r (gc_delta c))\<rparr>))"
  using assms
  by (auto simp: gc_prune_def Let_def and_then_eq_Inr ok_or_eq_Inr split: option.splits if_splits)

lemma gc_wf_prune: "gc_wf c \<Longrightarrow> gc_prune c r i = Inr c' \<Longrightarrow> gc_wf c'"
  by (drule gc_prune_Inr)
    (auto simp: gc_wf_def lookup_no_zero dest!: checked_add_nonzero intro!: no_zero_upd no_zero_drop
      split: if_splits)

lemma gc_wf_cleanup [wf_intros]: "gc_wf c \<Longrightarrow> gc_wf (gc_pruning_cleanup c r)"
  by (simp add: gc_wf_def gc_pruning_cleanup_def no_zero_drop)

lemma gc_wf_retain [wf_intros]: "gc_wf c \<Longrightarrow> gc_wf (gc_retain_nodes c ns)"
  by (simp add: gc_wf_def gc_retain_nodes_def no_zero_filter_map)

section \<open>The contracts\<close>

text \<open>What a client does to a counter between two delta resets.\<close>

definition gc_update :: "g_counter \<Rightarrow> g_counter \<Rightarrow> bool" where
  "gc_update c c' \<longleftrightarrow> (\<exists>node n. gc_increment c node n = Inr c')"

lemma gc_covered:
  "gc_eq s (case gc_delta_of s of None \<Rightarrow> b | Some d \<Rightarrow> gc_merge b d) \<longleftrightarrow>
     gc_state s = max_loop (gc_delta s) (gc_state b)"
  by (auto simp: gc_delta_of_def gc_eq_def gc_merge_def gc_merge_state_max_loop max_loop_def)

lemma gc_update_covered:
  assumes "gc_wf b" and "gc_wf s" and "gc_update s s'"
    and cov: "gc_state s = max_loop (gc_delta s) (gc_state b)"
  shows "gc_state s' = max_loop (gc_delta s') (gc_state b)"
proof -
  from assms(3) obtain node n where inc: "gc_increment s node n = Inr s'"
    by (auto simp: gc_update_def)
  have wf: "gc_wf s'" using inc assms(2) by (blast intro: gc_wf_increment)
  show ?thesis
  proof (cases "n = 0")
    case True
    with inc cov show ?thesis by (simp add: gc_increment_def)
  next
    case False
    from gc_increment_Inr [OF inc this] obtain x where
      x: "unat x = unat (slot (gc_state s) (unique_address_of node)) + unat n"
      and s': "s' = \<lparr>gc_state = fmupd (unique_address_of node) x (gc_state s),
                    gc_delta = fmupd (unique_address_of node) x (gc_delta s)\<rparr>"
      by blast
    have slots: "slot (gc_state s) k = max (slot (gc_state b) k) (slot (gc_delta s) k)" for k
      by (subst cov) simp
    have "slot (gc_state b) (unique_address_of node) \<le> slot (gc_state s) (unique_address_of node)"
      by (simp add: slots)
    with x have le: "slot (gc_state b) (unique_address_of node) \<le> x"
      by (simp add: word_le_nat_alt)
    show ?thesis
      using wf assms(1) le unfolding s'
      by (intro no_zero_eqI) (auto simp: gc_wf_def slots max_def intro: no_zero_max_loop)
  qed
qed

interpretation gc: delta_replicated_data gc_wf gc_eq gc_merge gc_delta_of gc_merge_delta
  gc_reset_delta gc_update
proof
  show "gc_eq (gc_merge (gc_merge a b) c) (gc_merge a (gc_merge b c))"
    if "gc_wf a" "gc_wf b" "gc_wf c" for a b c
    using that by (simp add: gc_eq_def gc_merge_def gc_merge_state_max_loop gc_wf_def max_loop_assoc)
  show "gc_eq (gc_merge a b) (gc_merge b a)" if "gc_wf a" "gc_wf b" for a b
    using that by (simp add: gc_eq_def gc_merge_def gc_merge_state_max_loop gc_wf_def max_loop_commute)
  show "gc_eq (gc_merge a a) a" if "gc_wf a" for a
    using that by (simp add: gc_eq_def gc_merge_def gc_merge_state_max_loop gc_wf_def max_loop_idem)
  show "gc_wf s'" if "gc_wf s" "gc_update s s'" for s s'
    using that by (auto simp: gc_update_def intro: gc_wf_increment)
  show "gc_eq s' (case gc_delta_of s' of None \<Rightarrow> b | Some d \<Rightarrow> gc_merge b d)"
    if "gc_wf b" "gc_wf s" "gc_update s s'"
      "gc_eq s (case gc_delta_of s of None \<Rightarrow> b | Some d \<Rightarrow> gc_merge b d)" for b s s'
    using that gc_update_covered unfolding gc_covered by blast
  show "gc_eq (gc_merge a b) (gc_merge a' b')" if "gc_eq a a'" "gc_eq b b'" for a a' b b'
    using that by (simp add: gc_eq_def gc_merge_def)
  show "gc_eq (gc_merge_delta s d) (gc_merge s d)" for s d
    by (simp add: gc_eq_def gc_merge_def gc_merge_delta_def)
  show "gc_eq (gc_reset_delta s) s" "gc_delta_of (gc_reset_delta s) = None" for s
    by (simp_all add: gc_eq_def gc_reset_delta_def gc_delta_of_def)
qed (auto simp: gc_eq_def intro: wf_intros dest: gc_wf_delta)

interpretation gc: settled_pruning gc_wf gc_modified_by_nodes gc_need_pruning_from
  gc_prune gc_pruning_cleanup gc_eq
proof
  fix s s' r c
  assume wf: "gc_wf s" and p: "gc_prune s r c = Inr s'"
  show "gc_wf s'" using wf p by (rule gc_wf_prune)
  show "\<not> gc_need_pruning_from s' r" if "r \<noteq> c"
    using gc_prune_Inr [OF p] that by (auto simp: gc_need_pruning_from_def contains_key_def)
  show "gc_eq s' s" if "\<not> gc_need_pruning_from s r"
    using p that by (simp add: gc_need_pruning_from_def contains_key_def gc_prune_def gc_eq_def)
qed (auto simp: gc_need_pruning_from_def gc_modified_by_nodes_def contains_key_def
    gc_pruning_cleanup_def fmlookup_dom_iff)

section \<open>The value\<close>

definition gc_total :: "g_counter \<Rightarrow> nat" where
  "gc_total c = slot_total (gc_state c)"

lemma try_fold_checked_add:
  "try_fold (\<lambda>acc x. ok_or (checked_add acc x) Overflow) acc xs =
     (if unat acc + (\<Sum>x\<leftarrow>xs. unat x) < 2 ^ 128
      then Inr (acc + (\<Sum>x\<leftarrow>xs. x)) else Inl Overflow)" for acc :: u128
proof (induction xs arbitrary: acc)
  case Nil
  then show ?case using unsigned_less [of acc, where ?'a = nat] by simp
next
  case (Cons x xs)
  show ?case
  proof (cases "checked_add acc x")
    case None
    with checked_add_None_iff [of acc x] show ?thesis by simp
  next
    case (Some y)
    then have "unat y = unat acc + unat x" "y = acc + x"
      using checked_add_Some_iff [of acc x y] by (simp_all add: checked_add_def split: if_splits)
    with Some Cons show ?thesis by (simp add: add.assoc)
  qed
qed

lemma gc_value_total:
  "gc_value c =
     (if gc_total c < 2 ^ 128 then Inr (word_of_nat (gc_total c)) else Inl Overflow)"
proof -
  have "of_nat (\<Sum>x\<leftarrow>xs. unat x) = (\<Sum>x\<leftarrow>xs. x)" for xs :: "u128 list"
    by (induction xs) simp_all
  then show ?thesis
    by (simp add: gc_value_def checked_sum_def try_fold_checked_add gc_total_def
        flip: sum_list_map_values)
qed

lemma gc_total_increment:
  assumes "gc_increment c node n = Inr c'"
  shows "gc_total c' = gc_total c + unat n"
proof (cases "n = 0")
  case True
  with assms show ?thesis by (simp add: gc_increment_def)
next
  case False
  from gc_increment_Inr [OF assms this] obtain x where
    x: "unat x = unat (slot (gc_state c) (unique_address_of node)) + unat n"
    and c': "c' = \<lparr>gc_state = fmupd (unique_address_of node) x (gc_state c),
                  gc_delta = fmupd (unique_address_of node) x (gc_delta c)\<rparr>"
    by blast
  show ?thesis
    using slot_total_upd [of "unique_address_of node" x "gc_state c"] x
    by (simp add: gc_total_def c')
qed

lemma gc_total_prune:
  assumes "gc_prune c r i = Inr c'" and "r \<noteq> i"
  shows "gc_total c' = gc_total c"
  using gc_prune_Inr [OF assms(1)]
proof (elim disjE conjE exE)
  fix v x
  assume v: "fmlookup (gc_state c) r = Some v" and x: "checked_add (slot (gc_state c) i) v = Some x"
    and c': "c' = \<lparr>gc_state = fmupd i x (fmdrop r (gc_state c)), gc_delta = fmupd i x (fmdrop r (gc_delta c))\<rparr>"
  have "unat x = unat (slot (gc_state c) i) + unat (slot (gc_state c) r)"
    using x v by (simp add: checked_add_Some_iff slot_alt)
  then show ?thesis
    using slot_total_upd [of i x "fmdrop r (gc_state c)"] slot_total_drop [of r "gc_state c"] assms(2)
    by (simp add: gc_total_def c')
qed (use assms(2) in simp_all)

end
