(* ===== verification/PN_Counter.thy ===== *)
theory PN_Counter
  imports G_Counter
begin

text \<open>
  \<open>PNCounter\<close> (\<open>ddata/pn_counter.rs\<close>): two grow-only counters whose difference is the value, a
  signed 128-bit integer. \<open>pn_retain_visible_nodes\<close> is the helper \<open>PNCounterMap\<close> uses to hide the
  contribution an observed removal covers.
\<close>

section \<open>Data and operations\<close>

record pn_counter =
  pn_increments :: g_counter
  pn_decrements :: g_counter

definition I128_MIN_ABS :: u128 where
  "I128_MIN_ABS = push_bit 127 1"

definition pn_from_parts :: "g_counter \<Rightarrow> g_counter \<Rightarrow> pn_counter" where
  "pn_from_parts i d = \<lparr>pn_increments = i, pn_decrements = d\<rparr>"

definition pn_new :: pn_counter where
  "pn_new = pn_from_parts gc_new gc_new"

definition pn_retain_nodes :: "pn_counter \<Rightarrow> (unique_address, u64) fmap \<Rightarrow> pn_counter" where
  "pn_retain_nodes c nodes =
     \<lparr>pn_increments = gc_retain_nodes (pn_increments c) nodes,
      pn_decrements = gc_retain_nodes (pn_decrements c) nodes\<rparr>"

definition pn_replace_nodes :: "pn_counter \<Rightarrow> (unique_address, u64) fmap \<Rightarrow> pn_counter \<Rightarrow> pn_counter" where
  "pn_replace_nodes c nodes replacement =
     \<lparr>pn_increments = gc_replace_nodes (pn_increments c) nodes (pn_increments replacement),
      pn_decrements = gc_replace_nodes (pn_decrements c) nodes (pn_decrements replacement)\<rparr>"

definition pn_from_node_components :: "(unique_address, u128 \<times> u128) fmap \<Rightarrow> pn_counter" where
  "pn_from_node_components components =
     (let (incs, decs) = for_each
        (\<lambda>node (increment, decrement) (incs, decs).
           (if increment \<noteq> 0 then fmupd node increment incs else incs,
            if decrement \<noteq> 0 then fmupd node decrement decs else decs))
        components (fmempty, fmempty)
      in pn_from_parts (gc_from_parts incs fmempty) (gc_from_parts decs fmempty))"

definition pn_node_components :: "pn_counter \<Rightarrow> unique_address \<Rightarrow> u128 \<times> u128" where
  "pn_node_components c node =
     (gc_state_value (pn_increments c) node, gc_state_value (pn_decrements c) node)"

definition subtract_removed_prefix :: "u128 \<Rightarrow> u128 \<Rightarrow> u128" where
  "subtract_removed_prefix current removed_prefix =
     (if current \<ge> removed_prefix then current - removed_prefix else current)"

text \<open>
  The body of the visibility loop for one dot: \<open>None\<close> is the \<open>continue\<close> of an entry the removal
  covers, \<open>Some\<close> the components left visible.
\<close>

definition pn_visible_components ::
    "pn_counter \<Rightarrow> (unique_address, u64) fmap option \<Rightarrow> (unique_address, u64) fmap option \<Rightarrow>
     pn_counter option \<Rightarrow> unique_address \<Rightarrow> u64 \<Rightarrow> (u128 \<times> u128) option" where
  "pn_visible_components c removed_dots own_removed_dots removed_prefix node version =
     (let removed_version = Option.bind removed_dots (\<lambda>removed_dots. fmlookup removed_dots node);
          increment = gc_state_value (pn_increments c) node;
          decrement = gc_state_value (pn_decrements c) node;
          removed_increment = (case removed_prefix of None \<Rightarrow> 0
            | Some removed_prefix \<Rightarrow> gc_state_value (pn_increments removed_prefix) node);
          removed_decrement = (case removed_prefix of None \<Rightarrow> 0
            | Some removed_prefix \<Rightarrow> gc_state_value (pn_decrements removed_prefix) node);
          owns_covering_remove =
            (case Option.bind own_removed_dots (\<lambda>own_removed_dots. fmlookup own_removed_dots node) of
               None \<Rightarrow> False
             | Some own_removed_version \<Rightarrow>
                 own_removed_version \<ge> unwrap_or removed_version 0 \<and> version > own_removed_version);
          visible =
            (if (case removed_version of None \<Rightarrow> False | Some removed_version \<Rightarrow> version \<le> removed_version) then
               if increment = removed_increment \<and> decrement = removed_decrement then None
               else Some (increment, decrement)
             else if owns_covering_remove then Some (increment, decrement)
             else if removed_version \<noteq> None then
               Some (subtract_removed_prefix increment removed_increment,
                     subtract_removed_prefix decrement removed_decrement)
             else Some (increment, decrement))
      in case visible of None \<Rightarrow> None
         | Some (visible_increment, visible_decrement) \<Rightarrow>
             if visible_increment = 0 \<and> visible_decrement = 0 then None
             else Some (visible_increment, visible_decrement))"

definition pn_retain_visible_nodes ::
    "pn_counter \<Rightarrow> (unique_address, u64) fmap \<Rightarrow> (unique_address, u64) fmap option \<Rightarrow>
     (unique_address, u64) fmap option \<Rightarrow> pn_counter option \<Rightarrow>
     (pn_counter \<times> (unique_address, u64) fmap) option" where
  "pn_retain_visible_nodes c dots removed_dots own_removed_dots removed_prefix =
     (let (increment_state, decrement_state, visible_dots) = for_each
        (\<lambda>node version (incs, decs, vis).
           case pn_visible_components c removed_dots own_removed_dots removed_prefix node version of
             None \<Rightarrow> (incs, decs, vis)
           | Some (visible_increment, visible_decrement) \<Rightarrow>
               (if visible_increment \<noteq> 0 then fmupd node visible_increment incs else incs,
                if visible_decrement \<noteq> 0 then fmupd node visible_decrement decs else decs,
                fmupd node version vis))
        dots (fmempty, fmempty, fmempty)
      in if visible_dots = fmempty then None
         else Some (pn_from_parts (gc_from_parts increment_state fmempty)
                      (gc_from_parts decrement_state fmempty), visible_dots))"

definition pn_increment ::
    "pn_counter \<Rightarrow> self_unique_address \<Rightarrow> u64 \<Rightarrow> counter_arithmetic_error + pn_counter" where
  "pn_increment c node n =
     and_then (gc_increment (pn_increments c) node n)
       (\<lambda>i. Inr \<lparr>pn_increments = i, pn_decrements = pn_decrements c\<rparr>)"

definition pn_decrement ::
    "pn_counter \<Rightarrow> self_unique_address \<Rightarrow> u64 \<Rightarrow> counter_arithmetic_error + pn_counter" where
  "pn_decrement c node n =
     and_then (gc_increment (pn_decrements c) node n)
       (\<lambda>d. Inr \<lparr>pn_increments = pn_increments c, pn_decrements = d\<rparr>)"

text \<open>\<open>i128::try_from\<close> on an unsigned value: an error above the greatest signed value.\<close>

definition i128_try_from :: "u128 \<Rightarrow> counter_arithmetic_error + int" where
  "i128_try_from x = (if uint x \<le> 2 ^ 127 - 1 then Inr (uint x) else Inl Overflow)"

definition signed_difference :: "u128 \<Rightarrow> u128 \<Rightarrow> counter_arithmetic_error + int" where
  "signed_difference increments decrements =
     (if increments \<ge> decrements then i128_try_from (increments - decrements)
      else
        let diff = decrements - increments in
        if diff = I128_MIN_ABS then Inr (- (2 ^ 127))
        else and_then (i128_try_from diff) (\<lambda>magnitude. Inr (- magnitude)))"

definition pn_value :: "pn_counter \<Rightarrow> counter_arithmetic_error + int" where
  "pn_value c =
     and_then (gc_value (pn_increments c))
       (\<lambda>i. and_then (gc_value (pn_decrements c)) (\<lambda>d. signed_difference i d))"

definition pn_merge :: "pn_counter \<Rightarrow> pn_counter \<Rightarrow> pn_counter" where
  "pn_merge self other =
     \<lparr>pn_increments = gc_merge (pn_increments self) (pn_increments other),
      pn_decrements = gc_merge (pn_decrements self) (pn_decrements other)\<rparr>"

definition pn_delta_of :: "pn_counter \<Rightarrow> pn_counter option" where
  "pn_delta_of c =
     (let increments = gc_delta_of (pn_increments c); decrements = gc_delta_of (pn_decrements c) in
      if increments = None \<and> decrements = None then None
      else Some \<lparr>pn_increments = unwrap_or increments gc_new,
                 pn_decrements = unwrap_or decrements gc_new\<rparr>)"

definition pn_merge_delta :: "pn_counter \<Rightarrow> pn_counter \<Rightarrow> pn_counter" where
  "pn_merge_delta self d =
     \<lparr>pn_increments = gc_merge_delta (pn_increments self) (pn_increments d),
      pn_decrements = gc_merge_delta (pn_decrements self) (pn_decrements d)\<rparr>"

definition pn_reset_delta :: "pn_counter \<Rightarrow> pn_counter" where
  "pn_reset_delta c =
     \<lparr>pn_increments = gc_reset_delta (pn_increments c),
      pn_decrements = gc_reset_delta (pn_decrements c)\<rparr>"

definition pn_zero :: "pn_counter \<Rightarrow> pn_counter" where
  "pn_zero c = pn_new"

definition pn_modified_by_nodes :: "pn_counter \<Rightarrow> unique_address fset" where
  "pn_modified_by_nodes c =
     gc_modified_by_nodes (pn_increments c) |\<union>| gc_modified_by_nodes (pn_decrements c)"

definition pn_need_pruning_from :: "pn_counter \<Rightarrow> unique_address \<Rightarrow> bool" where
  "pn_need_pruning_from c removed_node \<longleftrightarrow>
     gc_need_pruning_from (pn_increments c) removed_node \<or>
     gc_need_pruning_from (pn_decrements c) removed_node"

definition pn_prune ::
    "pn_counter \<Rightarrow> unique_address \<Rightarrow> unique_address \<Rightarrow> counter_arithmetic_error + pn_counter" where
  "pn_prune c removed_node collapse_into =
     and_then (gc_prune (pn_increments c) removed_node collapse_into)
       (\<lambda>i. and_then (gc_prune (pn_decrements c) removed_node collapse_into)
         (\<lambda>d. Inr \<lparr>pn_increments = i, pn_decrements = d\<rparr>))"

definition pn_pruning_cleanup :: "pn_counter \<Rightarrow> unique_address \<Rightarrow> pn_counter" where
  "pn_pruning_cleanup c removed_node =
     \<lparr>pn_increments = gc_pruning_cleanup (pn_increments c) removed_node,
      pn_decrements = gc_pruning_cleanup (pn_decrements c) removed_node\<rparr>"

text \<open>The derived \<open>PartialEq\<close> compares both counters with their own equality.\<close>

definition pn_eq :: "pn_counter \<Rightarrow> pn_counter \<Rightarrow> bool" where
  "pn_eq a b \<longleftrightarrow> gc_eq (pn_increments a) (pn_increments b) \<and> gc_eq (pn_decrements a) (pn_decrements b)"

section \<open>Well-formed counters and the contracts\<close>

definition pn_wf :: "pn_counter \<Rightarrow> bool" where
  "pn_wf c \<longleftrightarrow> gc_wf (pn_increments c) \<and> gc_wf (pn_decrements c)"

definition pn_update :: "pn_counter \<Rightarrow> pn_counter \<Rightarrow> bool" where
  "pn_update c c' \<longleftrightarrow> (\<exists>node n. pn_increment c node n = Inr c' \<or> pn_decrement c node n = Inr c')"

lemma pn_update_cases:
  "pn_update c c' \<longleftrightarrow>
     (gc_update (pn_increments c) (pn_increments c') \<and> pn_decrements c' = pn_decrements c) \<or>
     (gc_update (pn_decrements c) (pn_decrements c') \<and> pn_increments c' = pn_increments c)"
  by (cases c'; auto simp: pn_update_def pn_increment_def pn_decrement_def gc_update_def and_then_eq_Inr)

lemma pn_covered:
  "pn_eq s (case pn_delta_of s of None \<Rightarrow> b | Some d \<Rightarrow> pn_merge b d) \<longleftrightarrow>
     gc_state (pn_increments s) = max_loop (gc_delta (pn_increments s)) (gc_state (pn_increments b)) \<and>
     gc_state (pn_decrements s) = max_loop (gc_delta (pn_decrements s)) (gc_state (pn_decrements b))"
  by (auto simp: pn_delta_of_def gc_delta_of_def pn_eq_def gc_eq_def pn_merge_def gc_merge_def
      gc_merge_state_max_loop Let_def max_loop_def gc_new_def gc_from_parts_def)

lemma pn_update_covered:
  assumes "pn_wf b" and "pn_wf s" and "pn_update s s'"
    and "pn_eq s (case pn_delta_of s of None \<Rightarrow> b | Some d \<Rightarrow> pn_merge b d)"
  shows "pn_eq s' (case pn_delta_of s' of None \<Rightarrow> b | Some d \<Rightarrow> pn_merge b d)"
  using assms(3) unfolding pn_update_cases
proof (elim disjE conjE)
  assume u: "gc_update (pn_increments s) (pn_increments s')" and d: "pn_decrements s' = pn_decrements s"
  have "gc_state (pn_increments s') = max_loop (gc_delta (pn_increments s')) (gc_state (pn_increments b))"
    using assms(1,2,4) u unfolding pn_covered
    by (intro gc_update_covered [OF _ _ u]) (auto simp: pn_wf_def)
  with d assms(4) show ?thesis unfolding pn_covered by (simp add: d)
next
  assume u: "gc_update (pn_decrements s) (pn_decrements s')" and d: "pn_increments s' = pn_increments s"
  have "gc_state (pn_decrements s') = max_loop (gc_delta (pn_decrements s')) (gc_state (pn_decrements b))"
    using assms(1,2,4) u unfolding pn_covered
    by (intro gc_update_covered [OF _ _ u]) (auto simp: pn_wf_def)
  with d assms(4) show ?thesis unfolding pn_covered by (simp add: d)
qed

lemma pn_wf_new [wf_intros, simp]: "pn_wf pn_new"
  by (simp add: pn_wf_def pn_new_def pn_from_parts_def)

lemma pn_wf_merge [wf_intros]: "pn_wf a \<Longrightarrow> pn_wf b \<Longrightarrow> pn_wf (pn_merge a b)"
  by (simp add: pn_wf_def pn_merge_def gc_wf_merge)

lemma pn_wf_reset [wf_intros]: "pn_wf c \<Longrightarrow> pn_wf (pn_reset_delta c)"
  by (simp add: pn_wf_def pn_reset_delta_def gc_wf_reset)

lemma pn_wf_cleanup [wf_intros]: "pn_wf c \<Longrightarrow> pn_wf (pn_pruning_cleanup c r)"
  by (simp add: pn_wf_def pn_pruning_cleanup_def gc_wf_cleanup)

lemma pn_wf_delta: "pn_wf c \<Longrightarrow> pn_delta_of c = Some d \<Longrightarrow> pn_wf d"
  by (cases "gc_delta_of (pn_increments c)"; cases "gc_delta_of (pn_decrements c)")
    (auto simp: pn_wf_def pn_delta_of_def Let_def dest: gc_wf_delta)

lemma pn_prune_Inr:
  "pn_prune c r i = Inr c' \<longleftrightarrow>
     gc_prune (pn_increments c) r i = Inr (pn_increments c') \<and>
     gc_prune (pn_decrements c) r i = Inr (pn_decrements c')"
  by (cases c') (auto simp: pn_prune_def and_then_eq_Inr)

lemma pn_wf_prune: "pn_wf c \<Longrightarrow> pn_prune c r i = Inr c' \<Longrightarrow> pn_wf c'"
  by (auto simp: pn_wf_def pn_prune_Inr intro: gc_wf_prune)

interpretation pn: delta_replicated_data pn_wf pn_eq pn_merge pn_delta_of pn_merge_delta
  pn_reset_delta pn_update
proof
  show "pn_wf s'" if "pn_wf s" "pn_update s s'" for s s'
    using that by (auto simp: pn_update_cases pn_wf_def intro: gc.valid_update)
  show "pn_delta_of (pn_reset_delta s) = None" for s
    by (simp add: pn_delta_of_def pn_reset_delta_def gc.delta_reset Let_def)
  show "pn_wf d" if "pn_wf s" "pn_delta_of s = Some d" for s d
    using that by (rule pn_wf_delta)
  show "pn_eq s' (case pn_delta_of s' of None \<Rightarrow> b | Some d \<Rightarrow> pn_merge b d)"
    if "pn_wf b" "pn_wf s" "pn_update s s'"
      "pn_eq s (case pn_delta_of s of None \<Rightarrow> b | Some d \<Rightarrow> pn_merge b d)" for b s s'
    using that by (rule pn_update_covered)
qed (auto simp: pn_eq_def pn_merge_def pn_merge_delta_def pn_reset_delta_def pn_wf_def
    intro: gc.eqv_refl gc.eqv_sym gc.eqv_trans gc.merge_cong gc.merge_commute gc.merge_assoc
      gc.merge_idem gc.merge_delta_eqv gc.reset_eqv gc_wf_merge gc_wf_reset)

interpretation pn: settled_pruning pn_wf pn_modified_by_nodes pn_need_pruning_from
  pn_prune pn_pruning_cleanup pn_eq
proof
  show "pn_wf s'" if "pn_wf s" "pn_prune s r c = Inr s'" for s s' r c
    using that by (rule pn_wf_prune)
  show "\<not> pn_need_pruning_from (pn_pruning_cleanup s r) r"
    if "pn_wf s" "\<not> pn_need_pruning_from s r" for s r
    using that by (simp add: pn_wf_def pn_need_pruning_from_def pn_pruning_cleanup_def gc.cleanup_keeps)
qed (auto simp: pn_need_pruning_from_def pn_modified_by_nodes_def pn_prune_Inr pn_wf_def pn_eq_def
    gc.need_pruning_iff dest: gc.prune_removes intro: gc.prune_unneeded)

section \<open>The value\<close>

definition pn_total :: "pn_counter \<Rightarrow> int" where
  "pn_total c = int (gc_total (pn_increments c)) - int (gc_total (pn_decrements c))"

lemma signed_difference_exact:
  "signed_difference i d =
     (if - (2 ^ 127) \<le> uint i - uint d \<and> uint i - uint d < 2 ^ 127
      then Inr (uint i - uint d) else Inl Overflow)"
proof (cases "d \<le> i")
  case True
  then have "uint (i - d) = uint i - uint d"
    by (simp add: uint_minus_simple_alt word_le_def)
  with True show ?thesis
    by (auto simp: signed_difference_def i128_try_from_def word_le_def)
next
  case False
  then have diff: "uint (d - i) = uint d - uint i"
    by (simp add: uint_minus_simple_alt [symmetric])
  have "d - i = I128_MIN_ABS \<longleftrightarrow> uint d - uint i = 2 ^ 127"
    using diff by (simp add: I128_MIN_ABS_def word_uint_eq_iff)
  with False diff show ?thesis
    by (auto simp: signed_difference_def i128_try_from_def word_le_def Let_def)
qed

lemma pn_total_update:
  "pn_increment c node n = Inr c' \<Longrightarrow> pn_total c' = pn_total c + int (unat n)"
  "pn_decrement c node n = Inr c' \<Longrightarrow> pn_total c' = pn_total c - int (unat n)"
  by (auto simp: pn_increment_def pn_decrement_def pn_total_def and_then_eq_Inr dest: gc_total_increment)

text \<open>
  Claim C26. \<open>PNCounter::value\<close> is exact: it is the sum of all increments minus the sum of all
  decrements whenever both sums fit in 128 bits and the difference is a signed 128-bit integer,
  the least one included, and it is the overflow error in every other case; it never wraps.
\<close>

theorem pn_value_exact:
  "pn_value c =
     (if gc_total (pn_increments c) < 2 ^ 128 \<and> gc_total (pn_decrements c) < 2 ^ 128 \<and>
         - (2 ^ 127) \<le> pn_total c \<and> pn_total c < 2 ^ 127
      then Inr (pn_total c) else Inl Overflow)"
proof -
  have "uint (word_of_nat n :: u128) = int n" if "n < 2 ^ 128" for n
    using that by (simp add: unsigned_of_nat take_bit_nat_eq_self)
  then show ?thesis
    by (simp add: pn_value_def gc_value_total signed_difference_exact pn_total_def)
qed

section \<open>Replication\<close>

text \<open>
  Claim C7. Strong eventual consistency of \<open>PNCounter\<close>: two replicas that have taken in the same
  set of states, in any order and with any repetition, are equal under the counter's equality.
\<close>

theorem pn_strong_convergence:
  assumes "\<forall>x\<in>set (s # xs). pn_wf x" and "set (s # xs) = set (t # ys)"
  shows "pn_eq (fold (\<lambda>x s. pn_merge s x) xs s) (fold (\<lambda>x s. pn_merge s x) ys t)"
  using pn.convergence [OF assms] by (simp add: pn.receive_all_def)

definition pn_sample_a :: pn_counter where
  "pn_sample_a = \<lparr>pn_increments = \<lparr>gc_state = fmupd node_a 5 fmempty, gc_delta = fmupd node_a 5 fmempty\<rparr>,
                  pn_decrements = gc_new\<rparr>"

definition pn_sample_b :: pn_counter where
  "pn_sample_b = \<lparr>pn_increments = gc_new,
                  pn_decrements = \<lparr>gc_state = fmupd node_b 2 fmempty, gc_delta = fmempty\<rparr>\<rparr>"

lemma pn_wf_samples [simp]: "pn_wf pn_sample_a" "pn_wf pn_sample_b"
  by (simp_all add: pn_wf_def gc_wf_def pn_sample_a_def pn_sample_b_def no_zero_upd gc_new_def gc_from_parts_def)

theorem pn_strong_convergence_witness:
  "pn_eq (fold (\<lambda>x s. pn_merge s x) [pn_sample_b, pn_sample_b] pn_sample_a)
         (fold (\<lambda>x s. pn_merge s x) [pn_sample_a] pn_sample_b)"
  by (rule pn_strong_convergence) auto

text \<open>
  The delta of a \<open>PNCounter\<close> stands for the full state: a peer that merged the state
  \<open>b\<close> of the last delta reset ends, after any run of increments and decrements, in the state it
  would reach by merging the full counter.
\<close>

theorem pn_delta_synchronises:
  assumes "pn_update\<^sup>*\<^sup>* (pn_reset_delta b) s" and "pn_wf b" and "pn_wf t"
  shows "pn_eq (case pn_delta_of s of None \<Rightarrow> pn_merge t b
                | Some d \<Rightarrow> pn_merge_delta (pn_merge t b) d) (pn_merge t s)"
  using assms by (rule pn.delta_sync)

theorem pn_delta_synchronises_witness:
  "pn_eq (case pn_delta_of pn_sample_a of None \<Rightarrow> pn_merge pn_sample_b pn_new
          | Some d \<Rightarrow> pn_merge_delta (pn_merge pn_sample_b pn_new) d) (pn_merge pn_sample_b pn_sample_a)"
proof (rule pn_delta_synchronises)
  have "pn_increment (pn_reset_delta pn_new) (SelfUniqueAddress node_a) 5 = Inr pn_sample_a"
    by code_simp
  then have "pn_update (pn_reset_delta pn_new) pn_sample_a"
    by (auto simp: pn_update_def)
  then show "pn_update\<^sup>*\<^sup>* (pn_reset_delta pn_new) pn_sample_a"
    by (rule r_into_rtranclp)
qed simp_all

text \<open>
  Pruning a removed node moves its contribution: the value reads the same before and
  after, and the removed node no longer counts among the nodes that modified the counter.
\<close>

theorem pn_prune_preserves_value:
  assumes "pn_wf c" and "r \<noteq> i" and "pn_prune c r i = Inr c'"
  shows "pn_value c' = pn_value c \<and> r |\<notin>| pn_modified_by_nodes c'"
  using assms pn.prune_forgets(1) [OF assms]
  by (auto simp: pn_value_exact pn_total_def pn_prune_Inr dest!: gc_total_prune)

theorem pn_prune_preserves_value_witness:
  "\<exists>c'. pn_prune pn_sample_a node_a node_b = Inr c' \<and>
     pn_value c' = pn_value pn_sample_a \<and> node_a |\<notin>| pn_modified_by_nodes c'"
proof -
  obtain c' where p: "pn_prune pn_sample_a node_a node_b = Inr c'"
    by (cases "pn_prune pn_sample_a node_a node_b") (simp_all add: pn_prune_def gc_prune_def
        pn_sample_a_def checked_add_def gc_new_def gc_from_parts_def Let_def)
  with pn_prune_preserves_value [OF pn_wf_samples(1) node_simps(1) p] show ?thesis by blast
qed

end
