(* ===== verification/LWW_Register.thy ===== *)
theory LWW_Register
  imports PN_Counter
begin

text \<open>
  \<open>Flag\<close> (\<open>ddata/flag.rs\<close>), the boolean that only moves from disabled to enabled, and
  \<open>LWWRegister\<close> (\<open>ddata/lww_register.rs\<close>), the register whose merge keeps the greatest timestamp
  and, among equal timestamps, the lowest writer. The register's merge is a join as long as no
  writer uses a timestamp for two values, the condition its documentation asks of the clock.
\<close>

section \<open>Flag\<close>

record flag =
  enabled :: bool

definition flag_disabled :: flag where
  "flag_disabled = \<lparr>enabled = False\<rparr>"

definition flag_is_enabled :: "flag \<Rightarrow> bool" where
  "flag_is_enabled f = enabled f"

definition flag_merge :: "flag \<Rightarrow> flag \<Rightarrow> flag" where
  "flag_merge self other = \<lparr>enabled = (enabled self \<or> enabled other)\<rparr>"

definition flag_switch_on :: "flag \<Rightarrow> flag" where
  "flag_switch_on f = flag_merge f \<lparr>enabled = True\<rparr>"

interpretation flag: replicated_data "\<lambda>_. True" "(=)" flag_merge
  by unfold_locales (auto simp: flag_merge_def)

lemma flag_merge_enabled: "flag_is_enabled (flag_merge a b) \<longleftrightarrow> flag_is_enabled a \<or> flag_is_enabled b"
  by (simp add: flag_is_enabled_def flag_merge_def)

section \<open>Last-writer-wins register\<close>

record 'v lww_register =
  lww_updated_by :: unique_address
  lww_value :: 'v
  lww_timestamp :: int

definition lww_new_at :: "self_unique_address \<Rightarrow> 'v \<Rightarrow> int \<Rightarrow> 'v lww_register" where
  "lww_new_at node v ts = \<lparr>lww_updated_by = unique_address_of node, lww_value = v, lww_timestamp = ts\<rparr>"

definition lww_new_with_clock ::
    "self_unique_address \<Rightarrow> 'v \<Rightarrow> (int \<Rightarrow> 'v \<Rightarrow> int) \<Rightarrow> 'v lww_register" where
  "lww_new_with_clock node v clock = (let ts = clock 0 v in lww_new_at node v ts)"

definition default_clock :: "int \<Rightarrow> int \<Rightarrow> int" where
  "default_clock current_timestamp current_time_millis =
     (let next_timestamp = clamp_i64 (current_timestamp + 1) in
      if current_time_millis > next_timestamp then current_time_millis else next_timestamp)"

definition reverse_clock :: "int \<Rightarrow> int \<Rightarrow> int" where
  "reverse_clock current_timestamp current_time_millis =
     (let previous_timestamp = clamp_i64 (current_timestamp - 1);
          reversed_time = clamp_i64 (- current_time_millis)
      in if reversed_time < previous_timestamp then reversed_time else previous_timestamp)"

definition lww_new :: "self_unique_address \<Rightarrow> 'v \<Rightarrow> int \<Rightarrow> 'v lww_register" where
  "lww_new node v current_time_millis =
     lww_new_with_clock node v (\<lambda>current_timestamp _. default_clock current_timestamp current_time_millis)"

definition lww_with_value_with_clock ::
    "'v lww_register \<Rightarrow> self_unique_address \<Rightarrow> 'v \<Rightarrow> (int \<Rightarrow> 'v \<Rightarrow> int) \<Rightarrow> 'v lww_register option" where
  "lww_with_value_with_clock r node v clock =
     (let ts = clock (lww_timestamp r) v in
      if unique_address_of node = lww_updated_by r \<and> ts = lww_timestamp r then None
      else Some (lww_new_at node v ts))"

definition lww_with_value ::
    "'v lww_register \<Rightarrow> self_unique_address \<Rightarrow> 'v \<Rightarrow> int \<Rightarrow> 'v lww_register option" where
  "lww_with_value r node v current_time_millis =
     lww_with_value_with_clock r node v
       (\<lambda>current_timestamp _. default_clock current_timestamp current_time_millis)"

definition lww_merge :: "'v lww_register \<Rightarrow> 'v lww_register \<Rightarrow> 'v lww_register" where
  "lww_merge self other =
     (if lww_timestamp other > lww_timestamp self \<or>
         (lww_timestamp other = lww_timestamp self \<and> lww_updated_by other < lww_updated_by self)
      then other else self)"

definition lww_modified_by_nodes :: "'v lww_register \<Rightarrow> unique_address fset" where
  "lww_modified_by_nodes r = {|lww_updated_by r|}"

definition lww_need_pruning_from :: "'v lww_register \<Rightarrow> unique_address \<Rightarrow> bool" where
  "lww_need_pruning_from r removed_node \<longleftrightarrow> lww_updated_by r = removed_node"

definition lww_prune ::
    "'v lww_register \<Rightarrow> unique_address \<Rightarrow> unique_address \<Rightarrow> counter_arithmetic_error + 'v lww_register" where
  "lww_prune r removed_node collapse_into =
     (if lww_updated_by r = removed_node then
        if removed_node = collapse_into then Inr r
        else Inr \<lparr>lww_updated_by = pruning_node_for removed_node, lww_value = lww_value r,
                  lww_timestamp = lww_timestamp r\<rparr>
      else Inr r)"

definition lww_pruning_cleanup :: "'v lww_register \<Rightarrow> unique_address \<Rightarrow> 'v lww_register" where
  "lww_pruning_cleanup r removed_node = r"

section \<open>The register's contracts\<close>

text \<open>
  \<open>h\<close> is the history of writes: the value each writer attached to each timestamp. The registers
  that carry a value of \<open>h\<close> are exactly those the clock contract allows.
\<close>

definition lww_in_history :: "(unique_address \<Rightarrow> int \<Rightarrow> 'v) \<Rightarrow> 'v lww_register \<Rightarrow> bool" where
  "lww_in_history h r \<longleftrightarrow> lww_value r = h (lww_updated_by r) (lww_timestamp r)"

lemma lww_in_history_eqI:
  assumes "lww_in_history h a" and "lww_in_history h b"
    and "lww_updated_by a = lww_updated_by b" and "lww_timestamp a = lww_timestamp b"
  shows "a = b"
  using assms by (cases a; cases b) (simp add: lww_in_history_def)

text \<open>The merge keeps the register with the least key: latest timestamp first, then lowest writer.\<close>

definition lww_rank :: "'v lww_register \<Rightarrow> int \<times> unique_address" where
  "lww_rank r = (- lww_timestamp r, lww_updated_by r)"

lemma lww_merge_rank: "lww_merge a b = (if lww_rank b < lww_rank a then b else a)"
  by (auto simp: lww_merge_def lww_rank_def less_prod_def)

lemma lww_merge_assoc: "lww_merge (lww_merge a b) c = lww_merge a (lww_merge b c)"
  by (simp add: lww_merge_rank)

lemma lww_merge_idem: "lww_merge a a = a"
  by (simp add: lww_merge_def)

interpretation lww: replicated_data "lww_in_history h" "(=)" lww_merge for h
proof
  show "lww_merge a b = lww_merge b a" if "lww_in_history h a" "lww_in_history h b" for a b
    using that lww_in_history_eqI [of h a b] by (auto simp: lww_merge_rank lww_rank_def not_less)
qed (simp_all add: lww_merge_assoc lww_merge_idem, simp add: lww_merge_def)

interpretation lww: settled_pruning "\<lambda>_. True" lww_modified_by_nodes
  lww_need_pruning_from lww_prune lww_pruning_cleanup "(=)"
  by unfold_locales
    (auto simp: lww_modified_by_nodes_def lww_need_pruning_from_def lww_prune_def
      lww_pruning_cleanup_def split: if_splits)

lemma default_clock_greater:
  "is_i64 ts \<Longrightarrow> ts < i64_max \<Longrightarrow> ts < default_clock ts now"
  by (auto simp: default_clock_def clamp_i64_def is_i64_def i64_max_def i64_min_def Let_def)

lemma default_clock_saturated:
  "is_i64 now \<Longrightarrow> default_clock i64_max now = i64_max"
  by (auto simp: default_clock_def clamp_i64_def is_i64_def i64_max_def i64_min_def Let_def)

lemma reverse_clock_less:
  "is_i64 ts \<Longrightarrow> i64_min < ts \<Longrightarrow> reverse_clock ts now < ts"
  by (auto simp: reverse_clock_def clamp_i64_def is_i64_def i64_max_def i64_min_def Let_def)

section \<open>Properties\<close>

text \<open>
  Strong eventual consistency of \<open>LWWRegister\<close>: when no writer uses one timestamp for two
  values, replicas that have taken in the same set of registers hold the same register, whatever
  the order and the number of deliveries.
\<close>

theorem lww_strong_convergence:
  assumes "\<forall>x\<in>set (s # xs). lww_in_history h x" and "set (s # xs) = set (t # ys)"
  shows "fold (\<lambda>x s. lww_merge s x) xs s = fold (\<lambda>x s. lww_merge s x) ys t"
  using lww.convergence [OF assms] by (simp add: lww.receive_all_def)

theorem lww_strong_convergence_witness:
  "fold (\<lambda>x s. lww_merge s x) [lww_new (SelfUniqueAddress node_b) ''y'' 7]
     (lww_new (SelfUniqueAddress node_a) ''x'' 7) =
   fold (\<lambda>x s. lww_merge s x)
     [lww_new (SelfUniqueAddress node_a) ''x'' 7, lww_new (SelfUniqueAddress node_b) ''y'' 7]
     (lww_new (SelfUniqueAddress node_b) ''y'' 7)"
  by (rule lww_strong_convergence [where h = "\<lambda>n _. if n = node_a then ''x'' else ''y''"])
    (auto simp: lww_in_history_def lww_new_def lww_new_with_clock_def lww_new_at_def Let_def)

text \<open>
  A local write with the default clock wins over the register it replaces, on both sides
  of a merge and for any writer, as long as the timestamp is below the greatest 64-bit value; at
  that value the clock is saturated and the same writer gets \<open>None\<close> instead of a second value
  under one timestamp.
\<close>

theorem lww_local_write_wins:
  assumes "is_i64 (lww_timestamp r)" and "is_i64 now"
  shows "case lww_with_value r node v now of
      Some r' \<Rightarrow> lww_value r' = v \<and> lww_updated_by r' = unique_address_of node \<and>
        (lww_timestamp r < i64_max \<longrightarrow> lww_merge r r' = r' \<and> lww_merge r' r = r')
    | None \<Rightarrow> lww_timestamp r = i64_max \<and> unique_address_of node = lww_updated_by r"
proof (cases "lww_timestamp r < i64_max")
  case True
  with assms(1) have "lww_timestamp r < default_clock (lww_timestamp r) now"
    by (rule default_clock_greater)
  then show ?thesis
    by (auto simp: lww_with_value_def lww_with_value_with_clock_def lww_new_at_def lww_merge_def Let_def)
next
  case False
  with assms(1) have "lww_timestamp r = i64_max" by (simp add: is_i64_def)
  with assms(2) show ?thesis
    by (simp add: lww_with_value_def lww_with_value_with_clock_def default_clock_saturated lww_new_at_def Let_def)
qed

theorem lww_local_write_wins_witness:
  "case lww_with_value (lww_new (SelfUniqueAddress node_a) ''x'' 7) (SelfUniqueAddress node_a) ''z'' 3 of
      Some r' \<Rightarrow> lww_value r' = ''z'' \<and> lww_updated_by r' = node_a \<and>
        lww_merge (lww_new (SelfUniqueAddress node_a) ''x'' 7) r' = r'
    | None \<Rightarrow> False"
  using lww_local_write_wins [of "lww_new (SelfUniqueAddress node_a) ''x'' 7" 3 "SelfUniqueAddress node_a" "''z''"]
  by (auto simp: lww_new_def lww_new_with_clock_def lww_new_at_def default_clock_def clamp_i64_def
      i64_min_def i64_max_def is_i64_def Let_def split: option.splits)

end
