(* ===== verification/OR_Set.thy ===== *)
theory OR_Set
  imports LWW_Register
begin

text \<open>
  \<open>ORSet\<close> (\<open>ddata/or_set.rs\<close>), the observed-remove set: every visible element carries the dots of
  the adds that are still alive, removed dots stay behind as tombstones, and the version vector
  records every dot the replica has seen. Adding panics when a node has used up its 64-bit dot
  counter, so \<open>or_add\<close> returns a \<open>panic\<close> or the new set. The proofs look at a set through three
  functions, \<open>dot_at\<close>, \<open>removed_at\<close> and the version vector, which determine a well-formed set.
\<close>

section \<open>Data\<close>

datatype panic = Panic string

record 'a or_set =
  or_elements :: "('a, version_vector) fmap"
  removed_dots :: "('a, version_vector) fmap"
  vvector :: version_vector
  delta_dirty :: bool

section \<open>Dots\<close>

definition single_dot :: "unique_address \<Rightarrow> u64 \<Rightarrow> version_vector" where
  "single_dot node version = vv_from_entries [(node, version)]"

definition next_dot_version :: "version_vector \<Rightarrow> unique_address \<Rightarrow> panic + u64" where
  "next_dot_version v node =
     (case checked_add (version_at v node) 1 of
        Some next \<Rightarrow> Inr next
      | None \<Rightarrow> Inl (Panic ''ORSet dot version overflow''))"

definition common_dots :: "version_vector \<Rightarrow> version_vector \<Rightarrow> version_vector" where
  "common_dots lhs rhs =
     vv_from_entries (filter (\<lambda>(node, version). version_at rhs node = version) (vv_entries lhs))"

definition unique_dots :: "version_vector \<Rightarrow> version_vector \<Rightarrow> version_vector" where
  "unique_dots dots other =
     vv_from_entries (filter (\<lambda>(node, version). version_at other node \<noteq> version) (vv_entries dots))"

definition observes_removed_dot :: "version_vector option \<Rightarrow> unique_address \<Rightarrow> u64 \<Rightarrow> bool" where
  "observes_removed_dot observed node version =
     (case observed of
        None \<Rightarrow> False
      | Some observed_removed_dots \<Rightarrow>
          version_at observed_removed_dots node \<ge> version \<or>
          (let pruned_node = pruning_node_for node in
           list_ex (\<lambda>(observed_node, observed_version).
               observed_version \<ge> version \<and>
               (observed_node = pruned_node \<or> pruning_node_for observed_node = node))
             (vv_entries observed_removed_dots)))"

definition subtract_observed_dots ::
    "version_vector \<Rightarrow> version_vector \<Rightarrow> version_vector option \<Rightarrow> version_vector" where
  "subtract_observed_dots dots observed_vvector observed_removed_dots =
     vv_from_entries (filter (\<lambda>(node, version).
         version_at observed_vvector node < version \<and>
         \<not> observes_removed_dot observed_removed_dots node version)
       (vv_entries dots))"

definition merge_removed_dot_entry ::
    "'a \<Rightarrow> version_vector \<Rightarrow> ('a, version_vector) fmap \<Rightarrow> ('a, version_vector) fmap" where
  "merge_removed_dot_entry element dots removed =
     upsert element (\<lambda>current. vv_merge current dots) dots removed"

definition merge_removed_dot_maps ::
    "('a::linorder, version_vector) fmap \<Rightarrow> ('a, version_vector) fmap \<Rightarrow> ('a, version_vector) fmap" where
  "merge_removed_dot_maps left right = for_each merge_removed_dot_entry right left"

definition prune_element_dots ::
    "version_vector \<Rightarrow> unique_address \<Rightarrow> unique_address \<Rightarrow> version_vector" where
  "prune_element_dots dots removed_node pruning_node =
     (let removed_version = version_at dots removed_node in
      if removed_version = 0 then dots
      else vv_from_entries
        (filter (\<lambda>(node, version). node \<noteq> removed_node) (vv_entries dots) @
         [(pruning_node, max (version_at dots pruning_node) removed_version)]))"

definition prune_removed_dots ::
    "version_vector \<Rightarrow> unique_address \<Rightarrow> unique_address \<Rightarrow> version_vector" where
  "prune_removed_dots dots removed_node pruning_node =
     (let removed_version = version_at dots removed_node in
      if removed_version = 0 then dots
      else vv_merge dots (single_dot pruning_node (max (version_at dots pruning_node) removed_version)))"

definition cleanup_version_vector :: "version_vector \<Rightarrow> unique_address \<Rightarrow> version_vector" where
  "cleanup_version_vector v removed_node =
     vv_from_entries (filter (\<lambda>(node, version). node \<noteq> removed_node) (vv_entries v))"

section \<open>Operations\<close>

definition or_new :: "'a or_set" where
  "or_new = \<lparr>or_elements = fmempty, removed_dots = fmempty, vvector = vv_new, delta_dirty = False\<rparr>"

definition or_add_at ::
    "'a or_set \<Rightarrow> unique_address \<Rightarrow> 'a \<Rightarrow> panic + 'a or_set" where
  "or_add_at s node element =
     and_then (next_dot_version (vvector s) node) (\<lambda>next.
       let dot = single_dot node next;
           vv = vv_merge (vvector s) dot;
           dots = (case fmlookup (or_elements s) element of
                     None \<Rightarrow> dot | Some current \<Rightarrow> vv_merge current dot)
       in Inr \<lparr>or_elements = fmupd element dots (or_elements s), removed_dots = removed_dots s,
               vvector = vv, delta_dirty = True\<rparr>)"

definition or_add :: "'a or_set \<Rightarrow> self_unique_address \<Rightarrow> 'a \<Rightarrow> panic + 'a or_set" where
  "or_add s node element = or_add_at s (unique_address_of node) element"

definition or_remove :: "'a or_set \<Rightarrow> 'a \<Rightarrow> 'a or_set" where
  "or_remove s element =
     (case fmlookup (or_elements s) element of
        None \<Rightarrow> s
      | Some observed_dots \<Rightarrow>
          \<lparr>or_elements = fmdrop element (or_elements s),
           removed_dots = merge_removed_dot_entry element observed_dots (removed_dots s),
           vvector = vvector s, delta_dirty = True\<rparr>)"

definition or_clear :: "'a::linorder or_set \<Rightarrow> 'a or_set" where
  "or_clear s =
     \<lparr>or_elements = fmempty,
      removed_dots = for_each merge_removed_dot_entry (or_elements s) (removed_dots s),
      vvector = vvector s, delta_dirty = True\<rparr>"

definition or_contains :: "'a or_set \<Rightarrow> 'a \<Rightarrow> bool" where
  "or_contains s element \<longleftrightarrow> contains_key (or_elements s) element"

definition or_element_set :: "'a or_set \<Rightarrow> 'a fset" where
  "or_element_set s = fmdom (or_elements s)"

definition or_is_empty :: "'a or_set \<Rightarrow> bool" where
  "or_is_empty s \<longleftrightarrow> or_elements s = fmempty"

definition or_len :: "'a::linorder or_set \<Rightarrow> nat" where
  "or_len s = length (entries (or_elements s))"

definition dots_for :: "'a or_set \<Rightarrow> 'a \<Rightarrow> version_vector option" where
  "dots_for s element = fmlookup (or_elements s) element"

definition removed_dots_for :: "'a or_set \<Rightarrow> 'a \<Rightarrow> version_vector option" where
  "removed_dots_for s element = fmlookup (removed_dots s) element"

text \<open>The three loops of \<open>merge\<close>: elements on both sides, only on the left, only on the right.\<close>

definition merge_common ::
    "'a::linorder or_set \<Rightarrow> 'a or_set \<Rightarrow> ('a, version_vector) fmap \<Rightarrow> ('a, version_vector) fmap" where
  "merge_common self other =
     for_each (\<lambda>element lhs_dots acc.
         case fmlookup (or_elements other) element of
           None \<Rightarrow> acc
         | Some rhs_dots \<Rightarrow>
             let common = common_dots lhs_dots rhs_dots;
                 lhs_keep = subtract_observed_dots (unique_dots lhs_dots rhs_dots) (vvector other)
                              (removed_dots_for other element);
                 rhs_keep = subtract_observed_dots (unique_dots rhs_dots lhs_dots) (vvector self)
                              (removed_dots_for self element);
                 merged = vv_merge (vv_merge lhs_keep rhs_keep) common
             in if \<not> vv_is_empty merged then fmupd element merged acc else acc)
       (or_elements self)"

definition merge_only_in ::
    "'a::linorder or_set \<Rightarrow> 'a or_set \<Rightarrow> ('a, version_vector) fmap \<Rightarrow> ('a, version_vector) fmap" where
  "merge_only_in this that =
     for_each (\<lambda>element dots acc.
         if contains_key (or_elements that) element then acc
         else
           let kept = subtract_observed_dots dots (vvector that) (removed_dots_for that element)
           in if \<not> vv_is_empty kept then fmupd element kept acc else acc)
       (or_elements this)"

definition or_merge :: "'a::linorder or_set \<Rightarrow> 'a or_set \<Rightarrow> 'a or_set" where
  "or_merge self other =
     \<lparr>or_elements =
        merge_only_in other self (merge_only_in self other (merge_common self other fmempty)),
      removed_dots = merge_removed_dot_maps (removed_dots self) (removed_dots other),
      vvector = vv_merge (vvector self) (vvector other),
      delta_dirty = delta_dirty self\<rparr>"

definition or_delta :: "'a or_set \<Rightarrow> 'a or_set option" where
  "or_delta s = (if delta_dirty s then Some (s\<lparr>delta_dirty := False\<rparr>) else None)"

definition or_merge_delta :: "'a::linorder or_set \<Rightarrow> 'a or_set \<Rightarrow> 'a or_set" where
  "or_merge_delta s d = or_merge s d"

definition or_reset_delta :: "'a or_set \<Rightarrow> 'a or_set" where
  "or_reset_delta s = s\<lparr>delta_dirty := False\<rparr>"

definition or_zero :: "'a or_set \<Rightarrow> 'a or_set" where
  "or_zero s = or_new"

definition or_modified_by_nodes :: "'a or_set \<Rightarrow> unique_address fset" where
  "or_modified_by_nodes s = vv_modified_by_nodes (vvector s)"

definition or_need_pruning_from :: "'a::linorder or_set \<Rightarrow> unique_address \<Rightarrow> bool" where
  "or_need_pruning_from s removed_node \<longleftrightarrow>
     vv_need_pruning_from (vvector s) removed_node \<or>
     list_ex (\<lambda>dots. vv_contains_node dots removed_node) (map_values (or_elements s))"

definition prune_elements_loop ::
    "unique_address \<Rightarrow> unique_address \<Rightarrow> ('a::linorder, version_vector) fmap \<Rightarrow>
      ('a, version_vector) fmap \<times> version_vector \<Rightarrow> ('a, version_vector) fmap \<times> version_vector" where
  "prune_elements_loop removed_node pruning_node =
     for_each (\<lambda>element dots (els, vv).
       let pruned = prune_element_dots dots removed_node pruning_node
       in (fmupd element pruned els, vv_merge vv pruned))"

definition prune_removed_loop ::
    "unique_address \<Rightarrow> unique_address \<Rightarrow> ('a::linorder, version_vector) fmap \<Rightarrow>
      ('a, version_vector) fmap \<times> version_vector \<Rightarrow> ('a, version_vector) fmap \<times> version_vector" where
  "prune_removed_loop removed_node pruning_node =
     for_each (\<lambda>element dots (removed, vv).
       let pruned = prune_removed_dots dots removed_node pruning_node
       in (fmupd element pruned removed, vv_merge vv (cleanup_version_vector pruned removed_node)))"

definition or_prune ::
    "'a::linorder or_set \<Rightarrow> unique_address \<Rightarrow> unique_address \<Rightarrow> unit + 'a or_set" where
  "or_prune s removed_node collapse_into =
     (if removed_node = collapse_into then Inr s
      else
        let pruning_node = pruning_node_for removed_node;
            vv0 = cleanup_version_vector (vvector s) removed_node;
            (els, vv1) = prune_elements_loop removed_node pruning_node (or_elements s) (fmempty, vv0);
            (removed, vv2) = prune_removed_loop removed_node pruning_node (removed_dots s) (fmempty, vv1);
            dirty = (delta_dirty s \<or> els \<noteq> or_elements s \<or> removed \<noteq> removed_dots s \<or> vv2 \<noteq> vvector s)
        in Inr \<lparr>or_elements = els, removed_dots = removed, vvector = vv2, delta_dirty = dirty\<rparr>)"

definition cleanup_dots_map ::
    "unique_address \<Rightarrow> ('a::linorder, version_vector) fmap \<Rightarrow> ('a, version_vector) fmap" where
  "cleanup_dots_map removed_node m =
     for_each (\<lambda>element dots acc.
         let cleaned = cleanup_version_vector dots removed_node
         in if \<not> vv_is_empty cleaned then fmupd element cleaned acc else acc)
       m fmempty"

definition or_pruning_cleanup :: "'a::linorder or_set \<Rightarrow> unique_address \<Rightarrow> 'a or_set" where
  "or_pruning_cleanup s removed_node =
     (let els = cleanup_dots_map removed_node (or_elements s);
          removed = cleanup_dots_map removed_node (removed_dots s);
          vv = cleanup_version_vector (vvector s) removed_node;
          dirty = (delta_dirty s \<or> els \<noteq> or_elements s \<or> removed \<noteq> removed_dots s \<or> vv \<noteq> vvector s)
      in \<lparr>or_elements = els, removed_dots = removed, vvector = vv, delta_dirty = dirty\<rparr>)"

definition or_eq :: "'a or_set \<Rightarrow> 'a or_set \<Rightarrow> bool" where
  "or_eq a b \<longleftrightarrow>
     or_elements a = or_elements b \<and> removed_dots a = removed_dots b \<and> vvector a = vvector b"

section \<open>The pointwise view\<close>

definition dots_in :: "('a, version_vector) fmap \<Rightarrow> 'a \<Rightarrow> unique_address \<Rightarrow> u64" where
  "dots_in m e n = (case fmlookup m e of None \<Rightarrow> 0 | Some dots \<Rightarrow> version_at dots n)"

abbreviation dot_at :: "'a or_set \<Rightarrow> 'a \<Rightarrow> unique_address \<Rightarrow> u64" where
  "dot_at s \<equiv> dots_in (or_elements s)"

abbreviation removed_at :: "'a or_set \<Rightarrow> 'a \<Rightarrow> unique_address \<Rightarrow> u64" where
  "removed_at s \<equiv> dots_in (removed_dots s)"

definition dots_wf :: "('a, version_vector) fmap \<Rightarrow> bool" where
  "dots_wf m \<longleftrightarrow> (\<forall>e dots. fmlookup m e = Some dots \<longrightarrow> vv_wf dots \<and> \<not> vv_is_empty dots)"

lemma dots_wfD: "dots_wf m \<Longrightarrow> fmlookup m e = Some dots \<Longrightarrow> vv_wf dots \<and> \<not> vv_is_empty dots"
  by (simp add: dots_wf_def)

lemma dots_wf_lookup:
  assumes "dots_wf m"
  shows "fmlookup m e = None \<longleftrightarrow> (\<forall>n. dots_in m e n = 0)"
proof (cases "fmlookup m e")
  case None
  then show ?thesis by (simp add: dots_in_def)
next
  case (Some dots)
  with assms have "vv_wf dots" "\<not> vv_is_empty dots" by (auto simp: dots_wf_def)
  with Some show ?thesis by (simp add: dots_in_def vv_is_empty_iff)
qed

lemma dots_wf_contains: "dots_wf m \<Longrightarrow> contains_key m e \<longleftrightarrow> (\<exists>n. dots_in m e n \<noteq> 0)"
  using dots_wf_lookup [of m e] by (auto simp: contains_key_def)

lemma dots_wf_eqI:
  assumes "dots_wf a" and "dots_wf b" and "\<And>e n. dots_in a e n = dots_in b e n"
  shows "a = b"
proof (rule fmap_ext)
  fix e
  show "fmlookup a e = fmlookup b e"
  proof (cases "fmlookup a e")
    case None
    then have "\<forall>n. dots_in b e n = 0"
      using dots_wf_lookup [OF assms(1)] assms(3) by simp
    with None show ?thesis using dots_wf_lookup [OF assms(2), of e] by simp
  next
    case (Some x)
    then obtain y where y: "fmlookup b e = Some y"
      using dots_wf_lookup [OF assms(1), of e] dots_wf_lookup [OF assms(2), of e] assms(3)
      by (cases "fmlookup b e") auto
    have "x = y"
    proof (rule vv_eqI)
      show "version_at x n = version_at y n" for n
        using Some y assms(3) [of e n] by (simp add: dots_in_def)
    qed (use Some y assms in \<open>auto simp: dots_wf_def\<close>)
    with Some y show ?thesis by simp
  qed
qed


text \<open>What each helper leaves under a node.\<close>

lemma version_at_single_dot [version_simps]:
  "version_at (single_dot node v) n = (if n = node then v else 0)"
  by (simp add: single_dot_def version_at_from_entries)

lemma version_at_common_dots [version_simps]:
  "version_at (common_dots a b) n = (if version_at b n = version_at a n then version_at a n else 0)"
  by (simp add: common_dots_def version_at_filter_entries)

lemma version_at_unique_dots [version_simps]:
  "version_at (unique_dots a b) n = (if version_at b n \<noteq> version_at a n then version_at a n else 0)"
  by (simp add: unique_dots_def version_at_filter_entries)

lemma version_at_subtract_observed [version_simps]:
  "version_at (subtract_observed_dots dots vv observed) n =
     (if version_at vv n < version_at dots n \<and> \<not> observes_removed_dot observed n (version_at dots n)
      then version_at dots n else 0)"
  by (simp add: subtract_observed_dots_def version_at_filter_entries)

lemma version_at_cleanup_vv [version_simps]:
  "version_at (cleanup_version_vector v r) n = (if n = r then 0 else version_at v n)"
  by (simp add: cleanup_version_vector_def version_at_filter_entries)

lemma version_at_prune_removed [version_simps]:
  "version_at (prune_removed_dots dots r p) n =
     (if n = p then max (version_at dots p) (version_at dots r) else version_at dots n)"
  by (auto simp: prune_removed_dots_def version_simps Let_def max_def)

lemma version_at_from_entries_snoc:
  "version_at (vv_from_entries (es @ [(m, v)])) n =
     (if n = m then max (version_at (vv_from_entries es) n) v else version_at (vv_from_entries es) n)"
  by (simp add: version_at_from_entries max.commute)

lemma version_at_prune_element [version_simps]:
  "r \<noteq> p \<Longrightarrow> version_at (prune_element_dots dots r p) n =
     (if n = r then 0
      else if n = p then max (version_at dots p) (version_at dots r)
      else version_at dots n)"
  by (auto simp: prune_element_dots_def version_at_from_entries_snoc version_at_filter_entries Let_def max_def)

lemma vv_wf_dots [wf_intros]:
  "vv_wf (single_dot n v)" "vv_wf (common_dots a b)" "vv_wf (unique_dots a b)"
  "vv_wf (subtract_observed_dots d vv o')" "vv_wf (cleanup_version_vector w r)"
  by (simp_all add: single_dot_def common_dots_def unique_dots_def subtract_observed_dots_def
      cleanup_version_vector_def)

lemma vv_wf_prune_dots [wf_intros]:
  "vv_wf d \<Longrightarrow> vv_wf (prune_element_dots d r p)" "vv_wf d \<Longrightarrow> vv_wf (prune_removed_dots d r p)"
  by (auto simp: prune_element_dots_def prune_removed_dots_def Let_def intro: wf_intros)

lemma observes_removed_dot_iff:
  assumes "dots_wf m" and "v \<noteq> 0"
  shows "observes_removed_dot (fmlookup m e) n v \<longleftrightarrow>
    v \<le> dots_in m e n \<or> (\<exists>k. v \<le> dots_in m e k \<and> (k = pruning_node_for n \<or> pruning_node_for k = n))"
proof (cases "fmlookup m e")
  case None
  with assms(2) show ?thesis by (simp add: observes_removed_dot_def dots_in_def)
next
  case (Some dots)
  then have wf: "vv_wf dots" using assms(1) by (auto simp: dots_wf_def)
  have "(k, w) \<in> set (vv_entries dots) \<and> v \<le> w \<longleftrightarrow> w = version_at dots k \<and> v \<le> w" for k w
    using wf assms(2) by (auto simp: vv_entries_def set_entries lookup_eq_version_at)
  then have "list_ex (\<lambda>(k, w). v \<le> w \<and> (k = pruning_node_for n \<or> pruning_node_for k = n)) (vv_entries dots)
      \<longleftrightarrow> (\<exists>k. v \<le> version_at dots k \<and> (k = pruning_node_for n \<or> pruning_node_for k = n))"
    unfolding list_ex_iff by (simp add: Bex_def) metis
  with Some show ?thesis by (simp add: observes_removed_dot_def dots_in_def)
qed

lemma dots_in_upd [simp]: "dots_in (fmupd e d m) e' n = (if e' = e then version_at d n else dots_in m e' n)"
  by (simp add: dots_in_def)

lemma dots_in_drop [simp]: "dots_in (fmdrop e m) e' n = (if e' = e then 0 else dots_in m e' n)"
  by (simp add: dots_in_def)

lemma dots_in_empty [simp]: "dots_in fmempty e n = 0"
  by (simp add: dots_in_def)

lemma dots_in_merge_entry:
  "dots_in (merge_removed_dot_entry e d m) e' n =
     (if e' = e then max (dots_in m e n) (version_at d n) else dots_in m e' n)"
  by (auto simp: merge_removed_dot_entry_def dots_in_def lookup_simps version_simps split: option.splits)

lemma dots_in_merge_entries:
  "dots_in (for_each merge_removed_dot_entry r l) e n = max (dots_in l e n) (dots_in r e n)"
proof -
  have "fmlookup (for_each merge_removed_dot_entry r l) e =
      (case fmlookup r e of None \<Rightarrow> fmlookup l e
       | Some d \<Rightarrow> Some (case fmlookup l e of None \<Rightarrow> d | Some c \<Rightarrow> vv_merge c d))"
    by (subst look_for_each [where look = fmlookup and
          g = "\<lambda>e d c. Some (case c of None \<Rightarrow> d | Some c \<Rightarrow> vv_merge c d)"])
      (auto simp: merge_removed_dot_entry_def lookup_simps split: option.splits)
  then show ?thesis
    by (auto simp: dots_in_def version_simps split: option.splits)
qed

lemma dots_wf_empty [simp]: "dots_wf fmempty"
  by (simp add: dots_wf_def)

lemma dots_wf_upd: "dots_wf m \<Longrightarrow> vv_wf d \<Longrightarrow> \<not> vv_is_empty d \<Longrightarrow> dots_wf (fmupd e d m)"
  by (simp add: dots_wf_def)

lemma dots_wf_drop: "dots_wf m \<Longrightarrow> dots_wf (fmdrop e m)"
  by (simp add: dots_wf_def)

lemma vv_merge_not_empty: "vv_wf a \<Longrightarrow> \<not> vv_is_empty a \<Longrightarrow> \<not> vv_is_empty (vv_merge a b)"
  by (auto simp: vv_is_empty_iff vv_wf_merge version_simps max_def) (metis word_zero_le antisym)

lemma dots_wf_merge_entry:
  "dots_wf m \<Longrightarrow> vv_wf d \<Longrightarrow> \<not> vv_is_empty d \<Longrightarrow> dots_wf (merge_removed_dot_entry e d m)"
  by (auto simp: dots_wf_def merge_removed_dot_entry_def lookup_simps vv_merge_not_empty
      intro: wf_intros split: option.splits)

lemma dots_wf_merge_entries: "dots_wf l \<Longrightarrow> dots_wf r \<Longrightarrow> dots_wf (for_each merge_removed_dot_entry r l)"
  by (rule for_each_invariant) (auto intro: dots_wf_merge_entry dest: dots_wfD)

text \<open>The merge, one element and one node at a time.\<close>

definition surviving_dot :: "version_vector \<Rightarrow> ('a, version_vector) fmap \<Rightarrow> 'a \<Rightarrow> unique_address \<Rightarrow> u64 \<Rightarrow> u64" where
  "surviving_dot vv removed e n v =
     (if version_at vv n < v \<and> \<not> observes_removed_dot (fmlookup removed e) n v then v else 0)"

lemma lookup_merge_common:
  "fmlookup (merge_common s t fmempty) e =
     (case (fmlookup (or_elements s) e, fmlookup (or_elements t) e) of
        (Some l, Some r) \<Rightarrow>
          let m = vv_merge (vv_merge
                (subtract_observed_dots (unique_dots l r) (vvector t) (fmlookup (removed_dots t) e))
                (subtract_observed_dots (unique_dots r l) (vvector s) (fmlookup (removed_dots s) e)))
              (common_dots l r)
          in if vv_is_empty m then None else Some m
      | _ \<Rightarrow> None)"
  unfolding merge_common_def
  by (subst look_for_each [where look = fmlookup and g = "\<lambda>e l c. case fmlookup (or_elements t) e of None \<Rightarrow> c
        | Some r \<Rightarrow> let m = vv_merge (vv_merge
              (subtract_observed_dots (unique_dots l r) (vvector t) (fmlookup (removed_dots t) e))
              (subtract_observed_dots (unique_dots r l) (vvector s) (fmlookup (removed_dots s) e)))
            (common_dots l r) in if vv_is_empty m then c else Some m"])
    (auto simp: Let_def removed_dots_for_def split: option.splits)

lemma lookup_merge_only_in:
  "fmlookup (merge_only_in s t acc) e =
     (case fmlookup (or_elements s) e of None \<Rightarrow> fmlookup acc e
      | Some l \<Rightarrow> if contains_key (or_elements t) e then fmlookup acc e
          else let k = subtract_observed_dots l (vvector t) (fmlookup (removed_dots t) e)
               in if vv_is_empty k then fmlookup acc e else Some k)"
  unfolding merge_only_in_def
  by (subst look_for_each [where look = fmlookup and g = "\<lambda>e l c. if contains_key (or_elements t) e then c
        else let k = subtract_observed_dots l (vvector t) (fmlookup (removed_dots t) e)
             in if vv_is_empty k then c else Some k"])
    (auto simp: Let_def removed_dots_for_def split: option.splits)

lemma version_at_nonempty:
  "(case (if vv_is_empty v then None else Some v) of None \<Rightarrow> 0 | Some d \<Rightarrow> version_at d n) = version_at v n"
  by (simp add: vv_is_empty_def version_at_alt)


lemma dot_at_merge:
  "dot_at (or_merge s t) e n =
     (let a = dot_at s e n; b = dot_at t e n in
      if a = b then a
      else max (surviving_dot (vvector t) (removed_dots t) e n a)
               (surviving_dot (vvector s) (removed_dots s) e n b))"
proof -
  show ?thesis
    unfolding or_merge_def dots_in_def or_set.simps lookup_merge_only_in lookup_merge_common
    by (cases "fmlookup (or_elements s) e"; cases "fmlookup (or_elements t) e")
      (simp_all only: option.case prod.case contains_key_def Let_def if_True if_False simp_thms
        option.distinct version_at_nonempty version_simps surviving_dot_def,
       simp_all add: version_simps)
qed

lemma removed_at_merge: "removed_at (or_merge s t) e n = max (removed_at s e n) (removed_at t e n)"
  by (simp add: or_merge_def merge_removed_dot_maps_def dots_in_merge_entries)

lemma vvector_merge: "vvector (or_merge s t) = vv_merge (vvector s) (vvector t)"
  by (simp add: or_merge_def)

section \<open>Well-formed sets\<close>

text \<open>
  \<open>or_wf\<close> holds of every set the operations build, pruned or not. \<open>or_live\<close> is the state of a set
  whose dots all belong to confirmed members and whose tombstones are all in its causal history:
  what every set is until a node is pruned.
\<close>

definition or_wf :: "'a or_set \<Rightarrow> bool" where
  "or_wf s \<longleftrightarrow> dots_wf (or_elements s) \<and> dots_wf (removed_dots s) \<and> vv_wf (vvector s) \<and>
     (\<forall>e n. dot_at s e n \<le> version_at (vvector s) n)"

definition or_live :: "'a or_set \<Rightarrow> bool" where
  "or_live s \<longleftrightarrow> or_wf s \<and> (\<forall>e n. removed_at s e n \<le> version_at (vvector s) n) \<and>
     (\<forall>n. version_at (vvector s) n \<noteq> 0 \<longrightarrow> confirmed n)"

lemma or_eqI:
  assumes "or_wf s" and "or_wf t" and "\<And>e n. dot_at s e n = dot_at t e n"
    and "\<And>e n. removed_at s e n = removed_at t e n"
    and "\<And>n. version_at (vvector s) n = version_at (vvector t) n"
  shows "or_eq s t"
  using assms unfolding or_eq_def or_wf_def by (auto intro: dots_wf_eqI vv_eqI)

lemma dots_wf_merge_loops:
  assumes "dots_wf acc"
  shows "dots_wf (merge_common s t acc)" and "dots_wf (merge_only_in s t acc)"
  using assms
  by (auto simp: merge_common_def merge_only_in_def Let_def
      intro!: for_each_invariant [where P = dots_wf] dots_wf_upd wf_intros split: option.splits)

lemma surviving_dot_le: "surviving_dot vv r e n v \<le> v"
  by (simp add: surviving_dot_def)

lemma or_wf_merge:
  assumes "or_wf s" and "or_wf t"
  shows "or_wf (or_merge s t)"
proof -
  have b: "dot_at (or_merge s t) e n \<le> max (dot_at s e n) (dot_at t e n)" for e n
    using surviving_dot_le [of "vvector t" "removed_dots t" e n "dot_at s e n"]
      surviving_dot_le [of "vvector s" "removed_dots s" e n "dot_at t e n"]
    by (auto simp: dot_at_merge Let_def max_def)
  have "max (dot_at s e n) (dot_at t e n) \<le> version_at (vvector (or_merge s t)) n" for e n
    using assms by (auto simp: or_wf_def vvector_merge version_simps intro: max.coboundedI1 max.coboundedI2)
  with b have "dot_at (or_merge s t) e n \<le> version_at (vvector (or_merge s t)) n" for e n
    by (rule order_trans)
  moreover have "dots_wf (or_elements (or_merge s t))"
    by (simp add: or_merge_def dots_wf_merge_loops)
  moreover have "dots_wf (removed_dots (or_merge s t))" "vv_wf (vvector (or_merge s t))"
    using assms by (auto simp: or_merge_def or_wf_def merge_removed_dot_maps_def dots_wf_merge_entries vv_wf_merge)
  ultimately show ?thesis by (simp add: or_wf_def)
qed

text \<open>On live sets the tombstones add nothing to what the version vector knows.\<close>

lemma surviving_dot_live:
  assumes "or_live s" and "v \<noteq> 0 \<longrightarrow> confirmed n"
  shows "surviving_dot (vvector s) (removed_dots s) e n v = (if version_at (vvector s) n < v then v else 0)"
proof -
  have "\<not> observes_removed_dot (fmlookup (removed_dots s) e) n v" if v: "version_at (vvector s) n < v"
  proof
    assume obs: "observes_removed_dot (fmlookup (removed_dots s) e) n v"
    have "v \<noteq> 0" using v by auto
    moreover have "dots_wf (removed_dots s)" using assms(1) by (simp add: or_live_def or_wf_def)
    ultimately consider "v \<le> removed_at s e n"
      | k where "v \<le> removed_at s e k" "k = pruning_node_for n \<or> pruning_node_for k = n"
      using obs by (auto simp: observes_removed_dot_iff)
    then show False
    proof cases
      case 1
      moreover have "removed_at s e n \<le> version_at (vvector s) n" using assms(1) by (simp add: or_live_def)
      ultimately show False using v by simp
    next
      case (2 k)
      with \<open>v \<noteq> 0\<close> assms(1) have "version_at (vvector s) k \<noteq> 0"
        unfolding or_live_def by (metis order_trans word_le_0_iff)
      with assms(1) have "confirmed k" by (simp add: or_live_def)
      with 2(2) assms(2) \<open>v \<noteq> 0\<close> show False by auto
    qed
  qed
  then show ?thesis by (simp add: surviving_dot_def)
qed

text \<open>One slot of the merge: a dot known on both sides stays, any other only if unseen.\<close>

definition orswot :: "u64 \<times> u64 \<Rightarrow> u64 \<times> u64 \<Rightarrow> u64" where
  "orswot x y = (let (a, va) = x; (b, vb) = y in
     if a = b then a else if a > vb then a else if b > va then b else 0)"

lemma dot_le_vvector: "or_live s \<Longrightarrow> dot_at s e n \<le> version_at (vvector s) n"
  by (simp add: or_live_def or_wf_def)

lemma dot_at_merge_live:
  assumes "or_live s" and "or_live t"
  shows "dot_at (or_merge s t) e n =
    orswot (dot_at s e n, version_at (vvector s) n) (dot_at t e n, version_at (vvector t) n)"
proof -
  have c: "dot_at x e n \<noteq> 0 \<longrightarrow> confirmed n" if "or_live x" for x :: "'a or_set"
    using that dot_le_vvector [OF that, of e n] unfolding or_live_def by (metis word_le_0_iff)
  have "surviving_dot (vvector t) (removed_dots t) e n (dot_at s e n) =
      (if version_at (vvector t) n < dot_at s e n then dot_at s e n else 0)"
    "surviving_dot (vvector s) (removed_dots s) e n (dot_at t e n) =
      (if version_at (vvector s) n < dot_at t e n then dot_at t e n else 0)"
    by (rule surviving_dot_live [OF assms(2) c [OF assms(1)]],
        rule surviving_dot_live [OF assms(1) c [OF assms(2)]])
  then show ?thesis
    using dot_le_vvector [OF assms(1), of e n] dot_le_vvector [OF assms(2), of e n]
    by (auto simp: dot_at_merge orswot_def Let_def max_def)
qed

lemma orswot_commute:
  "a \<le> va \<Longrightarrow> b \<le> vb \<Longrightarrow> orswot (a, va) (b, vb) = orswot (b, vb) (a, va)"
  by (auto simp: orswot_def)

lemma orswot_unseen:
  assumes "vb < v" and "b \<le> vb"
  shows "orswot (v, v) (b, vb) \<noteq> 0" and "orswot (b, vb) (v, v) \<noteq> 0"
  using assms by (auto simp: orswot_def)

lemma orswot_idem: "orswot (a, va) (a, vb) = a"
  by (simp add: orswot_def)

lemma orswot_eq_iff:
  assumes "a \<le> va" and "b \<le> vb" and "d \<noteq> 0"
  shows "orswot (a, va) (b, vb) = d \<longleftrightarrow> (a = d \<and> (b = d \<or> vb < d)) \<or> (b = d \<and> va < d)"
  using assms by (auto simp: orswot_def not_less)

lemma orswot_keeps:
  assumes "a \<le> va" and "b \<le> vb"
  shows "a \<noteq> 0 \<Longrightarrow> orswot (a, va) (b, vb) = a \<longleftrightarrow> b = a \<or> vb < a"
    and "b \<noteq> 0 \<Longrightarrow> orswot (a, va) (b, vb) = b \<longleftrightarrow> a = b \<or> va < b"
  using assms by (auto simp: orswot_eq_iff)

lemma orswot_le: "a \<le> va \<Longrightarrow> b \<le> vb \<Longrightarrow> orswot (a, va) (b, vb) \<le> max va vb"
  by (auto simp: orswot_def le_max_iff_disj)

lemma orswot_assoc:
  assumes "a \<le> va" and "b \<le> vb" and "c \<le> vc"
  shows "orswot (orswot (a, va) (b, vb), max va vb) (c, vc) =
    orswot (a, va) (orswot (b, vb) (c, vc), max vb vc)" (is "?l = ?r")
proof -
  have "?l = d \<longleftrightarrow> ?r = d" if "d \<noteq> 0" for d
    using assms that
    by (simp add: orswot_eq_iff orswot_le) (use assms in \<open>auto simp: not_less\<close>)
  then show ?thesis by metis
qed


section \<open>The contracts of a live set\<close>

lemma or_live_merge:
  assumes "or_live s" and "or_live t"
  shows "or_live (or_merge s t)"
proof -
  have "removed_at (or_merge s t) e n \<le> version_at (vvector (or_merge s t)) n" for e n
    using assms
    by (auto simp: or_live_def removed_at_merge vvector_merge version_simps intro: max.coboundedI1 max.coboundedI2)
  then show ?thesis
    using assms or_wf_merge [of s t]
    by (auto simp: or_live_def vvector_merge version_simps max_def split: if_splits)
qed

lemma or_eq_merge_cong: "or_eq s s' \<Longrightarrow> or_eq t t' \<Longrightarrow> or_eq (or_merge s t) (or_merge s' t')"
  unfolding or_eq_def or_merge_def merge_common_def merge_only_in_def removed_dots_for_def
  by (simp cong del: if_weak_cong option.case_cong_weak)

lemma or_live_wf: "or_live s \<Longrightarrow> or_wf s"
  by (simp add: or_live_def)

interpretation or_data: replicated_data or_live or_eq or_merge
proof
  fix a b c :: "'a or_set"
  assume live: "or_live a" "or_live b"
  show "or_live (or_merge a b)" using live by (rule or_live_merge)
  show "or_eq (or_merge a b) (or_merge b a)"
    using live by (intro or_eqI)
      (auto simp: dot_at_merge_live removed_at_merge vvector_merge version_simps max.commute
        intro: or_live_wf or_live_merge dot_le_vvector orswot_commute)
  show "or_eq (or_merge (or_merge a b) c) (or_merge a (or_merge b c))" if "or_live c"
    using live that by (intro or_eqI)
      (auto simp: dot_at_merge_live or_live_merge removed_at_merge vvector_merge version_simps max.assoc
        intro: or_live_wf or_live_merge dot_le_vvector orswot_assoc)
next
  show "or_eq (or_merge a a) a" if "or_live a" for a :: "'a or_set"
    using that by (intro or_eqI)
      (auto simp: dot_at_merge_live or_live_merge orswot_idem removed_at_merge vvector_merge version_simps
        intro: or_live_wf or_live_merge)
  show "or_eq (or_merge a b) (or_merge a' b')" if "or_eq a a'" "or_eq b b'" for a b a' b' :: "'a or_set"
    using that by (rule or_eq_merge_cong)
qed (auto simp: or_eq_def)

text \<open>The local updates: an add by a confirmed member, a remove, a clear.\<close>

definition or_update :: "'a::linorder or_set \<Rightarrow> 'a or_set \<Rightarrow> bool" where
  "or_update s s' \<longleftrightarrow>
     (\<exists>node e. confirmed (unique_address_of node) \<and> or_add s node e = Inr s') \<or>
     (\<exists>e. s' = or_remove s e) \<or> s' = or_clear s"

lemma or_add_Inr:
  assumes "or_add_at s node e = Inr s'"
  shows "\<exists>v. unat v = unat (version_at (vvector s) node) + 1 \<and>
    s' = \<lparr>or_elements = fmupd e (case fmlookup (or_elements s) e of None \<Rightarrow> single_dot node v
            | Some d \<Rightarrow> vv_merge d (single_dot node v)) (or_elements s),
          removed_dots = removed_dots s, vvector = vv_merge (vvector s) (single_dot node v),
          delta_dirty = True\<rparr>"
  using assms
  by (auto simp: or_add_at_def next_dot_version_def and_then_eq_Inr Let_def checked_add_Some_iff
      split: option.splits)

lemma add_version_greater:
  "unat (v :: u64) = unat w + 1 \<Longrightarrow> w < v \<and> v \<noteq> 0"
  by (auto simp: word_less_nat_alt)

lemma or_add_effect:
  assumes "or_wf s" and "or_add_at s node e = Inr s'"
  obtains v where "version_at (vvector s) node < v"
    and "\<And>n. version_at (vvector s') n = (if n = node then v else version_at (vvector s) n)"
    and "\<And>e' n. dot_at s' e' n = (if e' = e \<and> n = node then v else dot_at s e' n)"
    and "\<And>e' n. removed_at s' e' n = removed_at s e' n" and "or_wf s'"
proof -
  from or_add_Inr [OF assms(2)] obtain v where v: "unat v = unat (version_at (vvector s) node) + 1"
    and s': "s' = \<lparr>or_elements = fmupd e (case fmlookup (or_elements s) e of None \<Rightarrow> single_dot node v
            | Some d \<Rightarrow> vv_merge d (single_dot node v)) (or_elements s),
          removed_dots = removed_dots s, vvector = vv_merge (vvector s) (single_dot node v),
          delta_dirty = True\<rparr>" by blast
  from v have gt: "version_at (vvector s) node < v" "v \<noteq> 0" using add_version_greater [OF v] by simp_all
  have le: "dot_at s e' n \<le> version_at (vvector s) n" for e' n
    using assms(1) by (simp add: or_wf_def)
  have vv: "version_at (vvector s') n = (if n = node then v else version_at (vvector s) n)" for n
    using gt by (auto simp: s' version_simps max_def)
  have dots: "dot_at s' e' n = (if e' = e \<and> n = node then v else dot_at s e' n)" for e' n
    using le [of e node] gt
    by (auto simp: s' version_simps max_def dots_in_def split: option.splits)
  have ne: "\<not> vv_is_empty (single_dot node v)"
    using gt(2) vv_is_empty_iff [of "single_dot node v"] by (auto simp: version_simps vv_wf_dots)
  have "dots_wf (or_elements s')"
    using assms(1) ne unfolding s' or_wf_def
    by (auto intro!: dots_wf_upd wf_intros dest: dots_wfD vv_merge_not_empty [rotated] split: option.splits)
  moreover have "dot_at s' e' n \<le> version_at (vvector s') n" for e' n
    using le [of e' n] gt by (auto simp: dots vv)
  ultimately have "or_wf s'"
    using assms(1) by (auto simp: or_wf_def s' intro: wf_intros)
  then show thesis
    using gt(1) vv dots by (intro that [of v]) (auto simp: s')
qed


lemma or_remove_effect:
  assumes "or_wf s"
  shows "dot_at (or_remove s e) e' n = (if e' = e then 0 else dot_at s e' n)"
    and "removed_at (or_remove s e) e' n =
      (if e' = e then max (removed_at s e n) (dot_at s e n) else removed_at s e' n)"
    and "vvector (or_remove s e) = vvector s" and "or_wf (or_remove s e)"
proof -
  show d: "dot_at (or_remove s e) e' n = (if e' = e then 0 else dot_at s e' n)" for e' n
    by (auto simp: or_remove_def dots_in_def split: option.splits)
  show "removed_at (or_remove s e) e' n =
      (if e' = e then max (removed_at s e n) (dot_at s e n) else removed_at s e' n)"
    by (auto simp: or_remove_def dots_in_merge_entry max_def dots_in_def [of "or_elements s"] split: option.splits)
  show v: "vvector (or_remove s e) = vvector s"
    by (simp add: or_remove_def split: option.splits)
  have "dots_wf (or_elements (or_remove s e))" "dots_wf (removed_dots (or_remove s e))"
    using assms by (auto simp: or_remove_def or_wf_def dots_wf_drop dots_wf_merge_entry
        dest: dots_wfD split: option.splits)
  then show "or_wf (or_remove s e)"
    using assms by (simp add: or_wf_def d v)
qed

lemma or_clear_effect:
  assumes "or_wf s"
  shows "dot_at (or_clear s) e n = 0"
    and "removed_at (or_clear s) e n = max (removed_at s e n) (dot_at s e n)"
    and "vvector (or_clear s) = vvector s" and "or_wf (or_clear s)"
  using assms by (simp_all add: or_clear_def dots_in_merge_entries or_wf_def dots_wf_merge_entries)

text \<open>A set is below another if it lost only dots the other has seen and gained only new ones.\<close>

lemma or_belowI:
  assumes live: "or_live s" "or_live s'"
    and "\<And>e n. removed_at s e n \<le> removed_at s' e n"
    and vv: "\<And>n. version_at (vvector s) n \<le> version_at (vvector s') n"
    and new: "\<And>e n. dot_at s' e n \<noteq> dot_at s e n \<Longrightarrow> dot_at s' e n \<noteq> 0 \<Longrightarrow>
      version_at (vvector s) n < dot_at s' e n"
  shows "or_data.below s s'"
  unfolding or_data.below_def
proof (rule or_eqI)
  fix e n
  have "dot_at s e n \<le> version_at (vvector s') n"
    using dot_le_vvector [OF live(1), of e n] vv [of n] by (rule order_trans)
  then show "dot_at (or_merge s s') e n = dot_at s' e n"
    using new [of e n] by (cases "dot_at s' e n = 0") (auto simp: dot_at_merge_live live orswot_def not_less)
qed (use assms in \<open>auto simp: removed_at_merge vvector_merge version_simps max_absorb2
    intro: or_live_wf or_live_merge\<close>)

lemma or_update_live:
  assumes "or_live s" and "or_update s s'"
  shows "or_live s'" and "or_data.below s s'"
proof -
  note wf = or_live_wf [OF assms(1)]
  have le: "removed_at s e n \<le> version_at (vvector s) n" "dot_at s e n \<le> version_at (vvector s) n" for e n
    using assms(1) by (auto simp: or_live_def or_wf_def)
  consider node e where "confirmed (unique_address_of node)" "or_add s node e = Inr s'"
    | e where "s' = or_remove s e" | "s' = or_clear s"
    using assms(2) by (auto simp: or_update_def)
  then have "or_live s' \<and> or_data.below s s'"
  proof cases
    case (1 node e)
    obtain v where v: "version_at (vvector s) (unique_address_of node) < v"
      and e: "\<And>n. version_at (vvector s') n = (if n = unique_address_of node then v else version_at (vvector s) n)"
        "\<And>e' n. dot_at s' e' n = (if e' = e \<and> n = unique_address_of node then v else dot_at s e' n)"
        "\<And>e' n. removed_at s' e' n = removed_at s e' n" and wf': "or_wf s'"
      by (rule or_add_effect [OF wf 1(2) [unfolded or_add_def]]) (rule that)
    have "removed_at s e' n \<le> version_at (vvector s') n" for e' n
      using le(1) [of e' n] v by (auto simp: e)
    then have live: "or_live s'"
      using assms(1) 1(1) wf' by (auto simp: or_live_def e)
    moreover have "or_data.below s s'"
      using v by (intro or_belowI [OF assms(1) live]) (auto simp: e)
    ultimately show ?thesis ..
  next
    case (2 e)
    have live: "or_live s'"
      using assms(1) le or_remove_effect [OF wf] by (auto simp: or_live_def 2)
    moreover have "or_data.below s s'"
      by (intro or_belowI [OF assms(1) live]) (auto simp: 2 or_remove_effect [OF wf])
    ultimately show ?thesis ..
  next
    case 3
    have live: "or_live s'"
      using assms(1) le or_clear_effect [OF wf] by (auto simp: or_live_def 3)
    moreover have "or_data.below s s'"
      by (intro or_belowI [OF assms(1) live]) (auto simp: 3 or_clear_effect [OF wf])
    ultimately show ?thesis ..
  qed
  then show "or_live s'" "or_data.below s s'" by auto
qed


interpretation or_data: delta_replicated_data or_live or_eq or_merge or_delta or_merge_delta
  or_reset_delta or_update
proof
  fix s :: "'a or_set"
  show "or_live s \<Longrightarrow> or_live (or_reset_delta s)"
    by (simp add: or_live_def or_wf_def or_reset_delta_def)
  show "or_eq (or_reset_delta s) s" "or_delta (or_reset_delta s) = None"
    by (simp_all add: or_eq_def or_reset_delta_def or_delta_def)
  show "or_live d" if "or_live s" "or_delta s = Some d" for d
    using that by (auto simp: or_delta_def or_live_def or_wf_def split: if_splits)
  show "or_eq (or_merge_delta s d) (or_merge s d)" for d
    by (simp add: or_merge_delta_def or_eq_def)
  show "or_live s'" if "or_live s" "or_update s s'" for s'
    using that by (rule or_update_live)
next
  fix b s s' :: "'a or_set"
  assume live: "or_live b" "or_live s" and upd: "or_update s s'"
    and cov: "or_eq s (case or_delta s of None \<Rightarrow> b | Some d \<Rightarrow> or_merge b d)"
  have self: "or_eq (or_merge b x) (or_merge b (x\<lparr>delta_dirty := False\<rparr>))" for x :: "'a or_set"
    by (rule or_eq_merge_cong) (simp_all add: or_eq_def)
  have "or_data.below b s"
    using cov or_data.merge_idem [OF live(1)] self [of s] or_eq_merge_cong [of b b s b]
    unfolding or_data.below_def or_delta_def
    by (auto split: if_splits intro: or_data.eqv_trans or_data.eqv_sym simp: or_data.eqv_refl)
  then have bs: "or_data.below b s'"
    using or_data.below_trans [OF _ or_update_live(2) [OF live(2) upd] live or_update_live(1) [OF live(2) upd]]
    by simp
  have "delta_dirty s' \<or> s' = s"
    using upd by (auto simp: or_update_def or_add_def or_remove_def or_clear_def dest!: or_add_Inr
        split: option.splits)
  then show "or_eq s' (case or_delta s' of None \<Rightarrow> b | Some d \<Rightarrow> or_merge b d)"
  proof
    assume "s' = s"
    with cov show ?thesis by simp
  next
    assume "delta_dirty s'"
    then show ?thesis
      using bs self [of s'] unfolding or_data.below_def or_delta_def
      by (auto intro: or_data.eqv_trans or_data.eqv_sym)
  qed
qed


section \<open>Pruning\<close>

text \<open>The loops of \<open>prune\<close> rewrite each entry and raise the version vector to cover it.\<close>

lemma lookup_prune_loop:
  "fmlookup (fst (for_each (\<lambda>e d (m, vv). (fmupd e (f d) m, vv_merge vv (g d))) m (m0, vv0))) e =
     (case fmlookup m e of None \<Rightarrow> fmlookup m0 e | Some d \<Rightarrow> Some (f d))"
  by (subst look_for_each [where look = "\<lambda>s. fmlookup (fst s)" and g = "\<lambda>_ d _. Some (f d)"])
    (auto split: prod.splits option.splits)

lemma prune_loop_vvector:
  fixes m :: "('a::linorder, version_vector) fmap"
    and f :: "version_vector \<Rightarrow> version_vector"
  shows
  "version_at (snd (for_each (\<lambda>e d (m, vv). (fmupd e (f d) m, vv_merge vv (g d))) m (m0, vv0))) n \<le> b \<longleftrightarrow>
     version_at vv0 n \<le> b \<and> (\<forall>e d. fmlookup m e = Some d \<longrightarrow> version_at (g d) n \<le> b)"
proof -
  have "version_at (snd (fold (\<lambda>(e, d) (m, vv). (fmupd e (f d) m, vv_merge vv (g d))) es (m0, vv0))) n \<le> b \<longleftrightarrow>
     version_at vv0 n \<le> b \<and> (\<forall>e d. (e, d) \<in> set es \<longrightarrow> version_at (g d) n \<le> b)" for es :: "('a \<times> version_vector) list"
    by (induction es arbitrary: m0 vv0) (auto simp: version_simps)
  then show ?thesis by (simp add: for_each_def set_entries)
qed

lemma prune_loop_vv_wf:
  "vv_wf vv0 \<Longrightarrow> vv_wf (snd (for_each (\<lambda>e d (m, vv). (fmupd e (f d) m, vv_merge vv (g d))) m (m0, vv0)))"
  by (rule for_each_invariant [where P = "\<lambda>s. vv_wf (snd s)"]) (auto intro: wf_intros split: prod.splits)

lemma prune_dots_not_empty:
  assumes "vv_wf d" and "\<not> vv_is_empty d" and "r \<noteq> p"
  shows "\<not> vv_is_empty (prune_element_dots d r p)" and "\<not> vv_is_empty (prune_removed_dots d r p)"
proof -
  from assms(1,2) obtain n where n: "version_at d n \<noteq> 0" by (auto simp: vv_is_empty_iff)
  show "\<not> vv_is_empty (prune_removed_dots d r p)"
    using n assms by (auto simp: vv_is_empty_iff vv_wf_prune_dots version_simps max_def intro!: exI [of _ n])
  show "\<not> vv_is_empty (prune_element_dots d r p)"
    using n assms
    by (cases "n = r") (auto simp: vv_is_empty_iff vv_wf_prune_dots version_simps max_def intro!: exI [of _ "if n = r then p else n"])
qed

lemma dots_wf_map:
  assumes "dots_wf m" and "\<And>e. fmlookup m' e = map_option f (fmlookup m e)"
    and "\<And>d. vv_wf d \<Longrightarrow> \<not> vv_is_empty d \<Longrightarrow> vv_wf (f d) \<and> \<not> vv_is_empty (f d)"
  shows "dots_wf m'"
  using assms by (auto simp: dots_wf_def)

text \<open>What \<open>prune\<close> does, one element and one node at a time.\<close>

lemma or_prune_effect:
  assumes wf: "or_wf s" and "r \<noteq> c" and "or_prune s r c = Inr s'"
  shows "dot_at s' e n =
      (if n = r then 0
       else if n = pruning_node_for r then max (dot_at s e n) (dot_at s e r) else dot_at s e n)"
    and "removed_at s' e n =
      (if n = pruning_node_for r then max (removed_at s e n) (removed_at s e r) else removed_at s e n)"
    and "version_at (vvector s') n \<le> b \<longleftrightarrow>
      (n = r \<or> version_at (vvector s) n \<le> b) \<and> (\<forall>e. dot_at s' e n \<le> b) \<and>
      (n = r \<or> (\<forall>e. removed_at s' e n \<le> b))"
    and "fmdom (or_elements s') = fmdom (or_elements s)"
    and "or_wf s'"
proof -
  define p where "p = pruning_node_for r"
  have rp: "r \<noteq> p" "p \<noteq> r" by (simp_all add: p_def)
  define E where "E = for_each (\<lambda>e d (m, vv). (fmupd e (prune_element_dots d r p) m,
      vv_merge vv (prune_element_dots d r p))) (or_elements s) (fmempty, cleanup_version_vector (vvector s) r)"
  define R where "R = for_each (\<lambda>e d (m, vv). (fmupd e (prune_removed_dots d r p) m,
      vv_merge vv (cleanup_version_vector (prune_removed_dots d r p) r))) (removed_dots s) (fmempty, snd E)"
  have s': "or_elements s' = fst E" "removed_dots s' = fst R" "vvector s' = snd R"
    using assms(2,3)
    by (auto simp: or_prune_def Let_def prune_elements_loop_def prune_removed_loop_def E_def R_def p_def
        split: prod.splits)
  have lookE: "fmlookup (or_elements s') e = map_option (\<lambda>d. prune_element_dots d r p) (fmlookup (or_elements s) e)" for e
    unfolding s' E_def lookup_prune_loop by (simp split: option.splits)
  have lookR: "fmlookup (removed_dots s') e = map_option (\<lambda>d. prune_removed_dots d r p) (fmlookup (removed_dots s) e)" for e
    unfolding s' R_def lookup_prune_loop by (simp split: option.splits)
  show dots: "dot_at s' e n =
      (if n = r then 0
       else if n = pruning_node_for r then max (dot_at s e n) (dot_at s e r) else dot_at s e n)" for e n
    by (simp add: dots_in_def lookE version_simps rp flip: p_def split: option.splits)
  show rem: "removed_at s' e n =
      (if n = pruning_node_for r then max (removed_at s e n) (removed_at s e r) else removed_at s e n)" for e n
    by (simp add: dots_in_def lookR version_simps rp flip: p_def split: option.splits)
  have all: "(\<forall>e. dots_in m e n \<le> b) \<longleftrightarrow> (\<forall>e d. fmlookup m e = Some d \<longrightarrow> version_at d n \<le> b)"
    for m :: "('a, version_vector) fmap" and b n
    by (simp add: dots_in_def split: option.splits)
  have ex: "(\<forall>e d. map_option h (fmlookup m e) = Some d \<longrightarrow> P d) \<longleftrightarrow> (\<forall>e d. fmlookup m e = Some d \<longrightarrow> P (h d))"
    for h P and m :: "('a, version_vector) fmap"
    by auto
  show vv: "version_at (vvector s') n \<le> b \<longleftrightarrow>
      (n = r \<or> version_at (vvector s) n \<le> b) \<and> (\<forall>e. dot_at s' e n \<le> b) \<and>
      (n = r \<or> (\<forall>e. removed_at s' e n \<le> b))" for n b
    unfolding all lookE lookR ex s'(3) R_def prune_loop_vvector E_def
    by (auto simp: version_simps)
  show "fmdom (or_elements s') = fmdom (or_elements s)"
    by (rule fset_eqI) (simp add: fmlookup_dom_iff lookE)
  have "dots_wf (or_elements s')" "dots_wf (removed_dots s')"
    using wf rp lookE lookR prune_dots_not_empty
    by (auto simp: or_wf_def intro: dots_wf_map wf_intros)
  moreover have "vv_wf (vvector s')"
    unfolding s' R_def E_def by (intro prune_loop_vv_wf wf_intros)
  moreover have "dot_at s' e n \<le> version_at (vvector s') n" for e n
    using vv [of n "version_at (vvector s') n"] by simp
  ultimately show "or_wf s'" by (simp add: or_wf_def)
qed


lemma lookup_cleanup_dots_map:
  "fmlookup (cleanup_dots_map r m) e =
     (case fmlookup m e of None \<Rightarrow> None
      | Some d \<Rightarrow> if vv_is_empty (cleanup_version_vector d r) then None else Some (cleanup_version_vector d r))"
  unfolding cleanup_dots_map_def
  by (subst look_for_each [where look = fmlookup and
        g = "\<lambda>e d c. if vv_is_empty (cleanup_version_vector d r) then c else Some (cleanup_version_vector d r)"])
    (auto simp: Let_def split: option.splits)

lemma dots_in_cleanup: "dots_in (cleanup_dots_map r m) e n = (if n = r then 0 else dots_in m e n)"
proof (cases "fmlookup m e")
  case (Some d)
  then show ?thesis
    using version_at_nonempty [where v = "cleanup_version_vector d r" and n = n]
    by (simp only: dots_in_def lookup_cleanup_dots_map option.case version_simps)
qed (simp add: dots_in_def lookup_cleanup_dots_map)

lemma or_cleanup_effect:
  "dot_at (or_pruning_cleanup s r) e n = (if n = r then 0 else dot_at s e n)"
  "removed_at (or_pruning_cleanup s r) e n = (if n = r then 0 else removed_at s e n)"
  "version_at (vvector (or_pruning_cleanup s r)) n = (if n = r then 0 else version_at (vvector s) n)"
  by (simp_all add: or_pruning_cleanup_def Let_def dots_in_cleanup version_simps)

lemma or_wf_cleanup:
  assumes "or_wf s"
  shows "or_wf (or_pruning_cleanup s r)"
proof -
  have "dots_wf (cleanup_dots_map r m)" for m :: "('a, version_vector) fmap"
    by (auto simp: dots_wf_def lookup_cleanup_dots_map vv_wf_dots split: option.splits if_splits)
  then have "dots_wf (or_elements (or_pruning_cleanup s r))" "dots_wf (removed_dots (or_pruning_cleanup s r))"
    "vv_wf (vvector (or_pruning_cleanup s r))"
    by (simp_all add: or_pruning_cleanup_def Let_def vv_wf_dots)
  then show ?thesis
    using assms unfolding or_wf_def by (simp add: or_cleanup_effect)
qed

lemma or_need_pruning_iff:
  assumes "or_wf s"
  shows "or_need_pruning_from s n \<longleftrightarrow> version_at (vvector s) n \<noteq> 0"
proof -
  have "version_at (vvector s) n \<noteq> 0" if "fmlookup (or_elements s) e = Some d" "vv_contains_node d n" for e d
  proof -
    have "dot_at s e n \<noteq> 0"
      using that assms by (auto simp: dots_in_def or_wf_def contains_node_iff dest: dots_wfD)
    moreover have "dot_at s e n \<le> version_at (vvector s) n"
      using assms by (simp add: or_wf_def)
    ultimately show ?thesis by auto
  qed
  moreover have "vv_wf (vvector s)" using assms by (simp add: or_wf_def)
  ultimately show ?thesis
    by (auto simp: or_need_pruning_from_def vv_need_pruning_from_def contains_key_def lookup_eq_version_at
        list_ex_iff set_map_values)
qed

lemma or_prune_total: "\<exists>s'. or_prune s r c = Inr s'"
  by (simp add: or_prune_def Let_def split: prod.splits)

lemma or_prune_removes:
  assumes "or_wf s" and "r \<noteq> c" and "or_prune s r c = Inr s'"
  shows "version_at (vvector s') r = 0"
  using or_prune_effect(3) [OF assms, of r 0] or_prune_effect(1) [OF assms, of _ r] by simp

interpretation or_pruning: removed_node_pruning or_wf or_modified_by_nodes or_need_pruning_from
  or_prune or_pruning_cleanup
proof
  fix s s' :: "'a or_set" and r c n
  assume wf: "or_wf s"
  show "or_need_pruning_from s n \<longleftrightarrow> n |\<in>| or_modified_by_nodes s"
    using wf by (simp add: or_need_pruning_iff or_modified_by_nodes_def vv_modified_by_nodes_def
        or_wf_def fmlookup_dom_iff lookup_eq_version_at)
  show "\<not> or_need_pruning_from (or_pruning_cleanup s r) r"
    using wf by (simp add: or_need_pruning_iff or_wf_cleanup or_cleanup_effect)
  assume p: "or_prune s r c = Inr s'"
  show wf': "or_wf s'"
    using wf p or_prune_effect(5) [OF wf _ p] by (cases "r = c") (auto simp: or_prune_def)
  show "\<not> or_need_pruning_from s' r" if "r \<noteq> c"
    using or_prune_removes [OF wf that p] by (simp add: or_need_pruning_iff wf')
qed

lemma or_contains_iff: "or_wf s \<Longrightarrow> or_contains s e \<longleftrightarrow> (\<exists>n. dot_at s e n \<noteq> 0)"
  by (simp add: or_contains_def dots_wf_contains or_wf_def)

text \<open>A dot is tombstoned if its node or the alias pruning gave it has a later removed dot.\<close>

definition or_tombstoned :: "'a or_set \<Rightarrow> 'a \<Rightarrow> unique_address \<Rightarrow> u64 \<Rightarrow> bool" where
  "or_tombstoned s e n v \<longleftrightarrow>
     v \<le> removed_at s e n \<or> (\<exists>k. v \<le> removed_at s e k \<and> (k = pruning_node_for n \<or> pruning_node_for k = n))"

lemma tombstones_hide:
  assumes "or_wf s" and "or_wf t" and "\<And>n. dot_at t e n = 0"
    and tomb: "\<And>n. or_tombstoned t e n (dot_at s e n)"
  shows "\<not> or_contains (or_merge s t) e" and "\<not> or_contains (or_merge t s) e"
proof -
  have z: "surviving_dot vv m e n 0 = 0" for vv and m :: "('a, version_vector) fmap" and n
    by (simp add: surviving_dot_def)
  have "surviving_dot (vvector t) (removed_dots t) e n (dot_at s e n) = 0" for n
  proof (cases "dot_at s e n = 0")
    case False
    then have "observes_removed_dot (fmlookup (removed_dots t) e) n (dot_at s e n)"
      using tomb [of n] assms(2) by (simp add: or_tombstoned_def observes_removed_dot_iff or_wf_def)
    then show ?thesis by (simp add: surviving_dot_def)
  qed (simp add: z)
  then have "dot_at (or_merge s t) e n = 0" "dot_at (or_merge t s) e n = 0" for n
    by (simp_all add: dot_at_merge assms(3) z Let_def)
  then show "\<not> or_contains (or_merge s t) e" "\<not> or_contains (or_merge t s) e"
    using or_contains_iff [OF or_wf_merge [OF assms(1,2)]] or_contains_iff [OF or_wf_merge [OF assms(2,1)]]
    by auto
qed

section \<open>Sample sets\<close>

text \<open>The set a fresh replica on node \<open>n\<close> has after adding \<open>e\<close>.\<close>

definition or_one :: "unique_address \<Rightarrow> 'a \<Rightarrow> 'a or_set" where
  "or_one n e = \<lparr>or_elements = fmupd e (single_dot n 1) fmempty, removed_dots = fmempty,
     vvector = single_dot n 1, delta_dirty = True\<rparr>"

lemma or_add_new: "or_add or_new (SelfUniqueAddress n) e = Inr (or_one n e)"
proof -
  have "vv_merge vv_new (single_dot n 1) = single_dot n 1"
    by (rule vv_eqI) (auto simp: version_simps intro: wf_intros)
  moreover have "checked_add 0 1 = Some (1 :: u64)"
    by (simp add: checked_add_Some_iff)
  ultimately show ?thesis
    by (simp add: or_add_def or_add_at_def or_new_def or_one_def next_dot_version_def version_simps Let_def)
qed

lemma or_live_new: "or_live or_new"
  by (simp add: or_live_def or_wf_def or_new_def version_simps)

lemma or_live_one: "confirmed n \<Longrightarrow> or_live (or_one n (e :: 'a::linorder))"
  using or_update_live(1) [OF or_live_new, of "or_one n e"] or_add_new [of n e]
  unfolding or_update_def by (metis self_unique_address.sel)

lemma or_one_simps [simp]:
  "dot_at (or_one n e) e' m = (if e' = e \<and> m = n then 1 else 0)"
  "removed_at (or_one n e) e' m = 0"
  "version_at (vvector (or_one n e)) m = (if m = n then 1 else 0)"
  by (simp_all add: or_one_def version_simps)

section \<open>Properties\<close>

text \<open>
  Claim C1. Strong eventual consistency of \<open>ORSet\<close> up to its \<open>PartialEq\<close>: replicas that have merged
  the same set of live states are equal, whatever the order and the number of deliveries.
\<close>

theorem or_strong_convergence:
  assumes "\<forall>x\<in>set (s # xs). or_live x" and "set (s # xs) = set (t # ys)"
  shows "or_eq (fold (\<lambda>x s. or_merge s x) xs s) (fold (\<lambda>x s. or_merge s x) ys t)"
  using or_data.convergence [OF assms] by (simp add: or_data.receive_all_def)

theorem or_strong_convergence_witness:
  "or_eq
     (fold (\<lambda>x s. or_merge s x) [or_one node_b ''y'', or_remove (or_one node_a ''x'') ''x''] (or_one node_a ''x''))
     (fold (\<lambda>x s. or_merge s x) [or_one node_a ''x'', or_one node_b ''y''] (or_remove (or_one node_a ''x'') ''x''))"
proof -
  have "or_live (or_remove (or_one node_a ''x'') ''x'')"
    by (rule or_update_live(1) [OF or_live_one]) (auto simp: or_update_def)
  then show ?thesis
    by (intro or_strong_convergence) (auto simp: or_live_one)
qed

text \<open>
  The membership contract of \<open>ORSet::merge\<close> on live sets: an element is visible after the
  merge exactly when one side holds a dot for it that the other side holds as well or has not
  seen. An add the other side has not observed therefore wins over any remove there, and an
  observed element that the other side has removed disappears.
\<close>

theorem or_merge_contains:
  assumes "or_live s" and "or_live t"
  shows "or_contains (or_merge s t) e \<longleftrightarrow>
    (\<exists>n v. v \<noteq> 0 \<and>
      (dot_at s e n = v \<and> (dot_at t e n = v \<or> version_at (vvector t) n < v) \<or>
       dot_at t e n = v \<and> version_at (vvector s) n < v))"
proof -
  have "or_contains (or_merge s t) e \<longleftrightarrow> (\<exists>n. dot_at (or_merge s t) e n \<noteq> 0)"
    using assms by (simp add: or_contains_iff or_live_wf or_live_merge)
  also have "\<dots> \<longleftrightarrow> (\<exists>n v. v \<noteq> 0 \<and> dot_at (or_merge s t) e n = v)"
    by auto
  finally show ?thesis
    using assms by (simp add: dot_at_merge_live orswot_eq_iff dot_le_vvector conj_commute cong: conj_cong)
qed

theorem or_merge_contains_witness:
  "or_contains (or_merge (or_one node_a ''x'') (or_one node_b ''y'')) ''x''"
  unfolding or_merge_contains [OF or_live_one or_live_one, OF node_simps(3,4)]
  by (rule exI [of _ node_a], rule exI [of _ 1]) simp

text \<open>
  Claim C8. Concurrent add wins: the element a confirmed member has just added is visible after a
  merge with any replica that has not seen that add, in both merge orders, also when that replica
  has removed the element or cleared the set.
\<close>

theorem or_add_wins:
  assumes "or_live s" and "or_live t" and "confirmed (unique_address_of node)"
    and "or_add s node e = Inr s'"
    and "version_at (vvector t) (unique_address_of node) < version_at (vvector s') (unique_address_of node)"
  shows "or_contains (or_merge s' t) e \<and> or_contains (or_merge t s') e"
proof -
  obtain v where v: "\<And>n. version_at (vvector s') n =
      (if n = unique_address_of node then v else version_at (vvector s) n)"
    "\<And>e' n. dot_at s' e' n = (if e' = e \<and> n = unique_address_of node then v else dot_at s e' n)"
    by (rule or_add_effect [OF or_live_wf [OF assms(1)] assms(4) [unfolded or_add_def]]) (rule that)
  have "dot_at s' e (unique_address_of node) = version_at (vvector s') (unique_address_of node)"
    unfolding v by simp
  moreover have live: "or_live s'"
    using assms(3,4) by (intro or_update_live(1) [OF assms(1)]) (auto simp: or_update_def)
  ultimately have "dot_at (or_merge s' t) e (unique_address_of node) \<noteq> 0"
    "dot_at (or_merge t s') e (unique_address_of node) \<noteq> 0"
    using orswot_unseen [OF assms(5) dot_le_vvector [OF assms(2)]]
    by (simp_all add: dot_at_merge_live assms(2))
  then show ?thesis
    using or_live_merge [OF live assms(2)] or_live_merge [OF assms(2) live]
    by (auto simp: or_contains_iff or_live_wf)
qed

theorem or_add_wins_witness:
  "or_contains (or_merge (or_one node_a ''x'') (or_clear (or_one node_b ''x''))) ''x''"
proof -
  have "or_live (or_clear (or_one node_b ''x''))"
    by (rule or_update_live(1) [OF or_live_one]) (auto simp: or_update_def)
  moreover have "version_at (vvector (or_clear (or_one node_b ''x''))) node_a = 0"
    by (simp add: or_clear_effect or_live_wf or_live_one)
  ultimately show ?thesis
    using or_add_wins [OF or_live_new _ _ or_add_new, of "or_clear (or_one node_b ''x'')" node_a "''x''"] by simp
qed

text \<open>
  Claim C9. A remove is not undone by pruning: after \<open>remove\<close>, a merge with the state that still
  holds the element does not bring it back, whether the remover's tombstones have been pruned or
  the stale state has, in both merge orders. Stale dots are recognised through their pruning node.
\<close>

theorem or_remove_survives_pruning:
  assumes "or_wf s" and "r \<noteq> c" and "or_prune (or_remove s e) r c = Inr t" and "or_prune s r c = Inr s'"
  shows "\<not> or_contains (or_merge s t) e \<and> \<not> or_contains (or_merge t s) e \<and>
    \<not> or_contains (or_merge s' (or_remove s e)) e \<and> \<not> or_contains (or_merge (or_remove s e) s') e"
proof -
  note rem = or_remove_effect [OF assms(1)]
  note t = or_prune_effect [OF rem(4) assms(2,3)] and s' = or_prune_effect [OF assms(1,2,4)]
  have wf: "or_wf s" "or_wf t" "or_wf s'" "or_wf (or_remove s e)"
    using assms(1) rem t s' by auto
  have 1: "or_tombstoned t e n (dot_at s e n)" for n
    by (auto simp: or_tombstoned_def t rem le_max_iff_disj)
  have 2: "or_tombstoned (or_remove s e) e n (dot_at s' e n)" for n
  proof (cases "n = pruning_node_for r")
    case True
    then show ?thesis
      unfolding or_tombstoned_def s' rem
      by (cases "dot_at s e n \<le> dot_at s e r") (auto simp: max_def not_le intro!: exI [of _ r])
  qed (simp add: or_tombstoned_def s' rem)
  have 3: "dot_at t e n = 0" "dot_at (or_remove s e) e n = 0" for n
    by (simp_all add: t rem)
  show ?thesis
    using 1 2 3 wf by (intro conjI tombstones_hide) auto
qed

theorem or_remove_survives_pruning_witness:
  "\<not> or_contains (or_merge (or_one node_a ''x'')
      (case or_prune (or_remove (or_one node_a ''x'') ''x'') node_a node_b of Inr t \<Rightarrow> t | Inl _ \<Rightarrow> or_one node_a ''x'')) ''x''"
proof -
  from or_prune_total obtain t s' where "or_prune (or_remove (or_one node_a ''x'') ''x'') node_a node_b = Inr t"
    "or_prune (or_one node_a ''x'') node_a node_b = Inr s'" by meson
  with or_remove_survives_pruning [OF or_live_wf [OF or_live_one [OF node_simps(3)]] node_simps(1) this]
  show ?thesis by simp
qed

text \<open>
  \<open>ORSet::prune\<close> keeps exactly the visible elements, leaves no contribution of the
  removed node among those the set reports, and repeating it changes nothing.
\<close>

theorem or_prune_correct:
  assumes "or_wf s" and "r \<noteq> c" and "or_prune s r c = Inr s'"
  shows "or_wf s' \<and> or_element_set s' = or_element_set s \<and> \<not> or_need_pruning_from s' r \<and>
    r |\<notin>| or_modified_by_nodes s' \<and> (\<forall>c' s''. or_prune s' r c' = Inr s'' \<longrightarrow> or_eq s'' s')"
proof -
  note eff = or_prune_effect [OF assms]
  have "or_eq s'' s'" if p: "or_prune s' r c' = Inr s''" for c' s''
  proof (cases "r = c'")
    case True
    with p show ?thesis by (simp add: or_prune_def or_eq_def)
  next
    case False
    note eff' = or_prune_effect [OF eff(5) False p]
    have d: "dot_at s'' e n = dot_at s' e n" "removed_at s'' e n = removed_at s' e n" for e n
      by (auto simp: eff'(1,2) eff(1,2) max_def)
    have up: "dot_at s' e n \<le> version_at (vvector s') n" "n \<noteq> r \<Longrightarrow> removed_at s' e n \<le> version_at (vvector s') n" for e n
      using eff(3) [of n "version_at (vvector s') n"] by auto
    have "version_at (vvector s'') n \<le> b \<longleftrightarrow> version_at (vvector s') n \<le> b" for n b
    proof (cases "n = r")
      case True
      then show ?thesis using or_prune_removes [OF assms] by (simp add: eff'(3) d eff(1))
    next
      case False
      with up show ?thesis by (simp add: eff'(3) d) (meson order_trans)
    qed
    then have "version_at (vvector s'') n = version_at (vvector s') n" for n
      by (meson order_antisym order_refl)
    with d eff(5) eff'(5) show ?thesis by (intro or_eqI)
  qed
  then show ?thesis
    using eff(4,5) or_pruning.prune_removes [OF assms] or_pruning.prune_forgets(1) [OF assms]
    by (auto simp: or_element_set_def)
qed

theorem or_prune_correct_witness:
  "\<exists>s'. or_prune (or_one node_a ''x'') node_a node_b = Inr s' \<and>
     or_element_set s' = or_element_set (or_one node_a ''x'') \<and> \<not> or_need_pruning_from s' node_a"
proof -
  obtain s' where "or_prune (or_one node_a ''x'') node_a node_b = Inr s'"
    using or_prune_total by blast
  with or_prune_correct [OF or_live_wf [OF or_live_one [OF node_simps(3)]] node_simps(1) this]
  show ?thesis by blast
qed

text \<open>
  Claim C25. Delta synchronisation of \<open>ORSet\<close> for local updates: take a replica that since its last
  \<open>reset_delta\<close> has only done adds, removes and clears of its own, with no merge and no pruning in
  between, on live states, that is states without pruning. A live peer that merged the state at the
  reset reaches, by merging the delta of those updates, the state it would reach by merging the full
  state. A merge since the reset is outside the statement: it is not recorded in the delta.
\<close>

theorem or_delta_synchronises:
  assumes "or_update\<^sup>*\<^sup>* (or_reset_delta b) s" and "or_live b" and "or_live t"
  shows "or_eq (case or_delta s of None \<Rightarrow> or_merge t b | Some d \<Rightarrow> or_merge_delta (or_merge t b) d)
    (or_merge t s)"
  by (rule or_data.delta_sync [OF assms])

theorem or_delta_synchronises_witness:
  "or_eq (case or_delta (or_remove (or_reset_delta (or_one node_a ''x'')) ''x'') of
       None \<Rightarrow> or_merge (or_one node_b ''x'') (or_one node_a ''x'')
     | Some d \<Rightarrow> or_merge_delta (or_merge (or_one node_b ''x'') (or_one node_a ''x'')) d)
   (or_merge (or_one node_b ''x'') (or_remove (or_reset_delta (or_one node_a ''x'')) ''x''))"
  by (rule or_delta_synchronises) (auto simp: or_live_one or_update_def intro!: r_into_rtranclp)

text \<open>
  The local operations on every branch: \<open>add\<close> panics exactly when the node's dot counter
  is at its greatest 64-bit value and otherwise makes the element, and nothing else, visible;
  \<open>remove\<close> hides exactly its element and keeps the observed dots as tombstones; \<open>clear\<close> hides all.
\<close>

theorem or_local_operations:
  "(case or_add s node e of
      Inl _ \<Rightarrow> version_at (vvector s) (unique_address_of node) = - 1
    | Inr s' \<Rightarrow> version_at (vvector s) (unique_address_of node) \<noteq> - 1 \<and>
        or_element_set s' = finsert e (or_element_set s) \<and> removed_dots s' = removed_dots s) \<and>
   or_element_set (or_remove s e) = or_element_set s |-| {|e|} \<and>
   or_element_set (or_clear s) = {||} \<and>
   removed_at (or_remove s e) e n = max (removed_at s e n) (dot_at s e n) \<and>
   removed_at (or_clear s) e n = max (removed_at s e n) (dot_at s e n)"
proof (intro conjI)
  show "case or_add s node e of
      Inl _ \<Rightarrow> version_at (vvector s) (unique_address_of node) = - 1
    | Inr s' \<Rightarrow> version_at (vvector s) (unique_address_of node) \<noteq> - 1 \<and>
        or_element_set s' = finsert e (or_element_set s) \<and> removed_dots s' = removed_dots s"
    using checked_add_one_None [of "version_at (vvector s) (unique_address_of node)"]
    by (auto simp: or_add_def or_add_at_def next_dot_version_def or_element_set_def Let_def split: option.splits)
  show "or_element_set (or_remove s e) = or_element_set s |-| {|e|}"
    by (auto simp: or_element_set_def or_remove_def fmlookup_dom_iff split: option.splits)
  show "removed_at (or_remove s e) e n = max (removed_at s e n) (dot_at s e n)"
    by (auto simp: or_remove_def dots_in_merge_entry max_def dots_in_def [of "or_elements s"] split: option.splits)
qed (simp_all add: or_element_set_def or_clear_def dots_in_merge_entries)

text \<open>
  Pruning two nodes without the cleanup of the first in between brings the first node
  back: \<open>prune\<close> keeps the first node's dots among the tombstones, and pruning the second node
  merges those dots into the version vector again.
\<close>

theorem or_prune_next_node_reintroduces:
  assumes "or_wf s" and "removed_at s e r\<^sub>1 \<noteq> 0" and "r\<^sub>1 \<noteq> r\<^sub>2"
    and "r\<^sub>1 \<noteq> c\<^sub>1" and "or_prune s r\<^sub>1 c\<^sub>1 = Inr s\<^sub>1"
    and "r\<^sub>2 \<noteq> c\<^sub>2" and "or_prune s\<^sub>1 r\<^sub>2 c\<^sub>2 = Inr s\<^sub>2"
  shows "\<not> or_need_pruning_from s\<^sub>1 r\<^sub>1 \<and> or_need_pruning_from s\<^sub>2 r\<^sub>1"
proof -
  note eff1 = or_prune_effect [OF assms(1,4,5)]
  note eff2 = or_prune_effect [OF eff1(5) assms(6,7)]
  have "removed_at s\<^sub>1 e r\<^sub>1 \<noteq> 0"
    using assms(2) by (auto simp: eff1(2) max_def)
  then have "removed_at s\<^sub>2 e r\<^sub>1 \<noteq> 0"
    by (auto simp: eff2(2) max_def)
  moreover have "removed_at s\<^sub>2 e r\<^sub>1 \<le> version_at (vvector s\<^sub>2) r\<^sub>1"
    using eff2(3) [of r\<^sub>1 "version_at (vvector s\<^sub>2) r\<^sub>1"] assms(3) by auto
  ultimately have "version_at (vvector s\<^sub>2) r\<^sub>1 \<noteq> 0" by auto
  then show ?thesis
    using or_prune_removes [OF assms(1,4,5)] by (simp add: or_need_pruning_iff eff1(5) eff2(5))
qed

theorem or_prune_next_node_reintroduces_witness:
  "\<exists>s\<^sub>1 s\<^sub>2. or_prune (or_remove (or_one node_a ''x'') ''x'') node_a node_b = Inr s\<^sub>1 \<and>
     or_prune s\<^sub>1 node_b (pruning_node_for node_b) = Inr s\<^sub>2 \<and>
     \<not> or_need_pruning_from s\<^sub>1 node_a \<and> or_need_pruning_from s\<^sub>2 node_a"
proof -
  let ?s = "or_remove (or_one node_a ''x'') ''x''"
  have one: "or_wf (or_one node_a ''x'')" by (simp add: or_live_wf or_live_one)
  obtain s1 s2 where p: "or_prune ?s node_a node_b = Inr s1"
    "or_prune s1 node_b (pruning_node_for node_b) = Inr s2"
    using or_prune_total by meson
  have "removed_at ?s ''x'' node_a \<noteq> 0" by (simp add: or_remove_effect [OF one])
  with p or_prune_next_node_reintroduces [OF or_remove_effect(4) [OF one] this node_simps(1) node_simps(1) p(1) _ p(2)]
  show ?thesis by auto
qed

end
