(* ===== verification/OR_Map.thy ===== *)
theory OR_Map
  imports OR_Set
begin

text \<open>
  \<open>ORMap\<close> (\<open>ddata/or_map.rs\<close>): an observed-remove set of keys and a value per visible key, merged
  by the value type's own \<open>merge\<close>. The value type is a parameter: its \<open>merge\<close>, and for pruning
  its \<open>RemovedNodePruning\<close> operations, are arguments of the definitions, and the locale
  \<open>or_map_values\<close> carries the pruning contract from the values to the map.
\<close>

section \<open>Data and operations\<close>

record ('a, 'b) or_map =
  om_keys :: "'a or_set"
  om_values :: "('a, 'b) fmap"
  om_delta_dirty :: bool

definition om_new :: "('a, 'b) or_map" where
  "om_new = \<lparr>om_keys = or_new, om_values = fmempty, om_delta_dirty = False\<rparr>"

definition om_put ::
    "('a, 'b) or_map \<Rightarrow> self_unique_address \<Rightarrow> 'a \<Rightarrow> 'b \<Rightarrow> panic + ('a, 'b) or_map" where
  "om_put m node key v =
     and_then
       (if or_contains (om_keys m) key then or_add (or_remove (om_keys m) key) node key
        else or_add (om_keys m) node key)
       (\<lambda>keys. Inr \<lparr>om_keys = keys, om_values = fmupd key v (om_values m), om_delta_dirty = True\<rparr>)"

text \<open>\<open>modify\<close> is the caller's closure; it may panic.\<close>

definition om_update ::
    "('a, 'b) or_map \<Rightarrow> self_unique_address \<Rightarrow> 'a \<Rightarrow> 'b \<Rightarrow> ('b \<Rightarrow> panic + 'b) \<Rightarrow>
      panic + ('a, 'b) or_map" where
  "om_update m node key initial modify =
     (let base = (case fmlookup (om_values m) key of Some existing \<Rightarrow> existing | None \<Rightarrow> initial) in
      and_then (modify base) (\<lambda>new_value.
        and_then (or_add (om_keys m) node key) (\<lambda>keys.
          Inr \<lparr>om_keys = keys, om_values = fmupd key new_value (om_values m), om_delta_dirty = True\<rparr>)))"

definition om_remove :: "('a, 'b) or_map \<Rightarrow> 'a \<Rightarrow> ('a, 'b) or_map" where
  "om_remove m key =
     (if \<not> contains_key (om_values m) key then m
      else \<lparr>om_keys = or_remove (om_keys m) key, om_values = fmdrop key (om_values m),
            om_delta_dirty = True\<rparr>)"

definition om_get :: "('a, 'b) or_map \<Rightarrow> 'a \<Rightarrow> 'b option" where
  "om_get m key = fmlookup (om_values m) key"

definition om_contains_key :: "('a, 'b) or_map \<Rightarrow> 'a \<Rightarrow> bool" where
  "om_contains_key m key \<longleftrightarrow> contains_key (om_values m) key"

definition om_is_empty :: "('a, 'b) or_map \<Rightarrow> bool" where
  "om_is_empty m \<longleftrightarrow> om_values m = fmempty"

definition om_len :: "('a::linorder, 'b) or_map \<Rightarrow> nat" where
  "om_len m = length (entries (om_values m))"

definition matching_dots :: "version_vector \<Rightarrow> version_vector \<Rightarrow> version_vector" where
  "matching_dots left right =
     vv_from_entries (filter (\<lambda>(node, version). version_at right node = version) (vv_entries left))"

definition contributing_key_dots :: "'a or_set \<Rightarrow> 'a \<Rightarrow> 'a or_set \<Rightarrow> version_vector" where
  "contributing_key_dots side_keys key merged_keys =
     (case dots_for side_keys key of
        None \<Rightarrow> vv_new
      | Some side_dots \<Rightarrow>
          (case dots_for merged_keys key of
             None \<Rightarrow> vv_new
           | Some merged_dots \<Rightarrow> matching_dots side_dots merged_dots))"

definition has_pruned_alias :: "unique_address \<Rightarrow> u64 \<Rightarrow> version_vector \<Rightarrow> bool" where
  "has_pruned_alias node version pruned_dots \<longleftrightarrow>
     list_ex (\<lambda>(pruned_node, pruned_version).
       pruning_node_for node = pruned_node \<and> pruned_version \<ge> version) (vv_entries pruned_dots)"

definition covered_by_pruned_aliases :: "version_vector \<Rightarrow> version_vector \<Rightarrow> bool" where
  "covered_by_pruned_aliases dots pruned_dots \<longleftrightarrow>
     \<not> vv_is_empty dots \<and>
     list_all (\<lambda>(node, version). has_pruned_alias node version pruned_dots) (vv_entries dots)"

definition merge_value_step ::
    "('b \<Rightarrow> 'b \<Rightarrow> 'b) \<Rightarrow> ('a, 'b) or_map \<Rightarrow> ('a, 'b) or_map \<Rightarrow> 'a or_set \<Rightarrow> 'a \<Rightarrow>
      ('a, 'b) fmap \<Rightarrow> ('a, 'b) fmap" where
  "merge_value_step merge_value self other keys key vals =
     (let left_dots = contributing_key_dots (om_keys self) key keys;
          right_dots = contributing_key_dots (om_keys other) key keys;
          left_contributes = (\<not> vv_is_empty left_dots);
          right_contributes = (\<not> vv_is_empty right_dots)
      in case (fmlookup (om_values self) key, fmlookup (om_values other) key, left_contributes, right_contributes) of
           (Some left, Some right, True, True) \<Rightarrow>
             fmupd key
               (if covered_by_pruned_aliases right_dots left_dots then left
                else if covered_by_pruned_aliases left_dots right_dots then right
                else merge_value left right) vals
         | (Some left, _, True, _) \<Rightarrow> fmupd key left vals
         | (_, Some right, _, True) \<Rightarrow> fmupd key right vals
         | _ \<Rightarrow> vals)"

definition om_merge ::
    "('b \<Rightarrow> 'b \<Rightarrow> 'b) \<Rightarrow> ('a::linorder, 'b) or_map \<Rightarrow> ('a, 'b) or_map \<Rightarrow> ('a, 'b) or_map" where
  "om_merge merge_value self other =
     (let keys = or_merge (om_keys self) (om_keys other)
      in \<lparr>om_keys = keys,
          om_values = for_each (\<lambda>key _. merge_value_step merge_value self other keys key)
            (or_elements keys) fmempty,
          om_delta_dirty = om_delta_dirty self\<rparr>)"

definition om_delta :: "('a, 'b) or_map \<Rightarrow> ('a, 'b) or_map option" where
  "om_delta m = (if om_delta_dirty m then Some (m\<lparr>om_delta_dirty := False\<rparr>) else None)"

definition om_merge_delta ::
    "('b \<Rightarrow> 'b \<Rightarrow> 'b) \<Rightarrow> ('a::linorder, 'b) or_map \<Rightarrow> ('a, 'b) or_map \<Rightarrow> ('a, 'b) or_map" where
  "om_merge_delta merge_value m d = om_merge merge_value m d"

definition om_reset_delta :: "('a, 'b) or_map \<Rightarrow> ('a, 'b) or_map" where
  "om_reset_delta m = m\<lparr>om_delta_dirty := False\<rparr>"

definition om_zero :: "('a, 'b) or_map \<Rightarrow> ('a, 'b) or_map" where
  "om_zero m = om_new"

definition om_modified_by_nodes ::
    "('b \<Rightarrow> unique_address fset) \<Rightarrow> ('a::linorder, 'b) or_map \<Rightarrow> unique_address fset" where
  "om_modified_by_nodes value_nodes m =
     fold (\<lambda>v nodes. nodes |\<union>| value_nodes v) (map_values (om_values m)) (or_modified_by_nodes (om_keys m))"

definition om_need_pruning_from ::
    "('b \<Rightarrow> unique_address \<Rightarrow> bool) \<Rightarrow> ('a::linorder, 'b) or_map \<Rightarrow> unique_address \<Rightarrow> bool" where
  "om_need_pruning_from value_need m removed_node \<longleftrightarrow>
     or_need_pruning_from (om_keys m) removed_node \<or>
     list_ex (\<lambda>v. value_need v removed_node) (map_values (om_values m))"

definition om_prune ::
    "('b \<Rightarrow> unique_address \<Rightarrow> bool) \<Rightarrow> ('b \<Rightarrow> unique_address \<Rightarrow> unique_address \<Rightarrow> 'e + 'b) \<Rightarrow>
      ('a::linorder, 'b) or_map \<Rightarrow> unique_address \<Rightarrow> unique_address \<Rightarrow> 'e + ('a, 'b) or_map" where
  "om_prune value_need value_prune m removed_node collapse_into =
     (let keys = (case or_prune (om_keys m) removed_node collapse_into of
                    Inr keys \<Rightarrow> keys | Inl never \<Rightarrow> om_keys m)
      in and_then
        (try_for_each (\<lambda>key v (vals, dirty).
            if value_need v removed_node
            then and_then (value_prune v removed_node collapse_into)
                   (\<lambda>pruned. Inr (fmupd key pruned vals, True))
            else Inr (fmupd key v vals, dirty))
          (om_values m) (fmempty, om_delta_dirty m \<or> \<not> or_eq keys (om_keys m)))
        (\<lambda>(vals, dirty). Inr \<lparr>om_keys = keys, om_values = vals, om_delta_dirty = dirty\<rparr>))"

definition om_pruning_cleanup ::
    "('b \<Rightarrow> unique_address \<Rightarrow> bool) \<Rightarrow> ('b \<Rightarrow> unique_address \<Rightarrow> 'b) \<Rightarrow>
      ('a::linorder, 'b) or_map \<Rightarrow> unique_address \<Rightarrow> ('a, 'b) or_map" where
  "om_pruning_cleanup value_need value_cleanup m removed_node =
     (let keys = or_pruning_cleanup (om_keys m) removed_node;
          (vals, values_dirty) =
            for_each (\<lambda>key v (vals, values_dirty).
                if \<not> or_contains keys key then (vals, True)
                else if value_need v removed_node
                then (fmupd key (value_cleanup v removed_node) vals, True)
                else (fmupd key v vals, values_dirty))
              (om_values m) (fmempty, False)
      in \<lparr>om_keys = keys, om_values = vals,
          om_delta_dirty = (om_delta_dirty m \<or> \<not> or_eq keys (om_keys m) \<or> values_dirty)\<rparr>)"

definition om_eq :: "('b \<Rightarrow> 'b \<Rightarrow> bool) \<Rightarrow> ('a, 'b) or_map \<Rightarrow> ('a, 'b) or_map \<Rightarrow> bool" where
  "om_eq value_eq m n \<longleftrightarrow> or_eq (om_keys m) (om_keys n) \<and>
     fmrel value_eq (om_values m) (om_values n)"

section \<open>What a merge leaves under a key\<close>

lemma version_at_contributing [version_simps]:
  "version_at (contributing_key_dots s key u) n = (if dot_at s key n = dot_at u key n then dot_at s key n else 0)"
  by (auto simp: contributing_key_dots_def matching_dots_def dots_for_def dots_in_def version_at_filter_entries
      version_simps split: option.splits)

lemma vv_wf_contributing [wf_intros]: "vv_wf (contributing_key_dots s key u)"
  by (auto simp: contributing_key_dots_def matching_dots_def split: option.splits)

definition contributes :: "'a or_set \<Rightarrow> 'a \<Rightarrow> 'a or_set \<Rightarrow> bool" where
  "contributes side key merged \<longleftrightarrow> (\<exists>n. dot_at side key n \<noteq> 0 \<and> dot_at side key n = dot_at merged key n)"

lemma contributing_not_empty: "\<not> vv_is_empty (contributing_key_dots s key u) \<longleftrightarrow> contributes s key u"
  unfolding vv_is_empty_iff [OF vv_wf_contributing] version_simps contributes_def by force

lemma covered_by_pruned_aliases_iff:
  assumes "vv_wf dots" and "vv_wf pruned"
  shows "covered_by_pruned_aliases dots pruned \<longleftrightarrow>
    (\<exists>n. version_at dots n \<noteq> 0) \<and>
    (\<forall>n. version_at dots n \<noteq> 0 \<longrightarrow> version_at dots n \<le> version_at pruned (pruning_node_for n))"
proof -
  have "has_pruned_alias n v pruned \<longleftrightarrow> v \<le> version_at pruned (pruning_node_for n)" if "v \<noteq> 0" for n v
    using assms(2) that
    by (auto simp: has_pruned_alias_def list_ex_iff vv_entries_def set_entries lookup_eq_version_at Bex_def
        split: if_splits)
  then show ?thesis
    using assms(1)
    by (auto simp: covered_by_pruned_aliases_def vv_is_empty_iff list_all_iff vv_entries_def set_entries
        lookup_eq_version_at Ball_def)
qed

lemma lookup_om_merge:
  "fmlookup (om_values (om_merge mg m n)) key =
     (if or_contains (om_keys (om_merge mg m n)) key
      then fmlookup (merge_value_step mg m n (om_keys (om_merge mg m n)) key fmempty) key else None)"
  unfolding om_merge_def Let_def or_map.simps
  by (subst look_for_each [where look = fmlookup and
        g = "\<lambda>key _ c. (case (fmlookup (om_values m) key, fmlookup (om_values n) key,
            \<not> vv_is_empty (contributing_key_dots (om_keys m) key (or_merge (om_keys m) (om_keys n))),
            \<not> vv_is_empty (contributing_key_dots (om_keys n) key (or_merge (om_keys m) (om_keys n)))) of
          (Some _, Some _, True, True) \<Rightarrow> fmlookup (merge_value_step mg m n (or_merge (om_keys m) (om_keys n)) key fmempty) key
        | (Some left, _, True, _) \<Rightarrow> Some left
        | (_, Some right, _, True) \<Rightarrow> Some right
        | _ \<Rightarrow> c)"])
    (auto simp: merge_value_step_def Let_def or_contains_def contains_key_def split: option.splits bool.splits)

section \<open>Well-formed maps\<close>

definition om_wf :: "('a, 'b) or_map \<Rightarrow> bool" where
  "om_wf m \<longleftrightarrow> or_wf (om_keys m) \<and> fmdom (om_values m) = or_element_set (om_keys m)"

lemma om_wf_lookup: "om_wf m \<Longrightarrow> fmlookup (om_values m) key \<noteq> None \<longleftrightarrow> or_contains (om_keys m) key"
  by (auto simp: om_wf_def or_element_set_def or_contains_def contains_key_def fset_eq_iff fmlookup_dom_iff)

lemma om_wfI:
  assumes "or_wf (om_keys m)" and "\<And>key. fmlookup (om_values m) key \<noteq> None \<longleftrightarrow> or_contains (om_keys m) key"
  shows "om_wf m"
  using assms by (auto simp: om_wf_def or_element_set_def or_contains_def contains_key_def fset_eq_iff fmlookup_dom_iff)

lemma merged_key_contributes:
  assumes "or_wf s" and "or_wf t" and "or_contains (or_merge s t) key"
  shows "contributes s key (or_merge s t) \<or> contributes t key (or_merge s t)"
proof -
  from assms obtain n where "dot_at (or_merge s t) key n \<noteq> 0"
    by (auto simp: or_contains_iff or_wf_merge)
  moreover have "dot_at (or_merge s t) key n \<in> {dot_at s key n, dot_at t key n, 0}"
    by (auto simp: dot_at_merge Let_def surviving_dot_def max_def)
  ultimately show ?thesis by (auto simp: contributes_def)
qed

lemma contributes_contains: "or_wf s \<Longrightarrow> contributes s key u \<Longrightarrow> or_contains s key"
  by (auto simp: contributes_def or_contains_iff)

lemma om_wf_merge:
  assumes "om_wf m" and "om_wf n"
  shows "om_wf (om_merge mg m n)"
proof (rule om_wfI)
  let ?k = "or_merge (om_keys m) (om_keys n)"
  have wf: "or_wf (om_keys m)" "or_wf (om_keys n)" using assms by (simp_all add: om_wf_def)
  then show "or_wf (om_keys (om_merge mg m n))"
    by (simp add: om_merge_def Let_def or_wf_merge)
  fix key
  have "fmlookup (merge_value_step mg m n ?k key fmempty) key \<noteq> None" if "or_contains ?k key"
    using merged_key_contributes [OF wf that] om_wf_lookup [OF assms(1), of key] om_wf_lookup [OF assms(2), of key]
      contributes_contains [OF wf(1)] contributes_contains [OF wf(2)]
    by (auto simp: merge_value_step_def Let_def contributing_not_empty split: option.splits bool.splits)
  then show "fmlookup (om_values (om_merge mg m n)) key \<noteq> None \<longleftrightarrow> or_contains (om_keys (om_merge mg m n)) key"
    unfolding lookup_om_merge by (simp add: om_merge_def Let_def)
qed

lemma or_wf_add: "or_wf s \<Longrightarrow> or_add s node e = Inr s' \<Longrightarrow> or_wf s'"
  unfolding or_add_def by (erule (1) or_add_effect)

lemma or_contains_add: "or_add s node e = Inr s' \<Longrightarrow> or_contains s' e' \<longleftrightarrow> e' = e \<or> or_contains s e'"
  unfolding or_add_def by (drule or_add_Inr) (auto simp: or_contains_def contains_key_def)

lemma or_contains_remove: "or_contains (or_remove s e) e' \<longleftrightarrow> e' \<noteq> e \<and> or_contains s e'"
  by (auto simp: or_remove_def or_contains_def contains_key_def split: option.splits)

lemma om_wf_new: "om_wf om_new"
  using or_live_new by (auto simp: om_wf_def om_new_def or_element_set_def or_new_def or_live_def)

lemma om_wf_added:
  assumes "om_wf m" and "or_wf s" and "or_add s node key = Inr keys"
    and "\<And>e. e \<noteq> key \<Longrightarrow> or_contains s e \<longleftrightarrow> or_contains (om_keys m) e"
  shows "om_wf \<lparr>om_keys = keys, om_values = fmupd key v (om_values m), om_delta_dirty = True\<rparr>"
  using assms or_contains_add [OF assms(3)] om_wf_lookup [OF assms(1)]
  by (intro om_wfI) (auto intro: or_wf_add)

lemma om_wf_put:
  assumes "om_wf m" and "om_put m node key v = Inr m'"
  shows "om_wf m'"
proof -
  have wf: "or_wf (om_keys m)" using assms(1) by (simp add: om_wf_def)
  from assms(2) obtain s keys where add: "or_add s node key = Inr keys"
    and "s = om_keys m \<or> s = or_remove (om_keys m) key"
    and m': "m' = \<lparr>om_keys = keys, om_values = fmupd key v (om_values m), om_delta_dirty = True\<rparr>"
    by (auto simp: om_put_def and_then_eq_Inr split: if_splits)
  then show ?thesis
    unfolding m' using assms(1) wf
    by (intro om_wf_added [OF _ _ add]) (auto simp: or_contains_remove or_remove_effect(4))
qed

lemma om_wf_update:
  assumes "om_wf m" and "om_update m node key initial modify = Inr m'"
  shows "om_wf m'"
  using assms om_wf_added [OF assms(1)] by (auto simp: om_update_def Let_def and_then_eq_Inr om_wf_def)

lemma om_wf_remove:
  assumes "om_wf m"
  shows "om_wf (om_remove m key)"
proof (cases "contains_key (om_values m) key")
  case True
  with assms have "or_wf (om_keys (om_remove m key))"
    by (simp add: om_remove_def or_remove_effect(4) om_wf_def)
  with True show ?thesis
    by (intro om_wfI) (auto simp: om_remove_def or_contains_remove simp flip: om_wf_lookup [OF assms])
qed (use assms in \<open>simp add: om_remove_def\<close>)

lemma om_wf_reset: "om_wf m \<Longrightarrow> om_wf (om_reset_delta m)"
  by (simp add: om_wf_def om_reset_delta_def)

lemma om_prune_Inr:
  fixes m m' :: "('c::linorder, 'b) or_map"
  assumes "om_prune need prune m r c = Inr m'"
  obtains keys where "or_prune (om_keys m) r c = Inr keys" and "om_keys m' = keys"
    and "\<And>key. fmlookup (om_values m') key =
      map_option (\<lambda>v. if need v r then projr (prune v r c) else v) (fmlookup (om_values m) key)"
    and "\<And>key v. fmlookup (om_values m) key = Some v \<Longrightarrow> need v r \<Longrightarrow> \<exists>w. prune v r c = Inr w"
proof -
  obtain keys where keys: "or_prune (om_keys m) r c = Inr keys" using or_prune_total by blast
  define body where "body = (\<lambda>(key :: 'c) v (vals, dirty). if need v r
      then and_then (prune v r c) (\<lambda>pruned. Inr (fmupd key pruned vals, True))
      else Inr (fmupd key v vals, dirty))"
  from assms keys obtain vals dirty where
    loop: "try_for_each body (om_values m) (fmempty, om_delta_dirty m \<or> \<not> or_eq keys (om_keys m)) = Inr (vals, dirty)"
    and m': "m' = \<lparr>om_keys = keys, om_values = vals, om_delta_dirty = dirty\<rparr>"
    by (auto simp: om_prune_def Let_def and_then_eq_Inr body_def split: prod.splits)
  have step: "fmlookup (fst s') k' =
      (if k' = k then Some (if need v r then projr (prune v r c) else v) else fmlookup (fst s) k')"
    if "body k v s = Inr s'" for k v s s' k'
    using that by (auto simp: body_def and_then_eq_Inr split: if_splits prod.splits)
  have "fmlookup vals key = (case fmlookup (om_values m) key of None \<Rightarrow> None
      | Some v \<Rightarrow> Some (if need v r then projr (prune v r c) else v))" for key
    using look_try_for_each [where look = "\<lambda>s. fmlookup (fst s)" and
        h = "\<lambda>_ v _. Some (if need v r then projr (prune v r c) else v)", OF step loop, of key]
    by (simp split: option.splits)
  moreover have "\<exists>w. prune v r c = Inr w" if "fmlookup (om_values m) key = Some v" "need v r" for key v
    using try_for_each_all_Inr [OF loop that(1)] that(2) by (auto simp: body_def and_then_eq_Inr)
  ultimately show thesis
    using keys m' by (intro that [of keys]) (auto split: option.splits)
qed

lemma om_prune_total:
  assumes "\<And>key v. fmlookup (om_values m) key = Some v \<Longrightarrow> need v r \<Longrightarrow> \<exists>w. prune v r c = Inr w"
  shows "\<exists>m'. om_prune need prune m r c = Inr m'"
proof -
  have "\<exists>s'. try_for_each (\<lambda>key v (vals, dirty). if need v r
      then and_then (prune v r c) (\<lambda>pruned. Inr (fmupd key pruned vals, True))
      else Inr (fmupd key v vals, dirty)) (om_values m) s = Inr s'" for s
    by (rule try_for_each_total) (use assms in \<open>force split: prod.splits\<close>)
  then show ?thesis
    by (simp add: om_prune_def Let_def and_then_eq_Inr split_beta)
qed

lemma om_cleanup_lookup:
  "fmlookup (om_values (om_pruning_cleanup need clean m r)) key =
     (case fmlookup (om_values m) key of None \<Rightarrow> None
      | Some v \<Rightarrow> if or_contains (or_pruning_cleanup (om_keys m) r) key
          then Some (if need v r then clean v r else v) else None)"
proof -
  let ?keys = "or_pruning_cleanup (om_keys m) r"
  let ?loop = "for_each (\<lambda>key v (vals, values_dirty).
      if \<not> or_contains ?keys key then (vals, True)
      else if need v r then (fmupd key (clean v r) vals, True)
      else (fmupd key v vals, values_dirty)) (om_values m) (fmempty, False)"
  have "fmlookup (fst ?loop) key = (case fmlookup (om_values m) key of None \<Rightarrow> fmlookup fmempty key
      | Some v \<Rightarrow> if or_contains ?keys key then Some (if need v r then clean v r else v) else fmlookup fmempty key)"
    by (subst look_for_each [where look = "\<lambda>s. fmlookup (fst s)" and
          g = "\<lambda>key v c. if or_contains ?keys key then Some (if need v r then clean v r else v) else c"])
      (auto split: option.splits prod.splits)
  then show ?thesis
    by (auto simp: om_pruning_cleanup_def Let_def split: option.splits prod.splits)
qed

lemma om_cleanup_keys: "om_keys (om_pruning_cleanup need clean m r) = or_pruning_cleanup (om_keys m) r"
  by (simp add: om_pruning_cleanup_def Let_def split: prod.splits)

lemma om_wf_prune:
  assumes "om_wf m" and "om_prune need prune m r c = Inr m'"
  shows "om_wf m'"
proof -
  obtain keys where k: "or_prune (om_keys m) r c = Inr keys" "om_keys m' = keys"
    "\<And>key. fmlookup (om_values m') key =
      map_option (\<lambda>v. if need v r then projr (prune v r c) else v) (fmlookup (om_values m) key)"
    by (rule om_prune_Inr [OF assms(2)]) (rule that)
  have wf: "or_wf (om_keys m)" using assms(1) by (simp add: om_wf_def)
  have "or_wf keys \<and> fmdom (or_elements keys) = fmdom (or_elements (om_keys m))"
    using or_prune_effect(4,5) [OF wf _ k(1)] k(1) wf by (cases "r = c") (auto simp: or_prune_def)
  moreover have "fmdom (om_values m') = fmdom (om_values m)"
    by (rule fset_eqI) (simp add: fmlookup_dom_iff k(3))
  ultimately show ?thesis
    using assms(1) k(2) by (simp add: om_wf_def or_element_set_def)
qed

lemma om_wf_cleanup:
  assumes "om_wf m"
  shows "om_wf (om_pruning_cleanup need clean m r)"
proof (rule om_wfI)
  have wf: "or_wf (om_keys m)" using assms by (simp add: om_wf_def)
  then show "or_wf (om_keys (om_pruning_cleanup need clean m r))"
    by (simp add: om_cleanup_keys or_wf_cleanup)
  fix key
  have "or_contains (or_pruning_cleanup (om_keys m) r) key \<Longrightarrow> or_contains (om_keys m) key"
    using wf by (auto simp: or_contains_iff or_wf_cleanup or_cleanup_effect split: if_splits)
  then show "fmlookup (om_values (om_pruning_cleanup need clean m r)) key \<noteq> None \<longleftrightarrow>
      or_contains (om_keys (om_pruning_cleanup need clean m r)) key"
    using om_wf_lookup [OF assms, of key]
    by (auto simp: om_cleanup_lookup om_cleanup_keys split: option.splits)
qed

section \<open>Reachable maps\<close>

text \<open>Everything a replica can do to its map, with merges of maps other replicas reached.\<close>

inductive om_reachable ::
    "('b \<Rightarrow> 'b \<Rightarrow> 'b) \<Rightarrow> ('b \<Rightarrow> unique_address \<Rightarrow> bool) \<Rightarrow>
     ('b \<Rightarrow> unique_address \<Rightarrow> unique_address \<Rightarrow> 'e + 'b) \<Rightarrow> ('b \<Rightarrow> unique_address \<Rightarrow> 'b) \<Rightarrow>
     ('a::linorder, 'b) or_map \<Rightarrow> bool"
  for mg need prune clean where
  reach_new: "om_reachable mg need prune clean om_new"
| reach_put: "om_reachable mg need prune clean m \<Longrightarrow> om_put m node key v = Inr m' \<Longrightarrow>
    om_reachable mg need prune clean m'"
| reach_update: "om_reachable mg need prune clean m \<Longrightarrow> om_update m node key initial modify = Inr m' \<Longrightarrow>
    om_reachable mg need prune clean m'"
| reach_remove: "om_reachable mg need prune clean m \<Longrightarrow> om_reachable mg need prune clean (om_remove m key)"
| reach_merge: "om_reachable mg need prune clean m \<Longrightarrow> om_reachable mg need prune clean n \<Longrightarrow>
    om_reachable mg need prune clean (om_merge mg m n)"
| reach_delta: "om_reachable mg need prune clean m \<Longrightarrow> om_delta m = Some d \<Longrightarrow>
    om_reachable mg need prune clean d"
| reach_reset: "om_reachable mg need prune clean m \<Longrightarrow> om_reachable mg need prune clean (om_reset_delta m)"
| reach_prune: "om_reachable mg need prune clean m \<Longrightarrow> om_prune need prune m r c = Inr m' \<Longrightarrow>
    om_reachable mg need prune clean m'"
| reach_cleanup: "om_reachable mg need prune clean m \<Longrightarrow>
    om_reachable mg need prune clean (om_pruning_cleanup need clean m r)"

lemma om_wf_delta: "om_wf m \<Longrightarrow> om_delta m = Some d \<Longrightarrow> om_wf d"
  by (auto simp: om_delta_def om_wf_def split: if_splits)

lemma om_reachable_wf: "om_reachable mg need prune clean m \<Longrightarrow> om_wf m"
  by (induction rule: om_reachable.induct)
    (blast intro: om_wf_new om_wf_put om_wf_update om_wf_remove om_wf_merge om_wf_delta om_wf_reset
      om_wf_prune om_wf_cleanup)+

section \<open>Pruning a map prunes its values\<close>

text \<open>The pruning contract of the values gives the pruning contract of the map.\<close>

locale or_map_values = removed_node_pruning valid value_nodes value_need value_prune value_cleanup
  for valid :: "'b \<Rightarrow> bool" and value_nodes and value_need
    and value_prune :: "'b \<Rightarrow> unique_address \<Rightarrow> unique_address \<Rightarrow> 'e + 'b" and value_cleanup
begin

definition map_valid :: "('a::linorder, 'b) or_map \<Rightarrow> bool" where
  "map_valid m \<longleftrightarrow> om_wf m \<and> (\<forall>key v. fmlookup (om_values m) key = Some v \<longrightarrow> valid v)"

lemma om_need_iff:
  "map_valid m \<Longrightarrow> om_need_pruning_from value_need m n \<longleftrightarrow>
     version_at (vvector (om_keys m)) n \<noteq> 0 \<or> (\<exists>key v. fmlookup (om_values m) key = Some v \<and> value_need v n)"
  by (auto simp: map_valid_def om_need_pruning_from_def om_wf_def or_need_pruning_iff list_ex_iff set_map_values)

lemma fold_union_nodes: "n |\<in>| fold (\<lambda>v nodes. nodes |\<union>| value_nodes v) vs acc \<longleftrightarrow>
    n |\<in>| acc \<or> (\<exists>v\<in>set vs. n |\<in>| value_nodes v)"
  by (induction vs arbitrary: acc) auto

lemma om_nodes_iff:
  "map_valid m \<Longrightarrow> n |\<in>| om_modified_by_nodes value_nodes m \<longleftrightarrow> om_need_pruning_from value_need m n"
  using or_pruning.need_pruning_iff [of "om_keys m" n]
  by (auto simp: om_modified_by_nodes_def fold_union_nodes set_map_values om_need_pruning_from_def
      list_ex_iff map_valid_def om_wf_def need_pruning_iff)

lemma prune_values:
  assumes "map_valid m" and "om_prune value_need value_prune m r c = Inr m'"
    and "fmlookup (om_values m') key = Some w"
  shows "valid w" and "r \<noteq> c \<Longrightarrow> \<not> value_need w r"
proof -
  obtain v where v: "fmlookup (om_values m) key = Some v"
    "w = (if value_need v r then projr (value_prune v r c) else v)"
    by (rule om_prune_Inr [OF assms(2)]) (use assms(3) in auto)
  have ex: "\<exists>u. value_prune v r c = Inr u" if "value_need v r"
    by (rule om_prune_Inr [OF assms(2)]) (use v(1) that in blast)
  have "valid v" using assms(1) v(1) by (auto simp: map_valid_def)
  with ex v(2) show "valid w" "r \<noteq> c \<Longrightarrow> \<not> value_need w r"
    by (auto intro: valid_prune dest: prune_removes split: if_splits)
qed

end

sublocale or_map_values \<subseteq> om: removed_node_pruning map_valid "om_modified_by_nodes value_nodes"
  "om_need_pruning_from value_need" "om_prune value_need value_prune"
  "om_pruning_cleanup value_need value_cleanup"
proof
  fix s s' :: "('a::linorder, 'b) or_map" and r c n
  assume val: "map_valid s"
  show "om_need_pruning_from value_need s n \<longleftrightarrow> n |\<in>| om_modified_by_nodes value_nodes s"
    using val by (simp add: om_nodes_iff)
  show "\<not> om_need_pruning_from value_need (om_pruning_cleanup value_need value_cleanup s r) r"
    if n: "\<not> om_need_pruning_from value_need s r"
  proof -
    have wf: "or_wf (om_keys s)" using val by (simp add: map_valid_def om_wf_def)
    have "\<not> or_need_pruning_from (or_pruning_cleanup (om_keys s) r) r"
      by (simp add: or_need_pruning_iff or_wf_cleanup wf or_cleanup_effect)
    moreover have "\<not> value_need v r" if "fmlookup (om_values s) key = Some v" for key v
      using n that by (auto simp: om_need_iff [OF val])
    ultimately show ?thesis
      by (auto simp: om_need_pruning_from_def om_cleanup_keys list_ex_iff set_map_values om_cleanup_lookup
          split: option.splits if_splits)
  qed
  assume p: "om_prune value_need value_prune s r c = Inr s'"
  show val': "map_valid s'"
    using val p prune_values(1) [OF val p] by (auto simp: map_valid_def intro: om_wf_prune)
  show "\<not> om_need_pruning_from value_need s' r" if "r \<noteq> c"
  proof -
    obtain keys where "or_prune (om_keys s) r c = Inr keys" "om_keys s' = keys"
      by (rule om_prune_Inr [OF p]) (rule that)
    then have "version_at (vvector (om_keys s')) r = 0"
      using or_prune_removes [OF _ that] val by (auto simp: map_valid_def om_wf_def)
    then show ?thesis
      using prune_values(2) [OF val p _ that] by (auto simp: om_need_iff [OF val'])
  qed
qed

section \<open>Merging live maps\<close>

definition om_live :: "('a, 'b) or_map \<Rightarrow> bool" where
  "om_live m \<longleftrightarrow> om_wf m \<and> or_live (om_keys m)"

definition dot_survives :: "'a or_set \<Rightarrow> 'a or_set \<Rightarrow> 'a \<Rightarrow> bool" where
  "dot_survives s t key \<longleftrightarrow>
     (\<exists>n. dot_at s key n \<noteq> 0 \<and>
       (dot_at t key n = dot_at s key n \<or> version_at (vvector t) n < dot_at s key n))"

lemma contributes_live:
  assumes "or_live s" and "or_live t"
  shows "contributes s key (or_merge s t) \<longleftrightarrow> dot_survives s t key"
    and "contributes t key (or_merge s t) \<longleftrightarrow> dot_survives t s key"
proof -
  have "dot_at (or_merge s t) key n = dot_at s key n \<longleftrightarrow>
      dot_at t key n = dot_at s key n \<or> version_at (vvector t) n < dot_at s key n" if "dot_at s key n \<noteq> 0" for n
    using that by (simp add: dot_at_merge_live assms orswot_keeps dot_le_vvector)
  then show "contributes s key (or_merge s t) \<longleftrightarrow> dot_survives s t key"
    unfolding contributes_def dot_survives_def by metis
  have "dot_at (or_merge s t) key n = dot_at t key n \<longleftrightarrow>
      dot_at s key n = dot_at t key n \<or> version_at (vvector s) n < dot_at t key n" if "dot_at t key n \<noteq> 0" for n
    using that by (simp add: dot_at_merge_live assms orswot_keeps dot_le_vvector)
  then show "contributes t key (or_merge s t) \<longleftrightarrow> dot_survives t s key"
    unfolding contributes_def dot_survives_def by metis
qed

lemma covered_live:
  assumes "or_live t"
  shows "\<not> covered_by_pruned_aliases (contributing_key_dots s key u) (contributing_key_dots t key u)"
proof -
  have "dot_at t key (pruning_node_for n) = 0" for n
    using assms dot_le_vvector [OF assms, of key "pruning_node_for n"]
    unfolding or_live_def by (metis pruning_node_for_not_confirmed word_le_0_iff)
  then show ?thesis
    unfolding covered_by_pruned_aliases_iff [OF vv_wf_contributing vv_wf_contributing]
    by (auto simp: version_simps)
qed

lemma om_live_merge: "om_live m \<Longrightarrow> om_live n \<Longrightarrow> om_live (om_merge mg m n)"
  by (simp add: om_live_def om_wf_merge) (simp add: om_merge_def Let_def or_live_merge)

lemma om_keys_merge: "om_keys (om_merge mg m n) = or_merge (om_keys m) (om_keys n)"
  by (simp add: om_merge_def Let_def)

text \<open>The value under a key after a merge: both surviving values merged, or the one survivor.\<close>

definition merged_value :: "('b \<Rightarrow> 'b \<Rightarrow> 'b) \<Rightarrow> ('a, 'b) or_map \<Rightarrow> ('a, 'b) or_map \<Rightarrow> 'a \<Rightarrow> 'b option" where
  "merged_value mg m n key =
     (case (if dot_survives (om_keys m) (om_keys n) key then om_get m key else None,
            if dot_survives (om_keys n) (om_keys m) key then om_get n key else None) of
        (Some x, Some y) \<Rightarrow> Some (mg x y)
      | (Some x, None) \<Rightarrow> Some x
      | (None, y) \<Rightarrow> y)"

lemma om_get_merge:
  assumes "om_live m" and "om_live n"
  shows "om_get (om_merge mg m n) key = merged_value mg m n key"
proof -
  let ?k = "or_merge (om_keys m) (om_keys n)"
  have live: "or_live (om_keys m)" "or_live (om_keys n)" and wf: "om_wf m" "om_wf n"
    using assms by (simp_all add: om_live_def)
  note c = contributes_live [OF live, of key] and cov = covered_live [OF live(1)] covered_live [OF live(2)]
  have get: "om_get x key \<noteq> None" if "om_wf x" "contributes (om_keys x) key ?k" for x :: "('a, 'b) or_map"
    using om_wf_lookup [OF that(1), of key] contributes_contains [OF _ that(2)] that(1)
    by (auto simp: om_wf_def om_get_def)
  have none: "\<not> contributes (om_keys m) key ?k \<and> \<not> contributes (om_keys n) key ?k" if "\<not> or_contains ?k key"
    using that live by (auto simp: or_contains_iff or_wf_merge or_live_wf contributes_def)
  show ?thesis
    using get [OF wf(1)] get [OF wf(2)] none
    unfolding om_get_def lookup_om_merge om_keys_merge merged_value_def
    by (auto simp: merge_value_step_def Let_def contributing_not_empty c cov split: option.splits bool.splits)
qed

section \<open>Properties\<close>

text \<open>
  Claim C18. In every reachable \<open>ORMap\<close>, after any puts, updates, removes, merges, deltas, prunes and
  cleanups, the visible entries are exactly the visible keys: no key without a value, no value
  left behind under a removed key.
\<close>

theorem om_entries_match_keys:
  assumes "om_reachable mg need prune clean m"
  shows "fmdom (om_values m) = or_element_set (om_keys m) \<and>
    (om_contains_key m key \<longleftrightarrow> or_contains (om_keys m) key)"
  using om_reachable_wf [OF assms] om_wf_lookup [of m key]
  by (simp add: om_wf_def om_contains_key_def contains_key_def)

definition om_one :: "unique_address \<Rightarrow> 'a \<Rightarrow> 'b \<Rightarrow> ('a, 'b) or_map" where
  "om_one n key v = \<lparr>om_keys = or_one n key, om_values = fmupd key v fmempty, om_delta_dirty = True\<rparr>"

lemma om_put_new: "om_put om_new (SelfUniqueAddress n) key v = Inr (om_one n key v)"
  using or_add_new [of n key]
  by (simp add: om_put_def om_new_def om_one_def or_contains_def or_new_def contains_key_def)

theorem om_entries_match_keys_witness:
  "fmdom (om_values (om_merge (\<lambda>x y. max x y :: nat) (om_one node_a ''k'' 1) (om_remove (om_one node_b ''k'' 2) ''k''))) =
   or_element_set (om_keys (om_merge (\<lambda>x y. max x y :: nat) (om_one node_a ''k'' 1) (om_remove (om_one node_b ''k'' 2) ''k'')))"
proof -
  have one: "om_reachable (\<lambda>x y. max x y :: nat) (\<lambda>_ _. False) (\<lambda>v _ _. Inr v :: unit + nat) (\<lambda>v _. v) (om_one n ''k'' v)" for n v
    using om_put_new by (rule reach_put [OF reach_new])
  show ?thesis
    using om_entries_match_keys [OF reach_merge [OF one reach_remove [OF one]]] by blast
qed

text \<open>
  What \<open>ORMap::merge\<close> leaves under a key of live maps: the merge of both values when each
  side has a dot for the key that the other side shares or has not seen, the one value whose dot
  survives otherwise, and no entry when no dot survives.
\<close>

theorem om_merge_values:
  assumes "om_live m" and "om_live n"
  shows "om_get (om_merge mg m n) key = merged_value mg m n key \<and> om_live (om_merge mg m n)"
  using assms by (simp add: om_get_merge om_live_merge)

lemma om_live_one: "confirmed n \<Longrightarrow> om_live (om_one n (key :: 'a::linorder) v)"
  using om_wf_put [OF om_wf_new om_put_new, of n key v] by (simp add: om_live_def om_one_def or_live_one)

theorem om_merge_values_witness:
  "om_get (om_merge max (om_one node_a ''k'' (1 :: nat)) (om_one node_b ''k'' 2)) ''k'' = Some 2"
proof -
  have "om_get (om_merge max (om_one node_a ''k'' (1 :: nat)) (om_one node_b ''k'' 2)) ''k'' =
      merged_value max (om_one node_a ''k'' (1 :: nat)) (om_one node_b ''k'' 2) ''k''"
    by (rule om_merge_values [OF om_live_one om_live_one, THEN conjunct1]) simp_all
  moreover have "dot_survives (or_one node_a ''k'') (or_one node_b ''k'') ''k''"
    "dot_survives (or_one node_b ''k'') (or_one node_a ''k'') ''k''"
    by (auto simp: dot_survives_def)
  ultimately show ?thesis
    by (simp add: merged_value_def om_get_def om_one_def)
qed

text \<open>
  Claim C40. \<open>ORMap::merge\<close> is not associative when one replica removes an entry that another replica
  has merged into a concurrent put: merging the two puts first keeps the removed contribution
  inside the surviving value, merging the remove first drops it.
\<close>

theorem om_merge_not_associative:
  assumes "mg x y \<noteq> y"
  shows "let a = om_one node_a key x; b = om_one node_b key y; t = om_remove a key in
    om_get (om_merge mg (om_merge mg a b) t) key = Some (mg x y) \<and>
    om_get (om_merge mg a (om_merge mg b t)) key = Some y \<and>
    om_get (om_merge mg (om_merge mg a b) t) key \<noteq> om_get (om_merge mg a (om_merge mg b t)) key"
proof -
  define a b where "a = om_one node_a key x" and "b = om_one node_b key y"
  define t where "t = om_remove a key"
  have live: "om_live a" "om_live b" by (simp_all add: a_def b_def om_live_one)
  have tk: "om_keys t = or_remove (or_one node_a key) key" "om_values t = fmempty"
    by (auto simp: t_def a_def om_remove_def om_one_def contains_key_def intro: fmap_ext)
  have wf: "or_wf (or_one node_a key)" by (simp add: or_live_wf or_live_one)
  have lt: "om_live t"
    using om_wf_remove [of a key] live(1) or_update_live(1) [OF or_live_one, of node_a key "om_keys t"]
    by (auto simp: om_live_def tk or_update_def simp flip: t_def)
  have keys: "om_keys a = or_one node_a key" "om_keys b = or_one node_b key"
    by (simp_all add: a_def b_def om_one_def)
  note d = dot_survives_def om_keys_merge keys tk dot_at_merge_live or_live_one vvector_merge version_simps
    or_remove_effect [OF wf] orswot_def om_live_def [THEN iffD1, OF lt, THEN conjunct2, unfolded tk]
  have "om_get (om_merge mg (om_merge mg a b) t) key = Some (mg x y)"
    using live lt
    by (simp add: om_get_merge om_live_merge merged_value_def d)
      (auto simp: om_get_def a_def b_def om_one_def tk intro!: exI [of _ node_b])
  moreover have "om_get (om_merge mg a (om_merge mg b t)) key = Some y"
    using live lt
    by (simp add: om_get_merge om_live_merge merged_value_def d)
      (auto simp: om_get_def a_def b_def om_one_def tk)
  ultimately show ?thesis
    using assms by (simp add: a_def b_def t_def Let_def)
qed

theorem om_merge_not_associative_witness:
  "let a = om_one node_a ''k'' (5 :: nat); b = om_one node_b ''k'' 2; t = om_remove a ''k'' in
    om_get (om_merge max (om_merge max a b) t) ''k'' = Some 5 \<and>
    om_get (om_merge max a (om_merge max b t)) ''k'' = Some 2"
  using om_merge_not_associative [of max 5 "2 :: nat" "''k''"] by (simp add: Let_def)

end
