(* ===== verification/LWW_Map.thy ===== *)
theory LWW_Map
  imports OR_Map
begin

text \<open>
  \<open>LWWMap\<close> (\<open>ddata/lww_map.rs\<close>): an \<open>ORMap\<close> whose values are last-writer-wins registers. A local
  put that would not win over the stored register leaves the map alone.
\<close>

section \<open>Data and operations\<close>

record ('a, 'v) lww_map =
  lm_underlying :: "('a, 'v lww_register) or_map"

definition lm_new :: "('a, 'v) lww_map" where
  "lm_new = \<lparr>lm_underlying = om_new\<rparr>"

definition register_wins :: "'v lww_register \<Rightarrow> 'v lww_register \<Rightarrow> bool" where
  "register_wins candidate current \<longleftrightarrow>
     lww_timestamp candidate > lww_timestamp current \<or>
     (lww_timestamp candidate = lww_timestamp current \<and> lww_updated_by candidate < lww_updated_by current)"

definition lm_put_with_clock ::
    "('a, 'v) lww_map \<Rightarrow> self_unique_address \<Rightarrow> 'a \<Rightarrow> 'v \<Rightarrow> (int \<Rightarrow> 'v \<Rightarrow> int) \<Rightarrow>
      panic + ('a, 'v) lww_map" where
  "lm_put_with_clock m node key v clock =
     (let store = (\<lambda>register. and_then (om_put (lm_underlying m) node key register)
                     (\<lambda>u. Inr \<lparr>lm_underlying = u\<rparr>))
      in case om_get (lm_underlying m) key of
           Some existing \<Rightarrow>
             (case lww_with_value_with_clock existing node v clock of
                Some next \<Rightarrow> if register_wins next existing then store next else Inr m
              | None \<Rightarrow> Inr m)
         | None \<Rightarrow> store (lww_new_with_clock node v clock))"

definition lm_put ::
    "('a, 'v) lww_map \<Rightarrow> self_unique_address \<Rightarrow> 'a \<Rightarrow> 'v \<Rightarrow> int \<Rightarrow> panic + ('a, 'v) lww_map" where
  "lm_put m node key v current_time_millis =
     lm_put_with_clock m node key v (\<lambda>timestamp _. default_clock timestamp current_time_millis)"

definition lm_remove :: "('a, 'v) lww_map \<Rightarrow> 'a \<Rightarrow> ('a, 'v) lww_map" where
  "lm_remove m key = \<lparr>lm_underlying = om_remove (lm_underlying m) key\<rparr>"

definition lm_get :: "('a, 'v) lww_map \<Rightarrow> 'a \<Rightarrow> 'v option" where
  "lm_get m key = map_option lww_value (om_get (lm_underlying m) key)"

definition lm_entries :: "('a, 'v) lww_map \<Rightarrow> ('a, 'v) fmap" where
  "lm_entries m = fmmap lww_value (om_values (lm_underlying m))"

definition lm_contains_key :: "('a, 'v) lww_map \<Rightarrow> 'a \<Rightarrow> bool" where
  "lm_contains_key m key \<longleftrightarrow> om_contains_key (lm_underlying m) key"

definition lm_is_empty :: "('a, 'v) lww_map \<Rightarrow> bool" where
  "lm_is_empty m \<longleftrightarrow> om_is_empty (lm_underlying m)"

definition lm_len :: "('a::linorder, 'v) lww_map \<Rightarrow> nat" where
  "lm_len m = om_len (lm_underlying m)"

definition lm_merge :: "('a::linorder, 'v) lww_map \<Rightarrow> ('a, 'v) lww_map \<Rightarrow> ('a, 'v) lww_map" where
  "lm_merge self other = \<lparr>lm_underlying = om_merge lww_merge (lm_underlying self) (lm_underlying other)\<rparr>"

definition lm_delta :: "('a, 'v) lww_map \<Rightarrow> ('a, 'v) lww_map option" where
  "lm_delta m = map_option (\<lambda>u. \<lparr>lm_underlying = u\<rparr>) (om_delta (lm_underlying m))"

definition lm_merge_delta :: "('a::linorder, 'v) lww_map \<Rightarrow> ('a, 'v) lww_map \<Rightarrow> ('a, 'v) lww_map" where
  "lm_merge_delta m d = \<lparr>lm_underlying = om_merge_delta lww_merge (lm_underlying m) (lm_underlying d)\<rparr>"

definition lm_reset_delta :: "('a, 'v) lww_map \<Rightarrow> ('a, 'v) lww_map" where
  "lm_reset_delta m = \<lparr>lm_underlying = om_reset_delta (lm_underlying m)\<rparr>"

definition lm_zero :: "('a, 'v) lww_map \<Rightarrow> ('a, 'v) lww_map" where
  "lm_zero m = lm_new"

definition lm_eq :: "('a, 'v) lww_map \<Rightarrow> ('a, 'v) lww_map \<Rightarrow> bool" where
  "lm_eq a b \<longleftrightarrow> om_eq (=) (lm_underlying a) (lm_underlying b)"

definition lm_modified_by_nodes :: "('a::linorder, 'v) lww_map \<Rightarrow> unique_address fset" where
  "lm_modified_by_nodes m = om_modified_by_nodes lww_modified_by_nodes (lm_underlying m)"

definition lm_need_pruning_from :: "('a::linorder, 'v) lww_map \<Rightarrow> unique_address \<Rightarrow> bool" where
  "lm_need_pruning_from m removed_node \<longleftrightarrow>
     om_need_pruning_from lww_need_pruning_from (lm_underlying m) removed_node"

definition lm_prune ::
    "('a::linorder, 'v) lww_map \<Rightarrow> unique_address \<Rightarrow> unique_address \<Rightarrow>
      counter_arithmetic_error + ('a, 'v) lww_map" where
  "lm_prune m removed_node collapse_into =
     and_then (om_prune lww_need_pruning_from lww_prune (lm_underlying m) removed_node collapse_into)
       (\<lambda>u. Inr \<lparr>lm_underlying = u\<rparr>)"

definition lm_pruning_cleanup :: "('a::linorder, 'v) lww_map \<Rightarrow> unique_address \<Rightarrow> ('a, 'v) lww_map" where
  "lm_pruning_cleanup m removed_node =
     \<lparr>lm_underlying = om_pruning_cleanup lww_need_pruning_from lww_pruning_cleanup (lm_underlying m) removed_node\<rparr>"

interpretation lm_values: or_map_values "\<lambda>_ :: 'v lww_register. True" lww_modified_by_nodes
  lww_need_pruning_from lww_prune lww_pruning_cleanup
  by unfold_locales

section \<open>Lemmas\<close>

lemma register_wins_merge:
  "register_wins candidate current \<Longrightarrow>
     lww_merge current candidate = candidate \<and> lww_merge candidate current = candidate"
  by (auto simp: register_wins_def lww_merge_def)

lemma om_get_put: "om_put m node key v = Inr m' \<Longrightarrow> om_get m' key' = (if key' = key then Some v else om_get m key')"
  by (auto simp: om_put_def and_then_eq_Inr om_get_def)

lemma lm_put_cases:
  assumes "lm_put_with_clock m node key v clock = Inr m'"
  obtains (unchanged) old where "om_get (lm_underlying m) key = Some old" and "m' = m"
      and "\<And>new. lww_with_value_with_clock old node v clock = Some new \<Longrightarrow> \<not> register_wins new old"
  | (replaced) old new where "om_get (lm_underlying m) key = Some old"
      and "lww_with_value_with_clock old node v clock = Some new" and "register_wins new old"
      and "om_put (lm_underlying m) node key new = Inr (lm_underlying m')"
  | (created) "om_get (lm_underlying m) key = None"
      and "om_put (lm_underlying m) node key (lww_new_with_clock node v clock) = Inr (lm_underlying m')"
  using assms
  by (auto simp: lm_put_with_clock_def Let_def and_then_eq_Inr split: option.splits if_splits)

section \<open>Properties\<close>

text \<open>
  \<open>LWWMap::put_with_clock\<close>, for any clock, never moves an entry backwards: the stored
  register is the old one or one that wins against it in both merge orders, no other key changes,
  and a fresh key gets the value written.
\<close>

theorem lm_put_monotone:
  assumes "lm_put_with_clock m node key v clock = Inr m'"
  shows "(case om_get (lm_underlying m) key of
      None \<Rightarrow> lm_get m' key = Some v
    | Some old \<Rightarrow> (\<exists>new. om_get (lm_underlying m') key = Some new \<and>
        lww_merge old new = new \<and> lww_merge new old = new \<and> (new = old \<or> lww_value new = v))) \<and>
    (\<forall>key'. key' \<noteq> key \<longrightarrow> lm_get m' key' = lm_get m key')"
  using assms
proof (cases rule: lm_put_cases)
  case (unchanged old)
  then show ?thesis by (simp add: lww_merge_idem)
next
  case (replaced old new)
  then show ?thesis
    by (auto simp: om_get_put [OF replaced(4)] lm_get_def register_wins_merge
        lww_with_value_with_clock_def lww_new_at_def Let_def split: if_splits)
next
  case created
  then show ?thesis
    by (simp add: om_get_put [OF created(2)] lm_get_def lww_new_with_clock_def lww_new_at_def Let_def)
qed

text \<open>The map a fresh replica on node \<open>n\<close> has after one put.\<close>

definition lm_one :: "unique_address \<Rightarrow> 'a \<Rightarrow> 'v \<Rightarrow> int \<Rightarrow> ('a, 'v) lww_map" where
  "lm_one n key v now = \<lparr>lm_underlying = om_one n key (lww_new (SelfUniqueAddress n) v now)\<rparr>"

lemma lm_put_new: "lm_put lm_new (SelfUniqueAddress n) key v now = Inr (lm_one n key v now)"
  using om_put_new [of n key "lww_new (SelfUniqueAddress n) v now"]
  by (simp add: lm_put_def lm_put_with_clock_def lm_new_def lm_one_def om_get_def Let_def lww_new_def)
    (simp add: om_new_def)

theorem lm_put_monotone_witness:
  "lm_get (lm_one node_a ''k'' ''v'' 7) ''k'' = Some ''v''"
  using lm_put_monotone [OF lm_put_new [unfolded lm_put_def], of node_a "''k''" "''v''" 7]
  by (simp add: lm_new_def om_new_def om_get_def)

text \<open>
  Pruning an \<open>LWWMap\<close> succeeds, keeps every visible entry and its value, and leaves no
  trace of the removed node among keys or registers.
\<close>

theorem lm_prune_correct:
  assumes "om_wf (lm_underlying m)" and "r \<noteq> c"
  shows "\<exists>m'. lm_prune m r c = Inr m' \<and> om_wf (lm_underlying m') \<and>
    (\<forall>key. lm_get m' key = lm_get m key) \<and> \<not> lm_need_pruning_from m' r"
proof -
  obtain u where u: "om_prune lww_need_pruning_from lww_prune (lm_underlying m) r c = Inr u"
    by (rule exE [OF om_prune_total [of "lm_underlying m" lww_need_pruning_from r lww_prune c]])
      (auto simp: lww_prune_def)
  have val: "lm_values.map_valid (lm_underlying m)"
    using assms(1) by (simp add: lm_values.map_valid_def)
  have "lww_value (if lww_need_pruning_from v r then projr (lww_prune v r c) else v) = lww_value v"
    for v :: "'b lww_register"
    by (simp add: lww_prune_def)
  then have "map_option lww_value (om_get u key) = map_option lww_value (om_get (lm_underlying m) key)" for key
    by (rule_tac om_prune_Inr [OF u]) (simp add: om_get_def option.map_comp comp_def)
  then show ?thesis
    using u lm_values.om.prune_removes [OF val assms(2) u] om_wf_prune [OF assms(1) u]
    by (simp add: lm_prune_def lm_get_def lm_need_pruning_from_def)
qed

theorem lm_prune_correct_witness:
  "\<exists>m'. lm_prune (lm_one node_a ''k'' ''v'' 7) node_a node_b = Inr m' \<and>
     lm_get m' ''k'' = Some ''v'' \<and> \<not> lm_need_pruning_from m' node_a"
proof -
  have "om_wf (lm_underlying (lm_one node_a ''k'' ''v'' 7))"
    by (simp add: lm_one_def om_live_one [unfolded om_live_def])
  moreover have "lm_get (lm_one node_a ''k'' ''v'' 7) ''k'' = Some ''v''"
    by (simp add: lm_get_def lm_one_def om_get_def om_one_def lww_new_def lww_new_with_clock_def
        lww_new_at_def Let_def)
  ultimately show ?thesis
    using lm_prune_correct [OF _ node_simps(1), of "lm_one node_a ''k'' ''v'' 7"] by auto
qed

end
