(* ===== verification/OR_Multi_Map.thy ===== *)
theory OR_Multi_Map
  imports LWW_Map
begin

text \<open>
  \<open>ORMultiMap\<close> (\<open>ddata/or_multimap.rs\<close>): an \<open>ORMap\<close> whose values are observed-remove sets. A key
  whose set is empty stays in the underlying map and is hidden by every query.
\<close>

section \<open>Data and operations\<close>

record ('a, 'b) or_multi_map =
  mm_underlying :: "('a, 'b or_set) or_map"

definition mm_new :: "('a, 'b) or_multi_map" where
  "mm_new = \<lparr>mm_underlying = om_new\<rparr>"

definition mm_add_binding ::
    "('a, 'b) or_multi_map \<Rightarrow> self_unique_address \<Rightarrow> 'a \<Rightarrow> 'b \<Rightarrow> panic + ('a, 'b) or_multi_map" where
  "mm_add_binding m node key element =
     and_then (om_update (mm_underlying m) node key or_new (\<lambda>s. or_add s node element))
       (\<lambda>u. Inr \<lparr>mm_underlying = u\<rparr>)"

definition mm_remove_binding ::
    "('a, 'b) or_multi_map \<Rightarrow> self_unique_address \<Rightarrow> 'a \<Rightarrow> 'b \<Rightarrow> panic + ('a, 'b) or_multi_map" where
  "mm_remove_binding m node key element =
     (case om_get (mm_underlying m) key of
        None \<Rightarrow> Inr m
      | Some existing \<Rightarrow>
          if \<not> or_contains existing element then Inr m
          else and_then (om_update (mm_underlying m) node key or_new (\<lambda>s. Inr (or_remove s element)))
                 (\<lambda>updated. Inr \<lparr>mm_underlying = updated\<rparr>))"

definition mm_get :: "('a, 'b) or_multi_map \<Rightarrow> 'a \<Rightarrow> 'b fset option" where
  "mm_get m key =
     (case om_get (mm_underlying m) key of
        None \<Rightarrow> None
      | Some s \<Rightarrow> if \<not> or_is_empty s then Some (or_element_set s) else None)"

definition mm_entries :: "('a::linorder, 'b) or_multi_map \<Rightarrow> ('a, 'b fset) fmap" where
  "mm_entries m =
     collect_map (\<lambda>_ s. if \<not> or_is_empty s then Some (or_element_set s) else None) (om_values (mm_underlying m))"

definition mm_contains_key :: "('a, 'b) or_multi_map \<Rightarrow> 'a \<Rightarrow> bool" where
  "mm_contains_key m key \<longleftrightarrow> mm_get m key \<noteq> None"

definition mm_is_empty :: "('a::linorder, 'b) or_multi_map \<Rightarrow> bool" where
  "mm_is_empty m \<longleftrightarrow> list_all or_is_empty (map_values (om_values (mm_underlying m)))"

definition mm_len :: "('a::linorder, 'b) or_multi_map \<Rightarrow> nat" where
  "mm_len m = length (filter (\<lambda>s. \<not> or_is_empty s) (map_values (om_values (mm_underlying m))))"

definition mm_merge ::
    "('a::linorder, 'b::linorder) or_multi_map \<Rightarrow> ('a, 'b) or_multi_map \<Rightarrow> ('a, 'b) or_multi_map" where
  "mm_merge self other = \<lparr>mm_underlying = om_merge or_merge (mm_underlying self) (mm_underlying other)\<rparr>"

definition mm_delta :: "('a, 'b) or_multi_map \<Rightarrow> ('a, 'b) or_multi_map option" where
  "mm_delta m = map_option (\<lambda>u. \<lparr>mm_underlying = u\<rparr>) (om_delta (mm_underlying m))"

definition mm_merge_delta ::
    "('a::linorder, 'b::linorder) or_multi_map \<Rightarrow> ('a, 'b) or_multi_map \<Rightarrow> ('a, 'b) or_multi_map" where
  "mm_merge_delta m d = \<lparr>mm_underlying = om_merge_delta or_merge (mm_underlying m) (mm_underlying d)\<rparr>"

definition mm_reset_delta :: "('a, 'b) or_multi_map \<Rightarrow> ('a, 'b) or_multi_map" where
  "mm_reset_delta m = \<lparr>mm_underlying = om_reset_delta (mm_underlying m)\<rparr>"

definition mm_zero :: "('a, 'b) or_multi_map \<Rightarrow> ('a, 'b) or_multi_map" where
  "mm_zero m = mm_new"

definition mm_eq :: "('a, 'b) or_multi_map \<Rightarrow> ('a, 'b) or_multi_map \<Rightarrow> bool" where
  "mm_eq a b \<longleftrightarrow> om_eq or_eq (mm_underlying a) (mm_underlying b)"

definition mm_modified_by_nodes :: "('a::linorder, 'b) or_multi_map \<Rightarrow> unique_address fset" where
  "mm_modified_by_nodes m = om_modified_by_nodes or_modified_by_nodes (mm_underlying m)"

definition mm_need_pruning_from :: "('a::linorder, 'b::linorder) or_multi_map \<Rightarrow> unique_address \<Rightarrow> bool" where
  "mm_need_pruning_from m removed_node \<longleftrightarrow>
     om_need_pruning_from or_need_pruning_from (mm_underlying m) removed_node"

definition mm_prune ::
    "('a::linorder, 'b::linorder) or_multi_map \<Rightarrow> unique_address \<Rightarrow> unique_address \<Rightarrow>
      unit + ('a, 'b) or_multi_map" where
  "mm_prune m removed_node collapse_into =
     and_then (om_prune or_need_pruning_from or_prune (mm_underlying m) removed_node collapse_into)
       (\<lambda>u. Inr \<lparr>mm_underlying = u\<rparr>)"

definition mm_pruning_cleanup ::
    "('a::linorder, 'b::linorder) or_multi_map \<Rightarrow> unique_address \<Rightarrow> ('a, 'b) or_multi_map" where
  "mm_pruning_cleanup m removed_node =
     \<lparr>mm_underlying = om_pruning_cleanup or_need_pruning_from or_pruning_cleanup (mm_underlying m) removed_node\<rparr>"

interpretation mm_values: or_map_values or_wf or_modified_by_nodes or_need_pruning_from or_prune
  or_pruning_cleanup
  by unfold_locales

section \<open>Bindings\<close>

text \<open>The relation a multi-map stands for: the elements bound to a key.\<close>

definition bindings :: "('a, 'b) or_multi_map \<Rightarrow> 'a \<Rightarrow> 'b fset" where
  "bindings m key = (case om_get (mm_underlying m) key of None \<Rightarrow> {||} | Some s \<Rightarrow> or_element_set s)"

lemma or_is_empty_iff: "or_is_empty s \<longleftrightarrow> or_element_set s = {||}"
  unfolding or_is_empty_def or_element_set_def by (metis fmdom_empty fmrestrict_fset_dom fmrestrict_fset_null)

lemma mm_get_bindings: "mm_get m key = (if bindings m key = {||} then None else Some (bindings m key))"
  by (simp add: mm_get_def bindings_def or_is_empty_iff split: option.splits)

lemma or_element_set_add: "or_add s node e = Inr s' \<Longrightarrow> or_element_set s' = finsert e (or_element_set s)"
  unfolding or_add_def by (drule or_add_Inr) (auto simp: or_element_set_def)

lemma or_element_set_remove: "or_element_set (or_remove s e) = or_element_set s |-| {|e|}"
  by (auto simp: or_element_set_def or_remove_def fmlookup_dom_iff split: option.splits)

lemma om_get_update:
  assumes "om_update m node key initial modify = Inr m'"
  shows "\<exists>new. modify (case om_get m key of Some v \<Rightarrow> v | None \<Rightarrow> initial) = Inr new \<and>
    om_get m' key' = (if key' = key then Some new else om_get m key')"
  using assms by (auto simp: om_update_def Let_def and_then_eq_Inr om_get_def)

lemma mm_prune_bindings:
  fixes m :: "('a::linorder, 'b::linorder) or_multi_map"
  assumes val: "mm_values.map_valid (mm_underlying m)" and "r \<noteq> c"
    and "om_prune or_need_pruning_from or_prune (mm_underlying m) r c = Inr u"
  shows "bindings \<lparr>mm_underlying = u\<rparr> key = bindings m key"
proof -
  have keep: "or_element_set (projr (or_prune s r c)) = or_element_set s"
    if "or_wf s" for s :: "'b or_set"
    using or_prune_effect(4) [OF that assms(2)] or_prune_total [of s r c] by (auto simp: or_element_set_def)
  have "om_get u key = map_option (\<lambda>s. if or_need_pruning_from s r then projr (or_prune s r c) else s)
      (om_get (mm_underlying m) key)"
    by (rule om_prune_Inr [OF assms(3)]) (simp add: om_get_def)
  moreover have "or_wf s" if "om_get (mm_underlying m) key = Some s" for s
    using val that by (auto simp: mm_values.map_valid_def om_get_def)
  ultimately show ?thesis
    using keep by (cases "om_get (mm_underlying m) key") (auto simp: bindings_def split: if_splits)
qed

section \<open>Properties\<close>

text \<open>
  A multi-map behaves as a relation: \<open>add_binding\<close> adds exactly one pair,
  \<open>remove_binding\<close> removes exactly one pair, and \<open>get\<close> answers with the bound elements, hiding a
  key that has none.
\<close>

theorem mm_operations:
  "(case mm_add_binding m node key element of
      Inl _ \<Rightarrow> True
    | Inr m' \<Rightarrow> bindings m' key' =
        (if key' = key then finsert element (bindings m key') else bindings m key')) \<and>
   (case mm_remove_binding m node key element of
      Inl _ \<Rightarrow> True
    | Inr m' \<Rightarrow> bindings m' key' =
        (if key' = key then bindings m key' |-| {|element|} else bindings m key')) \<and>
   mm_get m key = (if bindings m key = {||} then None else Some (bindings m key))"
proof -
  have new: "or_element_set or_new = {||}" by (simp add: or_element_set_def or_new_def)
  have "bindings m' key' = (if key' = key then finsert element (bindings m key') else bindings m key')"
    if "mm_add_binding m node key element = Inr m'" for m'
  proof -
    from that obtain u where u: "om_update (mm_underlying m) node key or_new (\<lambda>s. or_add s node element) = Inr u"
      "m' = \<lparr>mm_underlying = u\<rparr>"
      by (auto simp: mm_add_binding_def and_then_eq_Inr)
    from om_get_update [OF u(1), of key'] show ?thesis
      by (auto simp: bindings_def u(2) new dest: or_element_set_add split: option.splits)
  qed
  moreover have "bindings m' key' = (if key' = key then bindings m key' |-| {|element|} else bindings m key')"
    if "mm_remove_binding m node key element = Inr m'" for m'
  proof (cases "element |\<in>| bindings m key")
    case False
    with that have "m' = m"
      by (auto simp: mm_remove_binding_def bindings_def or_contains_def contains_key_def or_element_set_def
          fmlookup_dom_iff split: option.splits if_splits)
    with False show ?thesis by auto
  next
    case True
    with that obtain u where u: "om_update (mm_underlying m) node key or_new (\<lambda>s. Inr (or_remove s element)) = Inr u"
      "m' = \<lparr>mm_underlying = u\<rparr>"
      by (auto simp: mm_remove_binding_def and_then_eq_Inr bindings_def or_contains_def contains_key_def
          or_element_set_def fmlookup_dom_iff split: option.splits if_splits)
    from om_get_update [OF u(1), of key'] show ?thesis
      by (auto simp: bindings_def u(2) new or_element_set_remove split: option.splits)
  qed
  ultimately show ?thesis
    by (intro conjI mm_get_bindings) (cases "mm_add_binding m node key element";
        cases "mm_remove_binding m node key element"; simp)+
qed

text \<open>
  Pruning a multi-map succeeds, keeps every binding of every key, and leaves no trace of
  the removed node among the keys or in any of the value sets.
\<close>

theorem mm_prune_correct:
  assumes "om_wf (mm_underlying m)" and "r \<noteq> c"
    and "\<forall>key s. om_get (mm_underlying m) key = Some s \<longrightarrow> or_wf s"
  shows "\<exists>m'. mm_prune m r c = Inr m' \<and> om_wf (mm_underlying m') \<and>
    (\<forall>key. bindings m' key = bindings m key) \<and> \<not> mm_need_pruning_from m' r"
proof -
  have val: "mm_values.map_valid (mm_underlying m)"
    using assms(1,3) by (simp add: mm_values.map_valid_def om_get_def)
  obtain u where u: "om_prune or_need_pruning_from or_prune (mm_underlying m) r c = Inr u"
    by (rule exE [OF om_prune_total [of "mm_underlying m" or_need_pruning_from r or_prune c]])
      (auto intro: or_prune_total)
  then show ?thesis
    using mm_prune_bindings [OF val assms(2) u] mm_values.om.prune_removes [OF val assms(2) u]
      om_wf_prune [OF assms(1) u]
    by (simp add: mm_prune_def mm_need_pruning_from_def)
qed

definition mm_one :: "unique_address \<Rightarrow> 'a \<Rightarrow> 'b \<Rightarrow> ('a, 'b) or_multi_map" where
  "mm_one n key element = \<lparr>mm_underlying = om_one n key (or_one n element)\<rparr>"

theorem mm_prune_correct_witness:
  "\<exists>m'. mm_prune (mm_one node_a ''k'' ''x'') node_a node_b = Inr m' \<and>
     bindings m' ''k'' = {|''x''|} \<and> \<not> mm_need_pruning_from m' node_a"
proof -
  have "om_wf (mm_underlying (mm_one node_a ''k'' ''x''))"
    by (simp add: mm_one_def om_live_one [unfolded om_live_def])
  moreover have "\<forall>key s. om_get (mm_underlying (mm_one node_a ''k'' ''x'')) key = Some s \<longrightarrow> or_wf s"
    by (auto simp: mm_one_def om_one_def om_get_def or_live_wf or_live_one split: if_splits)
  moreover have "bindings (mm_one node_a ''k'' ''x'') ''k'' = {|''x''|}"
    by (simp add: bindings_def mm_one_def om_one_def om_get_def or_element_set_def or_one_def)
  ultimately show ?thesis
    using mm_prune_correct [OF _ node_simps(1), of "mm_one node_a ''k'' ''x''"] by auto
qed

end
