(* ===== verification/Member_Record.thy ===== *)
theory Member_Record
  imports Node_Address "HOL-Library.Multiset"
begin

text \<open>
  The records of the membership table (\<open>cluster-core-kernel/src/membership\<close>): \<open>node_status.rs\<close>,
  \<open>membership_version.rs\<close>, \<open>data_center.rs\<close>, \<open>node_record.rs\<close> with its authority parser, and the
  age order of \<open>member_ordering.rs\<close>. The order is a total order on the age keys, so the oldest
  member does not depend on the order in which records are listed.
\<close>

section \<open>Parsing authorities\<close>

text \<open>\<open>str::rsplit_once\<close>: split at the last occurrence of a character.\<close>

fun rsplit_once :: "char \<Rightarrow> string \<Rightarrow> (string \<times> string) option" where
  "rsplit_once c [] = None"
| "rsplit_once c (x # xs) =
     (case rsplit_once c xs of
        Some (before, after) \<Rightarrow> Some (x # before, after)
      | None \<Rightarrow> if x = c then Some ([], xs) else None)"

definition digit_value :: "char \<Rightarrow> nat option" where
  "digit_value c =
     (let n = of_char c :: nat in if 48 \<le> n \<and> n \<le> 57 then Some (n - 48) else None)"

text \<open>The digit loop of \<open>str::parse\<close>, which fails as soon as the value exceeds the type's maximum.\<close>

fun parse_digits :: "nat \<Rightarrow> string \<Rightarrow> nat \<Rightarrow> nat option" where
  "parse_digits limit [] acc = Some acc"
| "parse_digits limit (c # cs) acc =
     (case digit_value c of
        None \<Rightarrow> None
      | Some d \<Rightarrow> if acc * 10 + d \<le> limit then parse_digits limit cs (acc * 10 + d) else None)"

text \<open>\<open>str::parse\<close> for an unsigned type with the given maximum: an optional plus sign, then digits.\<close>

definition parse_unsigned :: "nat \<Rightarrow> string \<Rightarrow> nat option" where
  "parse_unsigned limit s =
     (let ds = (case s of c # cs \<Rightarrow> if c = CHR ''+'' then cs else s | [] \<Rightarrow> [])
      in if ds = [] then None else parse_digits limit ds 0)"

definition u16_max :: nat where
  "u16_max = 65535"

definition u32_max :: nat where
  "u32_max = 4294967295"

section \<open>Records\<close>

datatype node_status = Joining | WeaklyUp | Up | Suspect | Leaving | Exiting
  | PreparingForShutdown | ReadyForShutdown | Removed | Dead

definition is_active :: "node_status \<Rightarrow> bool" where
  "is_active s \<longleftrightarrow> s \<in> {Joining, WeaklyUp, Up, Suspect}"

definition is_provisional :: "node_status \<Rightarrow> bool" where
  "is_provisional s \<longleftrightarrow> s = WeaklyUp"

datatype membership_version = MembershipVersion (version_value: u64)

definition membership_version_zero :: membership_version where
  "membership_version_zero = MembershipVersion 0"

definition membership_version_next :: "membership_version \<Rightarrow> membership_version" where
  "membership_version_next v = MembershipVersion (version_value v + 1)"

instantiation membership_version :: linorder
begin

definition less_eq_membership_version :: "membership_version \<Rightarrow> membership_version \<Rightarrow> bool" where
  "less_eq_membership_version a b \<longleftrightarrow> version_value a \<le> version_value b"

definition less_membership_version :: "membership_version \<Rightarrow> membership_version \<Rightarrow> bool" where
  "less_membership_version a b \<longleftrightarrow> version_value a < version_value b"

instance
  by standard
    (auto simp: less_eq_membership_version_def less_membership_version_def intro: membership_version.expand)

end

datatype data_center = DataCenter (data_center_name: string)

definition data_center_default :: data_center where
  "data_center_default = DataCenter ''default''"

record node_record =
  unique_address :: unique_address
  data_center :: data_center
  node_id :: string
  authority :: string
  status :: node_status
  version :: membership_version
  join_version :: membership_version
  app_version :: string
  roles :: "string list"

definition authority_host_port :: "string \<Rightarrow> string \<times> u16" where
  "authority_host_port a =
     (case rsplit_once (CHR '':'') a of
        Some (h, port_text) \<Rightarrow>
          (case parse_unsigned u16_max port_text of
             Some p \<Rightarrow> (h, of_nat p)
           | None \<Rightarrow> (a, 0))
      | None \<Rightarrow> (a, 0))"

definition authority_order_key :: "string \<Rightarrow> string \<times> nat" where
  "authority_order_key a =
     (case rsplit_once (CHR '':'') a of
        Some (h, port_text) \<Rightarrow>
          (case parse_unsigned u32_max port_text of
             Some p \<Rightarrow> (h, p)
           | None \<Rightarrow> (a, 0))
      | None \<Rightarrow> (a, 0))"

definition unique_address_from_authority :: "string \<Rightarrow> unique_address" where
  "unique_address_from_authority a =
     (let (h, p) = authority_host_port a
      in unique_address_new (address_new ''fraktor-cluster'' h p) 1)"

text \<open>\<open>Display\<close> of an address: system, at sign, host, colon, decimal port.\<close>

definition address_to_string :: "address \<Rightarrow> string" where
  "address_to_string a = system a @ ''@'' @ host a @ '':'' @ decimal (unat (port a))"

definition node_record_new ::
    "string \<Rightarrow> string \<Rightarrow> node_status \<Rightarrow> membership_version \<Rightarrow> string \<Rightarrow> string list \<Rightarrow> node_record" where
  "node_record_new nid auth st v app rs =
     \<lparr>unique_address = unique_address_from_authority auth, data_center = data_center_default,
      node_id = nid, authority = auth, status = st, version = v, join_version = v,
      app_version = app, roles = rs\<rparr>"

definition node_record_new_with_identity ::
    "unique_address \<Rightarrow> data_center \<Rightarrow> string \<Rightarrow> node_status \<Rightarrow> membership_version \<Rightarrow> string \<Rightarrow>
      string list \<Rightarrow> node_record" where
  "node_record_new_with_identity ua dc nid st v app rs =
     \<lparr>unique_address = ua, data_center = dc, node_id = nid,
      authority = address_to_string (address_of ua), status = st, version = v, join_version = v,
      app_version = app, roles = rs\<rparr>"

definition is_older_than :: "node_record \<Rightarrow> node_record \<Rightarrow> bool" where
  "is_older_than self other \<longleftrightarrow>
     (if join_version self = join_version other
      then authority_order_key (authority self) < authority_order_key (authority other)
      else join_version self < join_version other)"

section \<open>Age order\<close>

datatype ordering = Less | Equal | Greater

definition cmp :: "'a::linorder \<Rightarrow> 'a \<Rightarrow> ordering" where
  "cmp a b = (if a < b then Less else if a = b then Equal else Greater)"

definition member_age_order :: "node_record \<Rightarrow> node_record \<Rightarrow> ordering" where
  "member_age_order a b =
     (if is_older_than a b then Less
      else if is_older_than b a then Greater
      else cmp (unique_address a) (unique_address b))"

text \<open>\<open>sort_by\<close> is a stable sort by the comparison; \<open>min_by\<close> returns the first minimum.\<close>

fun insert_by :: "('a \<Rightarrow> 'a \<Rightarrow> ordering) \<Rightarrow> 'a \<Rightarrow> 'a list \<Rightarrow> 'a list" where
  "insert_by c x [] = [x]"
| "insert_by c x (y # ys) = (if c x y = Greater then y # insert_by c x ys else x # y # ys)"

definition sort_by :: "('a \<Rightarrow> 'a \<Rightarrow> ordering) \<Rightarrow> 'a list \<Rightarrow> 'a list" where
  "sort_by c xs = foldr (insert_by c) xs []"

definition min_by :: "('a \<Rightarrow> 'a \<Rightarrow> ordering) \<Rightarrow> 'a list \<Rightarrow> 'a option" where
  "min_by c xs =
     (case xs of [] \<Rightarrow> None
      | x # ys \<Rightarrow> Some (fold (\<lambda>y best. if c best y = Greater then y else best) ys x))"

definition age_ordered :: "node_record list \<Rightarrow> node_record list" where
  "age_ordered records = sort_by member_age_order records"

definition oldest_member :: "node_record list \<Rightarrow> node_record option" where
  "oldest_member records = min_by member_age_order records"

section \<open>The age key\<close>

definition age_key :: "node_record \<Rightarrow> membership_version \<times> (string \<times> nat) \<times> unique_address" where
  "age_key r = (join_version r, authority_order_key (authority r), unique_address r)"

lemma member_age_order_key: "member_age_order a b = cmp (age_key a) (age_key b)"
  by (auto simp: member_age_order_def is_older_than_def age_key_def cmp_def less_prod_simp)

lemma cmp_simps [simp]:
  "cmp a b = Less \<longleftrightarrow> a < b" "cmp a b = Greater \<longleftrightarrow> b < a" "cmp a b = Equal \<longleftrightarrow> a = b"
  by (auto simp: cmp_def)

lemma fold_min_key:
  fixes key :: "'a \<Rightarrow> 'k::linorder"
  assumes "m = fold (\<lambda>y best. if key y < key best then y else best) ys x"
  shows "m \<in> set (x # ys)" and "\<forall>y\<in>set (x # ys). key m \<le> key y"
  using assms
proof (induction ys arbitrary: x)
  case (Cons y ys)
  {
    case 1
    then show ?case using Cons.IH(1) [of "if key y < key x then y else x"] by (auto split: if_splits)
  next
    case 2
    then show ?case using Cons.IH(2) [of "if key y < key x then y else x"] by (auto split: if_splits)
  }
qed auto

lemma oldest_member_min:
  assumes "oldest_member records = Some r"
  shows "r \<in> set records" and "\<forall>y\<in>set records. age_key r \<le> age_key y"
  using assms fold_min_key [of r age_key]
  by (auto simp: oldest_member_def min_by_def member_age_order_key split: list.splits)

lemma oldest_member_None: "oldest_member records = None \<longleftrightarrow> records = []"
  by (auto simp: oldest_member_def min_by_def split: list.splits)

lemma oldest_member_address:
  assumes "set records = set records'" and "oldest_member records = Some r" and "oldest_member records' = Some r'"
  shows "unique_address r = unique_address r'"
proof -
  have "age_key r = age_key r'"
    using oldest_member_min [OF assms(2)] oldest_member_min [OF assms(3)] assms(1) by (auto intro: order_antisym)
  then show ?thesis by (simp add: age_key_def)
qed

lemma insert_by_key:
  assumes "\<And>a b. c a b = cmp (key a) (key b)" and "sorted (map key ys)"
  shows "mset (insert_by c x ys) = add_mset x (mset ys)" and "sorted (map key (insert_by c x ys))"
proof -
  show m: "mset (insert_by c x ys) = add_mset x (mset ys)" for ys
    by (induction ys) auto
  have "set (insert_by c x ys) = insert x (set ys)" for ys
    by (metis m set_mset_add_mset_insert set_mset_mset)
  then show "sorted (map key (insert_by c x ys))"
    using assms(2) by (induction ys) (auto simp: assms(1) not_less)
qed

lemma sort_by_key:
  assumes "\<And>a b. c a b = cmp (key a) (key b)"
  shows "mset (sort_by c xs) = mset xs \<and> sorted (map key (sort_by c xs))"
  by (induction xs) (simp_all add: sort_by_def insert_by_key [OF assms])

section \<open>Decimal numbers read back\<close>

lemma digit_value_digit: "digit_value (digit n) = Some (n mod 10)"
proof -
  have "(48 + n mod 10) mod 256 = 48 + n mod 10" by simp
  then show ?thesis by (simp add: digit_value_def digit_def of_char_of)
qed

lemma parse_digits_append:
  "parse_digits limit (xs @ ys) acc =
     (case parse_digits limit xs acc of None \<Rightarrow> None | Some a \<Rightarrow> parse_digits limit ys a)"
  by (induction xs arbitrary: acc) (auto split: option.splits)

lemma parse_digits_decimal: "n \<le> limit \<Longrightarrow> parse_digits limit (decimal n) 0 = Some n"
proof (induction n rule: decimal.induct)
  case (1 n)
  show ?case
  proof (cases "n < 10")
    case True
    with 1 show ?thesis by (simp add: decimal.simps [of n] digit_value_digit)
  next
    case False
    with 1 have "parse_digits limit (decimal (n div 10)) 0 = Some (n div 10)" by simp
    moreover have "n div 10 * 10 + n mod 10 = n" by simp
    ultimately show ?thesis
      using 1(2) False by (simp add: decimal.simps [of n] parse_digits_append digit_value_digit)
  qed
qed

lemma set_decimal: "set (decimal n) \<subseteq> digit ` UNIV"
proof (induction n rule: decimal.induct)
  case (1 n)
  then show ?case by (cases "n < 10") (simp_all add: decimal.simps [of n])
qed

lemma digit_not_special: "digit n \<noteq> CHR '':''" "digit n \<noteq> CHR ''+''"
proof -
  have "digit_value (digit n) \<noteq> None" by (simp add: digit_value_digit)
  moreover have "digit_value (CHR '':'') = None" "digit_value (CHR ''+'') = None"
    by (simp_all add: digit_value_def)
  ultimately show "digit n \<noteq> CHR '':''" "digit n \<noteq> CHR ''+''" by auto
qed

lemma decimal_not_Nil: "decimal n \<noteq> []"
  by (simp add: decimal.simps [of n])

lemma parse_unsigned_decimal: "n \<le> limit \<Longrightarrow> parse_unsigned limit (decimal n) = Some n"
proof -
  assume n: "n \<le> limit"
  obtain c cs where d: "decimal n = c # cs" using decimal_not_Nil [of n] by (cases "decimal n") auto
  then have "c \<noteq> CHR ''+''" using set_decimal [of n] digit_not_special by auto
  with d n parse_digits_decimal [of n limit] show ?thesis
    by (simp add: parse_unsigned_def)
qed

lemma decimal_inject: "decimal m = decimal n \<longleftrightarrow> m = n"
  by (metis max.cobounded1 max.cobounded2 option.inject parse_digits_decimal)

lemma rsplit_once_absent: "c \<notin> set xs \<Longrightarrow> rsplit_once c xs = None"
  by (induction xs) auto

lemma rsplit_once_last: "c \<notin> set after \<Longrightarrow> rsplit_once c (before @ c # after) = Some (before, after)"
  by (induction before) (auto simp: rsplit_once_absent)

section \<open>Properties\<close>

text \<open>
  An authority printed as host, colon, decimal port is read back exactly by both parsers
  of \<open>node_record.rs\<close>, for every host, colons included, and every 16-bit port.
\<close>

theorem authority_round_trip:
  "authority_host_port (h @ '':'' @ decimal (unat p)) = (h, p) \<and>
   authority_order_key (h @ '':'' @ decimal (unat p)) = (h, unat p) \<and>
   unique_address_from_authority (h @ '':'' @ decimal (unat p)) =
     unique_address_new (address_new ''fraktor-cluster'' h p) 1"
proof -
  have "CHR '':'' \<notin> set (decimal (unat p))"
    using set_decimal [of "unat p"] digit_not_special(1) by fastforce
  then have split: "rsplit_once (CHR '':'') (h @ '':'' @ decimal (unat p)) = Some (h, decimal (unat p))"
    by (simp add: rsplit_once_last)
  have "unat p < 2 ^ 16" using unsigned_less [of p, where ?'a = nat] by simp
  then have "parse_unsigned u16_max (decimal (unat p)) = Some (unat p)"
    "parse_unsigned u32_max (decimal (unat p)) = Some (unat p)"
    by (simp_all add: parse_unsigned_decimal u16_max_def u32_max_def)
  with split show ?thesis
    by (simp add: authority_host_port_def authority_order_key_def unique_address_from_authority_def)
qed

text \<open>
  \<open>age_ordered\<close> sorts by age: the result is a permutation of the records, oldest first,
  its ages do not depend on the order of the input, and its head is as old as \<open>oldest_member\<close>.
\<close>

theorem age_ordered_correct:
  assumes "mset records = mset records'"
  shows "mset (age_ordered records) = mset records \<and> sorted (map age_key (age_ordered records)) \<and>
    map age_key (age_ordered records) = map age_key (age_ordered records') \<and>
    map_option age_key (oldest_member records) =
      (case age_ordered records of [] \<Rightarrow> None | r # _ \<Rightarrow> Some (age_key r))"
proof -
  note s = sort_by_key [where c = member_age_order and key = age_key, OF member_age_order_key, folded age_ordered_def]
  have "map age_key (age_ordered records) = map age_key (age_ordered records')"
    using s [of records] s [of records'] assms by (metis mset_map properties_for_sort)
  moreover have "map_option age_key (oldest_member records) =
      (case age_ordered records of [] \<Rightarrow> None | r # _ \<Rightarrow> Some (age_key r))"
  proof (cases "oldest_member records")
    case None
    then show ?thesis using s [of records] by (auto simp: oldest_member_None split: list.splits)
  next
    case (Some m)
    obtain r rs where r: "age_ordered records = r # rs"
      using s [of records] Some by (cases "age_ordered records") (auto simp: oldest_member_def min_by_def)
    then have set: "set records = set (r # rs)" using s [of records] by (metis set_mset_mset)
    then have "age_key m \<le> age_key r" "age_key r \<le> age_key m"
      using oldest_member_min [OF Some] s [of records] r by auto
    with Some r show ?thesis by simp
  qed
  ultimately show ?thesis using s [of records] by simp
qed

theorem age_ordered_correct_witness:
  "let a = node_record_new ''a'' ''h:2'' Up (MembershipVersion 2) ''v'' [];
       b = node_record_new ''b'' ''h:1'' Up (MembershipVersion 1) ''v'' []
   in map age_key (age_ordered [a, b]) = map age_key (age_ordered [b, a]) \<and>
      sorted (map age_key (age_ordered [a, b]))"
proof -
  have "mset [a, b] = mset [b, a]" for a b :: node_record by simp
  from age_ordered_correct [OF this] show ?thesis unfolding Let_def by blast
qed

end
