(* ===== verification/Reachability.thy ===== *)
theory Reachability
  imports Member_Record
begin

text \<open>
  Reachability evidence (\<open>membership/reachability_*.rs\<close>, \<open>indirect_connection_evidence.rs\<close>): the
  matrix of observer-subject records with a version per observer row, its snapshots, and the
  indirect evidence for a subject that only some observers see. Row versions are unsigned 64-bit
  integers with a plain increment, so they wrap at the end of their range.
\<close>

section \<open>Data\<close>

datatype reachability_status = Reachable | Unreachable | Terminated

record reachability_record =
  rr_observer :: unique_address
  rr_subject :: unique_address
  rr_status :: reachability_status
  rr_version :: u64

record reachability_snapshot =
  rs_records :: "reachability_record list"
  rs_observer_versions :: "(unique_address, u64) fmap"

record indirect_connection_evidence =
  ic_subject :: unique_address
  ic_direct_observations :: "reachability_record list"
  ic_indirect_observations :: "reachability_record list"
  ic_observer_aggregate_statuses :: "reachability_record list"

record reachability_matrix =
  rm_records :: "(unique_address \<times> unique_address, reachability_record) fmap"
  rm_observer_versions :: "(unique_address, u64) fmap"

section \<open>Aggregation\<close>

text \<open>The loop both types share: it returns at the first terminated record.\<close>

fun aggregate_loop :: "reachability_record list \<Rightarrow> reachability_status \<Rightarrow> reachability_status" where
  "aggregate_loop [] aggregate = aggregate"
| "aggregate_loop (r # rs) aggregate =
     (case rr_status r of
        Terminated \<Rightarrow> Terminated
      | Unreachable \<Rightarrow> aggregate_loop rs Unreachable
      | Reachable \<Rightarrow> aggregate_loop rs aggregate)"

section \<open>Snapshots\<close>

definition rs_empty :: reachability_snapshot where
  "rs_empty = \<lparr>rs_records = [], rs_observer_versions = fmempty\<rparr>"

definition rs_aggregate_status :: "reachability_snapshot \<Rightarrow> unique_address \<Rightarrow> reachability_status" where
  "rs_aggregate_status s subject =
     aggregate_loop (filter (\<lambda>r. rr_subject r = subject) (rs_records s)) Reachable"

definition rs_has_observer :: "reachability_snapshot \<Rightarrow> unique_address \<Rightarrow> bool" where
  "rs_has_observer s observer \<longleftrightarrow> contains_key (rs_observer_versions s) observer"

definition rs_observed_status ::
    "reachability_snapshot \<Rightarrow> unique_address \<Rightarrow> unique_address \<Rightarrow> reachability_status option" where
  "rs_observed_status s observer subject =
     (if \<not> rs_has_observer s observer then None
      else Some (case find (\<lambda>r. rr_observer r = observer \<and> rr_subject r = subject) (rs_records s) of
                   None \<Rightarrow> Reachable
                 | Some r \<Rightarrow> rr_status r))"

section \<open>The matrix\<close>

definition rm_new :: reachability_matrix where
  "rm_new = \<lparr>rm_records = fmempty, rm_observer_versions = fmempty\<rparr>"

definition bump_observer_version :: "reachability_matrix \<Rightarrow> unique_address \<Rightarrow> u64 \<times> reachability_matrix" where
  "bump_observer_version m observer =
     (let v = get_or (rm_observer_versions m) observer 0 + 1
      in (v, m\<lparr>rm_observer_versions := fmupd observer v (rm_observer_versions m)\<rparr>))"

definition rm_update ::
    "reachability_matrix \<Rightarrow> unique_address \<Rightarrow> unique_address \<Rightarrow> reachability_status \<Rightarrow> reachability_matrix" where
  "rm_update m observer subject st =
     (let key = (observer, subject);
          store = (let (v, m') = bump_observer_version m observer
                   in if st = Reachable then m'\<lparr>rm_records := fmdrop key (rm_records m')\<rparr>
                      else m'\<lparr>rm_records := fmupd key
                             \<lparr>rr_observer = observer, rr_subject = subject, rr_status = st, rr_version = v\<rparr>
                             (rm_records m')\<rparr>)
      in case fmlookup (rm_records m) key of
           Some r \<Rightarrow> if rr_status r = Terminated \<or> rr_status r = st then m else store
         | None \<Rightarrow> if st = Reachable then snd (bump_observer_version m observer) else store)"

definition rm_unreachable :: "reachability_matrix \<Rightarrow> unique_address \<Rightarrow> unique_address \<Rightarrow> reachability_matrix" where
  "rm_unreachable m observer subject = rm_update m observer subject Unreachable"

definition rm_reachable :: "reachability_matrix \<Rightarrow> unique_address \<Rightarrow> unique_address \<Rightarrow> reachability_matrix" where
  "rm_reachable m observer subject = rm_update m observer subject Reachable"

definition rm_terminated :: "reachability_matrix \<Rightarrow> unique_address \<Rightarrow> unique_address \<Rightarrow> reachability_matrix" where
  "rm_terminated m observer subject = rm_update m observer subject Terminated"

definition rm_clear_subject :: "reachability_matrix \<Rightarrow> unique_address \<Rightarrow> reachability_matrix" where
  "rm_clear_subject m subject =
     (let observers = map fst (filter (\<lambda>k. snd k = subject) (map fst (entries (rm_records m))))
      in fold (\<lambda>observer m.
           snd (bump_observer_version (m\<lparr>rm_records := fmdrop (observer, subject) (rm_records m)\<rparr>) observer))
         observers m)"

definition rm_clear_observer :: "reachability_matrix \<Rightarrow> unique_address \<Rightarrow> reachability_matrix" where
  "rm_clear_observer m observer =
     (let subjects = map snd (filter (\<lambda>k. fst k = observer) (map fst (entries (rm_records m))))
      in if subjects = [] then m
         else snd (bump_observer_version
                (fold (\<lambda>subject m. m\<lparr>rm_records := fmdrop (observer, subject) (rm_records m)\<rparr>) subjects m)
                observer))"

definition rm_aggregate_status :: "reachability_matrix \<Rightarrow> unique_address \<Rightarrow> reachability_status" where
  "rm_aggregate_status m subject =
     aggregate_loop (filter (\<lambda>r. rr_subject r = subject) (map_values (rm_records m))) Reachable"

definition rm_snapshot :: "reachability_matrix \<Rightarrow> reachability_snapshot" where
  "rm_snapshot m = \<lparr>rs_records = map_values (rm_records m), rs_observer_versions = rm_observer_versions m\<rparr>"

definition rm_indirect_evidence_for ::
    "reachability_matrix \<Rightarrow> unique_address \<Rightarrow> indirect_connection_evidence option" where
  "rm_indirect_evidence_for m subject =
     (let (direct, indirect) =
            for_each (\<lambda>observer v (direct, indirect).
                case fmlookup (rm_records m) (observer, subject) of
                  Some r \<Rightarrow> if rr_status r \<noteq> Reachable then (direct @ [r], indirect) else (direct, indirect)
                | None \<Rightarrow> (direct, indirect @
                    [\<lparr>rr_observer = observer, rr_subject = subject, rr_status = Reachable, rr_version = v\<rparr>]))
              (rm_observer_versions m) ([], [])
      in if direct = [] \<or> indirect = [] then None
         else Some \<lparr>ic_subject = subject, ic_direct_observations = direct, ic_indirect_observations = indirect,
           ic_observer_aggregate_statuses =
             map (\<lambda>observation.
               \<lparr>rr_observer = rr_observer observation, rr_subject = rr_observer observation,
                rr_status = rm_aggregate_status m (rr_observer observation),
                rr_version = get_or (rm_observer_versions m) (rr_observer observation) 0\<rparr>)
             (direct @ indirect)\<rparr>)"

section \<open>Aggregation as a maximum\<close>

text \<open>Rust derives \<open>Ord\<close> for the status; the loop computes its maximum.\<close>

definition severity :: "reachability_status \<Rightarrow> nat" where
  "severity s = (case s of Reachable \<Rightarrow> 0 | Unreachable \<Rightarrow> 1 | Terminated \<Rightarrow> 2)"

instantiation reachability_status :: linorder
begin

definition less_eq_reachability_status :: "reachability_status \<Rightarrow> reachability_status \<Rightarrow> bool" where
  "less_eq_reachability_status a b \<longleftrightarrow> severity a \<le> severity b"

definition less_reachability_status :: "reachability_status \<Rightarrow> reachability_status \<Rightarrow> bool" where
  "less_reachability_status a b \<longleftrightarrow> severity a < severity b"

instance
  by standard
    (auto simp: less_eq_reachability_status_def less_reachability_status_def severity_def
      split: reachability_status.splits)

end

lemma status_order [simp]:
  "Reachable \<le> s" "s \<le> Terminated" "\<not> Terminated \<le> Unreachable" "\<not> Unreachable \<le> Reachable"
  "\<not> Terminated \<le> Reachable"
  by (cases s; simp add: less_eq_reachability_status_def severity_def)+

lemma fold_max_Terminated: "fold max xs Terminated = Terminated"
  by (induction xs) (simp_all add: max_def)

lemma max_Reachable [simp]: "max Reachable s = s" "max s Reachable = s" "max Unreachable Unreachable = Unreachable"
  "max Terminated s = Terminated" "max s Terminated = Terminated"
  by (simp_all add: max_def order_antisym)

lemma aggregate_loop_max:
  "agg \<noteq> Terminated \<Longrightarrow> aggregate_loop rs agg = fold max (map rr_status rs) agg"
proof (induction rs arbitrary: agg)
  case (Cons r rs)
  then show ?case
    by (cases "rr_status r"; cases agg) (simp_all add: fold_max_Terminated)
qed simp

lemma fold_max_le: "fold max xs (a :: 'a::linorder) \<le> b \<longleftrightarrow> a \<le> b \<and> (\<forall>x\<in>set xs. x \<le> b)"
  by (induction xs arbitrary: a) auto

section \<open>The matrix as a function\<close>

definition status_of :: "reachability_matrix \<Rightarrow> unique_address \<Rightarrow> unique_address \<Rightarrow> reachability_status" where
  "status_of m observer subject =
     (case fmlookup (rm_records m) (observer, subject) of None \<Rightarrow> Reachable | Some r \<Rightarrow> rr_status r)"

definition rm_wf :: "reachability_matrix \<Rightarrow> bool" where
  "rm_wf m \<longleftrightarrow> (\<forall>observer subject r. fmlookup (rm_records m) (observer, subject) = Some r \<longrightarrow>
     rr_observer r = observer \<and> rr_subject r = subject \<and> rr_status r \<noteq> Reachable \<and>
     contains_key (rm_observer_versions m) observer)"

abbreviation row_version :: "reachability_matrix \<Rightarrow> unique_address \<Rightarrow> u64" where
  "row_version m observer \<equiv> get_or (rm_observer_versions m) observer 0"

lemma status_of_Reachable:
  "rm_wf m \<Longrightarrow> status_of m o' s = Reachable \<longleftrightarrow> fmlookup (rm_records m) (o', s) = None"
  by (auto simp: status_of_def rm_wf_def split: option.splits)

lemma rm_wf_new: "rm_wf rm_new"
  by (simp add: rm_wf_def rm_new_def)

lemma status_of_new: "status_of rm_new ob su = Reachable"
  by (simp add: status_of_def rm_new_def)

lemma rm_update_records:
  assumes "rm_wf m"
  shows "fmlookup (rm_records (rm_update m ob su st)) k =
    (if k = (ob, su) \<and> status_of m ob su \<noteq> Terminated \<and> status_of m ob su \<noteq> st
     then if st = Reachable then None
       else Some \<lparr>rr_observer = ob, rr_subject = su, rr_status = st, rr_version = row_version m ob + 1\<rparr>
     else fmlookup (rm_records m) k)"
  using assms
  by (auto simp: rm_update_def bump_observer_version_def status_of_def rm_wf_def Let_def split: option.splits)

lemma rm_update_versions:
  "rm_observer_versions (rm_update m ob su st) =
    (if fmlookup (rm_records m) (ob, su) \<noteq> None \<and> status_of m ob su \<in> {Terminated, st}
     then rm_observer_versions m
     else fmupd ob (row_version m ob + 1) (rm_observer_versions m))"
  by (auto simp: rm_update_def bump_observer_version_def status_of_def Let_def split: option.splits)

lemma rm_wf_update:
  assumes "rm_wf m"
  shows "rm_wf (rm_update m ob su st)"
proof -
  have "contains_key (rm_observer_versions m) o' \<Longrightarrow> contains_key (rm_observer_versions (rm_update m ob su st)) o'" for o'
    by (auto simp: rm_update_versions contains_key_def)
  moreover have "contains_key (rm_observer_versions (rm_update m ob su st)) ob"
    if "status_of m ob su \<noteq> Terminated" "status_of m ob su \<noteq> st"
    using that by (simp add: rm_update_versions contains_key_def)
  ultimately show ?thesis
    using assms unfolding rm_wf_def rm_update_records [OF assms] by (auto split: if_splits)
qed

lemma clear_fold_lookup:
  "fmlookup (rm_records (fold (\<lambda>k m. m\<lparr>rm_records := fmdrop (f k) (rm_records m)\<rparr>) ks m)) key =
     (if key \<in> f ` set ks then None else fmlookup (rm_records m) key)"
  by (induction ks arbitrary: m) auto

lemma clear_fold_versions:
  "rm_observer_versions (fold (\<lambda>k m. m\<lparr>rm_records := fmdrop (f k) (rm_records m)\<rparr>) ks m) = rm_observer_versions m"
  by (induction ks arbitrary: m) auto

lemma clear_observer_lookup:
  "fmlookup (rm_records (rm_clear_observer m ob)) (o', s) =
     (if o' = ob then None else fmlookup (rm_records m) (o', s))"
proof -
  let ?subs = "map snd (filter (\<lambda>k. fst k = ob) (map fst (entries (rm_records m))))"
  have mem: "s \<in> set ?subs \<longleftrightarrow> fmlookup (rm_records m) (ob, s) \<noteq> None" for s
    using set_keys [of "rm_records m"] by (auto simp: image_iff set_eq_iff)
  show ?thesis
  proof (cases "?subs = []")
    case True
    then have "rm_clear_observer m ob = m" by (simp add: rm_clear_observer_def)
    with True mem [of s] show ?thesis by auto
  next
    case False
    then have "rm_records (rm_clear_observer m ob) =
        rm_records (fold (\<lambda>s m. m\<lparr>rm_records := fmdrop (ob, s) (rm_records m)\<rparr>) ?subs m)"
      by (simp only: rm_clear_observer_def Let_def if_False bump_observer_version_def snd_conv) simp
    then show ?thesis
      using mem [of s] by (simp add: clear_fold_lookup image_iff)
  qed
qed

lemma clear_observer_versions:
  "contains_key (rm_observer_versions m) o' \<Longrightarrow> contains_key (rm_observer_versions (rm_clear_observer m ob)) o'"
  by (auto simp: rm_clear_observer_def bump_observer_version_def clear_fold_versions contains_key_def Let_def)

lemma clear_subject_fold:
  fixes obs m su
  defines "m' \<equiv> fold (\<lambda>ob m. snd (bump_observer_version (m\<lparr>rm_records := fmdrop (ob, su) (rm_records m)\<rparr>) ob)) obs m"
  shows "fmlookup (rm_records m') (o', s) =
      (if s = su \<and> o' \<in> set obs then None else fmlookup (rm_records m) (o', s))"
    and "distinct obs \<Longrightarrow> row_version m' o' = (if o' \<in> set obs then row_version m o' + 1 else row_version m o')"
    and "contains_key (rm_observer_versions m) o' \<Longrightarrow> contains_key (rm_observer_versions m') o'"
  unfolding m'_def
  by (induction obs arbitrary: m)
    (auto simp: bump_observer_version_def Let_def contains_key_def)

lemma clear_subject_lookup:
  "fmlookup (rm_records (rm_clear_subject m su)) (o', s) =
     (if s = su then None else fmlookup (rm_records m) (o', s))"
proof -
  have mem: "o' \<in> set (map fst (filter (\<lambda>k. snd k = su) (map fst (entries (rm_records m))))) \<longleftrightarrow>
      fmlookup (rm_records m) (o', su) \<noteq> None"
    using set_keys [of "rm_records m"] by (auto simp: image_iff set_eq_iff)
  show ?thesis
    unfolding rm_clear_subject_def Let_def clear_subject_fold(1) mem by auto
qed

lemma clear_subject_keys:
  "contains_key (rm_observer_versions m) o' \<Longrightarrow> contains_key (rm_observer_versions (rm_clear_subject m su)) o'"
  unfolding rm_clear_subject_def Let_def by (rule clear_subject_fold(3))

lemma rm_wf_clear:
  assumes "rm_wf m"
  shows "rm_wf (rm_clear_subject m su)" and "rm_wf (rm_clear_observer m ob)"
  using assms
  by (auto simp: rm_wf_def clear_subject_lookup clear_observer_lookup split: if_splits
      intro: clear_subject_keys clear_observer_versions)

text \<open>The mutations of a matrix.\<close>

inductive rm_step :: "reachability_matrix \<Rightarrow> reachability_matrix \<Rightarrow> bool" where
  step_unreachable: "rm_step m (rm_unreachable m ob su)"
| step_reachable: "rm_step m (rm_reachable m ob su)"
| step_terminated: "rm_step m (rm_terminated m ob su)"
| step_clear_subject: "rm_step m (rm_clear_subject m su)"
| step_clear_observer: "rm_step m (rm_clear_observer m ob)"

lemma rm_wf_step: "rm_step m m' \<Longrightarrow> rm_wf m \<Longrightarrow> rm_wf m'"
  by (induction rule: rm_step.induct)
    (simp_all add: rm_unreachable_def rm_reachable_def rm_terminated_def rm_wf_update rm_wf_clear)

lemma rm_wf_reachable: "rm_step\<^sup>*\<^sup>* rm_new m \<Longrightarrow> rm_wf m"
  by (induction rule: rtranclp_induct) (auto simp: rm_wf_new intro: rm_wf_step)

lemma find_record:
  assumes "rm_wf m"
  shows "find (\<lambda>r. rr_observer r = ob \<and> rr_subject r = su) (map_values (rm_records m)) =
    fmlookup (rm_records m) (ob, su)"
proof (cases "fmlookup (rm_records m) (ob, su)")
  case None
  have "\<not> (rr_observer r = ob \<and> rr_subject r = su)" if "r \<in> set (map_values (rm_records m))" for r
    using that assms None by (auto simp: set_map_values rm_wf_def)
  with None show ?thesis by (auto simp: find_None_iff)
next
  case (Some r)
  have uniq: "r' = r" if "r' \<in> set (map_values (rm_records m))" "rr_observer r' = ob \<and> rr_subject r' = su" for r'
  proof -
    from that(1) obtain o' s' where "fmlookup (rm_records m) (o', s') = Some r'" by (auto simp: set_map_values)
    with that(2) assms have "fmlookup (rm_records m) (ob, su) = Some r'" by (auto simp: rm_wf_def)
    with Some show ?thesis by simp
  qed
  have "r \<in> set (map_values (rm_records m))" "rr_observer r = ob \<and> rr_subject r = su"
    using Some assms by (auto simp: set_map_values rm_wf_def)
  then have "find (\<lambda>r. rr_observer r = ob \<and> rr_subject r = su) (map_values (rm_records m)) \<noteq> None"
    by (auto simp: find_None_iff)
  then obtain r' where r': "find (\<lambda>r. rr_observer r = ob \<and> rr_subject r = su) (map_values (rm_records m)) = Some r'"
    by auto
  then have "r' \<in> set (map_values (rm_records m))" "rr_observer r' = ob \<and> rr_subject r' = su"
    by (auto simp: find_Some_iff)
  with uniq r' Some show ?thesis by simp
qed

section \<open>Properties\<close>

text \<open>
  Claim C31. The reachability matrix behaves as a table of statuses in every reachable state: an
  observation sets exactly one cell unless that cell is terminated, which only a clear undoes;
  clearing a subject or an observer resets its column or row and nothing else; and a snapshot
  answers with the cell's status for every observer that has a row.
\<close>

theorem reachability_matrix_refines_table:
  assumes "rm_step\<^sup>*\<^sup>* rm_new m"
  shows "status_of (rm_update m ob su st) o' s' =
      (if (o', s') = (ob, su) \<and> status_of m ob su \<noteq> Terminated then st else status_of m o' s') \<and>
    status_of (rm_clear_subject m su) o' s' = (if s' = su then Reachable else status_of m o' s') \<and>
    status_of (rm_clear_observer m ob) o' s' = (if o' = ob then Reachable else status_of m o' s') \<and>
    rs_observed_status (rm_snapshot m) o' s' =
      (if contains_key (rm_observer_versions m) o' then Some (status_of m o' s') else None)"
proof -
  have wf: "rm_wf m" using assms by (rule rm_wf_reachable)
  have "status_of (rm_update m ob su st) o' s' =
      (if (o', s') = (ob, su) \<and> status_of m ob su \<noteq> Terminated then st else status_of m o' s')"
    by (auto simp: status_of_def [of "rm_update m ob su st"] rm_update_records [OF wf])
      (auto simp: status_of_def)
  then show ?thesis
    using find_record [OF wf]
    by (auto simp: status_of_def clear_subject_lookup clear_observer_lookup rs_observed_status_def
        rs_has_observer_def rm_snapshot_def)
qed

theorem reachability_matrix_refines_table_witness:
  "status_of (rm_update (rm_terminated rm_new node_a node_b) node_a node_b Reachable) node_a node_b = Terminated"
proof -
  have "rm_step\<^sup>*\<^sup>* rm_new (rm_terminated rm_new node_a node_b)"
    by (rule r_into_rtranclp) (rule step_terminated)
  moreover have "status_of (rm_terminated rm_new node_a node_b) node_a node_b = Terminated"
    by (simp add: rm_terminated_def status_of_def [of "rm_update rm_new node_a node_b Terminated"]
        rm_update_records [OF rm_wf_new] status_of_new)
  ultimately show ?thesis
    using reachability_matrix_refines_table
      [of "rm_terminated rm_new node_a node_b" node_a node_b Reachable node_a node_b] by simp
qed

lemma indirect_loop:
  fixes m su
  defines "step \<equiv> \<lambda>ob v (direct, indirect).
      case fmlookup (rm_records m) (ob, su) of
        Some r \<Rightarrow> if rr_status r \<noteq> Reachable then (direct @ [r], indirect) else (direct, indirect)
      | None \<Rightarrow> (direct, indirect @
          [\<lparr>rr_observer = ob, rr_subject = su, rr_status = Reachable, rr_version = v\<rparr>])"
  assumes "rm_wf m" and "fold (\<lambda>(k, v). step k v) xs (d0, i0) = (d, i)"
  shows "map rr_observer d = map rr_observer d0 @ map fst (filter (\<lambda>(ob, _). status_of m ob su \<noteq> Reachable) xs)"
    and "map rr_observer i = map rr_observer i0 @ map fst (filter (\<lambda>(ob, _). status_of m ob su = Reachable) xs)"
  using assms(3)
proof (induction xs arbitrary: d0 i0)
  case (Cons x xs)
  obtain ob v where x: "x = (ob, v)" by (cases x)
  have obs: "rr_observer r = ob \<and> rr_status r \<noteq> Reachable" if "fmlookup (rm_records m) (ob, su) = Some r" for r
    using assms(2) that by (auto simp: rm_wf_def)
  {
    case 1
    then show ?case
      using Cons.IH(1) obs
      by (cases "fmlookup (rm_records m) (ob, su)") (auto simp: step_def x status_of_def)
  next
    case 2
    then show ?case
      using Cons.IH(2) obs
      by (cases "fmlookup (rm_records m) (ob, su)") (auto simp: step_def x status_of_def)
  }
qed auto

text \<open>
  Indirect evidence for a subject exists exactly when some observer row marks it
  non-reachable and another sees it as reachable; the evidence lists exactly the former as direct
  and the latter as indirect observers, in address order. The aggregate status of a snapshot is
  the most severe status among the records of the subject.
\<close>

theorem indirect_evidence_correct:
  assumes "rm_step\<^sup>*\<^sup>* rm_new m"
  shows "(case rm_indirect_evidence_for m su of
      None \<Rightarrow> (\<forall>ob\<in>set (map fst (entries (rm_observer_versions m))). status_of m ob su = Reachable) \<or>
        (\<forall>ob\<in>set (map fst (entries (rm_observer_versions m))). status_of m ob su \<noteq> Reachable)
    | Some e \<Rightarrow> ic_subject e = su \<and>
        map rr_observer (ic_direct_observations e) =
          filter (\<lambda>ob. status_of m ob su \<noteq> Reachable) (map fst (entries (rm_observer_versions m))) \<and>
        map rr_observer (ic_indirect_observations e) =
          filter (\<lambda>ob. status_of m ob su = Reachable) (map fst (entries (rm_observer_versions m))) \<and>
        ic_direct_observations e \<noteq> [] \<and> ic_indirect_observations e \<noteq> []) \<and>
    rs_aggregate_status (rm_snapshot m) su =
      fold max (map rr_status (filter (\<lambda>r. rr_subject r = su) (map_values (rm_records m)))) Reachable"
proof -
  have wf: "rm_wf m" using assms by (rule rm_wf_reachable)
  let ?step = "\<lambda>ob v (direct, indirect).
      case fmlookup (rm_records m) (ob, su) of
        Some r \<Rightarrow> if rr_status r \<noteq> Reachable then (direct @ [r], indirect) else (direct, indirect)
      | None \<Rightarrow> (direct, indirect @
          [\<lparr>rr_observer = ob, rr_subject = su, rr_status = Reachable, rr_version = v\<rparr>])"
  let ?os = "map fst (entries (rm_observer_versions m))"
  obtain d i where di: "for_each ?step (rm_observer_versions m) ([], []) = (d, i)" by fastforce
  have filter_fst: "map fst (filter (\<lambda>(ob, _). P ob) xs) = filter P (map fst xs)" for P and xs :: "(unique_address \<times> u64) list"
    by (induction xs) auto
  have d: "map rr_observer d = filter (\<lambda>ob. status_of m ob su \<noteq> Reachable) ?os"
    using indirect_loop(1) [OF wf di [unfolded for_each_def]] by (simp add: filter_fst)
  have i: "map rr_observer i = filter (\<lambda>ob. status_of m ob su = Reachable) ?os"
    using indirect_loop(2) [OF wf di [unfolded for_each_def]] by (simp add: filter_fst)
  have de: "d = [] \<longleftrightarrow> (\<forall>ob\<in>set ?os. status_of m ob su = Reachable)"
    and ie: "i = [] \<longleftrightarrow> (\<forall>ob\<in>set ?os. status_of m ob su \<noteq> Reachable)"
    using d i by (metis (mono_tags, lifting) filter_empty_conv map_is_Nil_conv)+
  show ?thesis
    unfolding rm_indirect_evidence_for_def di Let_def prod.case
    using d i de ie by (simp add: rs_aggregate_status_def rm_snapshot_def aggregate_loop_max)
qed

theorem indirect_evidence_correct_witness:
  "rm_indirect_evidence_for (rm_reachable (rm_unreachable rm_new node_a node_b) node_b node_b) node_b \<noteq> None"
proof
  let ?u = "rm_unreachable rm_new node_a node_b"
  let ?m = "rm_reachable ?u node_b node_b"
  assume none: "rm_indirect_evidence_for ?m node_b = None"
  have r: "rm_step\<^sup>*\<^sup>* rm_new ?m"
    by (rule rtranclp.rtrancl_into_rtrancl [OF r_into_rtranclp]) (rule step_unreachable step_reachable)+
  have wf: "rm_wf ?u" by (simp add: rm_unreachable_def rm_wf_update rm_wf_new)
  have look: "fmlookup (rm_records ?u) k = (if k = (node_a, node_b)
      then Some \<lparr>rr_observer = node_a, rr_subject = node_b, rr_status = Unreachable, rr_version = 1\<rparr> else None)" for k
    unfolding rm_unreachable_def rm_update_records [OF rm_wf_new] status_of_new
    by (simp add: rm_new_def)
  then have st: "status_of ?m node_a node_b = Unreachable" "status_of ?m node_b node_b = Reachable"
    by (simp_all add: status_of_def rm_reachable_def rm_update_records [OF wf])
  have "fmlookup (rm_observer_versions ?u) node_a \<noteq> None"
    by (simp add: rm_unreachable_def rm_update_versions status_of_new)
  then have "fmlookup (rm_observer_versions ?m) node_a \<noteq> None" "fmlookup (rm_observer_versions ?m) node_b \<noteq> None"
    by (simp_all add: rm_reachable_def rm_update_versions look)
  then have "node_a \<in> set (map fst (entries (rm_observer_versions ?m)))"
    "node_b \<in> set (map fst (entries (rm_observer_versions ?m)))"
    unfolding set_keys by auto
  then show False
    using indirect_evidence_correct [OF r, of node_b] none st by fastforce
qed

end
