(* ===== verification/Downing_Context.thy ===== *)
theory Downing_Context
  imports Reachability
begin

text \<open>
  The evaluation context of a downing decision (\<open>downing_provider/downing_decision_context.rs\<close> and
  the inputs it is built from): the membership snapshot, the reachability evidence, the observer
  whose row is read, and the time since the membership became unstable. Durations are natural
  numbers of nanoseconds, with the saturations of the source written out.
\<close>

section \<open>Time\<close>

type_synonym duration = nat

record timer_instant =
  ticks :: u64
  resolution :: duration

definition u64_max :: nat where
  "u64_max = 2 ^ 64 - 1"

definition u128_max :: nat where
  "u128_max = 2 ^ 128 - 1"

definition timer_instant_zero :: "duration \<Rightarrow> timer_instant" where
  "timer_instant_zero res = \<lparr>ticks = 0, resolution = res\<rparr>"

definition ticks_to_duration :: "u64 \<Rightarrow> duration \<Rightarrow> duration" where
  "ticks_to_duration t res =
     (let nanos = min u128_max (res * unat t); clamped = min nanos u64_max in clamped)"

section \<open>Inputs\<close>

record membership_snapshot =
  ms_version :: membership_version
  ms_entries :: "node_record list"
  ms_reachability :: reachability_snapshot

definition members_in_data_center :: "membership_snapshot \<Rightarrow> data_center \<Rightarrow> node_record list" where
  "members_in_data_center s dc = filter (\<lambda>r. data_center r = dc) (ms_entries s)"

datatype failure_observation_kind = ObservedSuspect | ObservedUnreachable | ObservedRecovered

record failure_observation =
  fo_authority :: string
  fo_kind :: failure_observation_kind
  fo_observed_at :: timer_instant

datatype downing_input =
    InputExplicitDown string
  | InputFailureObservation failure_observation
  | InputIndirectConnectionEvidence indirect_connection_evidence

datatype downing_decision_context_input =
    MembershipInput membership_snapshot "indirect_connection_evidence option"
      "failure_observation option" "unique_address option"
  | ExplicitDownInput string
  | FailureObservationInput failure_observation
  | IndirectConnectionEvidenceInput indirect_connection_evidence

record downing_decision_context =
  input :: downing_decision_context_input
  evaluation_time :: timer_instant
  unstable_since :: timer_instant

definition context_of :: "downing_decision_context_input \<Rightarrow> timer_instant \<Rightarrow> downing_decision_context" where
  "context_of i t = \<lparr>input = i, evaluation_time = t, unstable_since = t\<rparr>"

definition from_membership_snapshot :: "membership_snapshot \<Rightarrow> timer_instant \<Rightarrow> downing_decision_context" where
  "from_membership_snapshot snap t = context_of (MembershipInput snap None None None) t"

definition from_membership_snapshot_with_indirect_evidence ::
    "membership_snapshot \<Rightarrow> indirect_connection_evidence \<Rightarrow> timer_instant \<Rightarrow> downing_decision_context" where
  "from_membership_snapshot_with_indirect_evidence snap evidence t =
     context_of (MembershipInput snap (Some evidence) None None) t"

definition from_explicit_down :: "string \<Rightarrow> timer_instant \<Rightarrow> downing_decision_context" where
  "from_explicit_down auth t = context_of (ExplicitDownInput auth) t"

definition from_downing_input :: "downing_input \<Rightarrow> timer_instant \<Rightarrow> downing_decision_context" where
  "from_downing_input i t =
     (case i of
        InputExplicitDown auth \<Rightarrow> from_explicit_down auth t
      | InputFailureObservation observation \<Rightarrow> context_of (FailureObservationInput observation) t
      | InputIndirectConnectionEvidence evidence \<Rightarrow> context_of (IndirectConnectionEvidenceInput evidence) t)"

definition from_downing_input_with_membership_snapshot ::
    "downing_input \<Rightarrow> membership_snapshot \<Rightarrow> timer_instant \<Rightarrow> downing_decision_context" where
  "from_downing_input_with_membership_snapshot i snap t =
     (case i of
        InputExplicitDown auth \<Rightarrow> from_explicit_down auth t
      | InputFailureObservation observation \<Rightarrow>
          context_of (MembershipInput snap None (Some observation) None) t
      | InputIndirectConnectionEvidence evidence \<Rightarrow>
          context_of (MembershipInput snap (Some evidence) None None) t)"

definition with_reachability_observer ::
    "downing_decision_context \<Rightarrow> unique_address \<Rightarrow> downing_decision_context" where
  "with_reachability_observer ctx observer =
     (case input ctx of
        MembershipInput snap evidence observation _ \<Rightarrow>
          ctx\<lparr>input := MembershipInput snap evidence observation (Some observer)\<rparr>
      | _ \<Rightarrow> ctx)"

definition with_unstable_since :: "downing_decision_context \<Rightarrow> timer_instant \<Rightarrow> downing_decision_context" where
  "with_unstable_since ctx t = ctx\<lparr>unstable_since := t\<rparr>"

definition unstable_duration :: "downing_decision_context \<Rightarrow> duration" where
  "unstable_duration ctx =
     ticks_to_duration (ticks (evaluation_time ctx)) (resolution (evaluation_time ctx)) -
     ticks_to_duration (ticks (unstable_since ctx)) (resolution (unstable_since ctx))"

fun membership_snapshot_of :: "downing_decision_context_input \<Rightarrow> membership_snapshot option" where
  "membership_snapshot_of (MembershipInput snap _ _ _) = Some snap"
| "membership_snapshot_of _ = None"

fun indirect_evidence_of :: "downing_decision_context_input \<Rightarrow> indirect_connection_evidence option" where
  "indirect_evidence_of (MembershipInput _ evidence _ _) = evidence"
| "indirect_evidence_of (IndirectConnectionEvidenceInput evidence) = Some evidence"
| "indirect_evidence_of _ = None"

fun failure_observation_of :: "downing_decision_context_input \<Rightarrow> failure_observation option" where
  "failure_observation_of (MembershipInput _ _ observation _) = observation"
| "failure_observation_of (FailureObservationInput observation) = Some observation"
| "failure_observation_of _ = None"

fun reachability_observer_of :: "downing_decision_context_input \<Rightarrow> unique_address option" where
  "reachability_observer_of (MembershipInput _ _ _ observer) = observer"
| "reachability_observer_of _ = None"

fun explicit_down_authority_of :: "downing_decision_context_input \<Rightarrow> string option" where
  "explicit_down_authority_of (ExplicitDownInput auth) = Some auth"
| "explicit_down_authority_of _ = None"

definition member_record :: "downing_decision_context \<Rightarrow> unique_address \<Rightarrow> node_record option" where
  "member_record ctx ua =
     (case membership_snapshot_of (input ctx) of
        None \<Rightarrow> None
      | Some snap \<Rightarrow> find (\<lambda>r. unique_address r = ua) (ms_entries snap))"

definition ctx_reachability_status ::
    "downing_decision_context \<Rightarrow> unique_address \<Rightarrow> reachability_status option" where
  "ctx_reachability_status ctx ua =
     (case membership_snapshot_of (input ctx) of
        None \<Rightarrow> None
      | Some snap \<Rightarrow>
          (case reachability_observer_of (input ctx) of
             Some observer \<Rightarrow> rs_observed_status (ms_reachability snap) observer ua
           | None \<Rightarrow>
               if (case indirect_evidence_of (input ctx) of
                     Some evidence \<Rightarrow> ic_subject evidence = ua | None \<Rightarrow> False)
               then Some Unreachable
               else Some (rs_aggregate_status (ms_reachability snap) ua)))"

definition requires_reachability_evidence :: "downing_decision_context \<Rightarrow> bool" where
  "requires_reachability_evidence ctx =
     (case input ctx of
        MembershipInput snap evidence _ observer \<Rightarrow>
          let lacks_reachability =
                (rs_records (ms_reachability snap) = [] \<and> rs_observer_versions (ms_reachability snap) = fmempty);
              lacks_observer_row =
                (case observer of Some ob \<Rightarrow> \<not> rs_has_observer (ms_reachability snap) ob | None \<Rightarrow> False)
          in (lacks_reachability \<and> evidence = None) \<or> lacks_observer_row
      | FailureObservationInput _ \<Rightarrow> True
      | ExplicitDownInput _ \<Rightarrow> False
      | IndirectConnectionEvidenceInput _ \<Rightarrow> False)"

definition requires_reachability_observer :: "downing_decision_context \<Rightarrow> bool" where
  "requires_reachability_observer ctx =
     (case input ctx of
        MembershipInput snap _ _ observer \<Rightarrow>
          observer = None \<and> rs_observer_versions (ms_reachability snap) \<noteq> fmempty
      | _ \<Rightarrow> False)"

definition defer_reason :: "downing_decision_context \<Rightarrow> string option" where
  "defer_reason ctx =
     (if requires_reachability_evidence ctx
      then Some ''reachability evidence is required for membership evaluation''
      else if requires_reachability_observer ctx
      then Some ''local reachability observer is required for observed membership evaluation''
      else None)"

section \<open>Elapsed time\<close>

text \<open>
  The unstable duration is the exact difference of the two instants as long as both fit
  in 64 bits of nanoseconds, never exceeds that range, and is zero when the clock reads earlier
  than the start of the instability.
\<close>

theorem unstable_duration_bounds:
  "unstable_duration ctx \<le> u64_max \<and>
   (let e = resolution (evaluation_time ctx) * unat (ticks (evaluation_time ctx));
        s = resolution (unstable_since ctx) * unat (ticks (unstable_since ctx))
    in (e \<le> s \<longrightarrow> unstable_duration ctx = 0) \<and>
       (e \<le> u64_max \<and> s \<le> u64_max \<longrightarrow> unstable_duration ctx = e - s) \<and>
       unstable_duration ctx \<le> e - s)"
  by (auto simp: unstable_duration_def ticks_to_duration_def u64_max_def u128_max_def Let_def)

theorem unstable_duration_bounds_witness:
  "unstable_duration (with_unstable_since
     (from_explicit_down ''a'' \<lparr>ticks = 30, resolution = 1000\<rparr>) \<lparr>ticks = 10, resolution = 1000\<rparr>) = 20000"
  using unstable_duration_bounds [of "with_unstable_since
     (from_explicit_down ''a'' \<lparr>ticks = 30, resolution = 1000\<rparr>) \<lparr>ticks = 10, resolution = 1000\<rparr>"]
  by (simp add: with_unstable_since_def from_explicit_down_def context_of_def u64_max_def Let_def)

end
