(* ===== verification/Split_Brain_Resolver.thy ===== *)
theory Split_Brain_Resolver
  imports Downing_Context
begin

text \<open>
  The Split Brain Resolver (\<open>downing_provider/split_brain_resolver.rs\<close>) with its configuration,
  decisions and traces, the lease port, and the provider hook that turns a strategy decision into
  what the local node does. The lease backend is a parameter of the model: a function from its
  state and the context to an outcome and its next state.
\<close>

section \<open>Data\<close>

datatype split_brain_resolver_strategy =
  KeepMajority | LeaseMajority | StaticQuorum | KeepOldest | DownAll

datatype lease_acquisition_outcome = Acquired | Denied | Unavailable | Unknown | BackendMissing

datatype downing_decision = Down | Keep | Defer

datatype cluster_provider_error =
    StartMemberFailed string | StartClientFailed string | DownFailed string
  | JoinFailed string | LeaveFailed string | ShutdownFailed string

record split_brain_resolver_config =
  stable_after :: duration
  active_strategy :: split_brain_resolver_strategy
  down_all_when_unstable :: duration
  static_quorum_size :: "nat option"

record downing_decision_trace =
  strategy :: split_brain_resolver_strategy
  reason :: string
  tie_break_rule :: "string option"
  stable_after_required :: "duration option"
  down_all_timeout :: "duration option"
  lease_outcome :: "lease_acquisition_outcome option"

record downing_strategy_decision =
  simple_decision :: downing_decision
  trace :: downing_decision_trace
  retained_partition :: "unique_address list"
  downing_targets :: "unique_address list"
  all_down :: bool

definition strategy_as_str :: "split_brain_resolver_strategy \<Rightarrow> string" where
  "strategy_as_str s =
     (case s of KeepMajority \<Rightarrow> ''keep-majority'' | LeaseMajority \<Rightarrow> ''lease-majority''
      | StaticQuorum \<Rightarrow> ''static-quorum'' | KeepOldest \<Rightarrow> ''keep-oldest'' | DownAll \<Rightarrow> ''down-all'')"

definition sbr_config_new ::
    "duration \<Rightarrow> split_brain_resolver_strategy \<Rightarrow> duration \<Rightarrow> split_brain_resolver_config" where
  "sbr_config_new stable_for strat down_all =
     \<lparr>stable_after = stable_for, active_strategy = strat, down_all_when_unstable = down_all,
      static_quorum_size = None\<rparr>"

definition with_static_quorum_size ::
    "split_brain_resolver_config \<Rightarrow> nat \<Rightarrow> split_brain_resolver_config" where
  "with_static_quorum_size cfg size' = cfg\<lparr>static_quorum_size := Some size'\<rparr>"

definition trace_reason :: "lease_acquisition_outcome \<Rightarrow> string" where
  "trace_reason outcome =
     (case outcome of
        Acquired \<Rightarrow> ''lease acquired for majority partition''
      | Denied \<Rightarrow> ''lease acquisition denied''
      | Unavailable \<Rightarrow> ''lease backend unavailable''
      | Unknown \<Rightarrow> ''lease acquisition outcome unknown''
      | BackendMissing \<Rightarrow> ''lease backend missing'')"

section \<open>Traces and decisions\<close>

definition trace_defer :: "split_brain_resolver_strategy \<Rightarrow> string \<Rightarrow> downing_decision_trace" where
  "trace_defer strat why =
     \<lparr>strategy = strat, reason = why, tie_break_rule = None, stable_after_required = None,
      down_all_timeout = None, lease_outcome = None\<rparr>"

definition trace_majority_partition :: "split_brain_resolver_strategy \<Rightarrow> string \<Rightarrow> downing_decision_trace" where
  "trace_majority_partition strat why =
     \<lparr>strategy = strat, reason = why, tie_break_rule = None, stable_after_required = None,
      down_all_timeout = None, lease_outcome = None\<rparr>"

definition trace_stable_after_pending ::
    "split_brain_resolver_strategy \<Rightarrow> duration \<Rightarrow> string \<Rightarrow> downing_decision_trace" where
  "trace_stable_after_pending strat required why =
     (trace_defer strat why)\<lparr>stable_after_required := Some required\<rparr>"

definition trace_from_lease_outcome ::
    "split_brain_resolver_strategy \<Rightarrow> lease_acquisition_outcome \<Rightarrow> downing_decision_trace" where
  "trace_from_lease_outcome strat outcome =
     (trace_defer strat (trace_reason outcome))\<lparr>lease_outcome := Some outcome\<rparr>"

definition trace_down_all_pending ::
    "split_brain_resolver_strategy \<Rightarrow> duration \<Rightarrow> string \<Rightarrow> downing_decision_trace" where
  "trace_down_all_pending strat timeout why = (trace_defer strat why)\<lparr>down_all_timeout := Some timeout\<rparr>"

definition trace_down_all_elapsed ::
    "split_brain_resolver_strategy \<Rightarrow> duration \<Rightarrow> string \<Rightarrow> downing_decision_trace" where
  "trace_down_all_elapsed strat timeout why = (trace_defer strat why)\<lparr>down_all_timeout := Some timeout\<rparr>"

definition with_tie_break :: "downing_decision_trace \<Rightarrow> string \<Rightarrow> downing_decision_trace" where
  "with_tie_break tr rule = tr\<lparr>tie_break_rule := Some rule\<rparr>"

definition decision_keep ::
    "downing_decision_trace \<Rightarrow> unique_address list \<Rightarrow> unique_address list \<Rightarrow> downing_strategy_decision" where
  "decision_keep tr retained targets =
     \<lparr>simple_decision = Keep, trace = tr, retained_partition = retained, downing_targets = targets,
      all_down = False\<rparr>"

definition decision_down ::
    "downing_decision_trace \<Rightarrow> unique_address list \<Rightarrow> downing_strategy_decision" where
  "decision_down tr targets =
     \<lparr>simple_decision = Down, trace = tr, retained_partition = [], downing_targets = targets,
      all_down = False\<rparr>"

definition decision_defer :: "downing_decision_trace \<Rightarrow> downing_strategy_decision" where
  "decision_defer tr =
     \<lparr>simple_decision = Defer, trace = tr, retained_partition = [], downing_targets = [],
      all_down = False\<rparr>"

definition decision_all_down ::
    "downing_decision_trace \<Rightarrow> unique_address list \<Rightarrow> downing_strategy_decision" where
  "decision_all_down tr targets =
     \<lparr>simple_decision = Down, trace = tr, retained_partition = [], downing_targets = targets,
      all_down = True\<rparr>"

section \<open>Partition evaluation\<close>

record partition_evaluation =
  pe_reachable :: "unique_address list"
  pe_non_reachable :: "unique_address list"

definition active_member_addresses :: "node_record list \<Rightarrow> unique_address list" where
  "active_member_addresses records = map unique_address (filter (\<lambda>r. is_active (status r)) records)"

definition from_context :: "downing_decision_context \<Rightarrow> partition_evaluation option" where
  "from_context ctx =
     (case membership_snapshot_of (input ctx) of
        None \<Rightarrow> None
      | Some snap \<Rightarrow>
          Some (fold (\<lambda>r acc.
              case unwrap_or (ctx_reachability_status ctx (unique_address r)) Reachable of
                Reachable \<Rightarrow> acc\<lparr>pe_reachable := pe_reachable acc @ [unique_address r]\<rparr>
              | Unreachable \<Rightarrow> acc\<lparr>pe_non_reachable := pe_non_reachable acc @ [unique_address r]\<rparr>
              | Terminated \<Rightarrow> acc\<lparr>pe_non_reachable := pe_non_reachable acc @ [unique_address r]\<rparr>)
            (filter (\<lambda>r. is_active (status r)) (ms_entries snap))
            \<lparr>pe_reachable = [], pe_non_reachable = []\<rparr>))"

definition active_count :: "partition_evaluation \<Rightarrow> nat" where
  "active_count p = length (pe_reachable p) + length (pe_non_reachable p)"

definition has_tie :: "partition_evaluation \<Rightarrow> bool" where
  "has_tie p \<longleftrightarrow> length (pe_reachable p) = length (pe_non_reachable p)"

section \<open>Strategies\<close>

definition sbr_defer :: "split_brain_resolver_strategy \<Rightarrow> string \<Rightarrow> downing_strategy_decision" where
  "sbr_defer strat why = decision_defer (trace_defer strat why)"

definition keep_partition ::
    "split_brain_resolver_strategy \<Rightarrow> string \<Rightarrow> unique_address list \<Rightarrow> unique_address list \<Rightarrow>
      downing_strategy_decision" where
  "keep_partition strat why retained targets =
     decision_keep (trace_majority_partition strat why) retained targets"

definition lease_acquired_trace :: "split_brain_resolver_strategy \<Rightarrow> bool \<Rightarrow> downing_decision_trace" where
  "lease_acquired_trace strat tie =
     (let tr = trace_from_lease_outcome strat Acquired
      in if tie then with_tie_break tr ''reachable and non-reachable partitions have equal size'' else tr)"

definition defer_lease_outcome :: "lease_acquisition_outcome \<Rightarrow> downing_strategy_decision" where
  "defer_lease_outcome outcome = decision_defer (trace_from_lease_outcome LeaseMajority outcome)"

definition decide_majority ::
    "downing_decision_context \<Rightarrow> split_brain_resolver_strategy \<Rightarrow> string \<Rightarrow> downing_strategy_decision" where
  "decide_majority ctx strat retained_reason =
     (case from_context ctx of
        None \<Rightarrow> sbr_defer strat ''membership snapshot is required for split-brain evaluation''
      | Some p \<Rightarrow>
          if active_count p = 0
          then sbr_defer strat ''no active members are available for split-brain evaluation''
          else if has_tie p
          then decision_defer (with_tie_break
            (trace_defer strat ''reachable and non-reachable partitions have equal size'')
            ''reachable and non-reachable partitions have equal size'')
          else
            let threshold = active_count p div 2 + 1 in
            if length (pe_reachable p) \<ge> threshold
            then keep_partition strat retained_reason (pe_reachable p) (pe_non_reachable p)
            else if length (pe_non_reachable p) \<ge> threshold
            then keep_partition strat ''non-reachable majority partition selected''
              (pe_non_reachable p) (pe_reachable p)
            else sbr_defer strat ''no partition satisfies majority quorum'')"

definition decide_oldest :: "downing_decision_context \<Rightarrow> downing_strategy_decision" where
  "decide_oldest ctx =
     (case membership_snapshot_of (input ctx) of
        None \<Rightarrow> sbr_defer KeepOldest ''membership snapshot is required for split-brain evaluation''
      | Some snap \<Rightarrow>
          (case oldest_member (filter (\<lambda>r. is_active (status r)) (ms_entries snap)) of
             None \<Rightarrow> sbr_defer KeepOldest ''no active members are available for split-brain evaluation''
           | Some oldest \<Rightarrow>
               (case from_context ctx of
                  None \<Rightarrow> sbr_defer KeepOldest ''membership snapshot is required for split-brain evaluation''
                | Some p \<Rightarrow>
                    if list_ex (\<lambda>m. m = unique_address oldest) (pe_reachable p)
                    then keep_partition KeepOldest ''oldest member partition selected''
                      (pe_reachable p) (pe_non_reachable p)
                    else keep_partition KeepOldest ''oldest member partition selected''
                      (pe_non_reachable p) (pe_reachable p))))"

definition decide_static_quorum ::
    "split_brain_resolver_config \<Rightarrow> downing_decision_context \<Rightarrow> downing_strategy_decision" where
  "decide_static_quorum cfg ctx =
     (case static_quorum_size cfg of
        None \<Rightarrow> sbr_defer StaticQuorum ''static quorum size is not configured''
      | Some quorum_size \<Rightarrow>
          if quorum_size = 0 then sbr_defer StaticQuorum ''static quorum size must be greater than zero''
          else
            (case from_context ctx of
               None \<Rightarrow> sbr_defer StaticQuorum ''membership snapshot is required for split-brain evaluation''
             | Some p \<Rightarrow>
                 if active_count p = 0
                 then sbr_defer StaticQuorum ''no active members are available for split-brain evaluation''
                 else
                   let reachable_satisfies = (length (pe_reachable p) \<ge> quorum_size);
                       non_reachable_satisfies = (length (pe_non_reachable p) \<ge> quorum_size)
                   in if reachable_satisfies \<and> non_reachable_satisfies
                      then decision_defer (with_tie_break
                        (trace_defer StaticQuorum ''reachable and non-reachable partitions both satisfy static quorum'')
                        ''reachable and non-reachable partitions both satisfy static quorum'')
                      else if reachable_satisfies
                      then keep_partition StaticQuorum ''reachable static quorum partition selected''
                        (pe_reachable p) (pe_non_reachable p)
                      else if non_reachable_satisfies
                      then keep_partition StaticQuorum ''non-reachable static quorum partition selected''
                        (pe_non_reachable p) (pe_reachable p)
                      else sbr_defer StaticQuorum ''no partition satisfies static quorum''))"

definition decide_down_all ::
    "split_brain_resolver_config \<Rightarrow> downing_decision_context \<Rightarrow> downing_strategy_decision" where
  "decide_down_all cfg ctx =
     (case membership_snapshot_of (input ctx) of
        None \<Rightarrow> sbr_defer DownAll ''membership snapshot is required for split-brain evaluation''
      | Some snap \<Rightarrow>
          let targets = active_member_addresses (ms_entries snap); timeout = down_all_when_unstable cfg in
          if targets = [] then sbr_defer DownAll ''no active members are available for split-brain evaluation''
          else if timeout > 0 \<and> unstable_duration ctx < timeout
          then decision_defer (trace_down_all_pending DownAll timeout ''down-all timeout has not elapsed'')
          else decision_all_down (trace_down_all_elapsed DownAll timeout ''down-all timeout elapsed'') targets)"

definition decide ::
    "split_brain_resolver_config \<Rightarrow> downing_decision_context \<Rightarrow> downing_strategy_decision" where
  "decide cfg ctx =
     (let strat = active_strategy cfg in
      if explicit_down_authority_of (input ctx) \<noteq> None
      then decision_down (trace_majority_partition strat ''explicit down command selected'') []
      else if strat \<noteq> DownAll \<and> defer_reason ctx \<noteq> None
      then sbr_defer strat (the (defer_reason ctx))
      else if stable_after cfg > 0 \<and> unstable_duration ctx < stable_after cfg
      then decision_defer (trace_stable_after_pending strat (stable_after cfg)
        ''membership has not been stable for the required duration'')
      else
        (case strat of
           KeepMajority \<Rightarrow> decide_majority ctx strat ''reachable majority partition selected''
         | LeaseMajority \<Rightarrow> defer_lease_outcome BackendMissing
         | StaticQuorum \<Rightarrow> decide_static_quorum cfg ctx
         | KeepOldest \<Rightarrow> decide_oldest ctx
         | DownAll \<Rightarrow> decide_down_all cfg ctx))"

definition observer_is_target :: "downing_decision_context \<Rightarrow> unique_address list \<Rightarrow> bool" where
  "observer_is_target ctx targets =
     (case reachability_observer_of (input ctx) of
        None \<Rightarrow> False
      | Some observer \<Rightarrow> list_ex (\<lambda>t. t = observer) targets)"

definition decide_lease_majority ::
    "('p \<Rightarrow> downing_decision_context \<Rightarrow> lease_acquisition_outcome \<times> 'p) \<Rightarrow>
      downing_decision_context \<Rightarrow> 'p \<Rightarrow> downing_strategy_decision \<times> 'p" where
  "decide_lease_majority acquire_majority ctx lease_port =
     (case from_context ctx of
        None \<Rightarrow> (sbr_defer LeaseMajority ''membership snapshot is required for split-brain evaluation'', lease_port)
      | Some p \<Rightarrow>
          if active_count p = 0
          then (sbr_defer LeaseMajority ''no active members are available for split-brain evaluation'', lease_port)
          else
            let tie = has_tie p;
                threshold = active_count p div 2 + 1;
                sides = (if tie \<or> length (pe_reachable p) \<ge> threshold
                         then Some (pe_reachable p, pe_non_reachable p)
                         else if length (pe_non_reachable p) \<ge> threshold
                         then Some (pe_non_reachable p, pe_reachable p)
                         else None)
            in case sides of
                 None \<Rightarrow> (sbr_defer LeaseMajority ''no partition satisfies majority quorum'', lease_port)
               | Some (retained, targets) \<Rightarrow>
                   if observer_is_target ctx targets
                   then (decision_down (trace_majority_partition LeaseMajority
                     ''local observer is selected for downing'') targets, lease_port)
                   else
                     let (outcome, lease_port') = acquire_majority lease_port ctx in
                     (if outcome = Acquired
                      then decision_keep (lease_acquired_trace LeaseMajority tie) retained targets
                      else defer_lease_outcome outcome, lease_port'))"

definition decide_with_lease ::
    "('p \<Rightarrow> downing_decision_context \<Rightarrow> lease_acquisition_outcome \<times> 'p) \<Rightarrow>
      split_brain_resolver_config \<Rightarrow> downing_decision_context \<Rightarrow> 'p \<Rightarrow> downing_strategy_decision \<times> 'p" where
  "decide_with_lease acquire_majority cfg ctx lease_port =
     (if active_strategy cfg \<noteq> LeaseMajority then (decide cfg ctx, lease_port)
      else if explicit_down_authority_of (input ctx) \<noteq> None
      then (decision_down (trace_majority_partition LeaseMajority ''explicit down command selected'') [], lease_port)
      else if defer_reason ctx \<noteq> None then (sbr_defer LeaseMajority (the (defer_reason ctx)), lease_port)
      else if stable_after cfg > 0 \<and> unstable_duration ctx < stable_after cfg
      then (decision_defer (trace_stable_after_pending LeaseMajority (stable_after cfg)
        ''membership has not been stable for the required duration''), lease_port)
      else decide_lease_majority acquire_majority ctx lease_port)"

section \<open>What the partition is\<close>

abbreviation seen_reachable :: "downing_decision_context \<Rightarrow> unique_address \<Rightarrow> bool" where
  "seen_reachable ctx ua \<equiv> unwrap_or (ctx_reachability_status ctx ua) Reachable = Reachable"

lemma from_context_filter:
  "from_context ctx = map_option (\<lambda>snap.
     \<lparr>pe_reachable = filter (seen_reachable ctx) (active_member_addresses (ms_entries snap)),
      pe_non_reachable = filter (\<lambda>ua. \<not> seen_reachable ctx ua) (active_member_addresses (ms_entries snap))\<rparr>)
   (membership_snapshot_of (input ctx))"
proof -
  have "fold (\<lambda>r acc.
      case unwrap_or (ctx_reachability_status ctx (unique_address r)) Reachable of
        Reachable \<Rightarrow> acc\<lparr>pe_reachable := pe_reachable acc @ [unique_address r]\<rparr>
      | Unreachable \<Rightarrow> acc\<lparr>pe_non_reachable := pe_non_reachable acc @ [unique_address r]\<rparr>
      | Terminated \<Rightarrow> acc\<lparr>pe_non_reachable := pe_non_reachable acc @ [unique_address r]\<rparr>) rs
      \<lparr>pe_reachable = xs, pe_non_reachable = ys\<rparr> =
    \<lparr>pe_reachable = xs @ filter (seen_reachable ctx) (map unique_address rs),
     pe_non_reachable = ys @ filter (\<lambda>ua. \<not> seen_reachable ctx ua) (map unique_address rs)\<rparr>"
    for rs :: "node_record list" and xs ys
    by (induction rs arbitrary: xs ys) (auto split: reachability_status.split)
  then show ?thesis
    by (cases "membership_snapshot_of (input ctx)")
      (simp_all add: from_context_def active_member_addresses_def)
qed

lemma mset_partition: "mset (filter P xs) + mset (filter (\<lambda>x. \<not> P x) xs) = mset xs"
  by (induction xs) auto

text \<open>
  Every decision that keeps a partition retains one side and downs the other: \<open>splits_members\<close>
  says the two lists together are the active members.
\<close>

definition splits_members :: "downing_decision_context \<Rightarrow> downing_strategy_decision \<Rightarrow> bool" where
  "splits_members ctx d \<longleftrightarrow>
     (\<exists>snap P. membership_snapshot_of (input ctx) = Some snap \<and>
       P \<in> {seen_reachable ctx, \<lambda>ua. \<not> seen_reachable ctx ua} \<and>
       retained_partition d = filter P (active_member_addresses (ms_entries snap)) \<and>
       downing_targets d = filter (\<lambda>ua. \<not> P ua) (active_member_addresses (ms_entries snap)))"

lemmas decision_simps = decision_keep_def decision_down_def decision_defer_def decision_all_down_def
  sbr_defer_def keep_partition_def defer_lease_outcome_def

lemma splits_membersI:
  assumes "from_context ctx = Some p"
    and "(retained_partition d, downing_targets d) \<in>
      {(pe_reachable p, pe_non_reachable p), (pe_non_reachable p, pe_reachable p)}"
  shows "splits_members ctx d"
proof -
  from assms(1) obtain snap where snap: "membership_snapshot_of (input ctx) = Some snap"
    "pe_reachable p = filter (seen_reachable ctx) (active_member_addresses (ms_entries snap))"
    "pe_non_reachable p = filter (\<lambda>ua. \<not> seen_reachable ctx ua) (active_member_addresses (ms_entries snap))"
    by (auto simp: from_context_filter)
  from assms(2) show ?thesis
  proof (elim insertE emptyE)
    assume "(retained_partition d, downing_targets d) = (pe_reachable p, pe_non_reachable p)"
    then show ?thesis
      unfolding splits_members_def using snap by (intro exI [of _ snap] exI [of _ "seen_reachable ctx"]) simp
  next
    assume "(retained_partition d, downing_targets d) = (pe_non_reachable p, pe_reachable p)"
    then show ?thesis
      unfolding splits_members_def using snap
      by (intro exI [of _ snap] exI [of _ "\<lambda>ua. \<not> seen_reachable ctx ua"]) simp
  qed
qed

lemma majority_splits:
  "simple_decision (decide_majority ctx strat why) = Keep \<Longrightarrow> splits_members ctx (decide_majority ctx strat why)"
  by (auto simp: decide_majority_def decision_simps Let_def intro: splits_membersI split: if_splits option.splits)

lemma static_quorum_splits:
  "simple_decision (decide_static_quorum cfg ctx) = Keep \<Longrightarrow> splits_members ctx (decide_static_quorum cfg ctx)"
  by (auto simp: decide_static_quorum_def decision_simps Let_def intro: splits_membersI split: if_splits option.splits)

lemma oldest_splits:
  "simple_decision (decide_oldest ctx) = Keep \<Longrightarrow> splits_members ctx (decide_oldest ctx)"
  by (auto simp: decide_oldest_def decision_simps intro: splits_membersI
      split: if_splits option.splits)

lemma lease_majority_splits:
  "simple_decision (fst (decide_lease_majority acquire ctx lease_port)) = Keep \<Longrightarrow>
     splits_members ctx (fst (decide_lease_majority acquire ctx lease_port))"
  by (auto simp: decide_lease_majority_def decision_simps Let_def intro: splits_membersI
      split: if_splits option.splits prod.splits)

lemma decide_splits: "simple_decision (decide cfg ctx) = Keep \<Longrightarrow> splits_members ctx (decide cfg ctx)"
  using majority_splits static_quorum_splits oldest_splits
  by (auto simp: decide_def decide_down_all_def decision_simps Let_def
      split: if_splits split_brain_resolver_strategy.splits option.splits)

section \<open>Choosing a side\<close>

text \<open>
  A strategy, seen from one side of a partition, chooses between the side it reaches and the side
  it does not. \<open>symmetric_choice\<close> is what makes two sides of a clean partition agree: the choice
  does not depend on which side asks.
\<close>

locale symmetric_choice =
  fixes valid_split :: "'a list \<Rightarrow> 'a list \<Rightarrow> bool"
    and choice_of :: "'a list \<Rightarrow> 'a list \<Rightarrow> ('a list \<times> 'a list) option"
  assumes choose_side: "choice_of p q = Some s \<Longrightarrow> s \<in> {(p, q), (q, p)}"
    and choose_swap: "valid_split p q \<Longrightarrow> choice_of q p = choice_of p q"
begin

text \<open>Of two members on different sides, exactly one is downed.\<close>

lemma exactly_one_downed:
  assumes "choice_of p q = Some (retained, targets)" and "set p \<inter> set q = {}" and "a \<in> set p" and "b \<in> set q"
  shows "a \<in> set targets \<longleftrightarrow> b \<notin> set targets"
  using choose_side [OF assms(1)] assms(2-4) by auto

end

definition majority_choice :: "'a list \<Rightarrow> 'a list \<Rightarrow> ('a list \<times> 'a list) option" where
  "majority_choice p q =
     (let threshold = (length p + length q) div 2 + 1 in
      if length p \<ge> threshold then Some (p, q)
      else if length q \<ge> threshold then Some (q, p) else None)"

definition quorum_choice :: "nat \<Rightarrow> 'a list \<Rightarrow> 'a list \<Rightarrow> ('a list \<times> 'a list) option" where
  "quorum_choice n p q =
     (if length p \<ge> n \<and> length q \<ge> n then None
      else if length p \<ge> n then Some (p, q)
      else if length q \<ge> n then Some (q, p) else None)"

definition oldest_choice :: "'a \<Rightarrow> 'a list \<Rightarrow> 'a list \<Rightarrow> ('a list \<times> 'a list) option" where
  "oldest_choice m p q = (if m \<in> set p then Some (p, q) else Some (q, p))"

interpretation majority: symmetric_choice "\<lambda>_ _. True" majority_choice
  by unfold_locales (auto simp: majority_choice_def Let_def split: if_splits)

interpretation quorum: symmetric_choice "\<lambda>_ _. True" "quorum_choice n" for n
  by unfold_locales (auto simp: quorum_choice_def split: if_splits)

interpretation oldest: symmetric_choice "\<lambda>p q. m \<in> set p \<longleftrightarrow> m \<notin> set q" "oldest_choice m" for m
  by unfold_locales (auto simp: oldest_choice_def split: if_splits)

text \<open>The choice a configuration makes among the active members of a snapshot.\<close>

definition strategy_choice ::
    "split_brain_resolver_config \<Rightarrow> node_record list \<Rightarrow> unique_address list \<Rightarrow> unique_address list \<Rightarrow>
      (unique_address list \<times> unique_address list) option" where
  "strategy_choice cfg records p q =
     (case active_strategy cfg of
        KeepMajority \<Rightarrow> majority_choice p q
      | StaticQuorum \<Rightarrow>
          (case static_quorum_size cfg of
             None \<Rightarrow> None
           | Some n \<Rightarrow> if n = 0 \<or> p @ q = [] then None else quorum_choice n p q)
      | KeepOldest \<Rightarrow>
          (case oldest_member (filter (\<lambda>r. is_active (status r)) records) of
             None \<Rightarrow> None
           | Some r \<Rightarrow> oldest_choice (unique_address r) p q)
      | _ \<Rightarrow> None)"

definition reachable_side :: "downing_decision_context \<Rightarrow> node_record list \<Rightarrow> unique_address list" where
  "reachable_side ctx records = filter (seen_reachable ctx) (active_member_addresses records)"

definition other_side :: "downing_decision_context \<Rightarrow> node_record list \<Rightarrow> unique_address list" where
  "other_side ctx records = filter (\<lambda>ua. \<not> seen_reachable ctx ua) (active_member_addresses records)"

definition outcome_matches ::
    "downing_strategy_decision \<Rightarrow> (unique_address list \<times> unique_address list) option \<Rightarrow> bool" where
  "outcome_matches d choice =
     (case choice of
        None \<Rightarrow> simple_decision d = Defer \<and> retained_partition d = [] \<and> downing_targets d = []
      | Some (retained, targets) \<Rightarrow>
          simple_decision d = Keep \<and> retained_partition d = retained \<and> downing_targets d = targets)"

lemma from_context_sides:
  "membership_snapshot_of (input ctx) = Some snap \<Longrightarrow>
   from_context ctx = Some \<lparr>pe_reachable = reachable_side ctx (ms_entries snap),
     pe_non_reachable = other_side ctx (ms_entries snap)\<rparr>"
  by (simp add: from_context_filter reachable_side_def other_side_def)

lemma majority_tie: "length p = length q \<Longrightarrow> majority_choice p q = None"
  by (simp add: majority_choice_def)

lemma majority_outcome:
  assumes "membership_snapshot_of (input ctx) = Some snap"
  shows "outcome_matches (decide_majority ctx strat why)
    (majority_choice (reachable_side ctx (ms_entries snap)) (other_side ctx (ms_entries snap)))"
  by (auto simp: outcome_matches_def decide_majority_def from_context_sides [OF assms] decision_simps
      active_count_def has_tie_def majority_tie Let_def majority_choice_def split: option.splits)

lemma quorum_outcome:
  assumes "membership_snapshot_of (input ctx) = Some snap" and "active_strategy cfg = StaticQuorum"
  shows "outcome_matches (decide_static_quorum cfg ctx)
    (strategy_choice cfg (ms_entries snap) (reachable_side ctx (ms_entries snap)) (other_side ctx (ms_entries snap)))"
  using assms(2)
  by (auto simp: outcome_matches_def decide_static_quorum_def from_context_sides [OF assms(1)] decision_simps
      active_count_def strategy_choice_def quorum_choice_def Let_def split: option.splits)

lemma oldest_outcome:
  assumes "membership_snapshot_of (input ctx) = Some snap" and "active_strategy cfg = KeepOldest"
  shows "outcome_matches (decide_oldest ctx)
    (strategy_choice cfg (ms_entries snap) (reachable_side ctx (ms_entries snap)) (other_side ctx (ms_entries snap)))"
  using assms(2)
  by (cases "oldest_member (filter (\<lambda>r. is_active (status r)) (ms_entries snap))")
    (auto simp: outcome_matches_def decide_oldest_def assms(1) from_context_sides [OF assms(1)] decision_simps
      strategy_choice_def oldest_choice_def list_ex_iff)

text \<open>With its evidence complete and stable, the resolver follows the choice of its strategy.\<close>

definition settled :: "split_brain_resolver_config \<Rightarrow> downing_decision_context \<Rightarrow> bool" where
  "settled cfg ctx \<longleftrightarrow> defer_reason ctx = None \<and> \<not> unstable_duration ctx < stable_after cfg"

lemma decide_outcome:
  assumes snap: "membership_snapshot_of (input ctx) = Some snap" and "settled cfg ctx"
    and strat: "active_strategy cfg \<in> {KeepMajority, StaticQuorum, KeepOldest}"
  shows "outcome_matches (decide cfg ctx)
    (strategy_choice cfg (ms_entries snap) (reachable_side ctx (ms_entries snap)) (other_side ctx (ms_entries snap)))"
proof -
  have "explicit_down_authority_of (input ctx) = None"
    using snap by (cases "input ctx") auto
  with assms(2) show ?thesis
    using strat majority_outcome [OF snap] quorum_outcome [OF snap] oldest_outcome [OF snap]
    by (auto simp: decide_def settled_def Let_def strategy_choice_def)
qed

lemma decide_unsettled:
  assumes "explicit_down_authority_of (input ctx) = None" and "\<not> settled cfg ctx" and "active_strategy cfg \<noteq> DownAll"
  shows "simple_decision (decide cfg ctx) = Defer \<and> downing_targets (decide cfg ctx) = []"
  using assms by (auto simp: decide_def settled_def decision_simps Let_def)

end
