(* ===== verification/Downing_Provider.thy ===== *)
theory Downing_Provider
  imports Split_Brain_Resolver
begin

text \<open>
  The providers behind the downing boundary: the compatibility identity nodes compare when they
  join (\<open>downing_provider_compatibility.rs\<close>), the hook that runs the Split Brain Resolver for the
  local node (\<open>split_brain_resolver_provider_hook.rs\<close>), the no-op provider, and the default
  \<open>decide_context\<close> of the trait. The properties say that the two sides of a clean partition
  never both stay up.
\<close>

section \<open>Compatibility\<close>

record downing_provider_compatibility =
  provider_key :: string
  compat_config :: "split_brain_resolver_config option"
  sbr_config_identity :: "string option"

definition format_sbr_config_identity :: "split_brain_resolver_config \<Rightarrow> string" where
  "format_sbr_config_identity cfg =
     ''stable-after-nanos='' @ decimal (stable_after cfg) @
     '';active-strategy='' @ strategy_as_str (active_strategy cfg) @
     '';down-all-when-unstable-nanos='' @ decimal (down_all_when_unstable cfg) @
     (case (active_strategy cfg, static_quorum_size cfg) of
        (StaticQuorum, Some n) \<Rightarrow> '';static-quorum-size='' @ decimal n
      | _ \<Rightarrow> [])"

text \<open>\<open>new\<close> asserts that the key is not empty.\<close>

definition compatibility_new :: "string \<Rightarrow> string + downing_provider_compatibility" where
  "compatibility_new key =
     (if key = [] then Inl ''downing provider compatibility key must not be empty''
      else Inr \<lparr>provider_key = key, compat_config = None, sbr_config_identity = None\<rparr>)"

definition with_split_brain_resolver_config ::
    "downing_provider_compatibility \<Rightarrow> split_brain_resolver_config \<Rightarrow> downing_provider_compatibility" where
  "with_split_brain_resolver_config c cfg =
     c\<lparr>compat_config := Some cfg, sbr_config_identity := Some (format_sbr_config_identity cfg)\<rparr>"

definition expected_compatibility :: "split_brain_resolver_config \<Rightarrow> string + downing_provider_compatibility" where
  "expected_compatibility cfg =
     and_then (compatibility_new ''split-brain-resolver'')
       (\<lambda>c. Inr (with_split_brain_resolver_config c cfg))"

definition compatibility_matches ::
    "split_brain_resolver_config \<Rightarrow> downing_provider_compatibility \<Rightarrow> bool" where
  "compatibility_matches cfg c =
     (case expected_compatibility cfg of
        Inl _ \<Rightarrow> False
      | Inr expected \<Rightarrow> provider_key c = provider_key expected \<and>
          sbr_config_identity c = sbr_config_identity expected)"

section \<open>The hook\<close>

record provider_hook =
  hook_compatibility :: downing_provider_compatibility
  hook_config :: split_brain_resolver_config

definition hook_new :: "split_brain_resolver_config \<Rightarrow> string + provider_hook" where
  "hook_new cfg =
     and_then (expected_compatibility cfg) (\<lambda>c. Inr \<lparr>hook_compatibility = c, hook_config = cfg\<rparr>)"

definition hook_from_compatibility ::
    "split_brain_resolver_config \<Rightarrow> downing_provider_compatibility \<Rightarrow> cluster_provider_error + provider_hook" where
  "hook_from_compatibility cfg c =
     (if \<not> compatibility_matches cfg c
      then Inl (DownFailed ''split-brain-resolver compatibility metadata mismatch'')
      else Inr \<lparr>hook_compatibility = c, hook_config = cfg\<rparr>)"

definition map_trace :: "downing_decision_trace \<Rightarrow> cluster_provider_error + unit" where
  "map_trace tr = (if lease_outcome tr = Some BackendMissing then Inl (DownFailed (reason tr)) else Inr ())"

definition provider_decision ::
    "downing_decision_context \<Rightarrow> downing_strategy_decision \<Rightarrow> downing_decision" where
  "provider_decision ctx d =
     (if (case reachability_observer_of (input ctx) of
            Some observer \<Rightarrow> list_ex (\<lambda>t. t = observer) (downing_targets d) | None \<Rightarrow> False)
      then Down else simple_decision d)"

definition apply_provider_decision ::
    "downing_decision_context \<Rightarrow> downing_strategy_decision \<Rightarrow> downing_strategy_decision" where
  "apply_provider_decision ctx d = d\<lparr>simple_decision := provider_decision ctx d\<rparr>"

definition decide_strategy_context ::
    "provider_hook \<Rightarrow> downing_decision_context \<Rightarrow> cluster_provider_error + downing_strategy_decision" where
  "decide_strategy_context hook ctx =
     (let d = decide (hook_config hook) ctx in
      and_then (map_trace (trace d)) (\<lambda>_. Inr (apply_provider_decision ctx d)))"

definition decide_context ::
    "provider_hook \<Rightarrow> downing_decision_context \<Rightarrow> cluster_provider_error + downing_decision" where
  "decide_context hook ctx =
     (if explicit_down_authority_of (input ctx) \<noteq> None then Inr Down
      else and_then (decide_strategy_context hook ctx) (\<lambda>d. Inr (provider_decision ctx d)))"

definition decide_strategy_context_with_lease ::
    "('p \<Rightarrow> downing_decision_context \<Rightarrow> lease_acquisition_outcome \<times> 'p) \<Rightarrow> provider_hook \<Rightarrow>
      downing_decision_context \<Rightarrow> 'p \<Rightarrow> (cluster_provider_error + downing_strategy_decision) \<times> 'p" where
  "decide_strategy_context_with_lease acquire_majority hook ctx lease_port =
     (let (d, lease_port') = decide_with_lease acquire_majority (hook_config hook) ctx lease_port in
      (and_then (map_trace (trace d)) (\<lambda>_. Inr (apply_provider_decision ctx d)), lease_port'))"

definition decide_context_with_lease ::
    "('p \<Rightarrow> downing_decision_context \<Rightarrow> lease_acquisition_outcome \<times> 'p) \<Rightarrow> provider_hook \<Rightarrow>
      downing_decision_context \<Rightarrow> 'p \<Rightarrow> (cluster_provider_error + downing_decision) \<times> 'p" where
  "decide_context_with_lease acquire_majority hook ctx lease_port =
     (if explicit_down_authority_of (input ctx) \<noteq> None then (Inr Down, lease_port)
      else
        let (r, lease_port') = decide_strategy_context_with_lease acquire_majority hook ctx lease_port in
        (and_then r (\<lambda>d. Inr (provider_decision ctx d)), lease_port'))"

text \<open>The hook's \<open>decide\<close>, evaluated at time zero with a resolution of one millisecond.\<close>

definition hook_decide :: "provider_hook \<Rightarrow> downing_input \<Rightarrow> cluster_provider_error + downing_decision" where
  "hook_decide hook i = decide_context hook (from_downing_input i (timer_instant_zero 1000000))"

section \<open>The no-op provider and the trait's default\<close>

definition noop_decide :: "downing_input \<Rightarrow> cluster_provider_error + downing_decision" where
  "noop_decide i =
     (case i of
        InputExplicitDown _ \<Rightarrow> Inr Down
      | InputIndirectConnectionEvidence _ \<Rightarrow> Inr Defer
      | InputFailureObservation observation \<Rightarrow>
          (case fo_kind observation of
             ObservedSuspect \<Rightarrow> Inr Defer
           | ObservedUnreachable \<Rightarrow> Inr Defer
           | ObservedRecovered \<Rightarrow> Inr Keep))"

definition default_decide_context ::
    "(downing_input \<Rightarrow> cluster_provider_error + downing_decision) \<Rightarrow> downing_decision_context \<Rightarrow>
      cluster_provider_error + downing_decision" where
  "default_decide_context provider_decide ctx =
     (case explicit_down_authority_of (input ctx) of
        Some auth \<Rightarrow> provider_decide (InputExplicitDown auth)
      | None \<Rightarrow>
          (case failure_observation_of (input ctx) of
             Some observation \<Rightarrow> provider_decide (InputFailureObservation observation)
           | None \<Rightarrow>
               (case indirect_evidence_of (input ctx) of
                  Some evidence \<Rightarrow> provider_decide (InputIndirectConnectionEvidence evidence)
                | None \<Rightarrow> Inr Defer)))"

section \<open>Lemmas\<close>

lemma strategy_trace_no_lease:
  "lease_outcome (trace (decide_majority ctx strat why)) = None"
  "lease_outcome (trace (decide_static_quorum cfg ctx)) = None"
  "lease_outcome (trace (decide_oldest ctx)) = None"
  "lease_outcome (trace (decide_down_all cfg ctx)) = None"
  by (simp_all add: decide_majority_def decide_static_quorum_def decide_oldest_def decide_down_all_def
      decision_simps trace_defer_def trace_majority_partition_def with_tie_break_def
      trace_down_all_pending_def trace_down_all_elapsed_def Let_def split: option.splits)

lemma decide_trace_no_lease:
  "active_strategy cfg \<noteq> LeaseMajority \<Longrightarrow> lease_outcome (trace (decide cfg ctx)) = None"
  by (cases "active_strategy cfg")
    (simp_all add: decide_def Let_def strategy_trace_no_lease decision_simps trace_defer_def
      trace_majority_partition_def trace_stable_after_pending_def)

lemma provider_decision_apply:
  "provider_decision ctx (apply_provider_decision ctx d) = provider_decision ctx d"
  by (auto simp: provider_decision_def apply_provider_decision_def split: option.splits)

lemma decide_context_simple:
  assumes "active_strategy (hook_config hook) \<noteq> LeaseMajority"
    and "membership_snapshot_of (input ctx) = Some snap"
  shows "decide_context hook ctx = Inr (provider_decision ctx (decide (hook_config hook) ctx))"
proof -
  have "explicit_down_authority_of (input ctx) = None"
    using assms(2) by (cases "input ctx") auto
  then show ?thesis
    using decide_trace_no_lease [OF assms(1), of ctx]
    by (simp add: decide_context_def decide_strategy_context_def map_trace_def Let_def provider_decision_apply)
qed

lemma provider_decision_outcome:
  assumes "outcome_matches d choice" and "reachability_observer_of (input ctx) = Some ob"
  shows "provider_decision ctx d =
    (case choice of None \<Rightarrow> Defer | Some (retained, targets) \<Rightarrow> if ob \<in> set targets then Down else Keep)"
  using assms by (auto simp: outcome_matches_def provider_decision_def list_ex_iff split: option.splits)

section \<open>Clean partitions\<close>

text \<open>Two observers split the active members: what one reaches, the other does not.\<close>

definition clean_split ::
    "downing_decision_context \<Rightarrow> downing_decision_context \<Rightarrow> node_record list \<Rightarrow> bool" where
  "clean_split ca cb records \<longleftrightarrow>
     (\<forall>ua\<in>set (active_member_addresses records). seen_reachable ca ua \<longleftrightarrow> \<not> seen_reachable cb ua)"

lemma clean_split_sides:
  assumes "clean_split ca cb records"
  shows "reachable_side cb records = other_side ca records" "other_side cb records = reachable_side ca records"
  using assms by (auto simp: clean_split_def reachable_side_def other_side_def intro!: filter_cong)

lemma sides_disjoint: "set (reachable_side ctx records) \<inter> set (other_side ctx records) = {}"
  by (auto simp: reachable_side_def other_side_def)

lemma strategy_choice_swap:
  "strategy_choice cfg records (other_side ctx records) (reachable_side ctx records) =
   strategy_choice cfg records (reachable_side ctx records) (other_side ctx records)"
proof (cases "active_strategy cfg")
  case KeepMajority
  then show ?thesis
    by (simp add: strategy_choice_def majority.choose_swap [of "reachable_side ctx records" "other_side ctx records"])
next
  case StaticQuorum
  then show ?thesis
    using quorum.choose_swap [of _ "reachable_side ctx records" "other_side ctx records"]
    by (auto simp: strategy_choice_def split: option.split)
next
  case KeepOldest
  show ?thesis
  proof (cases "oldest_member (filter (\<lambda>r. is_active (status r)) records)")
    case (Some r)
    have "unique_address r \<in> set (reachable_side ctx records) \<longleftrightarrow> unique_address r \<notin> set (other_side ctx records)"
      using oldest_member_min(1) [OF Some]
      by (auto simp: reachable_side_def other_side_def active_member_addresses_def)
    with KeepOldest Some show ?thesis
      by (simp add: strategy_choice_def oldest.choose_swap)
  qed (use KeepOldest in \<open>simp add: strategy_choice_def\<close>)
qed (simp_all add: strategy_choice_def)

lemma strategy_choice_side:
  "strategy_choice cfg records p q = Some s \<Longrightarrow> s \<in> {(p, q), (q, p)}"
  by (auto simp: strategy_choice_def split: split_brain_resolver_strategy.splits option.splits if_splits
      dest: majority.choose_side quorum.choose_side oldest.choose_side)

section \<open>Properties\<close>

text \<open>
  Claim C2. On a clean partition with the same member records on both sides, complete and stable
  evidence, and the strategy KeepMajority, StaticQuorum or KeepOldest, the hooks of two members
  on different sides either both defer, or exactly one keeps its side and the other downs itself:
  a split brain is impossible and so is the loss of both sides.
\<close>

theorem sbr_clean_partition:
  assumes strat: "active_strategy (hook_config hook) \<in> {KeepMajority, StaticQuorum, KeepOldest}"
    and snaps: "membership_snapshot_of (input ca) = Some sa" "membership_snapshot_of (input cb) = Some sb"
      "ms_entries sa = ms_entries sb"
    and settled: "settled (hook_config hook) ca" "settled (hook_config hook) cb"
    and obs: "reachability_observer_of (input ca) = Some a" "reachability_observer_of (input cb) = Some b"
    and members: "a \<in> set (active_member_addresses (ms_entries sa))" "b \<in> set (active_member_addresses (ms_entries sa))"
    and own: "seen_reachable ca a" "seen_reachable cb b"
    and clean: "clean_split ca cb (ms_entries sa)"
  shows "(decide_context hook ca, decide_context hook cb) \<in>
    {(Inr Defer, Inr Defer), (Inr Keep, Inr Down), (Inr Down, Inr Keep)}"
proof -
  let ?rs = "ms_entries sa" and ?cfg = "hook_config hook"
  let ?p = "reachable_side ca ?rs" and ?q = "other_side ca ?rs"
  define choice where "choice = strategy_choice ?cfg ?rs ?p ?q"
  have sides: "a \<in> set ?p" "b \<in> set ?q"
    using members own clean by (auto simp: reachable_side_def other_side_def clean_split_def)
  have nl: "active_strategy ?cfg \<noteq> LeaseMajority" using strat by auto
  have "outcome_matches (decide ?cfg ca) choice"
    unfolding choice_def using decide_outcome [OF snaps(1) settled(1) strat] .
  moreover have "outcome_matches (decide ?cfg cb) choice"
    using decide_outcome [OF snaps(2) settled(2) strat]
    by (simp add: choice_def clean_split_sides [OF clean] strategy_choice_swap flip: snaps(3))
  ultimately have dec: "decide_context hook ca =
      Inr (case choice of None \<Rightarrow> Defer | Some (r, t) \<Rightarrow> if a \<in> set t then Down else Keep)"
    "decide_context hook cb =
      Inr (case choice of None \<Rightarrow> Defer | Some (r, t) \<Rightarrow> if b \<in> set t then Down else Keep)"
    by (simp_all add: decide_context_simple [OF nl snaps(1)] decide_context_simple [OF nl snaps(2)]
        provider_decision_outcome [OF _ obs(1)] provider_decision_outcome [OF _ obs(2)])
  show ?thesis
  proof (cases choice)
    case None
    with dec show ?thesis by simp
  next
    case (Some s)
    then have "s \<in> {(?p, ?q), (?q, ?p)}"
      unfolding choice_def by (rule strategy_choice_side)
    moreover have "a \<notin> set ?q" "b \<notin> set ?p"
      using sides sides_disjoint [of ca ?rs] by auto
    ultimately show ?thesis using Some dec sides by auto
  qed
qed

definition sample_record :: "unique_address \<Rightarrow> u64 \<Rightarrow> node_record" where
  "sample_record n v =
     node_record_new_with_identity n data_center_default ''n'' Up (MembershipVersion v) ''1'' []"

text \<open>Members \<open>node_a\<close> (older) and \<open>node_b\<close>, as seen by \<open>ob\<close>, which cannot reach \<open>su\<close>.\<close>

definition sample_snapshot :: "unique_address \<Rightarrow> unique_address \<Rightarrow> membership_snapshot" where
  "sample_snapshot ob su =
     \<lparr>ms_version = MembershipVersion 2, ms_entries = [sample_record node_a 1, sample_record node_b 2],
      ms_reachability = \<lparr>rs_records = [\<lparr>rr_observer = ob, rr_subject = su, rr_status = Unreachable, rr_version = 1\<rparr>],
        rs_observer_versions = fmupd ob 1 fmempty\<rparr>\<rparr>"

definition sample_context :: "unique_address \<Rightarrow> unique_address \<Rightarrow> downing_decision_context" where
  "sample_context ob su =
     with_reachability_observer (from_membership_snapshot (sample_snapshot ob su) (timer_instant_zero 1)) ob"

definition sample_hook :: "split_brain_resolver_strategy \<Rightarrow> provider_hook" where
  "sample_hook strat =
     \<lparr>hook_compatibility = \<lparr>provider_key = ''k'', compat_config = None, sbr_config_identity = None\<rparr>,
      hook_config = sbr_config_new 0 strat 0\<rparr>"

lemma sample_simps:
  "input (sample_context ob su) = MembershipInput (sample_snapshot ob su) None None (Some ob)"
  "active_member_addresses (ms_entries (sample_snapshot ob su)) = [node_a, node_b]"
  "ctx_reachability_status (sample_context ob su) ua = Some (if ua = su then Unreachable else Reachable)"
  "settled (sbr_config_new 0 strat 0) (sample_context ob su)"
  "hook_config (sample_hook strat) = sbr_config_new 0 strat 0"
  "active_strategy (sbr_config_new 0 strat 0) = strat"
  "stable_after (sbr_config_new 0 strat 0) = 0"
  "down_all_when_unstable (sbr_config_new 0 strat 0) = 0"
proof -
  show i: "input (sample_context ob su) = MembershipInput (sample_snapshot ob su) None None (Some ob)"
    by (simp add: sample_context_def with_reachability_observer_def from_membership_snapshot_def context_of_def)
  show "ctx_reachability_status (sample_context ob su) ua = Some (if ua = su then Unreachable else Reachable)"
    by (simp add: ctx_reachability_status_def i sample_snapshot_def rs_observed_status_def rs_has_observer_def
        contains_key_def)
  show "settled (sbr_config_new 0 strat 0) (sample_context ob su)"
    by (simp add: settled_def defer_reason_def requires_reachability_evidence_def requires_reachability_observer_def
        i sample_snapshot_def rs_has_observer_def contains_key_def sbr_config_new_def)
qed (simp_all add: sample_snapshot_def sample_record_def node_record_new_with_identity_def
    active_member_addresses_def is_active_def sample_hook_def sbr_config_new_def)

lemma sample_entries: "ms_entries (sample_snapshot ob su) = ms_entries (sample_snapshot ob' su')"
  by (simp add: sample_snapshot_def)

theorem sbr_clean_partition_witness:
  "(decide_context (sample_hook KeepOldest) (sample_context node_a node_b),
    decide_context (sample_hook KeepOldest) (sample_context node_b node_a)) \<in>
    {(Inr Defer, Inr Defer), (Inr Keep, Inr Down), (Inr Down, Inr Keep)}"
  by (rule sbr_clean_partition [where a = node_a and b = node_b and sa = "sample_snapshot node_a node_b"
        and sb = "sample_snapshot node_b node_a"])
    (simp_all add: sample_simps clean_split_def sample_entries [of node_a node_b node_b node_a])

text \<open>
  The members are split, never lost or duplicated: whenever the resolver keeps a
  partition, with or without a lease, the retained members and the downing targets together are
  exactly the active members of the snapshot, and no member is in both.
\<close>

theorem sbr_keep_splits_members:
  assumes "membership_snapshot_of (input ctx) = Some snap"
    and "d = decide cfg ctx \<or> d = fst (decide_with_lease acquire_majority cfg ctx lease_port)"
    and "simple_decision d = Keep"
  shows "mset (retained_partition d) + mset (downing_targets d) = mset (active_member_addresses (ms_entries snap)) \<and>
    set (retained_partition d) \<inter> set (downing_targets d) = {}"
proof -
  have "splits_members ctx d"
    using assms(2,3) decide_splits [of cfg ctx] lease_majority_splits [of acquire_majority ctx lease_port]
    by (auto simp: decide_with_lease_def decision_simps split: if_splits)
  then show ?thesis
    using assms(1) unfolding splits_members_def by (auto simp: mset_partition)
qed

theorem sbr_keep_splits_members_witness:
  "mset (retained_partition (decide (sbr_config_new 0 KeepOldest 0) (sample_context node_a node_b))) +
   mset (downing_targets (decide (sbr_config_new 0 KeepOldest 0) (sample_context node_a node_b))) =
   {#node_a, node_b#}"
proof -
  let ?d = "decide (sbr_config_new 0 KeepOldest 0) (sample_context node_a node_b)"
  have snap: "membership_snapshot_of (input (sample_context node_a node_b)) = Some (sample_snapshot node_a node_b)"
    by (simp add: sample_simps)
  have "oldest_member (filter (\<lambda>r. is_active (status r)) (ms_entries (sample_snapshot node_a node_b))) \<noteq> None"
    using sample_simps(2) [of node_a node_b] by (auto simp: active_member_addresses_def oldest_member_None)
  then obtain r where
    "oldest_member (filter (\<lambda>r. is_active (status r)) (ms_entries (sample_snapshot node_a node_b))) = Some r"
    by (meson not_None_eq)
  then have "simple_decision ?d = Keep"
    using decide_outcome [OF snap sample_simps(4) [of KeepOldest]]
    by (auto simp: sample_simps strategy_choice_def oldest_choice_def outcome_matches_def split: if_splits)
  then have "mset (retained_partition ?d) + mset (downing_targets ?d) =
      mset (active_member_addresses (ms_entries (sample_snapshot node_a node_b)))"
    using sbr_keep_splits_members [OF snap, where d = ?d and cfg = "sbr_config_new 0 KeepOldest 0"] by simp
  then show ?thesis by (simp add: sample_simps)
qed

text \<open>What a member does with the answer of the lease backend.\<close>

definition lease_answer :: "lease_acquisition_outcome \<Rightarrow> cluster_provider_error + downing_decision" where
  "lease_answer outcome =
     (case outcome of
        Acquired \<Rightarrow> Inr Keep
      | BackendMissing \<Rightarrow> Inl (DownFailed (trace_reason BackendMissing))
      | _ \<Rightarrow> Inr Defer)"

lemma lease_side:
  assumes strat: "active_strategy (hook_config hook) = LeaseMajority"
    and snap: "membership_snapshot_of (input ctx) = Some snap" and settled: "settled (hook_config hook) ctx"
    and obs: "reachability_observer_of (input ctx) = Some a" and own: "a \<in> set (reachable_side ctx (ms_entries snap))"
  shows "decide_context_with_lease acquire_majority hook ctx s =
    (if length (reachable_side ctx (ms_entries snap)) < length (other_side ctx (ms_entries snap)) then (Inr Down, s)
     else (lease_answer (fst (acquire_majority s ctx)), snd (acquire_majority s ctx)))"
proof -
  let ?p = "reachable_side ctx (ms_entries snap)" and ?q = "other_side ctx (ms_entries snap)"
  have ex: "explicit_down_authority_of (input ctx) = None" using snap by (cases "input ctx") auto
  have sides: "a \<notin> set ?q" "?p \<noteq> []" using own sides_disjoint [of ctx "ms_entries snap"] by auto
  obtain outcome s' where o: "acquire_majority s ctx = (outcome, s')" by fastforce
  have lease: "decide_with_lease acquire_majority (hook_config hook) ctx s = decide_lease_majority acquire_majority ctx s"
    using strat settled ex by (auto simp: decide_with_lease_def settled_def)
  have frame: "decide_context_with_lease acquire_majority hook ctx s =
      (let (d, s') = decide_lease_majority acquire_majority ctx s
       in (and_then (map_trace (trace d)) (\<lambda>_. Inr (provider_decision ctx d)), s'))"
    by (auto simp: decide_context_with_lease_def decide_strategy_context_with_lease_def lease ex Let_def split_beta
        and_then_def provider_decision_apply split: sum.split)
  show ?thesis
  proof (cases "length ?p < length ?q")
    case True
    then show ?thesis
      using own by (auto simp: frame decide_lease_majority_def from_context_sides [OF snap] active_count_def has_tie_def
          observer_is_target_def obs list_ex_iff decision_simps map_trace_def trace_majority_partition_def trace_defer_def
          and_then_def provider_decision_def Let_def)
  next
    case False
    then have "decide_lease_majority acquire_majority ctx s =
        (if outcome = Acquired then decision_keep (lease_acquired_trace LeaseMajority (length ?p = length ?q)) ?p ?q
         else defer_lease_outcome outcome, s')"
      using sides by (auto simp: decide_lease_majority_def from_context_sides [OF snap] active_count_def has_tie_def
          observer_is_target_def obs list_ex_iff o Let_def)
    then show ?thesis
      using False sides obs o
      by (cases outcome) (simp_all add: frame lease_answer_def decision_simps map_trace_def lease_acquired_trace_def with_tie_break_def
          trace_from_lease_outcome_def trace_defer_def and_then_def provider_decision_def list_ex_iff Let_def)
  qed
qed

text \<open>
  Claim C19. LeaseMajority on a clean partition, for every lease backend and without any assumption on
  it. The smaller side downs itself and does not ask for the lease; the larger side keeps itself
  exactly when its own request is answered with \<open>Acquired\<close>, and otherwise defers, or reports an error
  when no backend is configured. On a tie both sides ask and follow their own answer, so that both
  sides stay up only when they have the same size and the backend grants the lease to both.
\<close>

theorem sbr_lease_clean_partition:
  assumes strat: "active_strategy (hook_config hook) = LeaseMajority"
    and snaps: "membership_snapshot_of (input ca) = Some sa" "membership_snapshot_of (input cb) = Some sb"
      "ms_entries sa = ms_entries sb"
    and settled: "settled (hook_config hook) ca" "settled (hook_config hook) cb"
    and obs: "reachability_observer_of (input ca) = Some a" "reachability_observer_of (input cb) = Some b"
    and members: "a \<in> set (active_member_addresses (ms_entries sa))" "b \<in> set (active_member_addresses (ms_entries sa))"
    and own: "seen_reachable ca a" "seen_reachable cb b"
    and clean: "clean_split ca cb (ms_entries sa)"
    and sizes: "m = length (reachable_side ca (ms_entries sa))" "n = length (other_side ca (ms_entries sa))"
  shows "decide_context_with_lease acquire_majority hook ca s1 =
      (if m < n then (Inr Down, s1) else (lease_answer (fst (acquire_majority s1 ca)), snd (acquire_majority s1 ca))) \<and>
    decide_context_with_lease acquire_majority hook cb s2 =
      (if n < m then (Inr Down, s2) else (lease_answer (fst (acquire_majority s2 cb)), snd (acquire_majority s2 cb))) \<and>
    (fst (decide_context_with_lease acquire_majority hook ca s1) = Inr Keep \<and>
       fst (decide_context_with_lease acquire_majority hook cb s2) = Inr Keep \<longrightarrow>
     m = n \<and> fst (acquire_majority s1 ca) = Acquired \<and> fst (acquire_majority s2 cb) = Acquired)"
proof -
  have b: "reachable_side cb (ms_entries sb) = other_side ca (ms_entries sa)" "other_side cb (ms_entries sb) = reachable_side ca (ms_entries sa)"
    using clean_split_sides [OF clean] snaps(3) by simp_all
  have "a \<in> set (reachable_side ca (ms_entries sa))" "b \<in> set (reachable_side cb (ms_entries sb))"
    using members own snaps(3) by (auto simp: reachable_side_def)
  note one = lease_side [OF strat snaps(1) settled(1) obs(1) this(1), of acquire_majority s1, folded sizes]
    lease_side [OF strat snaps(2) settled(2) obs(2) this(2), of acquire_majority s2, unfolded b, folded sizes]
  have "lease_answer outcome = Inr Keep \<longleftrightarrow> outcome = Acquired" for outcome
    by (cases outcome) (simp_all add: lease_answer_def)
  with one show ?thesis by (auto split: if_splits)
qed

text \<open>A lease that is granted to whoever asks first.\<close>

definition one_lease :: "bool \<Rightarrow> downing_decision_context \<Rightarrow> lease_acquisition_outcome \<times> bool" where
  "one_lease taken ctx = (if taken then Denied else Acquired, True)"

theorem sbr_lease_clean_partition_witness:
  "decide_context_with_lease one_lease (sample_hook LeaseMajority) (sample_context node_a node_b) False = (Inr Keep, True) \<and>
   decide_context_with_lease one_lease (sample_hook LeaseMajority) (sample_context node_b node_a) True = (Inr Defer, True)"
proof -
  let ?a = "sample_context node_a node_b" and ?rs = "ms_entries (sample_snapshot node_a node_b)"
  have n: "length (reachable_side ?a ?rs) = length (other_side ?a ?rs)"
    by (simp add: reachable_side_def other_side_def sample_simps node_a_def node_b_def unique_address_new_def)
  have "clean_split ?a (sample_context node_b node_a) ?rs"
    by (simp add: clean_split_def sample_simps node_a_def node_b_def unique_address_new_def)
  from sbr_lease_clean_partition [OF _ _ _ _ _ _ _ _ _ _ _ _ this refl refl, of "sample_hook LeaseMajority" "sample_snapshot node_b node_a" node_a node_b
      one_lease False True] n
  show ?thesis
    by (simp add: sample_simps sample_entries [of node_a node_b node_b node_a] one_lease_def lease_answer_def)
qed

text \<open>
  The gates of the resolver: before the evidence is complete and the membership has been
  unstable for the configured time, every strategy other than DownAll defers and names no target;
  DownAll downs exactly the active members, and does so exactly when there are any and both
  configured times have passed.
\<close>

theorem sbr_gates:
  assumes "membership_snapshot_of (input ctx) = Some snap"
  shows "(active_strategy cfg \<noteq> DownAll \<and> \<not> settled cfg ctx \<longrightarrow>
      simple_decision (decide cfg ctx) = Defer \<and> downing_targets (decide cfg ctx) = []) \<and>
    (active_strategy cfg = DownAll \<longrightarrow>
      (if active_member_addresses (ms_entries snap) \<noteq> [] \<and>
          max (stable_after cfg) (down_all_when_unstable cfg) \<le> unstable_duration ctx
       then simple_decision (decide cfg ctx) = Down \<and> all_down (decide cfg ctx) \<and>
         downing_targets (decide cfg ctx) = active_member_addresses (ms_entries snap)
       else simple_decision (decide cfg ctx) = Defer \<and> downing_targets (decide cfg ctx) = []))"
proof -
  have ex: "explicit_down_authority_of (input ctx) = None"
    using assms by (cases "input ctx") auto
  show ?thesis
    using decide_unsettled [OF ex] assms
    by (auto simp: decide_def decide_down_all_def ex decision_simps Let_def)
qed

theorem sbr_gates_witness:
  "downing_targets (decide (sbr_config_new 0 DownAll 0) (sample_context node_a node_b)) = [node_a, node_b]"
  using sbr_gates [of "sample_context node_a node_b" "sample_snapshot node_a node_b" "sbr_config_new 0 DownAll 0"]
  by (simp add: sample_simps)

text \<open>The part of a configuration that its identity has to tell apart.\<close>

definition effective_config ::
    "split_brain_resolver_config \<Rightarrow> duration \<times> split_brain_resolver_strategy \<times> duration \<times> nat option" where
  "effective_config cfg =
     (stable_after cfg, active_strategy cfg, down_all_when_unstable cfg,
      if active_strategy cfg = StaticQuorum then static_quorum_size cfg else None)"

lemma until_semicolon:
  assumes "CHR '';'' \<notin> set xs" and "CHR '';'' \<notin> set ys"
    and "r = [] \<or> (\<exists>t. r = CHR '';'' # t)" and "r' = [] \<or> (\<exists>t. r' = CHR '';'' # t)"
  shows "xs @ r = ys @ r' \<longleftrightarrow> xs = ys \<and> r = r'"
proof
  assume eq: "xs @ r = ys @ r'"
  have "takeWhile (\<lambda>c. c \<noteq> CHR '';'') (zs @ t) = zs"
    if "CHR '';'' \<notin> set zs" "t = [] \<or> (\<exists>u. t = CHR '';'' # u)" for zs t
    using that by (induction zs) auto
  with assms eq have "xs = ys" by metis
  with eq show "xs = ys \<and> r = r'" by simp
qed simp

lemma semicolon_free: "CHR '';'' \<notin> set (decimal n)" "CHR '';'' \<notin> set (strategy_as_str strat)"
proof -
  have "digit_value (CHR '';'') = None" by (simp add: digit_value_def)
  then show "CHR '';'' \<notin> set (decimal n)"
    using set_decimal [of n] digit_value_digit by fastforce
  show "CHR '';'' \<notin> set (strategy_as_str strat)"
    by (cases strat) (simp_all add: strategy_as_str_def)
qed

lemma strategy_as_str_inject: "strategy_as_str a = strategy_as_str b \<longleftrightarrow> a = b"
  by (cases a; cases b) (simp_all add: strategy_as_str_def)

text \<open>
  The identity string that joining nodes compare is injective on what a configuration
  does: two configurations have the same identity exactly when they agree on both times, on the
  strategy, and, for StaticQuorum, on the quorum size.
\<close>

theorem sbr_config_identity_injective:
  "format_sbr_config_identity cfg = format_sbr_config_identity cfg' \<longleftrightarrow>
     effective_config cfg = effective_config cfg'"
proof -
  define tail where "tail = (\<lambda>cfg :: split_brain_resolver_config. case (active_strategy cfg, static_quorum_size cfg) of
      (StaticQuorum, Some n) \<Rightarrow> '';static-quorum-size='' @ decimal n | _ \<Rightarrow> [])"
  have tail: "tail cfg = [] \<or> (\<exists>t. tail cfg = CHR '';'' # t)" for cfg
    by (auto simp: tail_def split: split_brain_resolver_strategy.splits option.splits)
  have tails: "active_strategy cfg = active_strategy cfg' \<Longrightarrow> tail cfg = tail cfg' \<longleftrightarrow>
      (active_strategy cfg = StaticQuorum \<longrightarrow> static_quorum_size cfg = static_quorum_size cfg')"
    by (auto simp: tail_def decimal_inject split: split_brain_resolver_strategy.splits option.splits)
  have fmt: "format_sbr_config_identity c = ''stable-after-nanos='' @ decimal (stable_after c) @
      '';active-strategy='' @ strategy_as_str (active_strategy c) @
      '';down-all-when-unstable-nanos='' @ decimal (down_all_when_unstable c) @ tail c" for c
    by (simp only: format_sbr_config_identity_def tail_def)
  have "format_sbr_config_identity cfg = format_sbr_config_identity cfg' \<longleftrightarrow>
      decimal (stable_after cfg) = decimal (stable_after cfg') \<and>
      strategy_as_str (active_strategy cfg) = strategy_as_str (active_strategy cfg') \<and>
      decimal (down_all_when_unstable cfg) = decimal (down_all_when_unstable cfg') \<and> tail cfg = tail cfg'"
    unfolding fmt using tail by (simp add: until_semicolon semicolon_free)
  then show ?thesis
    using tails by (auto simp: effective_config_def decimal_inject strategy_as_str_inject)
qed

end
