(* ===== verification/Membership_Table.thy ===== *)
theory Membership_Table
  imports Downing_Context
begin

text \<open>
  The membership table (\<open>membership/membership_table.rs\<close> with \<open>membership_delta.rs\<close>,
  \<open>membership_error.rs\<close> and \<open>membership_event.rs\<close>): versioned node records keyed by the printed
  unique address, joins, the status transitions, heartbeat misses and the deltas that replicate
  them. An operation that fails returns its error on the left together with the table it leaves.
  Versions and miss counters are machine words with a plain increment, so they wrap.
\<close>

section \<open>Data\<close>

type_synonym u32 = "32 word"

record membership_delta =
  d_from :: membership_version
  d_to :: membership_version
  d_entries :: "node_record list"

datatype membership_error =
    AuthorityConflict string string string
  | UnknownAuthority string
  | InvalidTransition string node_status node_status
  | Quarantined string string
  | IncompatibleConfig string
  | UnconfirmedIdentity string

datatype membership_event =
    ConflictEvent string string string
  | JoinedEvent string string
  | LeftEvent string string
  | MarkedSuspectEvent string string

record membership_table =
  mt_version :: membership_version
  mt_entries :: "(string, node_record) fmap"
  mt_heartbeat_miss_counters :: "(string, u32) fmap"
  mt_max_heartbeat_misses :: u32
  mt_events :: "membership_event list"

definition membership_delta_new ::
    "membership_version \<Rightarrow> membership_version \<Rightarrow> node_record list \<Rightarrow> membership_delta" where
  "membership_delta_new f t es = \<lparr>d_from = f, d_to = t, d_entries = es\<rparr>"

definition mt_new :: "u32 \<Rightarrow> membership_table" where
  "mt_new max_misses = \<lparr>mt_version = membership_version_zero, mt_entries = fmempty,
     mt_heartbeat_miss_counters = fmempty, mt_max_heartbeat_misses = max_misses, mt_events = []\<rparr>"

section \<open>Keys\<close>

text \<open>\<open>Display\<close> of a unique address: the address, a hash sign, the decimal uid.\<close>

definition unique_address_to_string :: "unique_address \<Rightarrow> string" where
  "unique_address_to_string ua = address_to_string (address_of ua) @ ''#'' @ decimal (unat (uid ua))"

definition entry_key :: "node_record \<Rightarrow> string" where
  "entry_key r = unique_address_to_string (unique_address r)"

text \<open>\<open>Iterator::max_by\<close> returns the last of the greatest elements.\<close>

definition max_by :: "('a \<Rightarrow> 'a \<Rightarrow> ordering) \<Rightarrow> 'a list \<Rightarrow> 'a option" where
  "max_by c xs =
     (case xs of [] \<Rightarrow> None
      | x # ys \<Rightarrow> Some (fold (\<lambda>y best. if c best y = Greater then best else y) ys x))"

definition latest_joined :: "(string \<times> node_record) list \<Rightarrow> (string \<times> node_record) option" where
  "latest_joined = max_by (\<lambda>(_, l) (_, r). cmp (join_version l) (join_version r))"

text \<open>The search by authority: the latest active incarnation, or else the latest of all.\<close>

definition entry_for_authority :: "membership_table \<Rightarrow> string \<Rightarrow> (string \<times> node_record) option" where
  "entry_for_authority t a =
     (case latest_joined (filter (\<lambda>(_, r). authority r = a \<and> is_active (status r)) (entries (mt_entries t))) of
        Some e \<Rightarrow> Some e
      | None \<Rightarrow> latest_joined (filter (\<lambda>(_, r). authority r = a) (entries (mt_entries t))))"

definition entry_key_for_authority :: "membership_table \<Rightarrow> string \<Rightarrow> string option" where
  "entry_key_for_authority t a =
     (if contains_key (mt_entries t) a then Some a else map_option fst (entry_for_authority t a))"

definition record_for_authority :: "membership_table \<Rightarrow> string \<Rightarrow> node_record option" where
  "record_for_authority t a = map_option snd (entry_for_authority t a)"

definition mt_record :: "membership_table \<Rightarrow> string \<Rightarrow> node_record option" where
  "mt_record t a =
     (case fmlookup (mt_entries t) a of Some r \<Rightarrow> Some r | None \<Rightarrow> record_for_authority t a)"

text \<open>The two look-ups every transition starts with; both report \<open>UnknownAuthority\<close> when they fail.\<close>

definition resolve :: "membership_table \<Rightarrow> string \<Rightarrow> (string \<times> node_record) option" where
  "resolve t a =
     (case entry_key_for_authority t a of
        None \<Rightarrow> None
      | Some key \<Rightarrow> (case fmlookup (mt_entries t) key of None \<Rightarrow> None | Some r \<Rightarrow> Some (key, r)))"

section \<open>Joins\<close>

definition terminal :: "node_status \<Rightarrow> bool" where
  "terminal s \<longleftrightarrow> s \<in> {Removed, Dead}"

definition supersede_active_incarnations ::
    "membership_table \<Rightarrow> string \<Rightarrow> string \<Rightarrow> node_record list \<times> membership_table" where
  "supersede_active_incarnations t a replacing_key =
     (let keys = map fst (filter (\<lambda>(key, r). key \<noteq> replacing_key \<and> authority r = a \<and> is_active (status r))
                   (entries (mt_entries t)))
      in fold (\<lambda>key (superseded, t).
           case fmlookup (mt_entries t) key of
             None \<Rightarrow> (superseded, t)
           | Some r \<Rightarrow>
               (let r' = r\<lparr>status := Dead, version := mt_version t\<rparr>
                in (superseded @ [r'], t\<lparr>mt_entries := fmupd key r' (mt_entries t)\<rparr>)))
         keys ([], t))"

definition try_join ::
    "membership_table \<Rightarrow> string \<Rightarrow> string \<Rightarrow> string \<Rightarrow> string list \<Rightarrow>
      (membership_error + membership_delta) \<times> membership_table" where
  "try_join t nid a app rs =
     (case entry_key_for_authority t a of
        Some key \<Rightarrow>
          (case fmlookup (mt_entries t) key of
             None \<Rightarrow> (Inl (UnknownAuthority a), t)
           | Some existing \<Rightarrow>
               if node_id existing \<noteq> nid then
                 (Inl (AuthorityConflict a (node_id existing) nid),
                  t\<lparr>mt_events := mt_events t @ [ConflictEvent a (node_id existing) nid]\<rparr>)
               else if terminal (status existing) then
                 (let v = membership_version_next (mt_version t);
                      r = existing\<lparr>status := Joining, version := v, join_version := v,
                            app_version := app, roles := rs\<rparr>
                  in (Inr (membership_delta_new (mt_version t) v [r]),
                      t\<lparr>mt_version := v, mt_entries := fmupd key r (mt_entries t)\<rparr>))
               else (Inr (membership_delta_new (mt_version t) (mt_version t) [existing]), t))
      | None \<Rightarrow>
          (let v = membership_version_next (mt_version t);
               r = node_record_new nid a Joining v app rs;
               key = entry_key r
           in (Inr (membership_delta_new (mt_version t) v [r]),
               t\<lparr>mt_version := v,
                 mt_heartbeat_miss_counters := fmupd key 0 (mt_heartbeat_miss_counters t),
                 mt_entries := fmupd key r (mt_entries t),
                 mt_events := mt_events t @ [JoinedEvent nid a]\<rparr>)))"

definition try_join_with_identity ::
    "membership_table \<Rightarrow> string \<Rightarrow> unique_address \<Rightarrow> data_center \<Rightarrow> string \<Rightarrow> string list \<Rightarrow>
      (membership_error + membership_delta) \<times> membership_table" where
  "try_join_with_identity t nid ua dc app rs =
     (if uid ua = 0 then (Inl (UnconfirmedIdentity (unique_address_to_string ua)), t)
      else let key = unique_address_to_string ua in
        case fmlookup (mt_entries t) key of
          Some existing \<Rightarrow>
            if node_id existing \<noteq> nid then
              (Inl (AuthorityConflict (authority existing) (node_id existing) nid),
               t\<lparr>mt_events := mt_events t @ [ConflictEvent (authority existing) (node_id existing) nid]\<rparr>)
            else if terminal (status existing) then
              (let v = membership_version_next (mt_version t);
                   r = existing\<lparr>status := Joining, version := v, join_version := v, data_center := dc,
                         app_version := app, roles := rs\<rparr>
               in (Inr (membership_delta_new (mt_version t) v [r]),
                   t\<lparr>mt_version := v, mt_entries := fmupd key r (mt_entries t)\<rparr>))
            else (Inr (membership_delta_new (mt_version t) (mt_version t) [existing]), t)
        | None \<Rightarrow>
            (let v = membership_version_next (mt_version t);
                 r = node_record_new_with_identity ua dc nid Joining v app rs;
                 t1 = t\<lparr>mt_version := v,
                   mt_heartbeat_miss_counters := fmupd key 0 (mt_heartbeat_miss_counters t),
                   mt_entries := fmupd key r (mt_entries t),
                   mt_events := mt_events t @ [JoinedEvent nid (authority r)]\<rparr>;
                 (superseded, t2) = supersede_active_incarnations t1 (authority r) (entry_key r)
             in (Inr (membership_delta_new (mt_version t) (mt_version t2) (r # superseded)), t2)))"

section \<open>Transitions\<close>

text \<open>The tail every transition shares: the next version, the new status, a delta of one record.\<close>

definition move_to ::
    "membership_table \<Rightarrow> string \<Rightarrow> node_record \<Rightarrow> node_status \<Rightarrow> membership_delta \<times> membership_table" where
  "move_to t key r st =
     (let v = membership_version_next (mt_version t);
          r' = r\<lparr>status := st, version := v\<rparr>
      in (membership_delta_new (mt_version t) v [r'],
          t\<lparr>mt_version := v, mt_entries := fmupd key r' (mt_entries t)\<rparr>))"

definition mark_left :: "membership_table \<Rightarrow> string \<Rightarrow> (membership_error + membership_delta) \<times> membership_table" where
  "mark_left t a =
     (case resolve t a of
        None \<Rightarrow> (Inl (UnknownAuthority a), t)
      | Some (key, r) \<Rightarrow>
          if terminal (status r) then (Inl (InvalidTransition a (status r) Exiting), t)
          else if status r = Exiting then
            (let (d, t') = move_to t key r Removed
             in (Inr d, t'\<lparr>mt_events := mt_events t' @ [LeftEvent (node_id r) (authority r)]\<rparr>))
          else let (d, t') = move_to t key r Exiting in (Inr d, t'))"

definition mark_heartbeat_miss :: "membership_table \<Rightarrow> string \<Rightarrow> membership_delta option \<times> membership_table" where
  "mark_heartbeat_miss t a =
     (case resolve t a of
        None \<Rightarrow> (None, t)
      | Some (key, r) \<Rightarrow>
          if \<not> is_active (status r) then (None, t)
          else
            (let counter = get_or (mt_heartbeat_miss_counters t) key 0 + 1;
                 t1 = t\<lparr>mt_heartbeat_miss_counters := fmupd key counter (mt_heartbeat_miss_counters t)\<rparr>
             in if counter < mt_max_heartbeat_misses t then (None, t1)
                else let (d, t2) = move_to t1 key r Suspect
                     in (Some d, t2\<lparr>mt_events := mt_events t2 @ [MarkedSuspectEvent (node_id r) (authority r)]\<rparr>)))"

text \<open>
  \<open>mark_weakly_up\<close>, \<open>mark_up\<close>, \<open>mark_suspect\<close> and \<open>mark_dead\<close> have one shape: nothing to do when
  the record already has the status, an error when it may not move there.
\<close>

definition mark_status ::
    "membership_table \<Rightarrow> string \<Rightarrow> (node_status \<Rightarrow> bool) \<Rightarrow> node_status \<Rightarrow>
      (membership_error + membership_delta option) \<times> membership_table" where
  "mark_status t a may_move st =
     (case resolve t a of
        None \<Rightarrow> (Inl (UnknownAuthority a), t)
      | Some (key, r) \<Rightarrow>
          if status r = st then (Inr None, t)
          else if may_move (status r) then (let (d, t') = move_to t key r st in (Inr (Some d), t'))
          else (Inl (InvalidTransition a (status r) st), t))"

definition mark_weakly_up ::
    "membership_table \<Rightarrow> string \<Rightarrow> (membership_error + membership_delta option) \<times> membership_table" where
  "mark_weakly_up t a = mark_status t a (\<lambda>s. s = Joining) WeaklyUp"

definition mark_up ::
    "membership_table \<Rightarrow> string \<Rightarrow> (membership_error + membership_delta option) \<times> membership_table" where
  "mark_up t a = mark_status t a (\<lambda>s. s \<in> {WeaklyUp, Suspect}) Up"

definition mark_suspect ::
    "membership_table \<Rightarrow> string \<Rightarrow> (membership_error + membership_delta option) \<times> membership_table" where
  "mark_suspect t a = mark_status t a (\<lambda>s. s \<in> {Up, WeaklyUp, Joining}) Suspect"

definition mark_dead ::
    "membership_table \<Rightarrow> string \<Rightarrow> (membership_error + membership_delta option) \<times> membership_table" where
  "mark_dead t a = mark_status t a is_active Dead"

section \<open>Deltas, snapshots and events\<close>

definition apply_record ::
    "node_record \<Rightarrow> node_record list \<times> membership_table \<Rightarrow> node_record list \<times> membership_table" where
  "apply_record r st =
     (let (superseded, t) = st;
          key = entry_key r;
          (more, t1) = (if is_active (status r) then supersede_active_incarnations t (authority r) key else ([], t))
      in (superseded @ more,
          t1\<lparr>mt_heartbeat_miss_counters := fmupd key 0 (mt_heartbeat_miss_counters t1),
             mt_entries := fmupd key r (mt_entries t1)\<rparr>))"

definition apply_delta :: "membership_table \<Rightarrow> membership_delta \<Rightarrow> node_record list \<times> membership_table" where
  "apply_delta t d =
     (if d_to d \<le> mt_version t then ([], t)
      else fold apply_record (d_entries d) ([], t\<lparr>mt_version := d_to d\<rparr>))"

definition mt_snapshot :: "membership_table \<Rightarrow> membership_snapshot" where
  "mt_snapshot t = \<lparr>ms_version = mt_version t, ms_entries = map_values (mt_entries t), ms_reachability = rs_empty\<rparr>"

definition drain_events :: "membership_table \<Rightarrow> membership_event list \<times> membership_table" where
  "drain_events t = (mt_events t, t\<lparr>mt_events := []\<rparr>)"

section \<open>The operations as one type\<close>

text \<open>
  The local operations of the table, for statements about all of them. The result is what the
  method returns, with a delta that is always present written as \<open>Some\<close>.
\<close>

datatype membership_op =
    TryJoin string string string "string list"
  | TryJoinWithIdentity string unique_address data_center string "string list"
  | MarkLeft string
  | MarkHeartbeatMiss string
  | MarkWeaklyUp string
  | MarkUp string
  | MarkSuspect string
  | MarkDead string

definition mt_exec ::
    "membership_op \<Rightarrow> membership_table \<Rightarrow> (membership_error + membership_delta option) \<times> membership_table" where
  "mt_exec op t =
     (case op of
        TryJoin nid a app rs \<Rightarrow> map_prod (map_sum id Some) id (try_join t nid a app rs)
      | TryJoinWithIdentity nid ua dc app rs \<Rightarrow>
          map_prod (map_sum id Some) id (try_join_with_identity t nid ua dc app rs)
      | MarkLeft a \<Rightarrow> map_prod (map_sum id Some) id (mark_left t a)
      | MarkHeartbeatMiss a \<Rightarrow> map_prod Inr id (mark_heartbeat_miss t a)
      | MarkWeaklyUp a \<Rightarrow> mark_weakly_up t a
      | MarkUp a \<Rightarrow> mark_up t a
      | MarkSuspect a \<Rightarrow> mark_suspect t a
      | MarkDead a \<Rightarrow> mark_dead t a)"

section \<open>Look-ups\<close>

abbreviation rec_at :: "membership_table \<Rightarrow> string \<Rightarrow> node_record option" where
  "rec_at t k \<equiv> fmlookup (mt_entries t) k"

lemma max_by_mem: "max_by c xs = Some x \<Longrightarrow> x \<in> set xs"
proof -
  have "fold (\<lambda>y best. if c best y = Greater then best else y) ys x \<in> set (x # ys)" for x ys
  proof (induction ys arbitrary: x)
    case (Cons y ys)
    show ?case using Cons.IH [of x] Cons.IH [of y] by auto
  qed simp
  then show "max_by c xs = Some x \<Longrightarrow> x \<in> set xs"
    by (fastforce simp: max_by_def split: list.splits)
qed

lemma max_by_None [simp]: "max_by c xs = None \<longleftrightarrow> xs = []"
  by (auto simp: max_by_def split: list.splits)

lemma entry_for_authority_Some:
  assumes "entry_for_authority t a = Some (k, r)"
  shows "rec_at t k = Some r" and "authority r = a"
  using assms
  by (auto simp: entry_for_authority_def latest_joined_def set_entries dest!: max_by_mem split: option.splits)

lemma entry_for_authority_None:
  assumes "entry_for_authority t a = None"
  shows "rec_at t k = Some r \<Longrightarrow> authority r \<noteq> a"
  using assms set_entries [of k r "mt_entries t"]
  by (auto simp: entry_for_authority_def latest_joined_def filter_empty_conv split: option.splits)

text \<open>An active incarnation is preferred: a search finds a terminal record only when no record of
  the authority is active.\<close>

lemma entry_for_authority_active:
  assumes "entry_for_authority t a = Some (k, r)" and "\<not> is_active (status r)"
    and "rec_at t j = Some s" and "authority s = a"
  shows "\<not> is_active (status s)"
proof (rule ccontr)
  assume "\<not> \<not> is_active (status s)"
  with assms(3,4) have "(j, s) \<in> set (filter (\<lambda>(_, r). authority r = a \<and> is_active (status r)) (entries (mt_entries t)))"
    by (simp add: set_entries)
  then obtain e where e: "latest_joined (filter (\<lambda>(_, r). authority r = a \<and> is_active (status r)) (entries (mt_entries t))) = Some e"
    by (cases "latest_joined (filter (\<lambda>(_, r). authority r = a \<and> is_active (status r)) (entries (mt_entries t)))")
      (auto simp: latest_joined_def filter_empty_conv)
  then have "e = (k, r)" using assms(1) by (simp add: entry_for_authority_def)
  with e assms(2) show False by (auto simp: latest_joined_def dest!: max_by_mem)
qed

lemma resolve_Some: "resolve t a = Some (k, r) \<Longrightarrow> rec_at t k = Some r"
  by (auto simp: resolve_def split: option.splits)

text \<open>The second look-up never fails.\<close>

lemma entry_key_for_authority_rec: "entry_key_for_authority t a = Some k \<Longrightarrow> \<exists>r. rec_at t k = Some r"
  by (auto simp: entry_key_for_authority_def contains_key_iff dest: entry_for_authority_Some split: if_splits)

lemma entry_key_for_authority_None:
  "entry_key_for_authority t a = None \<Longrightarrow> rec_at t k = Some r \<Longrightarrow> authority r \<noteq> a"
  by (auto simp: entry_key_for_authority_def dest: entry_for_authority_None split: if_splits)

section \<open>Superseding\<close>

definition superseded_by :: "membership_version \<Rightarrow> node_record \<Rightarrow> node_record" where
  "superseded_by v r = r\<lparr>status := Dead, version := v\<rparr>"

definition superseded_keys :: "membership_table \<Rightarrow> string \<Rightarrow> string \<Rightarrow> (string \<times> node_record) list" where
  "superseded_keys t a k =
     filter (\<lambda>(key, r). key \<noteq> k \<and> authority r = a \<and> is_active (status r)) (entries (mt_entries t))"

lemma supersede_fold:
  assumes "distinct (map fst xs)" and "\<forall>(k, r)\<in>set xs. rec_at t k = Some r"
  shows "fold (\<lambda>key (superseded, t).
           case fmlookup (mt_entries t) key of
             None \<Rightarrow> (superseded, t)
           | Some r \<Rightarrow>
               (let r' = r\<lparr>status := Dead, version := mt_version t\<rparr>
                in (superseded @ [r'], t\<lparr>mt_entries := fmupd key r' (mt_entries t)\<rparr>)))
         (map fst xs) (acc, t) =
    (acc @ map (superseded_by (mt_version t) \<circ> snd) xs,
     t\<lparr>mt_entries := fold (\<lambda>(k, r). fmupd k (superseded_by (mt_version t) r)) xs (mt_entries t)\<rparr>)"
  using assms
proof (induction xs arbitrary: acc t)
  case (Cons x xs)
  obtain k r where x: "x = (k, r)" by (cases x)
  let ?t = "t\<lparr>mt_entries := fmupd k (superseded_by (mt_version t) r) (mt_entries t)\<rparr>"
  have "\<forall>(k, r)\<in>set xs. rec_at ?t k = Some r"
    using Cons.prems x by (fastforce simp: rev_image_eqI)
  with Cons.IH [of ?t] Cons.prems x show ?case
    by (simp add: superseded_by_def Let_def)
qed simp

lemma supersede_eq:
  "supersede_active_incarnations t a k =
     (map (superseded_by (mt_version t) \<circ> snd) (superseded_keys t a k),
      t\<lparr>mt_entries := fold (\<lambda>(k, r). fmupd k (superseded_by (mt_version t) r)) (superseded_keys t a k) (mt_entries t)\<rparr>)"
proof -
  have "\<forall>(j, r)\<in>set (superseded_keys t a k). rec_at t j = Some r"
    by (auto simp: superseded_keys_def set_entries)
  moreover have "distinct (map fst (superseded_keys t a k))"
    by (simp add: superseded_keys_def distinct_filter_entries)
  ultimately show ?thesis
    using supersede_fold [of "superseded_keys t a k" t "[]"]
    by (simp add: supersede_active_incarnations_def superseded_keys_def)
qed

lemma rec_at_supersede:
  "rec_at (snd (supersede_active_incarnations t a k)) j =
     (case rec_at t j of None \<Rightarrow> None
      | Some r \<Rightarrow> Some (if j \<noteq> k \<and> authority r = a \<and> is_active (status r)
                        then superseded_by (mt_version t) r else r))"
proof -
  have "fmlookup (fold (\<lambda>(k, r). fmupd k (superseded_by (mt_version t) r)) (superseded_keys t a k) (mt_entries t)) j =
      (case map_of (superseded_keys t a k) j of None \<Rightarrow> rec_at t j | Some r \<Rightarrow> Some (superseded_by (mt_version t) r))"
    by (rule look_fold) (simp_all add: superseded_keys_def distinct_filter_entries)
  then show ?thesis
    by (auto simp: supersede_eq superseded_keys_def map_of_filter_entries split: option.splits)
qed

lemma supersede_simps [simp]:
  "mt_version (snd (supersede_active_incarnations t a k)) = mt_version t"
  "mt_heartbeat_miss_counters (snd (supersede_active_incarnations t a k)) = mt_heartbeat_miss_counters t"
  "mt_max_heartbeat_misses (snd (supersede_active_incarnations t a k)) = mt_max_heartbeat_misses t"
  "mt_events (snd (supersede_active_incarnations t a k)) = mt_events t"
  by (simp_all add: supersede_eq)

lemma set_superseded:
  "r' \<in> set (fst (supersede_active_incarnations t a k)) \<longleftrightarrow>
     (\<exists>j r. rec_at t j = Some r \<and> j \<noteq> k \<and> authority r = a \<and> is_active (status r) \<and> r' = superseded_by (mt_version t) r)"
  by (force simp: supersede_eq superseded_keys_def set_entries image_iff)

section \<open>The table as a state machine\<close>

text \<open>The status changes the transitions may make to a record.\<close>

definition status_move :: "node_status \<Rightarrow> node_status \<Rightarrow> bool" where
  "status_move s s' \<longleftrightarrow>
     s = Joining \<and> s' = WeaklyUp \<or>
     s \<in> {WeaklyUp, Suspect} \<and> s' = Up \<or>
     is_active s \<and> s' \<in> {Suspect, Dead} \<or>
     \<not> terminal s \<and> s \<noteq> Exiting \<and> s' = Exiting \<or>
     s = Exiting \<and> s' = Removed"

definition conflict_events :: "membership_error \<Rightarrow> membership_event list" where
  "conflict_events e = (case e of AuthorityConflict a x y \<Rightarrow> [ConflictEvent a x y] | _ \<Rightarrow> [])"

definition insert_record :: "membership_table \<Rightarrow> node_record \<Rightarrow> membership_table" where
  "insert_record t r = t\<lparr>mt_version := version r,
     mt_heartbeat_miss_counters := fmupd (entry_key r) 0 (mt_heartbeat_miss_counters t),
     mt_entries := fmupd (entry_key r) r (mt_entries t),
     mt_events := mt_events t @ [JoinedEvent (node_id r) (authority r)]\<rparr>"

text \<open>
  What one local operation does, without the look-up that selects the record: it fails, it
  reports the present state, it counts a miss, it moves a record to another status, it revives a
  terminal record, or it inserts a joining record and supersedes the other active incarnations of
  its authority.
\<close>

inductive mt_step ::
    "membership_table \<Rightarrow> membership_error + membership_delta option \<Rightarrow> membership_table \<Rightarrow> bool" where
  Failed: "mt_step t (Inl e) (t\<lparr>mt_events := mt_events t @ conflict_events e\<rparr>)"
| Reported: "set rs \<subseteq> fmran' (mt_entries t) \<Longrightarrow>
    mt_step t (Inr (Some (membership_delta_new (mt_version t) (mt_version t) rs))) t"
| Unchanged: "mt_step t (Inr None) t"
| Counted: "rec_at t k = Some r \<Longrightarrow> is_active (status r) \<Longrightarrow> c < mt_max_heartbeat_misses t \<Longrightarrow>
    mt_step t (Inr None) (t\<lparr>mt_heartbeat_miss_counters := fmupd k c (mt_heartbeat_miss_counters t)\<rparr>)"
| Moved: "rec_at t k = Some r \<Longrightarrow> status_move (status r) st \<Longrightarrow>
    (counters = mt_heartbeat_miss_counters t \<or> counters = fmupd k c (mt_heartbeat_miss_counters t)) \<Longrightarrow>
    v = membership_version_next (mt_version t) \<Longrightarrow> r' = r\<lparr>status := st, version := v\<rparr> \<Longrightarrow>
    mt_step t (Inr (Some (membership_delta_new (mt_version t) v [r'])))
      (t\<lparr>mt_heartbeat_miss_counters := counters, mt_version := v, mt_entries := fmupd k r' (mt_entries t),
         mt_events := mt_events t @ evs\<rparr>)"
| Revived: "rec_at t k = Some r \<Longrightarrow> terminal (status r) \<Longrightarrow> v = membership_version_next (mt_version t) \<Longrightarrow>
    r' = r\<lparr>status := Joining, version := v, join_version := v, data_center := dc, app_version := app, roles := rs\<rparr> \<Longrightarrow>
    mt_step t (Inr (Some (membership_delta_new (mt_version t) v [r'])))
      (t\<lparr>mt_version := v, mt_entries := fmupd k r' (mt_entries t)\<rparr>)"
| Inserted: "(\<And>s. rec_at t (entry_key r) = Some s \<Longrightarrow> authority s \<noteq> authority r) \<Longrightarrow>
    status r = Joining \<Longrightarrow> version r = membership_version_next (mt_version t) \<Longrightarrow> join_version r = version r \<Longrightarrow>
    supersede_active_incarnations (insert_record t r) (authority r) (entry_key r) = (superseded, t') \<Longrightarrow>
    mt_step t (Inr (Some (membership_delta_new (mt_version t) (version r) (r # superseded)))) t'"

text \<open>Every operation is such a step.\<close>

lemma supersede_none:
  assumes "\<And>j s. rec_at t j = Some s \<Longrightarrow> j \<noteq> k \<Longrightarrow> authority s \<noteq> a"
  shows "supersede_active_incarnations t a k = ([], t)"
proof -
  have "superseded_keys t a k = []"
    using assms by (fastforce simp: superseded_keys_def filter_empty_conv set_entries)
  then show ?thesis by (simp add: supersede_eq)
qed

lemma fmran'_rec_at: "rec_at t k = Some r \<Longrightarrow> r \<in> fmran' (mt_entries t)"
  by (auto simp: fmran'_def)

lemma mt_step_failed: "t' = t\<lparr>mt_events := mt_events t @ conflict_events e\<rparr> \<Longrightarrow> mt_step t (Inl e) t'"
  by (simp add: Failed)

lemma mt_step_move_to:
  assumes "rec_at t k = Some r" and "status_move (status r) st" and "move_to t k r st = (d, t')"
  shows "mt_step t (Inr (Some d)) (t'\<lparr>mt_events := mt_events t' @ evs\<rparr>)" and "mt_step t (Inr (Some d)) t'"
proof -
  have "mt_step t (Inr (Some d)) (t'\<lparr>mt_events := mt_events t' @ evs\<rparr>)" for evs
    using Moved [OF assms(1,2), of "mt_heartbeat_miss_counters t" _ _ _ evs] assms(3)
    by (auto simp: move_to_def Let_def)
  from this this [of "[]"]
  show "mt_step t (Inr (Some d)) (t'\<lparr>mt_events := mt_events t' @ evs\<rparr>)" "mt_step t (Inr (Some d)) t'"
    by simp_all
qed

lemma mt_step_try_join: "try_join t nid a app rs = (res, t') \<Longrightarrow> mt_step t (map_sum id Some res) t'"
proof (cases "entry_key_for_authority t a")
  case None
  assume j: "try_join t nid a app rs = (res, t')"
  let ?r = "node_record_new nid a Joining (membership_version_next (mt_version t)) app rs"
  have a: "authority s \<noteq> a" if "rec_at t j = Some s" for j s
    using entry_key_for_authority_None [OF None that] .
  have "supersede_active_incarnations (insert_record t ?r) (authority ?r) (entry_key ?r) = ([], insert_record t ?r)"
    by (rule supersede_none) (auto simp: insert_record_def node_record_new_def dest: a)
  from Inserted [OF _ _ _ _ this] a j None show ?thesis
    by (auto simp: try_join_def insert_record_def node_record_new_def Let_def)
next
  case (Some k)
  assume j: "try_join t nid a app rs = (res, t')"
  obtain r where r: "rec_at t k = Some r" using entry_key_for_authority_rec [OF Some] by blast
  have "mt_step t (Inr (Some (membership_delta_new (mt_version t) v [r'])))
      (t\<lparr>mt_version := v, mt_entries := fmupd k r' (mt_entries t)\<rparr>)"
    if "terminal (status r)" "v = membership_version_next (mt_version t)"
      "r' = r\<lparr>status := Joining, version := v, join_version := v, app_version := app, roles := rs\<rparr>" for v r'
    using that Revived [OF r that(1,2), where dc = "data_center r" and app = app and rs = rs] by simp
  with j Some r show ?thesis
    by (auto simp: try_join_def Let_def intro!: mt_step_failed Reported fmran'_rec_at split: if_splits)
      (simp_all add: conflict_events_def)
qed

lemma mt_step_try_join_with_identity:
  "try_join_with_identity t nid ua dc app rs = (res, t') \<Longrightarrow> mt_step t (map_sum id Some res) t'"
proof -
  assume j: "try_join_with_identity t nid ua dc app rs = (res, t')"
  let ?v = "membership_version_next (mt_version t)"
  let ?r = "node_record_new_with_identity ua dc nid Joining ?v app rs"
  have k: "entry_key ?r = unique_address_to_string ua"
    by (simp add: entry_key_def node_record_new_with_identity_def)
  consider (zero) "uid ua = 0" | (old) r where "uid ua \<noteq> 0" "rec_at t (unique_address_to_string ua) = Some r"
    | (fresh) "uid ua \<noteq> 0" "rec_at t (unique_address_to_string ua) = None"
    by (cases "rec_at t (unique_address_to_string ua)") auto
  then show ?thesis
  proof cases
    case zero
    with j show ?thesis
      by (auto simp: try_join_with_identity_def conflict_events_def intro!: mt_step_failed)
  next
    case old
    note rev = Revived [OF old(2) _ refl refl, where dc = dc and app = app and rs = rs]
    show ?thesis
      using j old rev
      by (auto simp: try_join_with_identity_def Let_def intro!: mt_step_failed Reported fmran'_rec_at split: if_splits)
        (simp_all add: conflict_events_def)
  next
    case fresh
    obtain sup t2 where s: "supersede_active_incarnations (insert_record t ?r) (authority ?r) (entry_key ?r) = (sup, t2)"
      by fastforce
    have "mt_version t2 = mt_version (insert_record t ?r)"
      using supersede_simps(1) [of "insert_record t ?r" "authority ?r" "entry_key ?r"] unfolding s by simp
    then have "mt_version t2 = ?v"
      by (simp add: insert_record_def node_record_new_with_identity_def)
    with j fresh s have "res = Inr (membership_delta_new (mt_version t) ?v (?r # sup))" "t' = t2"
      by (auto simp: try_join_with_identity_def insert_record_def entry_key_def node_record_new_with_identity_def Let_def)
    with Inserted [OF _ _ _ _ s] fresh k show ?thesis
      by (simp add: node_record_new_with_identity_def)
  qed
qed

lemma mt_step_mark_left: "mark_left t a = (res, t') \<Longrightarrow> mt_step t (map_sum id Some res) t'"
proof (cases "resolve t a")
  case None
  then show "mark_left t a = (res, t') \<Longrightarrow> ?thesis"
    by (auto simp: mark_left_def conflict_events_def intro!: mt_step_failed)
next
  case (Some kr)
  obtain k r where kr: "kr = (k, r)" by (cases kr)
  with Some have r: "rec_at t k = Some r" by (simp add: resolve_Some)
  have rem: "status_move (status r) Removed" if "status r = Exiting"
    using that by (simp add: status_move_def)
  have ex: "status_move (status r) Exiting" if "\<not> terminal (status r)" "status r \<noteq> Exiting"
    using that by (simp add: status_move_def)
  have err: "mt_step t (Inl (InvalidTransition a (status r) Exiting)) t"
    by (rule mt_step_failed) (simp add: conflict_events_def)
  show "mark_left t a = (res, t') \<Longrightarrow> ?thesis"
    using Some kr err
    by (auto simp: mark_left_def intro: mt_step_move_to(1) [OF r rem] mt_step_move_to(2) [OF r ex]
        split: if_splits prod.splits)
qed

lemma mt_step_mark_heartbeat_miss:
  assumes "mark_heartbeat_miss t a = (res, t')"
  shows "mt_step t (Inr res) t'"
proof (cases "resolve t a")
  case None
  with assms show ?thesis by (auto simp: mark_heartbeat_miss_def intro: Unchanged)
next
  case (Some kr)
  obtain k r where kr: "kr = (k, r)" by (cases kr)
  with Some have r: "rec_at t k = Some r" by (simp add: resolve_Some)
  let ?c = "get_or (mt_heartbeat_miss_counters t) k 0 + 1"
  have "mt_step t (Inr (Some (membership_delta_new (mt_version t) v [r'])))
      (t\<lparr>mt_heartbeat_miss_counters := fmupd k ?c (mt_heartbeat_miss_counters t), mt_version := v,
         mt_entries := fmupd k r' (mt_entries t), mt_events := mt_events t @ evs\<rparr>)"
    if "is_active (status r)" "v = membership_version_next (mt_version t)" "r' = r\<lparr>status := Suspect, version := v\<rparr>"
    for v r' evs
    by (rule Moved [OF r _ disjI2 [OF refl] that(2,3)]) (simp add: status_move_def that(1))
  with assms Some kr r show ?thesis
    by (auto simp: mark_heartbeat_miss_def move_to_def Let_def intro!: Unchanged Counted split: if_splits)
qed

lemma mt_step_mark_status:
  assumes "mark_status t a may_move st = (res, t')" and "\<And>s. may_move s \<Longrightarrow> status_move s st"
  shows "mt_step t res t'"
  using assms
  by (auto simp: mark_status_def conflict_events_def
      intro!: mt_step_failed mt_step_move_to(2) Unchanged dest!: resolve_Some
      split: option.splits if_splits prod.splits)

lemma map_prod_eq: "map_prod f g p = (x, y) \<longleftrightarrow> (\<exists>a b. p = (a, b) \<and> x = f a \<and> y = g b)"
  by (cases p) auto

lemma mt_exec_step: "mt_exec op t = (res, t') \<Longrightarrow> mt_step t res t'"
proof (cases op)
  case MarkWeaklyUp
  then show "mt_exec op t = (res, t') \<Longrightarrow> ?thesis"
    by (auto simp: mt_exec_def mark_weakly_up_def status_move_def elim!: mt_step_mark_status)
next
  case MarkUp
  then show "mt_exec op t = (res, t') \<Longrightarrow> ?thesis"
    by (auto simp: mt_exec_def mark_up_def status_move_def elim!: mt_step_mark_status)
next
  case MarkSuspect
  then show "mt_exec op t = (res, t') \<Longrightarrow> ?thesis"
    by (auto simp: mt_exec_def mark_suspect_def status_move_def is_active_def elim!: mt_step_mark_status)
next
  case MarkDead
  then show "mt_exec op t = (res, t') \<Longrightarrow> ?thesis"
    by (auto simp: mt_exec_def mark_dead_def status_move_def elim!: mt_step_mark_status)
qed (auto simp: mt_exec_def map_prod_eq dest: mt_step_try_join mt_step_try_join_with_identity mt_step_mark_left
      mt_step_mark_heartbeat_miss)

section \<open>Invariants\<close>

text \<open>Every record is stored under its printed unique address and has a miss counter.\<close>

definition keyed :: "membership_table \<Rightarrow> bool" where
  "keyed t \<longleftrightarrow> (\<forall>k r. rec_at t k = Some r \<longrightarrow> entry_key r = k)"

definition counted :: "membership_table \<Rightarrow> bool" where
  "counted t \<longleftrightarrow> (\<forall>k. rec_at t k = None \<longleftrightarrow> fmlookup (mt_heartbeat_miss_counters t) k = None)"

text \<open>No authority has two active incarnations.\<close>

definition single_active :: "membership_table \<Rightarrow> bool" where
  "single_active t \<longleftrightarrow> (\<forall>k j r s. rec_at t k = Some r \<longrightarrow> rec_at t j = Some s \<longrightarrow>
     is_active (status r) \<longrightarrow> is_active (status s) \<longrightarrow> authority r = authority s \<longrightarrow> k = j)"

lemma keyedD: "keyed t \<Longrightarrow> rec_at t k = Some r \<Longrightarrow> entry_key r = k"
  by (simp add: keyed_def)

lemma single_activeD:
  "single_active t \<Longrightarrow> rec_at t k = Some r \<Longrightarrow> rec_at t j = Some s \<Longrightarrow> is_active (status r) \<Longrightarrow>
     is_active (status s) \<Longrightarrow> authority r = authority s \<Longrightarrow> k = j"
  unfolding single_active_def by blast

lemma entry_key_superseded [simp]: "entry_key (superseded_by v r) = entry_key r"
  by (simp add: entry_key_def superseded_by_def)

lemma superseded_simps [simp]:
  "status (superseded_by v r) = Dead" "authority (superseded_by v r) = authority r"
  "unique_address (superseded_by v r) = unique_address r" "join_version (superseded_by v r) = join_version r"
  by (simp_all add: superseded_by_def)

lemma is_active_Dead [simp]: "\<not> is_active Dead"
  by (simp add: is_active_def)

lemma keyed_supersede: "keyed t \<Longrightarrow> keyed (snd (supersede_active_incarnations t a k))"
  by (auto simp: keyed_def rec_at_supersede split: option.splits)

lemma rec_at_supersede_None [simp]: "rec_at (snd (supersede_active_incarnations t a k)) j = None \<longleftrightarrow> rec_at t j = None"
  by (simp add: rec_at_supersede split: option.split)

lemma counted_supersede: "counted t \<Longrightarrow> counted (snd (supersede_active_incarnations t a k))"
  by (simp add: counted_def)

text \<open>Inserting an active record after superseding the others leaves one active incarnation.\<close>

lemma single_active_supersede:
  assumes "single_active t"
  shows "single_active (snd (supersede_active_incarnations t a k))"
  using assms
  by (auto simp: single_active_def rec_at_supersede split: option.splits if_splits)

lemma single_active_insert:
  assumes "single_active t" and "\<And>j s. rec_at t j = Some s \<Longrightarrow> j \<noteq> k \<Longrightarrow> is_active (status s) \<Longrightarrow>
      is_active (status r) \<Longrightarrow> authority s \<noteq> authority r"
    and "mt_entries t' = fmupd k r (mt_entries t)"
  shows "single_active t'"
  using assms unfolding single_active_def assms(3) by (simp split: if_splits) metis

text \<open>A delta describes a change of the table: it holds the new records, and nothing else changed.\<close>

definition delta_between :: "membership_table \<Rightarrow> membership_table \<Rightarrow> membership_delta \<Rightarrow> bool" where
  "delta_between t t' d \<longleftrightarrow> d_from d = mt_version t \<and> d_to d = mt_version t' \<and>
     (\<forall>r\<in>set (d_entries d). rec_at t' (entry_key r) = Some r) \<and>
     (\<forall>k. k \<notin> entry_key ` set (d_entries d) \<longrightarrow> rec_at t' k = rec_at t k)"

lemma entry_key_update [simp]:
  "entry_key (r\<lparr>status := st\<rparr>) = entry_key r" "entry_key (r\<lparr>version := v\<rparr>) = entry_key r"
  "entry_key (r\<lparr>join_version := v\<rparr>) = entry_key r" "entry_key (r\<lparr>data_center := dc\<rparr>) = entry_key r"
  "entry_key (r\<lparr>app_version := app\<rparr>) = entry_key r" "entry_key (r\<lparr>roles := rs\<rparr>) = entry_key r"
  by (simp_all add: entry_key_def)

lemma insert_record_simps [simp]:
  "rec_at (insert_record t r) k = (if k = entry_key r then Some r else rec_at t k)"
  "mt_version (insert_record t r) = version r"
  "mt_heartbeat_miss_counters (insert_record t r) = fmupd (entry_key r) 0 (mt_heartbeat_miss_counters t)"
  by (auto simp: insert_record_def)

lemma keyed_insert_record: "keyed t \<Longrightarrow> keyed (insert_record t r)"
  by (auto simp: keyed_def)

lemma mt_step_keyed: "mt_step t res t' \<Longrightarrow> keyed t \<Longrightarrow> keyed t'"
proof (induction rule: mt_step.induct)
  case (Inserted t r superseded t')
  then show ?case
    using keyed_supersede [OF keyed_insert_record [of t r], of "authority r" "entry_key r"] by simp
qed (auto simp: keyed_def split: if_splits)

lemma counted_update:
  assumes "counted t" and "rec_at t k = Some r"
    and "mt_entries t' = mt_entries t \<or> mt_entries t' = fmupd k r' (mt_entries t)"
    and "mt_heartbeat_miss_counters t' = mt_heartbeat_miss_counters t \<or>
      mt_heartbeat_miss_counters t' = fmupd k c (mt_heartbeat_miss_counters t)"
  shows "counted t'"
proof -
  from assms(1,2) have "fmlookup (mt_heartbeat_miss_counters t) k \<noteq> None"
    by (metis counted_def option.distinct(1))
  with assms show ?thesis unfolding counted_def by (auto split: if_splits)
qed

lemma mt_step_counted: "mt_step t res t' \<Longrightarrow> counted t \<Longrightarrow> counted t'"
proof (induction rule: mt_step.induct)
  case (Inserted t r superseded t')
  have "counted (insert_record t r)" using Inserted.prems by (simp add: counted_def)
  then show ?case using counted_supersede [of "insert_record t r" "authority r" "entry_key r"] Inserted(5) by simp
next
  case (Counted t k r c)
  show ?case by (rule counted_update [OF Counted.prems Counted(1)]) auto
next
  case (Moved t k r st counters c v r' evs)
  show ?case by (rule counted_update [OF Moved.prems Moved(1)]) (use Moved(3) in auto)
next
  case (Revived t k r v r' rs app dc)
  show ?case by (rule counted_update [OF Revived.prems Revived(1)]) auto
qed (auto simp: counted_def)

lemma mt_step_delta_between:
  "mt_step t res t' \<Longrightarrow> keyed t \<Longrightarrow> res = Inr (Some d) \<Longrightarrow> delta_between t t' d"
proof (induction rule: mt_step.induct)
  case (Inserted t r superseded t')
  have k: "keyed (insert_record t r)" using Inserted.prems by (simp add: keyed_insert_record)
  have t': "rec_at t' j = (case rec_at (insert_record t r) j of None \<Rightarrow> None
      | Some s \<Rightarrow> Some (if j \<noteq> entry_key r \<and> authority s = authority r \<and> is_active (status s)
                        then superseded_by (version r) s else s))" for j
    using rec_at_supersede [of "insert_record t r" "authority r" "entry_key r" j]
    unfolding Inserted(5) insert_record_simps(2) snd_conv .
  have sup: "s' \<in> set superseded \<longleftrightarrow> (\<exists>j s. rec_at (insert_record t r) j = Some s \<and> j \<noteq> entry_key r \<and>
      authority s = authority r \<and> is_active (status s) \<and> s' = superseded_by (version r) s)" for s'
    using set_superseded [of s' "insert_record t r" "authority r" "entry_key r"] Inserted(5) by simp
  have "rec_at t' (entry_key s') = Some s'" if "s' \<in> set superseded" for s'
  proof -
    from that obtain j s where s: "rec_at (insert_record t r) j = Some s" "j \<noteq> entry_key r"
      "authority s = authority r" "is_active (status s)" "s' = superseded_by (version r) s"
      unfolding sup by blast
    with keyedD [OF k s(1)] t' [of j] show ?thesis by simp
  qed
  moreover have "rec_at t' j = rec_at t j" if j: "j \<noteq> entry_key r" "j \<notin> entry_key ` set superseded" for j
  proof -
    have "\<not> (authority s = authority r \<and> is_active (status s))" if "rec_at t j = Some s" for s
    proof
      assume s: "authority s = authority r \<and> is_active (status s)"
      from that j(1) have "rec_at (insert_record t r) j = Some s" by simp
      with s j(1) have "superseded_by (version r) s \<in> set superseded" unfolding sup by blast
      moreover have "entry_key (superseded_by (version r) s) = j"
        using keyedD [OF Inserted.prems(1) that] by simp
      ultimately show False using j(2) by blast
    qed
    with j(1) show ?thesis by (auto simp: t' split: option.split)
  qed
  moreover have "mt_version t' = version r"
    using supersede_simps(1) [of "insert_record t r" "authority r" "entry_key r"] Inserted(5) by simp
  moreover have "rec_at t' (entry_key r) = Some r" by (simp add: t')
  ultimately show ?case using Inserted.prems(2) by (auto simp: delta_between_def membership_delta_new_def)
next
  case (Reported rs t)
  then show ?case by (auto simp: delta_between_def membership_delta_new_def fmran'_def dest: keyedD)
qed (auto simp: delta_between_def membership_delta_new_def dest: keyedD)

section \<open>Applying deltas\<close>

lemma apply_record_table:
  "snd (apply_record r (acc, t)) =
     (let t1 = (if is_active (status r) then snd (supersede_active_incarnations t (authority r) (entry_key r)) else t)
      in t1\<lparr>mt_heartbeat_miss_counters := fmupd (entry_key r) 0 (mt_heartbeat_miss_counters t1),
            mt_entries := fmupd (entry_key r) r (mt_entries t1)\<rparr>)"
  by (simp add: apply_record_def Let_def split_beta del: supersede_simps)

lemma apply_record_version [simp]: "mt_version (snd (apply_record r (acc, t))) = mt_version t"
  by (simp add: apply_record_table Let_def)

lemma rec_at_apply_record:
  "rec_at (snd (apply_record r (acc, t))) k =
     (if k = entry_key r then Some r
      else case rec_at t k of None \<Rightarrow> None
        | Some s \<Rightarrow> Some (if is_active (status r) \<and> authority s = authority r \<and> is_active (status s)
                          then superseded_by (mt_version t) s else s))"
  by (auto simp: apply_record_table Let_def rec_at_supersede split: option.split)

lemma keyed_apply_record: "keyed t \<Longrightarrow> keyed (snd (apply_record r (acc, t)))"
  unfolding keyed_def rec_at_apply_record by (auto split: if_splits option.splits)

lemma counted_apply_record: "counted t \<Longrightarrow> counted (snd (apply_record r (acc, t)))"
  by (auto simp: counted_def apply_record_table Let_def)

lemma single_active_apply_record: "single_active t \<Longrightarrow> single_active (snd (apply_record r (acc, t)))"
proof -
  assume t: "single_active t"
  show ?thesis
  proof (cases "is_active (status r)")
    case True
    show ?thesis
      by (rule single_active_insert [OF single_active_supersede [OF t], where r = r and k = "entry_key r"])
        (auto simp: apply_record_table True Let_def rec_at_supersede split: option.splits if_splits)
  next
    case False
    then show ?thesis
      by (intro single_active_insert [OF t, where r = r and k = "entry_key r"]) (simp_all add: apply_record_table)
  qed
qed

text \<open>An invariant that every received record keeps is kept by a whole delta.\<close>

lemma apply_delta_invariant:
  assumes "P t" and "\<And>t v. P t \<Longrightarrow> P (t\<lparr>mt_version := v\<rparr>)"
    and "\<And>acc t r. P t \<Longrightarrow> P (snd (apply_record r (acc, t)))"
  shows "P (snd (apply_delta t d))"
proof -
  have "P (snd (fold apply_record rs (acc, t)))" if "P t" for rs acc t
    using that
  proof (induction rs arbitrary: acc t)
    case (Cons r rs)
    obtain acc' t' where "apply_record r (acc, t) = (acc', t')" by fastforce
    moreover from this Cons.prems have "P t'" using assms(3) [of t r acc] by simp
    ultimately show ?case using Cons.IH by simp
  qed simp
  with assms show ?thesis by (simp add: apply_delta_def)
qed

lemma invariants_version [simp]:
  "keyed (t\<lparr>mt_version := v\<rparr>) = keyed t" "counted (t\<lparr>mt_version := v\<rparr>) = counted t"
  "single_active (t\<lparr>mt_version := v\<rparr>) = single_active t"
  by (simp_all add: keyed_def counted_def single_active_def)

lemma apply_delta_keyed: "keyed t \<Longrightarrow> keyed (snd (apply_delta t d))"
  by (rule apply_delta_invariant [where P = keyed]) (simp_all add: keyed_apply_record)

lemma apply_delta_counted: "counted t \<Longrightarrow> counted (snd (apply_delta t d))"
  by (rule apply_delta_invariant [where P = counted]) (simp_all add: counted_apply_record)

lemma apply_delta_single_active: "single_active t \<Longrightarrow> single_active (snd (apply_delta t d))"
  by (rule apply_delta_invariant [where P = single_active]) (simp_all add: single_active_apply_record)

text \<open>
  A receiver that agrees with the target outside the records still to come reaches the target:
  superseding never touches a record that is already in place.
\<close>

lemma apply_records_reach:
  assumes "single_active t'" and "\<forall>r\<in>set rs. rec_at t' (entry_key r) = Some r"
    and "\<forall>k. k \<notin> entry_key ` set rs \<longrightarrow> rec_at u k = rec_at t' k"
  shows "mt_entries (snd (fold apply_record rs (acc, u))) = mt_entries t'"
  using assms(2,3)
proof (induction rs arbitrary: acc u)
  case Nil
  then show ?case by (simp add: fmap_eq_iff)
next
  case (Cons r rs)
  obtain acc' u' where u': "apply_record r (acc, u) = (acc', u')" by fastforce
  have "rec_at u' k = rec_at t' k" if k: "k \<notin> entry_key ` set rs" for k
  proof (cases "k = entry_key r")
    case True
    then show ?thesis using Cons.prems(1) rec_at_apply_record [of r acc u k] u' by simp
  next
    case False
    with k Cons.prems(2) have uk: "rec_at u k = rec_at t' k" by simp
    have "\<not> (is_active (status r) \<and> authority s = authority r \<and> is_active (status s))" if "rec_at t' k = Some s" for s
      using single_activeD [OF assms(1) that, of "entry_key r" r] Cons.prems(1) False by auto
    with False uk show ?thesis using rec_at_apply_record [of r acc u k] u' by (auto split: option.splits)
  qed
  with Cons.IH [of u' acc'] Cons.prems(1) u' show ?case by simp
qed

lemma apply_records_version: "mt_version (snd (fold apply_record rs (acc, u))) = mt_version u"
proof (induction rs arbitrary: acc u)
  case (Cons r rs)
  obtain acc' u' where u': "apply_record r (acc, u) = (acc', u')" by fastforce
  with Cons.IH [of acc' u'] apply_record_version [of r acc u] show ?case by simp
qed simp

lemma apply_delta_reaches:
  assumes "delta_between t t' d" and "single_active t'" and "mt_entries u = mt_entries t"
    and "mt_version u < mt_version t'"
  shows "mt_entries (snd (apply_delta u d)) = mt_entries t' \<and> mt_version (snd (apply_delta u d)) = mt_version t'"
proof -
  have "\<not> d_to d \<le> mt_version u" using assms(1,4) by (simp add: delta_between_def not_le)
  with assms apply_records_reach [of t' "d_entries d" "u\<lparr>mt_version := d_to d\<rparr>" "[]"] show ?thesis
    by (simp add: apply_delta_def delta_between_def apply_records_version)
qed

section \<open>Runs\<close>

text \<open>A table's life: local operations, received deltas, drained events.\<close>

datatype membership_input = Local membership_op | Receive membership_delta | Drain

definition mt_input :: "membership_table \<Rightarrow> membership_input \<Rightarrow> membership_table" where
  "mt_input t i =
     (case i of
        Local op \<Rightarrow> snd (mt_exec op t)
      | Receive d \<Rightarrow> snd (apply_delta t d)
      | Drain \<Rightarrow> snd (drain_events t))"

definition mt_run :: "membership_table \<Rightarrow> membership_input list \<Rightarrow> membership_table" where
  "mt_run t is = foldl mt_input t is"

text \<open>No local operation of the run revives a terminal record beside an active incarnation.\<close>

definition revives_clear :: "membership_table \<Rightarrow> membership_table \<Rightarrow> bool" where
  "revives_clear t t' \<longleftrightarrow>
     list_all (\<lambda>(k, r). terminal (status r) \<and> (case rec_at t' k of Some r' \<Rightarrow> is_active (status r') | None \<Rightarrow> False) \<longrightarrow>
         list_all (\<lambda>(j, s). j \<noteq> k \<and> authority s = authority r \<longrightarrow> \<not> is_active (status s)) (entries (mt_entries t)))
       (entries (mt_entries t))"

fun orderly_run :: "membership_table \<Rightarrow> membership_input list \<Rightarrow> bool" where
  "orderly_run t [] \<longleftrightarrow> True"
| "orderly_run t (i # is) \<longleftrightarrow>
     (case i of Local op \<Rightarrow> revives_clear t (mt_input t i) | _ \<Rightarrow> True) \<and> orderly_run (mt_input t i) is"

lemma revives_clearD:
  assumes "revives_clear t t'" and "rec_at t k = Some r" and "terminal (status r)"
    and "rec_at t' k = Some r'" and "is_active (status r')" and "rec_at t j = Some s" and "j \<noteq> k" and "authority s = authority r"
  shows "\<not> is_active (status s)"
proof -
  from assms(2,6) have "(k, r) \<in> set (entries (mt_entries t))" "(j, s) \<in> set (entries (mt_entries t))"
    by (simp_all add: set_entries)
  with assms show ?thesis unfolding revives_clear_def list_all_iff by fastforce
qed

lemma status_move_active: "status_move s s' \<Longrightarrow> is_active s' \<Longrightarrow> is_active s"
  by (auto simp: status_move_def is_active_def)

lemma single_active_update:
  assumes "single_active t" and "rec_at t k = Some r" and "authority r' = authority r"
    and "is_active (status r') \<Longrightarrow> is_active (status r)" and "mt_entries t' = fmupd k r' (mt_entries t)"
  shows "single_active t'"
  by (rule single_active_insert [OF assms(1) _ assms(5)]) (use assms single_activeD [OF assms(1,2)] in metis)

lemma mt_step_single_active:
  "mt_step t res t' \<Longrightarrow> single_active t \<Longrightarrow> revives_clear t t' \<Longrightarrow> single_active t'"
proof (induction rule: mt_step.induct)
  case (Moved t k r st counters c v r' evs)
  show ?case
    by (rule single_active_update [OF Moved.prems(1) Moved(1), of r']) (use Moved status_move_active in auto)
next
  case (Revived t k r v r' rs app dc)
  have act: "is_active (status r')" using Revived by (simp add: is_active_def)
  show ?case
    by (rule single_active_insert [OF Revived.prems(1), of k r'])
      (use revives_clearD [OF Revived.prems(2) Revived(1,2) _ act] Revived in auto)
next
  case (Inserted t r superseded t')
  have t': "rec_at t' j = (if j = entry_key r then Some r else
      case rec_at t j of None \<Rightarrow> None
      | Some s \<Rightarrow> Some (if authority s = authority r \<and> is_active (status s) then superseded_by (version r) s else s))" for j
    using rec_at_supersede [of "insert_record t r" "authority r" "entry_key r" j]
    unfolding Inserted(5) insert_record_simps snd_conv by (auto split: option.split)
  show ?case
    using Inserted.prems(1) unfolding single_active_def t' by (auto split: if_splits option.splits)
qed (auto simp: single_active_def)

lemma mt_input_keyed_counted: "keyed t \<Longrightarrow> counted t \<Longrightarrow> keyed (mt_input t i) \<and> counted (mt_input t i)"
proof (cases i)
  case (Local op)
  obtain res t' where "mt_exec op t = (res, t')" by fastforce
  with Local show "keyed t \<Longrightarrow> counted t \<Longrightarrow> ?thesis"
    using mt_step_keyed mt_step_counted mt_exec_step by (fastforce simp: mt_input_def)
next
  case (Receive d)
  then show "keyed t \<Longrightarrow> counted t \<Longrightarrow> ?thesis"
    by (simp add: mt_input_def apply_delta_keyed apply_delta_counted)
qed (simp add: mt_input_def drain_events_def keyed_def counted_def)

lemma mt_input_single_active:
  assumes "single_active t" and "orderly_run t [i]"
  shows "single_active (mt_input t i)"
proof (cases i)
  case (Local op)
  obtain res t' where e: "mt_exec op t = (res, t')" by fastforce
  with Local assms have "revives_clear t t'" by (simp add: mt_input_def)
  with e Local show ?thesis
    using mt_step_single_active [OF mt_exec_step [OF e] assms(1)] by (simp add: mt_input_def)
next
  case (Receive d)
  with assms(1) show ?thesis by (simp add: mt_input_def apply_delta_single_active)
qed (use assms(1) in \<open>simp add: mt_input_def drain_events_def single_active_def\<close>)

lemma mt_run_Cons: "mt_run t (i # is) = mt_run (mt_input t i) is"
  by (simp add: mt_run_def)

lemma mt_run_keyed_counted: "keyed t \<Longrightarrow> counted t \<Longrightarrow> keyed (mt_run t is) \<and> counted (mt_run t is)"
  by (induction "is" arbitrary: t) (simp add: mt_run_def, simp add: mt_run_Cons mt_input_keyed_counted)

lemma mt_run_single_active: "single_active t \<Longrightarrow> orderly_run t is \<Longrightarrow> single_active (mt_run t is)"
proof (induction "is" arbitrary: t)
  case (Cons i "is")
  then have "single_active (mt_input t i)" by (intro mt_input_single_active) simp_all
  with Cons show ?case by (simp add: mt_run_Cons)
qed (simp add: mt_run_def)

section \<open>Version steps\<close>

lemma version_next_greater: "v \<noteq> MembershipVersion (- 1) \<Longrightarrow> v < membership_version_next v"
proof (cases v)
  case (MembershipVersion w)
  assume "v \<noteq> MembershipVersion (- 1)"
  with MembershipVersion have "checked_add w 1 \<noteq> None" by (simp add: checked_add_one_None)
  then have "checked_add w 1 = Some (w + 1)" by (simp add: checked_add_def split: if_splits)
  with checked_add_less [of w 1] MembershipVersion show ?thesis
    by (simp add: less_membership_version_def membership_version_next_def)
qed

lemma mt_step_version:
  "mt_step t res t' \<Longrightarrow> res = Inr (Some d) \<Longrightarrow> t' = t \<or> mt_version t' = membership_version_next (mt_version t)"
proof (induction rule: mt_step.induct)
  case (Inserted t r superseded t')
  then show ?case
    using supersede_simps(1) [of "insert_record t r" "authority r" "entry_key r"] by simp
qed simp_all

section \<open>Properties\<close>

definition incarnation :: "u64 \<Rightarrow> unique_address" where
  "incarnation n = unique_address_new (address_new ''c'' ''n'' 1) n"

definition join_incarnation :: "u64 \<Rightarrow> membership_op" where
  "join_incarnation n = TryJoinWithIdentity ''n'' (incarnation n) data_center_default ''v'' []"

text \<open>
  Claim C20. The deltas replicate the table: a peer with the same records and version that applies
  the delta an operation returned ends with the same records and the same version, for every
  operation, joins that supersede older incarnations included, as long as the operation left no
  authority with two active incarnations and the version did not wrap.
\<close>

theorem mt_deltas_replicate:
  assumes "keyed t" and "mt_exec op t = (Inr (Some d), t')" and "single_active t'"
    and "mt_entries u = mt_entries t" and "mt_version u = mt_version t"
    and "mt_version t \<noteq> MembershipVersion (- 1)"
  shows "mt_entries (snd (apply_delta u d)) = mt_entries t' \<and> mt_version (snd (apply_delta u d)) = mt_version t'"
proof -
  have step: "mt_step t (Inr (Some d)) t'" using assms(2) by (rule mt_exec_step)
  have d: "delta_between t t' d" using mt_step_delta_between [OF step assms(1)] by simp
  show ?thesis
  proof (cases "t' = t")
    case True
    with d assms(4,5) show ?thesis by (simp add: delta_between_def apply_delta_def)
  next
    case False
    with mt_step_version [OF step] version_next_greater [OF assms(6)] assms(5)
    have "mt_version u < mt_version t'" by simp
    then show ?thesis by (rule apply_delta_reaches [OF d assms(3,4)])
  qed
qed

theorem mt_deltas_replicate_witness:
  "let t = mt_run (mt_new 3) [Local (join_incarnation 1)];
       (res, t') = mt_exec (join_incarnation 2) t
   in case res of Inr (Some d) \<Rightarrow> mt_entries (snd (apply_delta t d)) = mt_entries t' \<and>
          map status (map_values (mt_entries t')) = [Dead, Joining] \<and> length (d_entries d) = 2
      | _ \<Rightarrow> False"
proof -
  define t where "t = mt_run (mt_new 3) [Local (join_incarnation 1)]"
  obtain res t' where e: "mt_exec (join_incarnation 2) t = (res, t')" by fastforce
  have s: "map status (map_values (mt_entries (snd (mt_exec (join_incarnation 2) t)))) = [Dead, Joining]"
    "mt_version t \<noteq> MembershipVersion (- 1)"
    "case fst (mt_exec (join_incarnation 2) t) of Inr (Some d) \<Rightarrow> length (d_entries d) = 2 | _ \<Rightarrow> False"
    unfolding t_def by code_simp+
  then obtain d where d: "res = Inr (Some d)" "length (d_entries d) = 2"
    using e by (auto split: sum.splits option.splits)
  have k: "keyed t" unfolding t_def
    by (rule mt_run_keyed_counted [THEN conjunct1]) (simp_all add: mt_new_def keyed_def counted_def)
  have "orderly_run (mt_new 3) [Local (join_incarnation 1), Local (join_incarnation 2)]" by code_simp
  moreover have "single_active (mt_new 3)" by (simp add: single_active_def mt_new_def)
  ultimately have "single_active (mt_run (mt_new 3) [Local (join_incarnation 1), Local (join_incarnation 2)])"
    by (rule mt_run_single_active [rotated])
  then have "single_active t'" using e by (simp add: mt_run_def mt_input_def t_def)
  from mt_deltas_replicate [OF k _ this refl refl s(2)] e d s(1) show ?thesis
    unfolding Let_def t_def [symmetric] by simp
qed

text \<open>
  Claim C21. In every run of the table, whatever operations and deltas it sees, each record is stored
  under its printed unique address and has exactly one miss counter; if no terminal record is
  revived beside an active incarnation, no authority ever has two active incarnations.
\<close>

theorem mt_run_invariants:
  "keyed (mt_run (mt_new m) is) \<and> counted (mt_run (mt_new m) is) \<and>
   (orderly_run (mt_new m) is \<longrightarrow> single_active (mt_run (mt_new m) is))"
  using mt_run_keyed_counted [of "mt_new m" "is"] mt_run_single_active [of "mt_new m" "is"]
  by (simp add: mt_new_def keyed_def counted_def single_active_def)

theorem mt_run_invariants_witness:
  "single_active (mt_run (mt_new 3) [Local (join_incarnation 1), Local (join_incarnation 2), Local (MarkWeaklyUp ''c@n:1'')])"
proof -
  have "orderly_run (mt_new 3) [Local (join_incarnation 1), Local (join_incarnation 2), Local (MarkWeaklyUp ''c@n:1'')]"
    by code_simp
  with mt_run_invariants [of 3] show ?thesis by blast
qed

text \<open>
  Claim C38. The condition on revived records is needed. In every table in which a terminal record
  stands beside an active incarnation of the same authority, a repeated join of the terminal one
  revives its record without superseding the other, so that the authority has two active incarnations;
  a peer with the same records that applies the delta of that join supersedes the other one and ends
  with different records at the same version.
\<close>

theorem mt_rejoin_two_active:
  assumes "rec_at t (unique_address_to_string ua) = Some r" and "terminal (status r)" and "node_id r = nid" and "uid ua \<noteq> 0"
    and "entry_key r = unique_address_to_string ua"
    and "rec_at t j = Some s" and "j \<noteq> unique_address_to_string ua" and "authority s = authority r" and "is_active (status s)"
    and "mt_version t \<noteq> MembershipVersion (- 1)" and "mt_entries u = mt_entries t" and "mt_version u = mt_version t"
    and "try_join_with_identity t nid ua dc app rs = (res, t')"
  shows "\<exists>d r'. res = Inr d \<and> rec_at t' (unique_address_to_string ua) = Some r' \<and> authority r' = authority s
      \<and> is_active (status r') \<and> rec_at t' j = Some s
      \<and> rec_at (snd (apply_delta u d)) (unique_address_to_string ua) = Some r'
      \<and> rec_at (snd (apply_delta u d)) j = Some (superseded_by (mt_version t') s)
      \<and> mt_version (snd (apply_delta u d)) = mt_version t'"
proof -
  let ?k = "unique_address_to_string ua" and ?v = "membership_version_next (mt_version t)"
  define r' where "r' = r\<lparr>status := Joining, version := ?v, join_version := ?v, data_center := dc, app_version := app, roles := rs\<rparr>"
  have res: "res = Inr (membership_delta_new (mt_version t) ?v [r'])"
    and t': "t' = t\<lparr>mt_version := ?v, mt_entries := fmupd ?k r' (mt_entries t)\<rparr>"
    using assms(1-4,13) by (auto simp: try_join_with_identity_def Let_def r'_def)
  have r': "entry_key r' = ?k" "authority r' = authority r" "is_active (status r')"
    using assms(5) by (simp_all add: r'_def entry_key_def is_active_def)
  have v: "\<not> ?v \<le> mt_version u" using version_next_greater [OF assms(10)] assms(12) by simp
  let ?u = "u\<lparr>mt_version := ?v\<rparr>"
  obtain more u1 where s: "supersede_active_incarnations ?u (authority r') ?k = (more, u1)" by fastforce
  have u1: "rec_at u1 j = Some (superseded_by ?v s)"
    using rec_at_supersede [of ?u "authority r'" ?k j, unfolded s snd_conv] assms(6-9,11) r'(2) by simp
  have "mt_version u1 = ?v" using supersede_simps(1) [of ?u "authority r'" ?k, unfolded s snd_conv] by simp
  then have "rec_at (snd (apply_delta u (membership_delta_new (mt_version t) ?v [r']))) ?k = Some r'"
    "rec_at (snd (apply_delta u (membership_delta_new (mt_version t) ?v [r']))) j = Some (superseded_by ?v s)"
    "mt_version (snd (apply_delta u (membership_delta_new (mt_version t) ?v [r']))) = ?v"
    using v r' s u1 assms(7) by (simp_all add: apply_delta_def membership_delta_new_def apply_record_def Let_def)
  with res t' r' assms(6-8) show ?thesis by auto
qed

theorem mt_rejoin_two_active_witness:
  "let t = mt_run (mt_new 3) [Local (join_incarnation 1), Local (join_incarnation 2)];
       (res, t') = mt_exec (join_incarnation 1) t
   in case res of Inr (Some d) \<Rightarrow>
        map_option status (rec_at t' ''c@n:1#1'') = Some Joining \<and> map_option status (rec_at t' ''c@n:1#2'') = Some Joining
        \<and> map_option status (rec_at (snd (apply_delta t d)) ''c@n:1#2'') = Some Dead
      | _ \<Rightarrow> False"
proof -
  define t where "t = mt_run (mt_new 3) [Local (join_incarnation 1), Local (join_incarnation 2)]"
  let ?k = "unique_address_to_string (incarnation 1)"
  have k: "?k = ''c@n:1#1''" by code_simp
  obtain r s where r: "rec_at t ''c@n:1#1'' = Some r" "rec_at t ''c@n:1#2'' = Some s" "terminal (status r)" "node_id r = ''n''"
    "entry_key r = ''c@n:1#1''" "authority s = authority r" "status s = Joining" "mt_version t \<noteq> MembershipVersion (- 1)"
  proof -
    have "map_option (\<lambda>r. terminal (status r) \<and> node_id r = ''n'' \<and> entry_key r = ''c@n:1#1'' \<and> authority r = ''c@n:1'') (rec_at t ''c@n:1#1'') = Some True"
      "map_option (\<lambda>s. authority s = ''c@n:1'' \<and> status s = Joining) (rec_at t ''c@n:1#2'') = Some True"
      "mt_version t \<noteq> MembershipVersion (- 1)"
      unfolding t_def by code_simp+
    then show thesis by (auto intro: that)
  qed
  obtain res t' where e: "try_join_with_identity t ''n'' (incarnation 1) data_center_default ''v'' [] = (res, t')" by fastforce
  have "uid (incarnation 1) \<noteq> 0" by code_simp
  from mt_rejoin_two_active [OF _ r(3,4) this _ r(2) _ r(6) _ r(8) refl refl e] r k
  obtain d r' where d: "res = Inr d" "rec_at t' ''c@n:1#1'' = Some r'" "rec_at t' ''c@n:1#2'' = Some s"
    "rec_at (snd (apply_delta t d)) ''c@n:1#2'' = Some (superseded_by (mt_version t') s)"
    by (auto simp: is_active_def)
  moreover have "map_option status (rec_at (snd (mt_exec (join_incarnation 1) t)) ''c@n:1#1'') = Some Joining"
    unfolding t_def by code_simp
  moreover have "mt_exec (join_incarnation 1) t = (Inr (Some d), t')" using e d by (simp add: mt_exec_def join_incarnation_def)
  ultimately show ?thesis using r(7) by (simp add: t_def [symmetric] Let_def superseded_by_def)
qed

text \<open>What an operation does to a record that keeps its authority.\<close>

lemma mt_record_moves:
  assumes "mt_exec op t = (res, t')" and "rec_at t k = Some r"
  shows "\<exists>r'. rec_at t' k = Some r' \<and> (authority r' = authority r \<longrightarrow>
     r' = r \<or>
     status_move (status r) (status r') \<and> version r' = membership_version_next (mt_version t) \<and>
       join_version r' = join_version r \<or>
     terminal (status r) \<and> status r' = Joining \<and> version r' = membership_version_next (mt_version t) \<and>
       join_version r' = version r')"
proof -
  have "mt_step t res t'" using assms(1) by (rule mt_exec_step)
  then show ?thesis using assms(2)
  proof cases
    case (Inserted s superseded)
    have "rec_at t' k = (case rec_at (insert_record t s) k of None \<Rightarrow> None
      | Some q \<Rightarrow> Some (if k \<noteq> entry_key s \<and> authority q = authority s \<and> is_active (status q)
                        then superseded_by (version s) q else q))"
      using rec_at_supersede [of "insert_record t s" "authority s" "entry_key s" k]
      unfolding Inserted(6) insert_record_simps(2) snd_conv .
    with assms(2) Inserted(2,4) show ?thesis
      by (cases "k = entry_key s") (auto simp: superseded_by_def status_move_def)
  qed auto
qed

text \<open>
  A join by authority alone makes up a unique address and does not look whether the key it prints to
  is taken by a record of another authority; every other operation looks up the key it writes.
\<close>

definition takes_free_key :: "membership_op \<Rightarrow> string \<Rightarrow> node_record \<Rightarrow> bool" where
  "takes_free_key op k r \<longleftrightarrow>
     (case op of
        TryJoin nid a app rs \<Rightarrow> unique_address_to_string (unique_address_from_authority a) = k \<longrightarrow> authority r = a
      | _ \<Rightarrow> True)"

lemma move_to_authority:
  assumes "rec_at t key = Some x" "rec_at t k = Some r" "move_to t key x st = (d, t')" "rec_at t' k = Some r'"
  shows "authority r' = authority r"
  using assms by (auto simp: move_to_def Let_def split: if_splits)

lemma mt_authority_kept:
  assumes "mt_exec op t = (res, t')" and "rec_at t k = Some r" and "rec_at t' k = Some r'" and "takes_free_key op k r"
  shows "authority r' = authority r"
proof (cases op)
  case (TryJoin nid a app rs)
  have "entry_key_for_authority t a = Some j \<Longrightarrow> \<exists>x. rec_at t j = Some x" for j by (rule entry_key_for_authority_rec)
  with assms TryJoin show ?thesis
    by (auto simp: mt_exec_def try_join_def takes_free_key_def node_record_new_def entry_key_def Let_def
        split: option.splits if_splits)
next
  case (TryJoinWithIdentity nid ua dc app rs)
  let ?x = "node_record_new_with_identity ua dc nid Joining (membership_version_next (mt_version t)) app rs"
  obtain more t2 where s: "supersede_active_incarnations (insert_record t ?x) (authority ?x) (entry_key ?x) = (more, t2)" by fastforce
  have x: "entry_key ?x = unique_address_to_string ua" by (simp add: entry_key_def node_record_new_with_identity_def)
  have t2: "authority r' = authority r" if "rec_at t2 k = Some r'" "rec_at t (unique_address_to_string ua) = None"
    using rec_at_supersede [of "insert_record t ?x" "authority ?x" "entry_key ?x" k, unfolded s snd_conv] that assms(2)
    by (auto simp: x insert_record_def superseded_by_def split: if_splits)
  show ?thesis
    using assms TryJoinWithIdentity s t2
    by (auto simp: mt_exec_def try_join_with_identity_def insert_record_def node_record_new_with_identity_def entry_key_def Let_def
        split: option.splits if_splits)
next
  case (MarkLeft a)
  with assms show ?thesis
    by (auto simp: mt_exec_def mark_left_def split: option.splits if_splits prod.splits
        dest!: resolve_Some dest: move_to_authority)
next
  case (MarkHeartbeatMiss a)
  with assms show ?thesis
    by (auto simp: mt_exec_def mark_heartbeat_miss_def move_to_def Let_def split: option.splits if_splits dest!: resolve_Some)
qed (use assms in \<open>auto simp: mt_exec_def mark_weakly_up_def mark_up_def mark_suspect_def mark_dead_def mark_status_def
    split: option.splits if_splits prod.splits dest!: resolve_Some dest: move_to_authority\<close>)

text \<open>
  Claim C23. No local operation loses a record or gives it another authority, and a record is either
  untouched, or moved along the status graph at the next version with its join version kept, or
  revived from \<open>Removed\<close> or \<open>Dead\<close> to \<open>Joining\<close> with a new join version. The one exception, excluded by
  hypothesis, is a join by authority alone whose made-up unique address prints to the key of a record
  of another authority, as for the authorities \<open>h\<close> and \<open>h:0\<close>: it overwrites that record.
\<close>

theorem mt_status_transitions:
  assumes "mt_exec op t = (res, t')" and "rec_at t k = Some r" and "takes_free_key op k r"
  shows "\<exists>r'. rec_at t' k = Some r' \<and> authority r' = authority r \<and>
    (r' = r \<or>
     status_move (status r) (status r') \<and> version r' = membership_version_next (mt_version t) \<and>
       join_version r' = join_version r \<or>
     terminal (status r) \<and> status r' = Joining \<and> version r' = membership_version_next (mt_version t) \<and>
       join_version r' = version r')"
  using mt_record_moves [OF assms(1,2)] mt_authority_kept [OF assms(1,2) _ assms(3)] by blast

theorem mt_status_transitions_witness:
  "let t = mt_run (mt_new 3) [Local (join_incarnation 1)]
   in \<exists>r'. rec_at (snd (mt_exec (MarkSuspect ''c@n:1'') t)) ''c@n:1#1'' = Some r' \<and> status r' = Suspect"
proof -
  define t where "t = mt_run (mt_new 3) [Local (join_incarnation 1)]"
  have r: "rec_at t ''c@n:1#1'' = Some (node_record_new_with_identity (incarnation 1) data_center_default ''n''
      Joining (MembershipVersion 1) ''v'' [])"
    unfolding t_def by code_simp
  have s: "map_option status (rec_at (snd (mt_exec (MarkSuspect ''c@n:1'') t)) ''c@n:1#1'') = Some Suspect"
    unfolding t_def by code_simp
  obtain r' where "rec_at (snd (mt_exec (MarkSuspect ''c@n:1'') t)) ''c@n:1#1'' = Some r'"
    using mt_status_transitions [OF prod.collapse [symmetric] r, of "MarkSuspect ''c@n:1''"] by (auto simp: takes_free_key_def)
  with s show ?thesis by (auto simp: t_def [symmetric] Let_def)
qed

text \<open>
  Claim C32. An operation that returns an error changes nothing but the event buffer, which grows by
  the conflict event exactly when the error is an authority conflict; a transition is refused with
  the status the record has, which is then terminal or not on a path to the requested one.
\<close>

theorem mt_errors_change_nothing:
  assumes "mt_exec op t = (Inl e, t')"
  shows "mt_version t' = mt_version t \<and> mt_entries t' = mt_entries t \<and>
    mt_heartbeat_miss_counters t' = mt_heartbeat_miss_counters t \<and>
    mt_events t' = mt_events t @ conflict_events e \<and>
    (\<forall>a s s'. e = InvalidTransition a s s' \<longrightarrow>
       (\<exists>k r. resolve t a = Some (k, r) \<and> status r = s) \<and> s \<noteq> s' \<and> (terminal s \<or> \<not> status_move s s'))"
proof -
  have "mt_step t (Inl e) t'" using assms by (rule mt_exec_step)
  then have "t' = t\<lparr>mt_events := mt_events t @ conflict_events e\<rparr>" by cases simp
  moreover have "(\<exists>k r. resolve t a = Some (k, r) \<and> status r = s) \<and> s \<noteq> s' \<and> (terminal s \<or> \<not> status_move s s')"
    if "e = InvalidTransition a s s'" for a s s'
    using assms that
    by (cases op; cases s)
      (auto simp: mt_exec_def map_prod_eq try_join_def try_join_with_identity_def mark_left_def mark_heartbeat_miss_def
        mark_weakly_up_def mark_up_def mark_suspect_def mark_dead_def mark_status_def terminal_def status_move_def
        is_active_def Let_def map_sum_def
        split: option.splits if_splits prod.splits sum.splits)
  ultimately show ?thesis by auto
qed

theorem mt_errors_change_nothing_witness:
  "let t = mt_run (mt_new 3) [Local (join_incarnation 1)];
       (res, t') = mt_exec (MarkUp ''c@n:1'') t
   in res = Inl (InvalidTransition ''c@n:1'' Joining Up) \<and> mt_entries t' = mt_entries t"
proof -
  define t where "t = mt_run (mt_new 3) [Local (join_incarnation 1)]"
  have "fst (mt_exec (MarkUp ''c@n:1'') t) = Inl (InvalidTransition ''c@n:1'' Joining Up)"
    unfolding t_def by code_simp
  then obtain t' where e: "mt_exec (MarkUp ''c@n:1'') t = (Inl (InvalidTransition ''c@n:1'' Joining Up), t')"
    by (metis prod.collapse)
  from mt_errors_change_nothing [OF e] e show ?thesis unfolding t_def [symmetric] Let_def by simp
qed

text \<open>One silent miss counts up and changes nothing else, so the next miss resolves to the same record.\<close>

definition miss :: "string \<Rightarrow> membership_table \<Rightarrow> membership_table" where
  "miss a t = snd (mark_heartbeat_miss t a)"

lemma resolve_cong: "mt_entries u = mt_entries t \<Longrightarrow> resolve u a = resolve t a"
  by (simp only: resolve_def entry_key_for_authority_def entry_for_authority_def)

lemma counter_value:
  assumes "unat (c :: u32) + i + 1 \<le> unat (m :: u32)"
  shows "unat (c + of_nat i + 1) = unat c + i + 1"
proof -
  have "unat m < 2 ^ LENGTH(32)" by (rule unsigned_less)
  with assms have "unat (of_nat (unat c + i + 1) :: u32) = unat c + i + 1"
    by (simp add: unsigned_of_nat take_bit_nat_eq_self del: of_nat_add of_nat_Suc)
  then show ?thesis by (simp add: algebra_simps)
qed

lemma silent_misses:
  assumes "resolve t a = Some (k, r)" and "is_active (status r)"
    and "fmlookup (mt_heartbeat_miss_counters t) k = Some c" and "unat c + n < unat (mt_max_heartbeat_misses t)"
  shows "(miss a ^^ n) t = t\<lparr>mt_heartbeat_miss_counters := fmupd k (c + of_nat n) (mt_heartbeat_miss_counters t)\<rparr>"
  using assms(4)
proof (induction n)
  case 0
  have "fmupd k c (mt_heartbeat_miss_counters t) = mt_heartbeat_miss_counters t"
    using assms(3) by (simp add: fmap_eq_iff)
  then show ?case by simp
next
  case (Suc n)
  let ?u = "t\<lparr>mt_heartbeat_miss_counters := fmupd k (c + of_nat n) (mt_heartbeat_miss_counters t)\<rparr>"
  have IH: "(miss a ^^ n) t = ?u" using Suc by simp
  have "resolve ?u a = Some (k, r)" using assms(1) resolve_cong [of ?u t] by simp
  moreover have "c + of_nat n + 1 < mt_max_heartbeat_misses t"
    using counter_value [of c n "mt_max_heartbeat_misses t"] Suc.prems by (simp add: word_less_nat_alt)
  ultimately have "miss a ?u = t\<lparr>mt_heartbeat_miss_counters := fmupd k (c + of_nat n + 1) (mt_heartbeat_miss_counters t)\<rparr>"
    using assms(2) by (simp add: miss_def mark_heartbeat_miss_def Let_def get_or_def fmap_eq_iff)
  with IH show ?case by (simp add: add.commute add.left_commute)
qed

text \<open>
  A member is suspected at exactly the configured number of heartbeat misses: from a
  counter \<open>c\<close>, the misses before the maximum change nothing but the counter, and the one that
  reaches it moves the member to \<open>Suspect\<close> at the next version, with its delta and event.
\<close>

theorem mt_heartbeat_threshold:
  assumes "resolve t a = Some (k, r)" and "is_active (status r)"
    and "fmlookup (mt_heartbeat_miss_counters t) k = Some c" and "unat c + n + 1 = unat (mt_max_heartbeat_misses t)"
  shows "(\<forall>i<n. fst (mark_heartbeat_miss ((miss a ^^ i) t) a) = None) \<and>
    mt_entries ((miss a ^^ n) t) = mt_entries t \<and> mt_version ((miss a ^^ n) t) = mt_version t \<and>
    mt_events ((miss a ^^ n) t) = mt_events t \<and>
    (let v = membership_version_next (mt_version t); r' = r\<lparr>status := Suspect, version := v\<rparr>
     in fst (mark_heartbeat_miss ((miss a ^^ n) t) a) = Some (membership_delta_new (mt_version t) v [r']) \<and>
        rec_at ((miss a ^^ Suc n) t) k = Some r' \<and>
        mt_events ((miss a ^^ Suc n) t) = mt_events t @ [MarkedSuspectEvent (node_id r) (authority r)])"
proof -
  note silent = silent_misses [OF assms(1-3)]
  let ?u = "\<lambda>i. t\<lparr>mt_heartbeat_miss_counters := fmupd k (c + of_nat i) (mt_heartbeat_miss_counters t)\<rparr>"
  have u: "(miss a ^^ i) t = ?u i" if "i \<le> n" for i using silent [of i] that assms(4) by simp
  have res: "resolve (?u i) a = Some (k, r)" for i using assms(1) resolve_cong [of "?u i" t] by simp
  have val: "unat (c + of_nat i + 1) = unat c + i + 1" if "i \<le> n" for i
    using counter_value [of c i "mt_max_heartbeat_misses t"] that assms(4) by simp
  have below: "c + of_nat i + 1 < mt_max_heartbeat_misses t" if "i < n" for i
    using val [of i] that assms(4) by (simp add: word_less_nat_alt)
  have at: "\<not> c + of_nat n + 1 < mt_max_heartbeat_misses t"
    using val [of n] assms(4) by (simp add: word_less_nat_alt)
  have "fst (mark_heartbeat_miss (?u i) a) = None" if "i < n" for i
    using below [OF that] res [of i] assms(2) by (simp add: mark_heartbeat_miss_def get_or_def)
  then have "\<forall>i<n. fst (mark_heartbeat_miss ((miss a ^^ i) t) a) = None" using u by simp
  moreover have "mark_heartbeat_miss (?u n) a =
      (let v = membership_version_next (mt_version t); r' = r\<lparr>status := Suspect, version := v\<rparr>
       in (Some (membership_delta_new (mt_version t) v [r']),
           t\<lparr>mt_heartbeat_miss_counters := fmupd k (c + of_nat n + 1) (mt_heartbeat_miss_counters t),
             mt_version := v, mt_entries := fmupd k r' (mt_entries t),
             mt_events := mt_events t @ [MarkedSuspectEvent (node_id r) (authority r)]\<rparr>))"
    using at res [of n] assms(2) by (simp add: mark_heartbeat_miss_def get_or_def move_to_def Let_def fmap_eq_iff)
  ultimately show ?thesis
    using u [of n] by (simp add: Let_def miss_def [of a "?u n"])
qed

theorem mt_heartbeat_threshold_witness:
  "let t = mt_run (mt_new 3) [Local (join_incarnation 1)]
   in fst (mark_heartbeat_miss ((miss ''c@n:1'' ^^ 1) t) ''c@n:1'') = None \<and>
      fst (mark_heartbeat_miss ((miss ''c@n:1'' ^^ 2) t) ''c@n:1'') \<noteq> None"
proof -
  define t where "t = mt_run (mt_new 3) [Local (join_incarnation 1)]"
  let ?r = "node_record_new_with_identity (incarnation 1) data_center_default ''n'' Joining (MembershipVersion 1) ''v'' []"
  have h: "resolve t ''c@n:1'' = Some (''c@n:1#1'', ?r)" "is_active (status ?r)"
    "fmlookup (mt_heartbeat_miss_counters t) ''c@n:1#1'' = Some 0"
    "unat (0 :: u32) + 2 + 1 = unat (mt_max_heartbeat_misses t)"
    unfolding t_def by code_simp+
  note th = mt_heartbeat_threshold [OF h, unfolded Let_def]
  have "fst (mark_heartbeat_miss ((miss ''c@n:1'' ^^ 1) t) ''c@n:1'') = None"
    by (rule th [THEN conjunct1, rule_format]) simp
  moreover have "fst (mark_heartbeat_miss ((miss ''c@n:1'' ^^ 2) t) ''c@n:1'') \<noteq> None"
    using th by (elim conjE) (simp only: option.distinct not_False_eq_True)
  ultimately show ?thesis unfolding t_def [symmetric] Let_def ..
qed

text \<open>
  Claim C39. The miss counter survives a recovery and a rejoin. Whenever the counter of a member stands
  one below the maximum or higher, as it does after the member was suspected by misses, marking the
  member up leaves the counter as it is and the very next miss suspects it again; and so it is when
  the member has left or died and joins again under its unique address.
\<close>

theorem mt_counter_survives_recovery:
  assumes "rec_at t (unique_address_to_string ua) = Some r"
    and "mt_max_heartbeat_misses t \<le> get_or (mt_heartbeat_miss_counters t) (unique_address_to_string ua) 0 + 1"
    and "status r = Suspect \<and> op = MarkUp (unique_address_to_string ua) \<or>
      terminal (status r) \<and> uid ua \<noteq> 0 \<and> op = TryJoinWithIdentity (node_id r) ua dc app rs"
  shows "map_option status (rec_at (snd (mt_exec op t)) (unique_address_to_string ua)) =
      Some (if status r = Suspect then Up else Joining) \<and>
    map_option status (rec_at (miss (unique_address_to_string ua) (snd (mt_exec op t))) (unique_address_to_string ua)) = Some Suspect"
proof -
  let ?k = "unique_address_to_string ua"
  have key: "resolve u ?k = Some (?k, x)" if "rec_at u ?k = Some x" for u x
    using that by (simp add: resolve_def entry_key_for_authority_def contains_key_iff)
  have miss: "\<exists>z. rec_at (miss ?k u) ?k = Some z \<and> status z = Suspect"
    if "rec_at u ?k = Some x" "is_active (status x)" "mt_heartbeat_miss_counters u = mt_heartbeat_miss_counters t"
      "mt_max_heartbeat_misses u = mt_max_heartbeat_misses t" for u x
    using that assms(2) key [OF that(1)] by (simp add: miss_def mark_heartbeat_miss_def move_to_def Let_def linorder_not_less [symmetric])
  from assms(3) show ?thesis
  proof
    assume "status r = Suspect \<and> op = MarkUp ?k"
    then show ?thesis
      using key [OF assms(1)] by (auto simp: mt_exec_def mark_up_def mark_status_def move_to_def Let_def is_active_def intro!: miss)
  next
    assume j: "terminal (status r) \<and> uid ua \<noteq> 0 \<and> op = TryJoinWithIdentity (node_id r) ua dc app rs"
    then have "status r \<noteq> Suspect" by (auto simp: terminal_def)
    with j show ?thesis
      using assms(1) by (auto simp: mt_exec_def try_join_with_identity_def Let_def is_active_def intro!: miss)
  qed
qed

theorem mt_counter_survives_recovery_witness:
  "let t = mt_run (mt_new 2) [Local (join_incarnation 1), Local (MarkHeartbeatMiss ''c@n:1''), Local (MarkHeartbeatMiss ''c@n:1'')]
   in map_option status (rec_at (miss ''c@n:1#1'' (snd (mt_exec (MarkUp ''c@n:1#1'') t))) ''c@n:1#1'') = Some Suspect"
proof -
  define t where "t = mt_run (mt_new 2) [Local (join_incarnation 1), Local (MarkHeartbeatMiss ''c@n:1''), Local (MarkHeartbeatMiss ''c@n:1'')]"
  have k: "unique_address_to_string (incarnation 1) = ''c@n:1#1''" by code_simp
  have "map_option status (rec_at t ''c@n:1#1'') = Some Suspect"
    "mt_max_heartbeat_misses t \<le> get_or (mt_heartbeat_miss_counters t) ''c@n:1#1'' 0 + 1"
    unfolding t_def by code_simp+
  then obtain r where r: "rec_at t ''c@n:1#1'' = Some r" "status r = Suspect"
    "mt_max_heartbeat_misses t \<le> get_or (mt_heartbeat_miss_counters t) ''c@n:1#1'' 0 + 1" by auto
  have "map_option status (rec_at (miss ''c@n:1#1'' (snd (mt_exec (MarkUp ''c@n:1#1'') t))) ''c@n:1#1'') = Some Suspect"
    using mt_counter_survives_recovery [of t "incarnation 1" r "MarkUp ''c@n:1#1''"] r by (simp add: k)
  then show ?thesis by (simp add: t_def [symmetric] Let_def)
qed

end
