(* ===== verification/Gossip_Sets.thy ===== *)
theory Gossip_Sets
  imports CRDT_Contract Downing_Context
begin

text \<open>
  The small collections gossip is built from (\<open>membership/vector_clock.rs\<close>,
  \<open>gossip_seen_digest.rs\<close>, \<open>gossip_tombstone.rs\<close>, \<open>gossip_tombstone_set.rs\<close>) and the quarantine
  table (\<open>quarantine_table.rs\<close>, \<open>quarantine_entry.rs\<close>, \<open>quarantine_event.rs\<close>). Clock, digest and
  tombstone set keep the newest version per key, so each of them is a replicated data type in the
  sense of \<open>CRDT_Contract\<close>.
\<close>

section \<open>Vector clock\<close>

record vector_clock =
  vc_counters :: "(string, u64) fmap"

definition vc_new :: vector_clock where
  "vc_new = \<lparr>vc_counters = fmempty\<rparr>"

definition vc_observe :: "vector_clock \<Rightarrow> string \<Rightarrow> u64 \<Rightarrow> vector_clock" where
  "vc_observe c auth v =
     (let current = get_or (vc_counters c) auth 0
      in if v > current then c\<lparr>vc_counters := fmupd auth v (vc_counters c)\<rparr> else c)"

definition vc_value :: "vector_clock \<Rightarrow> string \<Rightarrow> u64" where
  "vc_value c auth = get_or (vc_counters c) auth 0"

definition vc_merge :: "vector_clock \<Rightarrow> vector_clock \<Rightarrow> vector_clock" where
  "vc_merge self other = for_each (\<lambda>auth v c. vc_observe c auth v) (vc_counters other) self"

definition vc_has_seen_all :: "vector_clock \<Rightarrow> string list \<Rightarrow> u64 \<Rightarrow> bool" where
  "vc_has_seen_all c peers v \<longleftrightarrow> list_all (\<lambda>peer. vc_value c peer \<ge> v) peers"

definition vc_wf :: "vector_clock \<Rightarrow> bool" where
  "vc_wf c \<longleftrightarrow> no_zero (vc_counters c)"

lemma vc_value_observe:
  "vc_value (vc_observe c a v) b = (if b = a then max (vc_value c a) v else vc_value c b)"
  by (auto simp: vc_value_def vc_observe_def Let_def not_less max.absorb1 max.absorb2 less_imp_le)

lemma vc_wf_observe: "vc_wf c \<Longrightarrow> vc_wf (vc_observe c a v)"
  by (auto simp: vc_wf_def vc_observe_def Let_def intro!: no_zero_upd)

lemma vc_value_merge: "vc_value (vc_merge a b) k = max (vc_value a k) (vc_value b k)"
  unfolding vc_merge_def
  by (subst look_for_each [where look = vc_value and g = "\<lambda>k v c. max c v"])
    (auto simp: vc_value_observe, simp add: vc_value_def slot_alt split: option.split)

lemma vc_wf_merge: "vc_wf a \<Longrightarrow> vc_wf (vc_merge a b)"
  unfolding vc_merge_def by (rule for_each_invariant [where P = vc_wf]) (simp_all add: vc_wf_observe)

lemma vc_eqI: "vc_wf a \<Longrightarrow> vc_wf b \<Longrightarrow> (\<And>k. vc_value a k = vc_value b k) \<Longrightarrow> a = b"
  by (cases a; cases b) (auto simp: vc_wf_def vc_value_def intro: no_zero_eqI)

interpretation vclock: replicated_data vc_wf "(=)" vc_merge
  by unfold_locales (auto intro!: vc_eqI vc_wf_merge simp: vc_value_merge max.commute max.left_commute)

section \<open>Seen digest\<close>

record gossip_seen_digest =
  seen_versions :: "(unique_address, membership_version) fmap"

definition sd_new :: gossip_seen_digest where
  "sd_new = \<lparr>seen_versions = fmempty\<rparr>"

definition sd_mark_seen ::
    "gossip_seen_digest \<Rightarrow> unique_address \<Rightarrow> membership_version \<Rightarrow> bool \<times> gossip_seen_digest" where
  "sd_mark_seen s peer v =
     (case fmlookup (seen_versions s) peer of
        None \<Rightarrow> (True, s\<lparr>seen_versions := fmupd peer v (seen_versions s)\<rparr>)
      | Some w \<Rightarrow> if w \<ge> v then (False, s) else (True, s\<lparr>seen_versions := fmupd peer v (seen_versions s)\<rparr>))"

definition sd_observed_version :: "gossip_seen_digest \<Rightarrow> unique_address \<Rightarrow> membership_version option" where
  "sd_observed_version s peer = fmlookup (seen_versions s) peer"

definition sd_has_seen_all :: "gossip_seen_digest \<Rightarrow> unique_address list \<Rightarrow> membership_version \<Rightarrow> bool" where
  "sd_has_seen_all s active_peers v \<longleftrightarrow>
     list_all (\<lambda>peer. case fmlookup (seen_versions s) peer of None \<Rightarrow> False | Some w \<Rightarrow> w \<ge> v) active_peers"

definition sd_entries :: "gossip_seen_digest \<Rightarrow> (unique_address \<times> membership_version) list" where
  "sd_entries s = entries (seen_versions s)"

definition sd_merge :: "gossip_seen_digest \<Rightarrow> gossip_seen_digest \<Rightarrow> bool \<times> gossip_seen_digest" where
  "sd_merge self other =
     for_each (\<lambda>peer v (changed, s). let (c, s') = sd_mark_seen s peer v in (changed \<or> c, s'))
       (seen_versions other) (False, self)"

lemma sd_lookup_mark_seen:
  "fmlookup (seen_versions (snd (sd_mark_seen s p v))) q =
     (if q = p then max (fmlookup (seen_versions s) p) (Some v) else fmlookup (seen_versions s) q)"
  by (auto simp: sd_mark_seen_def max_def split: option.splits)

text \<open>\<open>None\<close> is below every version, so merging is a maximum of options.\<close>

lemma sd_lookup_merge:
  "fmlookup (seen_versions (snd (sd_merge a b))) k = max (fmlookup (seen_versions a) k) (fmlookup (seen_versions b) k)"
  unfolding sd_merge_def
  by (subst look_for_each [where look = "\<lambda>s. fmlookup (seen_versions (snd s))" and g = "\<lambda>k v c. max c (Some v)"])
    (auto simp: sd_lookup_mark_seen split_beta max_def split: option.split dest: less_eq_option_None_is_None)

lemma sd_eqI: "(\<And>k. fmlookup (seen_versions a) k = fmlookup (seen_versions b) k) \<Longrightarrow> a = (b :: gossip_seen_digest)"
  by (cases a; cases b) (simp add: fmap_eq_iff)

interpretation sdigest: replicated_data "\<lambda>_. True" "(=)" "\<lambda>a b. snd (sd_merge a b)"
  by unfold_locales (auto intro!: sd_eqI simp: sd_lookup_merge max.commute max.left_commute)

lemma sd_has_seen_all_merge:
  "sd_has_seen_all a ps v \<Longrightarrow> sd_has_seen_all (snd (sd_merge a b)) ps v"
  unfolding sd_has_seen_all_def sd_lookup_merge
  by (auto simp: list_all_iff max_def split: option.splits dest: order_trans)

section \<open>Tombstones\<close>

record gossip_tombstone =
  gt_member :: unique_address
  gt_version :: membership_version

record gossip_tombstone_set =
  ts_entries :: "(unique_address, gossip_tombstone) fmap"

definition is_terminal :: "node_status \<Rightarrow> bool" where
  "is_terminal s \<longleftrightarrow> s \<in> {Removed, Dead}"

definition ts_new :: gossip_tombstone_set where
  "ts_new = \<lparr>ts_entries = fmempty\<rparr>"

definition ts_get :: "gossip_tombstone_set \<Rightarrow> unique_address \<Rightarrow> gossip_tombstone option" where
  "ts_get s member = fmlookup (ts_entries s) member"

definition ts_values :: "gossip_tombstone_set \<Rightarrow> gossip_tombstone list" where
  "ts_values s = map_values (ts_entries s)"

definition ts_insert :: "gossip_tombstone_set \<Rightarrow> gossip_tombstone \<Rightarrow> bool \<times> gossip_tombstone_set" where
  "ts_insert s t =
     (case fmlookup (ts_entries s) (gt_member t) of
        Some existing \<Rightarrow>
          if gt_version existing \<ge> gt_version t then (False, s)
          else (True, s\<lparr>ts_entries := fmupd (gt_member t) t (ts_entries s)\<rparr>)
      | None \<Rightarrow> (True, s\<lparr>ts_entries := fmupd (gt_member t) t (ts_entries s)\<rparr>))"

definition ts_insert_terminal_record :: "gossip_tombstone_set \<Rightarrow> node_record \<Rightarrow> bool \<times> gossip_tombstone_set" where
  "ts_insert_terminal_record s r =
     (if is_terminal (status r) then ts_insert s \<lparr>gt_member = unique_address r, gt_version = version r\<rparr>
      else (False, s))"

definition ts_from_records :: "node_record list \<Rightarrow> gossip_tombstone_set" where
  "ts_from_records records = fold (\<lambda>r s. snd (ts_insert_terminal_record s r)) records ts_new"

definition ts_merge :: "gossip_tombstone_set \<Rightarrow> gossip_tombstone_set \<Rightarrow> gossip_tombstone list \<times> gossip_tombstone_set" where
  "ts_merge self other =
     fold (\<lambda>t (applied, s). let (changed, s') = ts_insert s t in (if changed then applied @ [t] else applied, s'))
       (ts_values other) ([], self)"

definition ts_suppresses :: "gossip_tombstone_set \<Rightarrow> node_record \<Rightarrow> bool" where
  "ts_suppresses s r \<longleftrightarrow>
     (case fmlookup (ts_entries s) (unique_address r) of
        None \<Rightarrow> False
      | Some t \<Rightarrow> gt_version t > version r \<or> gt_version t = version r \<and> \<not> is_terminal (status r))"

definition ts_prune_retained ::
    "gossip_tombstone_set \<Rightarrow> membership_version \<Rightarrow> gossip_tombstone list \<times> gossip_tombstone_set" where
  "ts_prune_retained s retained_through =
     (let keys = map fst (filter (\<lambda>(_, t). gt_version t \<le> retained_through) (entries (ts_entries s)))
      in fold (\<lambda>key (pruned, s).
           case fmlookup (ts_entries s) key of
             Some t \<Rightarrow> (pruned @ [t], s\<lparr>ts_entries := fmdrop key (ts_entries s)\<rparr>)
           | None \<Rightarrow> (pruned, s))
         keys ([], s))"

text \<open>Every tombstone is stored under its member, so a set is the version it has for each member.\<close>

definition ts_keyed :: "gossip_tombstone_set \<Rightarrow> bool" where
  "ts_keyed s \<longleftrightarrow> (\<forall>k t. fmlookup (ts_entries s) k = Some t \<longrightarrow> gt_member t = k)"

definition ts_version :: "gossip_tombstone_set \<Rightarrow> unique_address \<Rightarrow> membership_version option" where
  "ts_version s k = map_option gt_version (fmlookup (ts_entries s) k)"

lemma ts_keyed_new [simp]: "ts_keyed ts_new"
  by (simp add: ts_keyed_def ts_new_def)

lemma ts_version_new [simp]: "ts_version ts_new k = None"
  by (simp add: ts_version_def ts_new_def)

lemma ts_eqI:
  assumes "ts_keyed a" and "ts_keyed b" and "\<And>k. ts_version a k = ts_version b k"
  shows "a = b"
proof -
  have "fmlookup (ts_entries a) k = fmlookup (ts_entries b) k" for k
  proof (cases "fmlookup (ts_entries a) k"; cases "fmlookup (ts_entries b) k")
    fix s t assume st: "fmlookup (ts_entries a) k = Some s" "fmlookup (ts_entries b) k = Some t"
    with assms have "gt_member s = gt_member t" "gt_version s = gt_version t"
      using assms(3) [of k] by (auto simp: ts_keyed_def ts_version_def)
    with st show ?thesis by simp
  qed (use assms(3) [of k] in \<open>auto simp: ts_version_def\<close>)
  then show ?thesis by (cases a; cases b) (simp add: fmap_eq_iff)
qed

lemma ts_version_insert:
  "ts_version (snd (ts_insert s t)) k =
     (if k = gt_member t then max (ts_version s k) (Some (gt_version t)) else ts_version s k)"
  by (auto simp: ts_insert_def ts_version_def max_def split: option.splits)

lemma ts_keyed_insert: "ts_keyed s \<Longrightarrow> ts_keyed (snd (ts_insert s t))"
  by (auto simp: ts_insert_def ts_keyed_def split: option.splits)

lemma ts_version_merge_fold:
  assumes "distinct (map fst xs)" and "\<forall>(k, t)\<in>set xs. gt_member t = k"
  shows "ts_version (snd (fold (\<lambda>t (applied, s). let (changed, s') = ts_insert s t in
      (if changed then applied @ [t] else applied, s')) (map snd xs) (acc, s))) k =
    (case map_of xs k of None \<Rightarrow> ts_version s k | Some t \<Rightarrow> max (ts_version s k) (Some (gt_version t)))"
  using assms
proof (induction xs arbitrary: acc s)
  case (Cons x xs)
  obtain j t where x: "x = (j, t)" by (cases x)
  obtain c s' where i: "ts_insert s t = (c, s')" by fastforce
  have v: "ts_version s' i = (if i = j then max (ts_version s i) (Some (gt_version t)) else ts_version s i)" for i
    using ts_version_insert [of s t i] Cons.prems x i by simp
  have "map_of xs k = None" if "k = j" using Cons.prems(1) x that by (auto simp: map_of_eq_None_iff)
  with Cons.IH [of _ s'] Cons.prems x i v show ?case by (auto split: option.splits)
qed simp

lemma ts_version_merge:
  assumes "ts_keyed b"
  shows "ts_version (snd (ts_merge a b)) k = max (ts_version a k) (ts_version b k)"
proof -
  have "\<forall>(k, t)\<in>set (entries (ts_entries b)). gt_member t = k"
    using assms by (auto simp: ts_keyed_def set_entries)
  from ts_version_merge_fold [OF _ this, of "[]" a k]
  have "ts_version (snd (ts_merge a b)) k =
      (case fmlookup (ts_entries b) k of None \<Rightarrow> ts_version a k | Some t \<Rightarrow> max (ts_version a k) (Some (gt_version t)))"
    by (simp add: ts_merge_def ts_values_def map_values_def)
  then show ?thesis
    by (cases "ts_version a k") (auto simp: ts_version_def max_def split: option.splits)
qed

lemma ts_keyed_merge: "ts_keyed a \<Longrightarrow> ts_keyed (snd (ts_merge a b))"
proof -
  have "ts_keyed (snd (fold (\<lambda>t (applied, s). let (changed, s') = ts_insert s t in
      (if changed then applied @ [t] else applied, s')) xs (acc, a)))" if "ts_keyed a" for xs acc a
    using that
  proof (induction xs arbitrary: acc a)
    case (Cons x xs)
    obtain c a' where i: "ts_insert a x = (c, a')" by fastforce
    then have "ts_keyed a'" using ts_keyed_insert [OF Cons.prems, of x] by simp
    with Cons.IH i show ?case by simp
  qed simp
  then show "ts_keyed a \<Longrightarrow> ?thesis" by (simp add: ts_merge_def)
qed

interpretation tombs: replicated_data ts_keyed "(=)" "\<lambda>a b. snd (ts_merge a b)"
  by unfold_locales (auto intro!: ts_eqI ts_keyed_merge simp: ts_version_merge ts_keyed_merge max.commute max.left_commute)

text \<open>The tombstones of a list of records: the greatest terminal version of each member.\<close>

lemma ts_keyed_from_records: "ts_keyed (ts_from_records rs)"
proof -
  have "ts_keyed (fold (\<lambda>r s. snd (ts_insert_terminal_record s r)) rs s)" if "ts_keyed s" for s
    using that
  proof (induction rs arbitrary: s)
    case (Cons r rs)
    then show ?case by (simp add: ts_insert_terminal_record_def ts_keyed_insert)
  qed simp
  then show ?thesis by (simp add: ts_from_records_def)
qed

definition terminal_version :: "node_record \<Rightarrow> membership_version option" where
  "terminal_version r = (if is_terminal (status r) then Some (version r) else None)"

lemma ts_version_insert_terminal:
  "ts_version (snd (ts_insert_terminal_record s r)) k =
     (if k = unique_address r then max (ts_version s k) (terminal_version r) else ts_version s k)"
  by (auto simp: ts_insert_terminal_record_def ts_version_insert terminal_version_def max_def
      dest: less_eq_option_None_is_None)

lemma ts_version_from_records:
  assumes "distinct (map unique_address rs)" and "r \<in> set rs"
  shows "ts_version (ts_from_records rs) (unique_address r) = terminal_version r"
proof -
  have out: "ts_version (fold (\<lambda>r s. snd (ts_insert_terminal_record s r)) rs s) k = ts_version s k"
    if "k \<notin> unique_address ` set rs" for rs s k
    using that by (induction rs arbitrary: s) (auto simp: ts_version_insert_terminal)
  have "ts_version (fold (\<lambda>r s. snd (ts_insert_terminal_record s r)) rs s) (unique_address r) =
      max (ts_version s (unique_address r)) (terminal_version r)" for s
    using assms
  proof (induction rs arbitrary: s)
    case (Cons q rs)
    show ?case
    proof (cases "r = q")
      case True
      with Cons.prems show ?thesis by (simp add: out ts_version_insert_terminal)
    next
      case False
      with Cons.prems have "r \<in> set rs" by simp
      moreover from this Cons.prems have "unique_address r \<noteq> unique_address q" by (metis distinct.simps(2) image_eqI list.map(2) list.set_map)
      ultimately show ?thesis using Cons by (simp add: ts_version_insert_terminal)
    qed
  qed simp
  then show ?thesis by (simp add: ts_from_records_def max_def)
qed

lemma ts_version_from_records_None:
  "k \<notin> unique_address ` set rs \<Longrightarrow> ts_version (ts_from_records rs) k = None"
proof -
  have "k \<notin> unique_address ` set rs \<Longrightarrow>
      ts_version (fold (\<lambda>r s. snd (ts_insert_terminal_record s r)) rs s) k = ts_version s k" for s
    by (induction rs arbitrary: s) (auto simp: ts_version_insert_terminal)
  then show "k \<notin> unique_address ` set rs \<Longrightarrow> ?thesis" by (simp add: ts_from_records_def)
qed

lemma ts_suppresses_version:
  "ts_suppresses s r \<longleftrightarrow>
     (case ts_version s (unique_address r) of None \<Rightarrow> False
      | Some v \<Rightarrow> v > version r \<or> v = version r \<and> \<not> is_terminal (status r))"
  by (simp add: ts_suppresses_def ts_version_def option.case_eq_if option.map_sel)

lemma ts_prune_retained_fold:
  assumes "distinct (map fst xs)" and "\<forall>(k, t)\<in>set xs. fmlookup (ts_entries s) k = Some t"
  shows "fold (\<lambda>key (pruned, s).
           case fmlookup (ts_entries s) key of
             Some t \<Rightarrow> (pruned @ [t], s\<lparr>ts_entries := fmdrop key (ts_entries s)\<rparr>)
           | None \<Rightarrow> (pruned, s))
         (map fst xs) (acc, s) = (acc @ map snd xs, s\<lparr>ts_entries := fold (\<lambda>(k, _). fmdrop k) xs (ts_entries s)\<rparr>)"
  using assms
proof (induction xs arbitrary: acc s)
  case (Cons x xs)
  obtain k t where x: "x = (k, t)" by (cases x)
  let ?s = "s\<lparr>ts_entries := fmdrop k (ts_entries s)\<rparr>"
  have "\<forall>(j, t)\<in>set xs. fmlookup (ts_entries ?s) j = Some t"
    using Cons.prems x by (fastforce simp: rev_image_eqI)
  with Cons.IH [of ?s] Cons.prems x show ?case by simp
qed simp

lemma ts_prune_retained_eq:
  "fst (ts_prune_retained s v) = filter (\<lambda>t. gt_version t \<le> v) (ts_values s)"
  "fmlookup (ts_entries (snd (ts_prune_retained s v))) k =
     (case fmlookup (ts_entries s) k of None \<Rightarrow> None | Some t \<Rightarrow> if gt_version t \<le> v then None else Some t)"
proof -
  let ?xs = "filter (\<lambda>(_, t). gt_version t \<le> v) (entries (ts_entries s))"
  have d: "distinct (map fst ?xs)" by (rule distinct_filter_entries)
  have "\<forall>(k, t)\<in>set ?xs. fmlookup (ts_entries s) k = Some t" by (auto simp: set_entries)
  from ts_prune_retained_fold [OF d this]
  have eq: "ts_prune_retained s v = (map snd ?xs, s\<lparr>ts_entries := fold (\<lambda>(k, _). fmdrop k) ?xs (ts_entries s)\<rparr>)"
    by (simp add: ts_prune_retained_def)
  then show "fst (ts_prune_retained s v) = filter (\<lambda>t. gt_version t \<le> v) (ts_values s)"
    by (simp add: ts_values_def map_values_def List.filter_map comp_def case_prod_unfold)
  have "fmlookup (fold (\<lambda>(k, _). fmdrop k) ?xs (ts_entries s)) k =
      (case map_of ?xs k of None \<Rightarrow> fmlookup (ts_entries s) k | Some _ \<Rightarrow> None)"
    using look_fold [where look = fmlookup and f = "\<lambda>k _. fmdrop k" and g = "\<lambda>_ _ _. None" and k = k and s = "ts_entries s", OF _ d]
    by simp
  with eq show "fmlookup (ts_entries (snd (ts_prune_retained s v))) k =
     (case fmlookup (ts_entries s) k of None \<Rightarrow> None | Some t \<Rightarrow> if gt_version t \<le> v then None else Some t)"
    by (simp add: map_of_filter_entries split: option.splits)
qed

section \<open>Quarantine\<close>

record quarantine_entry =
  qe_authority :: string
  qe_reason :: string
  qe_expires_at :: timer_instant

datatype quarantine_event = QuarantinedEvent string string | ClearedEvent string

record quarantine_table =
  qt_entries :: "(string, quarantine_entry) fmap"

text \<open>The order \<open>TimerInstant\<close> derives: ticks first, then the resolution.\<close>

definition timer_le :: "timer_instant \<Rightarrow> timer_instant \<Rightarrow> bool" where
  "timer_le a b \<longleftrightarrow> ticks a < ticks b \<or> ticks a = ticks b \<and> resolution a \<le> resolution b"

definition saturating_add_ticks :: "timer_instant \<Rightarrow> u64 \<Rightarrow> timer_instant" where
  "saturating_add_ticks i n = i\<lparr>ticks := saturating_add (ticks i) n\<rparr>"

text \<open>Durations are nanoseconds, as in \<open>Downing_Context\<close>; a positive duration is at least one tick.\<close>

definition add_duration :: "timer_instant \<Rightarrow> duration \<Rightarrow> timer_instant" where
  "add_duration now d =
     (if d = 0 then now
      else
        let resolution_ns = max (resolution now) 1;
            n = d div resolution_ns;
            n = (if n = 0 then 1 else n)
        in saturating_add_ticks now (if n \<le> u64_max then of_nat n else - 1))"

definition qt_new :: quarantine_table where
  "qt_new = \<lparr>qt_entries = fmempty\<rparr>"

definition qt_contains :: "quarantine_table \<Rightarrow> string \<Rightarrow> bool" where
  "qt_contains q a \<longleftrightarrow> contains_key (qt_entries q) a"

definition qt_snapshot :: "quarantine_table \<Rightarrow> quarantine_entry list" where
  "qt_snapshot q = map_values (qt_entries q)"

definition qt_quarantine ::
    "quarantine_table \<Rightarrow> string \<Rightarrow> string \<Rightarrow> timer_instant \<Rightarrow> duration \<Rightarrow> quarantine_event \<times> quarantine_table" where
  "qt_quarantine q a reason now ttl =
     (let entry = \<lparr>qe_authority = a, qe_reason = reason, qe_expires_at = add_duration now ttl\<rparr>
      in (QuarantinedEvent a reason, q\<lparr>qt_entries := fmupd a entry (qt_entries q)\<rparr>))"

definition qt_clear :: "quarantine_table \<Rightarrow> string \<Rightarrow> quarantine_event option \<times> quarantine_table" where
  "qt_clear q a =
     (case fmlookup (qt_entries q) a of
        None \<Rightarrow> (None, q)
      | Some e \<Rightarrow> (Some (ClearedEvent (qe_authority e)), q\<lparr>qt_entries := fmdrop a (qt_entries q)\<rparr>))"

definition qt_poll_expired :: "quarantine_table \<Rightarrow> timer_instant \<Rightarrow> quarantine_event list \<times> quarantine_table" where
  "qt_poll_expired q now =
     (let expired = map fst (filter (\<lambda>(_, e). timer_le (qe_expires_at e) now) (entries (qt_entries q)))
      in fold (\<lambda>a (cleared, q).
           case qt_clear q a of (Some event, q') \<Rightarrow> (cleared @ [event], q') | (None, q') \<Rightarrow> (cleared, q'))
         expired ([], q))"

lemma qt_poll_fold:
  assumes "distinct (map fst xs)" and "\<forall>(a, e)\<in>set xs. fmlookup (qt_entries q) a = Some e"
  shows "fold (\<lambda>a (cleared, q).
           case qt_clear q a of (Some event, q') \<Rightarrow> (cleared @ [event], q') | (None, q') \<Rightarrow> (cleared, q'))
         (map fst xs) (acc, q) =
    (acc @ map (ClearedEvent \<circ> qe_authority \<circ> snd) xs, q\<lparr>qt_entries := fold (\<lambda>(a, _). fmdrop a) xs (qt_entries q)\<rparr>)"
  using assms
proof (induction xs arbitrary: acc q)
  case (Cons x xs)
  obtain a e where x: "x = (a, e)" by (cases x)
  let ?q = "q\<lparr>qt_entries := fmdrop a (qt_entries q)\<rparr>"
  have "\<forall>(b, e)\<in>set xs. fmlookup (qt_entries ?q) b = Some e"
    using Cons.prems x by (fastforce simp: rev_image_eqI)
  with Cons.IH [of ?q] Cons.prems x show ?case by (simp add: qt_clear_def)
qed simp

definition qt_keyed :: "quarantine_table \<Rightarrow> bool" where
  "qt_keyed q \<longleftrightarrow> (\<forall>a e. fmlookup (qt_entries q) a = Some e \<longrightarrow> qe_authority e = a)"

definition qt_expired :: "quarantine_table \<Rightarrow> timer_instant \<Rightarrow> string \<Rightarrow> bool" where
  "qt_expired q now a \<longleftrightarrow> (\<exists>e. fmlookup (qt_entries q) a = Some e \<and> timer_le (qe_expires_at e) now)"

lemma qt_poll_expired_eq:
  "fst (qt_poll_expired q now) =
     map (ClearedEvent \<circ> qe_authority) (filter (\<lambda>e. timer_le (qe_expires_at e) now) (qt_snapshot q))"
  "fmlookup (qt_entries (snd (qt_poll_expired q now))) a =
     (if qt_expired q now a then None else fmlookup (qt_entries q) a)"
proof -
  let ?xs = "filter (\<lambda>(_, e). timer_le (qe_expires_at e) now) (entries (qt_entries q))"
  have d: "distinct (map fst ?xs)" by (rule distinct_filter_entries)
  have "\<forall>(a, e)\<in>set ?xs. fmlookup (qt_entries q) a = Some e" by (auto simp: set_entries)
  from qt_poll_fold [OF d this]
  have eq: "qt_poll_expired q now =
      (map (ClearedEvent \<circ> qe_authority \<circ> snd) ?xs, q\<lparr>qt_entries := fold (\<lambda>(a, _). fmdrop a) ?xs (qt_entries q)\<rparr>)"
    by (simp add: qt_poll_expired_def)
  then show "fst (qt_poll_expired q now) =
     map (ClearedEvent \<circ> qe_authority) (filter (\<lambda>e. timer_le (qe_expires_at e) now) (qt_snapshot q))"
    by (simp add: qt_snapshot_def map_values_def List.filter_map comp_def case_prod_unfold)
  have "fmlookup (fold (\<lambda>(a, _). fmdrop a) ?xs (qt_entries q)) a =
      (case map_of ?xs a of None \<Rightarrow> fmlookup (qt_entries q) a | Some _ \<Rightarrow> None)"
    using look_fold [where look = fmlookup and f = "\<lambda>k _. fmdrop k" and g = "\<lambda>_ _ _. None" and k = a and s = "qt_entries q", OF _ d]
    by simp
  with eq show "fmlookup (qt_entries (snd (qt_poll_expired q now))) a =
     (if qt_expired q now a then None else fmlookup (qt_entries q) a)"
    by (auto simp: map_of_filter_entries qt_expired_def split: option.splits)
qed

lemma qt_keyed_ops:
  "qt_keyed qt_new" "qt_keyed q \<Longrightarrow> qt_keyed (snd (qt_quarantine q a reason now ttl))"
  "qt_keyed q \<Longrightarrow> qt_keyed (snd (qt_clear q a))" "qt_keyed q \<Longrightarrow> qt_keyed (snd (qt_poll_expired q now))"
  by (auto simp: qt_keyed_def qt_new_def qt_quarantine_def qt_clear_def qt_poll_expired_eq(2)
      split: option.splits if_splits)

text \<open>The end of a quarantine: later than its start, by the number of ticks of the duration.\<close>

lemma ticks_add_duration:
  assumes "d \<noteq> 0" and "unat (ticks now) + max 1 (d div max (resolution now) 1) \<le> u64_max"
  shows "unat (ticks (add_duration now d)) = unat (ticks now) + max 1 (d div max (resolution now) 1)"
proof -
  let ?n = "max 1 (d div max (resolution now) 1)"
  have n: "unat (of_nat ?n :: u64) = ?n"
    using assms(2) by (simp add: unsigned_of_nat take_bit_nat_eq_self u64_max_def del: of_nat_max)
  have "add_duration now d = saturating_add_ticks now (of_nat ?n)"
    using assms by (auto simp: add_duration_def Let_def max_def)
  moreover have "checked_add (ticks now) (of_nat ?n) = Some (ticks now + of_nat ?n)"
    using assms(2) n by (simp add: checked_add_def u64_max_def)
  moreover from this n have "unat (ticks now + of_nat ?n) = unat (ticks now) + ?n"
    unfolding checked_add_Some_iff by simp
  ultimately show ?thesis
    by (simp add: saturating_add_ticks_def saturating_add_def del: of_nat_max)
qed

text \<open>
  A quarantine holds for its time to live and then ends: right after it is imposed the
  authority is quarantined; a poll at a tick before the end (start plus the duration in ticks, at
  least one) keeps it, a poll at or after the end clears it, reports it exactly once, and no poll
  touches the quarantine of another authority that has not expired.
\<close>

theorem quarantine_time_to_live:
  assumes "qt_keyed q" and "ttl \<noteq> 0"
    and "unat (ticks now) + max 1 (ttl div max (resolution now) 1) \<le> u64_max"
    and "resolution t = resolution now"
    and "q' = snd (qt_quarantine q a reason now ttl)"
  shows "qt_contains q' a \<and>
    (qt_contains (snd (qt_poll_expired q' t)) a \<longleftrightarrow>
       unat (ticks t) < unat (ticks now) + max 1 (ttl div max (resolution now) 1)) \<and>
    count_list (fst (qt_poll_expired q' t)) (ClearedEvent a) =
      (if qt_contains (snd (qt_poll_expired q' t)) a then 0 else 1) \<and>
    (\<forall>b. b \<noteq> a \<longrightarrow> \<not> qt_expired q t b \<longrightarrow>
       fmlookup (qt_entries (snd (qt_poll_expired q' t))) b = fmlookup (qt_entries q) b)"
proof -
  let ?e = "\<lparr>qe_authority = a, qe_reason = reason, qe_expires_at = add_duration now ttl\<rparr>"
  have q': "qt_entries q' = fmupd a ?e (qt_entries q)" and k: "qt_keyed q'"
    using assms(1,5) qt_keyed_ops(2) by (auto simp: qt_quarantine_def)
  have res: "resolution (add_duration now ttl) = resolution now"
    by (simp add: add_duration_def saturating_add_ticks_def Let_def)
  have le: "timer_le (add_duration now ttl) t \<longleftrightarrow>
      unat (ticks now) + max 1 (ttl div max (resolution now) 1) \<le> unat (ticks t)"
    using ticks_add_duration [OF assms(2,3)] res assms(4)
    by (auto simp: timer_le_def word_less_nat_alt word_unat_eq_iff)
  have exp: "qt_expired q' t a \<longleftrightarrow> timer_le (add_duration now ttl) t" by (simp add: qt_expired_def q')
  have cleared: "count_list (fst (qt_poll_expired q' t)) (ClearedEvent a) = (if qt_expired q' t a then 1 else 0)"
  proof -
    have "count_list (map (ClearedEvent \<circ> qe_authority \<circ> snd) xs) (ClearedEvent a) = (if a \<in> fst ` set xs then 1 else 0)"
      if "distinct (map fst xs)" "\<forall>(b, e)\<in>set xs. qe_authority e = b" for xs :: "(string \<times> quarantine_entry) list"
      using that by (induction xs) (fastforce simp: image_iff)+
    note c = this [of "filter (\<lambda>(_, e). timer_le (qe_expires_at e) t) (entries (qt_entries q'))"]
    have "a \<in> fst ` set (filter (\<lambda>(_, e). timer_le (qe_expires_at e) t) (entries (qt_entries q'))) \<longleftrightarrow> qt_expired q' t a"
      by (force simp: qt_expired_def set_entries image_iff)
    moreover have "fst (qt_poll_expired q' t) = map (ClearedEvent \<circ> qe_authority \<circ> snd)
        (filter (\<lambda>(_, e). timer_le (qe_expires_at e) t) (entries (qt_entries q')))"
      by (simp add: qt_poll_expired_eq qt_snapshot_def map_values_def List.filter_map comp_def case_prod_unfold)
    ultimately show ?thesis using c k by (simp add: distinct_filter_entries qt_keyed_def set_entries)
  qed
  have "fmlookup (qt_entries (snd (qt_poll_expired q' t))) b = fmlookup (qt_entries q) b"
    if "b \<noteq> a" "\<not> qt_expired q t b" for b
    using that by (auto simp: qt_poll_expired_eq(2) q' qt_expired_def)
  with cleared exp le show ?thesis
    by (auto simp: qt_contains_def contains_key_def qt_poll_expired_eq(2) q' not_le)
qed

theorem quarantine_time_to_live_witness:
  "let now = \<lparr>ticks = 5, resolution = 10\<rparr>; q = snd (qt_quarantine qt_new ''a:1'' ''r'' now 25)
   in qt_contains (snd (qt_poll_expired q \<lparr>ticks = 6, resolution = 10\<rparr>)) ''a:1'' \<and>
      \<not> qt_contains (snd (qt_poll_expired q \<lparr>ticks = 7, resolution = 10\<rparr>)) ''a:1''"
proof -
  let ?now = "\<lparr>ticks = 5, resolution = 10\<rparr> :: timer_instant"
  have h: "unat (ticks ?now) + max 1 (25 div max (resolution ?now) 1) \<le> u64_max"
    by (simp add: u64_max_def)
  note th = quarantine_time_to_live [OF qt_keyed_ops(1) _ h _ refl, of _ "''a:1''" "''r''"]
  show ?thesis
    using th [of "\<lparr>ticks = 6, resolution = 10\<rparr>"] th [of "\<lparr>ticks = 7, resolution = 10\<rparr>"] by (simp add: Let_def)
qed

end
