(* ===== verification/Gossip_State.thy ===== *)
theory Gossip_State
  imports Gossip_Sets
begin

text \<open>
  The full gossip state (\<open>membership/gossip_state_model.rs\<close> with \<open>gossip_state_snapshot.rs\<close>,
  \<open>gossip_merge_outcome.rs\<close>, \<open>gossip_merge_conflict.rs\<close> and \<open>gossip_tombstone_prune_outcome.rs\<close>):
  membership records merged by deterministic precedence, tombstones that keep removed members from
  coming back, superseded incarnations, reachability rows and the pruning of tombstones every
  active peer has seen. \<open>GossipStateModel\<close> only wraps its snapshot and is modelled by it.
\<close>

section \<open>Data\<close>

record gossip_state_snapshot =
  gs_membership :: membership_snapshot
  gs_tombstones :: gossip_tombstone_set
  gs_seen_digest :: gossip_seen_digest

type_synonym gossip_state_model = gossip_state_snapshot

record gossip_merge_conflict =
  gc_retained :: node_record
  gc_ignored :: node_record

record gossip_merge_outcome =
  applied_records :: "node_record list"
  merge_conflicts :: "gossip_merge_conflict list"
  tombstones_added :: "gossip_tombstone list"
  stale_records_suppressed :: "node_record list"

record gossip_tombstone_prune_outcome =
  pruned_tombstones :: "gossip_tombstone list"

definition gs_snapshot_new :: "membership_snapshot \<Rightarrow> gossip_tombstone_set \<Rightarrow> gossip_state_snapshot" where
  "gs_snapshot_new m ts = \<lparr>gs_membership = m, gs_tombstones = ts, gs_seen_digest = sd_new\<rparr>"

definition outcome_empty :: gossip_merge_outcome where
  "outcome_empty = \<lparr>applied_records = [], merge_conflicts = [], tombstones_added = [], stale_records_suppressed = []\<rparr>"

section \<open>Precedence of records\<close>

definition status_rank :: "node_status \<Rightarrow> nat" where
  "status_rank s =
     (case s of Dead \<Rightarrow> 9 | Removed \<Rightarrow> 8 | Exiting \<Rightarrow> 7 | Leaving \<Rightarrow> 6 | ReadyForShutdown \<Rightarrow> 5
      | PreparingForShutdown \<Rightarrow> 4 | Suspect \<Rightarrow> 3 | Up \<Rightarrow> 2 | WeaklyUp \<Rightarrow> 1 | Joining \<Rightarrow> 0)"

definition is_live_incarnation_status :: "node_status \<Rightarrow> bool" where
  "is_live_incarnation_status s \<longleftrightarrow> s \<notin> {Removed, Dead}"

definition record_tie_breaks_left :: "node_record \<Rightarrow> node_record \<Rightarrow> bool" where
  "record_tie_breaks_left l r \<longleftrightarrow>
     (if join_version l \<noteq> join_version r then join_version l > join_version r
      else if node_id l \<noteq> node_id r then node_id l > node_id r
      else if authority l \<noteq> authority r then authority l > authority r
      else if data_center l \<noteq> data_center r
        then data_center_name (data_center l) > data_center_name (data_center r)
      else if app_version l \<noteq> app_version r then app_version l > app_version r
      else roles l \<ge> roles r)"

definition preferred_record :: "node_record \<Rightarrow> node_record \<Rightarrow> node_record" where
  "preferred_record l r =
     (if version l > version r then l
      else if version r > version l then r
      else if status_rank (status l) > status_rank (status r) then l
      else if status_rank (status r) > status_rank (status l) then r
      else if record_tie_breaks_left l r then l else r)"

definition max_version :: "membership_version \<Rightarrow> membership_version \<Rightarrow> membership_version" where
  "max_version l r = (if l \<ge> r then l else r)"

section \<open>Reachability rows\<close>

definition reachability_status_rank :: "reachability_status \<Rightarrow> nat" where
  "reachability_status_rank s = (case s of Terminated \<Rightarrow> 2 | Unreachable \<Rightarrow> 1 | Reachable \<Rightarrow> 0)"

type_synonym reachability_rows = "(unique_address \<times> unique_address, reachability_record) fmap"

definition reachability_key :: "reachability_record \<Rightarrow> unique_address \<times> unique_address" where
  "reachability_key r = (rr_observer r, rr_subject r)"

text \<open>Rows the newer row of the other side no longer reports are dropped.\<close>

definition retain_rows ::
    "reachability_snapshot \<Rightarrow> unique_address \<Rightarrow> u64 \<Rightarrow> reachability_rows \<Rightarrow> reachability_rows" where
  "retain_rows right remote_observer remote_version records =
     filter_map (\<lambda>(observer, subject) r.
         observer \<noteq> remote_observer \<or> rr_version r \<ge> remote_version \<or>
         list_ex (\<lambda>q. rr_observer q = observer \<and> rr_subject q = subject) (rs_records right)) records"

definition merge_row :: "reachability_snapshot \<Rightarrow> reachability_record \<Rightarrow> reachability_rows \<Rightarrow> reachability_rows" where
  "merge_row left r records =
     (let key = reachability_key r in
      if (case fmlookup (rs_observer_versions left) (rr_observer r) of None \<Rightarrow> False | Some v \<Rightarrow> v > rr_version r)
         \<and> \<not> contains_key records key
      then records
      else case fmlookup records key of
             Some existing \<Rightarrow>
               if rr_version existing > rr_version r then records
               else if rr_version existing = rr_version r \<and>
                 reachability_status_rank (rr_status existing) \<ge> reachability_status_rank (rr_status r) then records
               else fmupd key r records
           | None \<Rightarrow> fmupd key r records)"

definition merge_reachability :: "reachability_snapshot \<Rightarrow> reachability_snapshot \<Rightarrow> reachability_snapshot" where
  "merge_reachability left right =
     (let records0 = fold (\<lambda>r m. fmupd (reachability_key r) r m) (rs_records left) fmempty;
          records1 = for_each (\<lambda>o' v m. retain_rows right o' v m) (rs_observer_versions right) records0;
          records2 = fold (merge_row left) (rs_records right) records1;
          observer_versions = for_each (\<lambda>o' v m. let e = get_or m o' 0 in fmupd o' (if e < v then v else e) m)
            (rs_observer_versions right) (rs_observer_versions left)
      in \<lparr>rs_records = map_values records2, rs_observer_versions = observer_versions\<rparr>)"

section \<open>The merge\<close>

type_synonym record_map = "(unique_address, node_record) fmap"

definition gsm_new :: "gossip_state_snapshot \<Rightarrow> gossip_state_model" where
  "gsm_new s =
     s\<lparr>gs_tombstones := snd (ts_merge (gs_tombstones s) (ts_from_records (ms_entries (gs_membership s))))\<rparr>"

definition collect_records :: "node_record list \<Rightarrow> record_map" where
  "collect_records rs = fold (\<lambda>r m. fmupd (unique_address r) r m) rs fmempty"

definition suppress_local ::
    "gossip_tombstone_set \<Rightarrow> record_map \<Rightarrow> gossip_merge_outcome \<Rightarrow> record_map \<times> gossip_merge_outcome" where
  "suppress_local ts records outcome =
     (let suppressed = filter (\<lambda>(_, r). ts_suppresses ts r) (entries records)
      in fold (\<lambda>(key, r) (m, o').
           if contains_key m key
           then (fmdrop key m, o'\<lparr>stale_records_suppressed := stale_records_suppressed o' @ [r]\<rparr>)
           else (m, o'))
         suppressed (records, outcome))"

definition supersede_step ::
    "node_record \<Rightarrow> unique_address \<Rightarrow> record_map \<times> gossip_merge_outcome \<Rightarrow> record_map \<times> gossip_merge_outcome" where
  "supersede_step remote key st =
     (let (m, o') = st in
      case fmlookup m key of
        None \<Rightarrow> (m, o')
      | Some r \<Rightarrow>
          let r' = r\<lparr>status := Dead, version := max_version (version r) (version remote)\<rparr>
          in (fmupd key r' m, o'\<lparr>stale_records_suppressed := stale_records_suppressed o' @ [r']\<rparr>))"

definition store_remote ::
    "node_record \<Rightarrow> record_map \<times> gossip_merge_outcome \<Rightarrow> record_map \<times> gossip_merge_outcome" where
  "store_remote remote st =
     (let (m, o') = st;
          key = unique_address remote
      in case fmlookup m key of
           Some local \<Rightarrow>
             (let preferred = preferred_record local remote;
                  o1 = (if version local = version remote \<and> local \<noteq> remote
                        then o'\<lparr>merge_conflicts := merge_conflicts o' @
                          [\<lparr>gc_retained = preferred, gc_ignored = (if preferred = remote then local else remote)\<rparr>]\<rparr>
                        else o')
              in if preferred = remote \<and> preferred \<noteq> local
                 then (fmupd key remote m, o1\<lparr>applied_records := applied_records o1 @ [remote]\<rparr>)
                 else (m, o1))
         | None \<Rightarrow> (fmupd key remote m, o'\<lparr>applied_records := applied_records o' @ [remote]\<rparr>))"

definition merge_remote_record ::
    "gossip_tombstone_set \<Rightarrow> node_record \<Rightarrow> record_map \<times> gossip_merge_outcome \<Rightarrow> record_map \<times> gossip_merge_outcome" where
  "merge_remote_record ts remote st =
     (let (m, o') = st;
          stale = (m, o'\<lparr>stale_records_suppressed := stale_records_suppressed o' @ [remote]\<rparr>)
      in if ts_suppresses ts remote then stale
         else if list_ex (\<lambda>r. unique_address r \<noteq> unique_address remote \<and> authority r = authority remote \<and>
                    is_live_incarnation_status (status r) \<and> join_version r > join_version remote) (map_values m)
         then stale
         else
           let superseded_keys = map fst (filter (\<lambda>(_, r). unique_address r \<noteq> unique_address remote \<and>
                   authority r = authority remote \<and> is_active (status r) \<and> join_version r < join_version remote) (entries m))
           in store_remote remote (fold (supersede_step remote) superseded_keys (m, o')))"

definition gsm_merge :: "gossip_state_model \<Rightarrow> gossip_state_snapshot \<Rightarrow> gossip_merge_outcome \<times> gossip_state_model" where
  "gsm_merge self remote0 =
     (let remote = gsm_new remote0;
          (added, ts) = ts_merge (gs_tombstones self) (gs_tombstones remote);
          outcome = outcome_empty\<lparr>tombstones_added := added\<rparr>;
          seen = snd (sd_merge (gs_seen_digest self) (gs_seen_digest remote));
          records = collect_records (ms_entries (gs_membership self));
          (records, outcome) = suppress_local ts records outcome;
          (records, outcome) = fold (merge_remote_record ts) (ms_entries (gs_membership remote)) (records, outcome);
          es = map_values records;
          (added', ts') = ts_merge ts (ts_from_records es);
          outcome = outcome\<lparr>tombstones_added := tombstones_added outcome @ added'\<rparr>;
          membership =
            \<lparr>ms_version = max_version (ms_version (gs_membership self)) (ms_version (gs_membership remote)),
             ms_entries = es,
             ms_reachability = merge_reachability (ms_reachability (gs_membership self)) (ms_reachability (gs_membership remote))\<rparr>
      in (outcome, \<lparr>gs_membership = membership, gs_tombstones = ts', gs_seen_digest = seen\<rparr>))"

section \<open>Pruning and seen versions\<close>

definition prune_step :: "gossip_tombstone \<Rightarrow> membership_snapshot \<Rightarrow> membership_snapshot" where
  "prune_step t m =
     (let rs = ms_reachability m in
      m\<lparr>ms_entries := filter (\<lambda>r. unique_address r \<noteq> gt_member t \<or> status r \<notin> {Removed, Dead} \<or> version r > gt_version t)
          (ms_entries m),
        ms_reachability := rs\<lparr>
          rs_records := filter (\<lambda>r. rr_observer r \<noteq> gt_member t \<and> rr_subject r \<noteq> gt_member t) (rs_records rs),
          rs_observer_versions := fmdrop (gt_member t) (rs_observer_versions rs)\<rparr>\<rparr>)"

definition gsm_prune_retained_tombstones ::
    "gossip_state_model \<Rightarrow> membership_version \<Rightarrow> gossip_tombstone_prune_outcome \<times> gossip_state_model" where
  "gsm_prune_retained_tombstones s retained_through =
     (let (pruned, ts) = ts_prune_retained (gs_tombstones s) retained_through
      in (\<lparr>pruned_tombstones = pruned\<rparr>,
          s\<lparr>gs_tombstones := ts, gs_membership := fold prune_step pruned (gs_membership s)\<rparr>))"

definition gsm_mark_seen :: "gossip_state_model \<Rightarrow> unique_address \<Rightarrow> membership_version \<Rightarrow> bool \<times> gossip_state_model" where
  "gsm_mark_seen s peer v =
     (let (changed, d) = sd_mark_seen (gs_seen_digest s) peer v in (changed, s\<lparr>gs_seen_digest := d\<rparr>))"

definition gsm_has_seen_all :: "gossip_state_model \<Rightarrow> unique_address list \<Rightarrow> membership_version \<Rightarrow> bool" where
  "gsm_has_seen_all s active_peers v \<longleftrightarrow> sd_has_seen_all (gs_seen_digest s) active_peers v"

definition gsm_prune_tombstones_when_seen_by_all ::
    "gossip_state_model \<Rightarrow> unique_address list \<Rightarrow> membership_version \<Rightarrow>
      gossip_tombstone_prune_outcome \<times> gossip_state_model" where
  "gsm_prune_tombstones_when_seen_by_all s active_peers v =
     (if gsm_has_seen_all s active_peers v then gsm_prune_retained_tombstones s v
      else (\<lparr>pruned_tombstones = []\<rparr>, s))"

section \<open>Precedence is a total order\<close>

definition record_rank ::
    "node_record \<Rightarrow> membership_version \<times> nat \<times> membership_version \<times> string \<times> string \<times> string \<times> string \<times> string list" where
  "record_rank r = (version r, status_rank (status r), join_version r, node_id r, authority r,
     data_center_name (data_center r), app_version r, roles r)"

lemma status_rank_inject [simp]: "status_rank a = status_rank b \<longleftrightarrow> a = b"
  by (cases a; cases b) (simp_all add: status_rank_def)

lemma data_center_name_inject [simp]: "data_center_name a = data_center_name b \<longleftrightarrow> a = b"
  by (cases a; cases b) simp

lemma record_rank_inject: "record_rank a = record_rank b \<Longrightarrow> unique_address a = unique_address b \<Longrightarrow> a = b"
  by (rule node_record.equality) (simp_all add: record_rank_def)

lemma preferred_record_rank: "preferred_record l r = (if record_rank r \<le> record_rank l then l else r)"
  unfolding preferred_record_def record_tie_breaks_left_def record_rank_def less_eq_prod_simp less_prod_simp
  by (auto simp: not_less not_le dest: order_antisym)

lemma preferred_record_simps:
  "unique_address l = unique_address r \<Longrightarrow> preferred_record l r = preferred_record r l"
  "preferred_record (preferred_record a b) c = preferred_record a (preferred_record b c)"
  "preferred_record r r = r"
  by (auto simp: preferred_record_rank intro: record_rank_inject)

section \<open>Record maps\<close>

definition keyed_map :: "record_map \<Rightarrow> bool" where
  "keyed_map m \<longleftrightarrow> (\<forall>k r. fmlookup m k = Some r \<longrightarrow> unique_address r = k)"

abbreviation addressed :: "node_record list \<Rightarrow> (unique_address \<times> node_record) list" where
  "addressed rs \<equiv> map (\<lambda>r. (unique_address r, r)) rs"

lemma lookup_collect_records:
  "distinct (map unique_address rs) \<Longrightarrow> fmlookup (collect_records rs) k = map_of (addressed rs) k"
proof -
  assume d: "distinct (map unique_address rs)"
  have "collect_records rs = fold (\<lambda>(k, v). fmupd k v) (addressed rs) fmempty"
    by (simp add: collect_records_def fold_map comp_def)
  also have "fmlookup \<dots> k = (case map_of (addressed rs) k of None \<Rightarrow> fmlookup fmempty k | Some v \<Rightarrow> Some v)"
    using d by (intro look_fold) (simp_all add: comp_def)
  finally show ?thesis by (simp split: option.split)
qed

lemma keyed_map_upd: "keyed_map m \<Longrightarrow> unique_address r = k \<Longrightarrow> keyed_map (fmupd k r m)"
  by (simp add: keyed_map_def)

lemma keyed_map_collect: "keyed_map (collect_records rs)"
proof -
  have "keyed_map m \<Longrightarrow> keyed_map (fold (\<lambda>r m. fmupd (unique_address r) r m) rs m)" for m
    by (induction rs arbitrary: m) (simp_all add: keyed_map_upd)
  from this [of fmempty] show ?thesis by (simp add: collect_records_def keyed_map_def)
qed

lemma addressed_map_values: "keyed_map m \<Longrightarrow> addressed (map_values m) = entries m"
  by (auto simp: map_values_def keyed_map_def set_entries intro!: map_idI)

lemma distinct_map_values: "keyed_map m \<Longrightarrow> distinct (map unique_address (map_values m))"
  using distinct_entries [of m] addressed_map_values [of m] by (metis (no_types, lifting) comp_apply fst_conv list.map_comp map_eq_conv)

lemma collect_map_values: "keyed_map m \<Longrightarrow> collect_records (map_values m) = m"
  by (simp add: fmap_eq_iff lookup_collect_records distinct_map_values addressed_map_values)

section \<open>No stale record survives a merge\<close>

definition unsuppressed :: "gossip_tombstone_set \<Rightarrow> record_map \<Rightarrow> bool" where
  "unsuppressed ts m \<longleftrightarrow> keyed_map m \<and> (\<forall>k r. fmlookup m k = Some r \<longrightarrow> \<not> ts_suppresses ts r)"

lemma suppress_local_lookup:
  "fmlookup (fst (suppress_local ts m o')) k =
     (case fmlookup m k of None \<Rightarrow> None | Some r \<Rightarrow> if ts_suppresses ts r then None else Some r)"
proof -
  let ?xs = "filter (\<lambda>(_, r). ts_suppresses ts r) (entries m)"
  let ?f = "\<lambda>key r (m, o'). if contains_key m key
      then (fmdrop key m, o'\<lparr>stale_records_suppressed := stale_records_suppressed o' @ [r]\<rparr>) else (m, o')"
  have "fmlookup (fst (fold (\<lambda>(k, r). ?f k r) ?xs (m, o'))) k =
      (case map_of ?xs k of None \<Rightarrow> fmlookup (fst (m, o')) k | Some _ \<Rightarrow> None)"
    by (rule look_fold [where look = "\<lambda>s. fmlookup (fst s)" and g = "\<lambda>_ _ _. None"])
      (auto simp: contains_key_def distinct_filter_entries)
  then show ?thesis
    by (auto simp: suppress_local_def map_of_filter_entries split: option.split)
qed

lemma suppress_local_unsuppressed: "keyed_map m \<Longrightarrow> unsuppressed ts (fst (suppress_local ts m o'))"
  by (auto simp: unsuppressed_def keyed_map_def suppress_local_lookup split: option.splits if_splits)

lemma unsuppressed_upd:
  "unsuppressed ts m \<Longrightarrow> unique_address r = k \<Longrightarrow> \<not> ts_suppresses ts r \<Longrightarrow> unsuppressed ts (fmupd k r m)"
  by (auto simp: unsuppressed_def keyed_map_upd)

lemma supersede_step_unsuppressed:
  assumes "unsuppressed ts m"
  shows "unsuppressed ts (fst (supersede_step remote key (m, o')))"
proof (cases "fmlookup m key")
  case (Some r)
  let ?r = "r\<lparr>status := Dead, version := max_version (version r) (version remote)\<rparr>"
  have "\<not> ts_suppresses ts r" "unique_address r = key" using assms Some by (auto simp: unsuppressed_def keyed_map_def)
  then have "\<not> ts_suppresses ts ?r"
    by (auto simp: ts_suppresses_version max_version_def is_terminal_def split: option.splits if_splits)
  with Some \<open>unique_address r = key\<close> assms show ?thesis
    by (simp add: supersede_step_def Let_def unsuppressed_upd)
qed (use assms in \<open>simp add: supersede_step_def\<close>)

lemma store_remote_unsuppressed:
  "unsuppressed ts m \<Longrightarrow> \<not> ts_suppresses ts remote \<Longrightarrow> unsuppressed ts (fst (store_remote remote (m, o')))"
  by (simp add: store_remote_def Let_def unsuppressed_upd split: option.split)

lemma merge_remote_record_unsuppressed:
  assumes "unsuppressed ts m"
  shows "unsuppressed ts (fst (merge_remote_record ts remote (m, o')))"
proof -
  have "unsuppressed ts (fst (fold (supersede_step remote) keys (m, o')))" for keys
    using assms
  proof (induction keys arbitrary: m o')
    case (Cons k keys)
    obtain m' o'' where s: "supersede_step remote k (m, o') = (m', o'')" by fastforce
    then have "unsuppressed ts m'" using supersede_step_unsuppressed [OF Cons.prems, of remote k o'] by simp
    with Cons.IH s show ?case by simp
  qed simp
  then have "unsuppressed ts (fst (store_remote remote (fold (supersede_step remote) keys (m, o'))))"
    if "\<not> ts_suppresses ts remote" for keys
    using store_remote_unsuppressed [OF _ that] by (metis prod.collapse)
  with assms show ?thesis by (simp add: merge_remote_record_def Let_def)
qed

lemma merge_remote_fold_unsuppressed:
  "unsuppressed ts m \<Longrightarrow> unsuppressed ts (fst (fold (merge_remote_record ts) rs (m, o')))"
proof (induction rs arbitrary: m o')
  case (Cons r rs)
  obtain m' o'' where s: "merge_remote_record ts r (m, o') = (m', o'')" by fastforce
  then have "unsuppressed ts m'" using merge_remote_record_unsuppressed [OF Cons.prems, of r o'] by simp
  with Cons.IH s show ?case by simp
qed simp

lemma max_version_max: "max_version l r = max l r"
  by (auto simp: max_version_def max_def)

text \<open>The parts of a merge.\<close>

definition merged_tombstones :: "gossip_state_model \<Rightarrow> gossip_state_snapshot \<Rightarrow> gossip_tombstone_set" where
  "merged_tombstones a b = snd (ts_merge (gs_tombstones a) (gs_tombstones (gsm_new b)))"

definition merged_records :: "gossip_state_model \<Rightarrow> gossip_state_snapshot \<Rightarrow> record_map" where
  "merged_records a b =
     fst (fold (merge_remote_record (merged_tombstones a b)) (ms_entries (gs_membership b))
       (suppress_local (merged_tombstones a b) (collect_records (ms_entries (gs_membership a)))
         (outcome_empty\<lparr>tombstones_added := fst (ts_merge (gs_tombstones a) (gs_tombstones (gsm_new b)))\<rparr>)))"

lemma gs_membership_new [simp]: "gs_membership (gsm_new b) = gs_membership b" "gs_seen_digest (gsm_new b) = gs_seen_digest b"
  by (simp_all add: gsm_new_def)

lemma gsm_merge_parts:
  "ms_entries (gs_membership (snd (gsm_merge a b))) = map_values (merged_records a b)"
  "gs_tombstones (snd (gsm_merge a b)) =
     snd (ts_merge (merged_tombstones a b) (ts_from_records (map_values (merged_records a b))))"
  "gs_seen_digest (snd (gsm_merge a b)) = snd (sd_merge (gs_seen_digest a) (gs_seen_digest b))"
  "ms_version (gs_membership (snd (gsm_merge a b))) = max (ms_version (gs_membership a)) (ms_version (gs_membership b))"
  by (simp_all add: gsm_merge_def Let_def split_beta merged_records_def merged_tombstones_def max_version_max)

lemma merged_records_unsuppressed: "unsuppressed (merged_tombstones a b) (merged_records a b)"
proof -
  let ?o = "outcome_empty\<lparr>tombstones_added := fst (ts_merge (gs_tombstones a) (gs_tombstones (gsm_new b)))\<rparr>"
  let ?ts = "merged_tombstones a b"
  obtain m o' where m: "suppress_local ?ts (collect_records (ms_entries (gs_membership a))) ?o = (m, o')" by fastforce
  have "unsuppressed ?ts m"
    using suppress_local_unsuppressed [OF keyed_map_collect, of ?ts "ms_entries (gs_membership a)" ?o] m by simp
  then show ?thesis
    unfolding merged_records_def m by (rule merge_remote_fold_unsuppressed)
qed

lemma merged_records_keyed: "keyed_map (merged_records a b)"
  using merged_records_unsuppressed unsuppressed_def by blast

lemma set_merged_entries:
  "r \<in> set (ms_entries (gs_membership (snd (gsm_merge a b)))) \<longleftrightarrow> fmlookup (merged_records a b) (unique_address r) = Some r"
proof -
  have "r \<in> set (map_values (merged_records a b)) \<longleftrightarrow> (\<exists>k. fmlookup (merged_records a b) k = Some r)"
    by (simp add: set_map_values)
  then show ?thesis using merged_records_keyed [of a b] by (auto simp: gsm_merge_parts keyed_map_def)
qed

lemma ts_keyed_new_model: "ts_keyed (gs_tombstones s) \<Longrightarrow> ts_keyed (gs_tombstones (gsm_new s))"
  by (simp add: gsm_new_def ts_keyed_merge)

lemma merged_tombstones_version:
  assumes "ts_keyed (gs_tombstones b)"
  shows "ts_version (merged_tombstones a b) k =
    max (ts_version (gs_tombstones a) k)
      (max (ts_version (gs_tombstones b) k) (ts_version (ts_from_records (ms_entries (gs_membership b))) k))"
  using assms by (simp add: merged_tombstones_def ts_version_merge ts_keyed_new_model, simp add: gsm_new_def ts_version_merge ts_keyed_from_records)

lemma ts_keyed_merged: "ts_keyed (gs_tombstones a) \<Longrightarrow> ts_keyed (merged_tombstones a b)"
  by (simp add: merged_tombstones_def ts_keyed_merge)

text \<open>The final tombstones: those of both sides, raised to the version of a terminal record that is kept.\<close>

lemma final_tombstones_version:
  "ts_version (gs_tombstones (snd (gsm_merge a b))) k =
     max (ts_version (merged_tombstones a b) k)
       (case fmlookup (merged_records a b) k of None \<Rightarrow> None | Some r \<Rightarrow> terminal_version r)"
proof -
  let ?m = "merged_records a b"
  have "ts_version (ts_from_records (map_values ?m)) k = (case fmlookup ?m k of None \<Rightarrow> None | Some r \<Rightarrow> terminal_version r)"
  proof (cases "fmlookup ?m k")
    case None
    have "k \<notin> unique_address ` set (map_values ?m)"
      using None merged_records_keyed [of a b] by (auto simp: set_map_values keyed_map_def)
    with None show ?thesis by (simp add: ts_version_from_records_None)
  next
    case (Some r)
    then have "r \<in> set (map_values ?m)" "unique_address r = k"
      using merged_records_keyed [of a b] by (auto simp: set_map_values keyed_map_def)
    with Some ts_version_from_records [OF distinct_map_values [OF merged_records_keyed], of r a b] show ?thesis by simp
  qed
  then show ?thesis by (simp add: gsm_merge_parts ts_version_merge ts_keyed_from_records)
qed

lemma merged_record_not_stale:
  assumes "fmlookup (merged_records a b) (unique_address r) = Some r"
  shows "\<not> ts_suppresses (gs_tombstones (snd (gsm_merge a b))) r"
proof -
  have "\<not> ts_suppresses (merged_tombstones a b) r"
    using assms merged_records_unsuppressed [of a b] by (auto simp: unsuppressed_def)
  with assms show ?thesis
    unfolding ts_suppresses_version final_tombstones_version
    by (auto simp: terminal_version_def max_def split: option.splits if_splits)
qed

text \<open>
  Claim C11. A merge of gossip states never leaves a stale record: whatever the two sides hold, the
  merged records have distinct addresses, no merged record is suppressed by the merged tombstones,
  and the merged tombstones are at least those of both sides and of every terminal record kept. So
  a removed or dead member comes back only with a record newer than its tombstone.
\<close>

theorem gossip_merge_no_stale_records:
  assumes "ts_keyed (gs_tombstones b)" and "s = snd (gsm_merge a b)"
  shows "distinct (map unique_address (ms_entries (gs_membership s))) \<and>
    (\<forall>r\<in>set (ms_entries (gs_membership s)). \<not> ts_suppresses (gs_tombstones s) r \<and>
       (is_terminal (status r) \<longrightarrow> ts_version (gs_tombstones s) (unique_address r) = Some (version r))) \<and>
    (\<forall>k. ts_version (gs_tombstones a) k \<le> ts_version (gs_tombstones s) k \<and>
         ts_version (gs_tombstones b) k \<le> ts_version (gs_tombstones s) k) \<and>
    (\<forall>r k v. (ts_version (gs_tombstones a) k = Some v \<or> ts_version (gs_tombstones b) k = Some v) \<longrightarrow>
       r \<in> set (ms_entries (gs_membership s)) \<longrightarrow> unique_address r = k \<longrightarrow>
       version r > v \<or> version r = v \<and> is_terminal (status r))"
proof -
  have mono: "ts_version (gs_tombstones a) k \<le> ts_version (gs_tombstones s) k"
    "ts_version (gs_tombstones b) k \<le> ts_version (gs_tombstones s) k" for k
    unfolding assms(2) final_tombstones_version merged_tombstones_version [OF assms(1)]
    by (simp_all add: max.coboundedI1 max.coboundedI2)
  have ns: "\<not> ts_suppresses (gs_tombstones s) r" if "r \<in> set (ms_entries (gs_membership s))" for r
    using that merged_record_not_stale unfolding assms(2) set_merged_entries by blast
  have newer: "version r > v \<or> version r = v \<and> is_terminal (status r)"
    if "ts_version (gs_tombstones a) (unique_address r) = Some v \<or> ts_version (gs_tombstones b) (unique_address r) = Some v"
      "r \<in> set (ms_entries (gs_membership s))" for r v
    using ns [OF that(2)] mono [of "unique_address r"] that(1)
    by (auto simp: ts_suppresses_version split: option.splits)
  have "ts_version (gs_tombstones s) (unique_address r) = Some (version r)"
    if "r \<in> set (ms_entries (gs_membership s))" "is_terminal (status r)" for r
  proof -
    from that(1) have "fmlookup (merged_records a b) (unique_address r) = Some r" unfolding assms(2) set_merged_entries .
    with that(2) have "Some (version r) \<le> ts_version (gs_tombstones s) (unique_address r)"
      unfolding assms(2) final_tombstones_version by (simp add: terminal_version_def)
    with ns [OF that(1)] show ?thesis by (auto simp: ts_suppresses_version split: option.splits)
  qed
  moreover have "distinct (map unique_address (ms_entries (gs_membership s)))"
    by (simp add: assms(2) gsm_merge_parts distinct_map_values merged_records_keyed)
  ultimately show ?thesis using mono ns newer by blast
qed

text \<open>Reachability rows: the version kept for an observer is the greater one.\<close>

lemma merge_reachability_versions:
  "slot (rs_observer_versions (merge_reachability l r)) k = max (slot (rs_observer_versions l) k) (slot (rs_observer_versions r) k)"
proof -
  have "slot (for_each (\<lambda>o' v m. let e = get_or m o' 0 in fmupd o' (if e < v then v else e) m) m0 m1) k =
      (case fmlookup m0 k of None \<Rightarrow> slot m1 k | Some v \<Rightarrow> max (slot m1 k) v)" for m0 m1 :: "(unique_address, u64) fmap"
    by (rule look_for_each [where look = slot and g = "\<lambda>k v c. max c v"]) (auto simp: Let_def max_def)
  then show ?thesis
    by (simp add: merge_reachability_def Let_def slot_alt [of "rs_observer_versions r"] split: option.split)
qed

section \<open>Merging as a join\<close>

text \<open>
  What a state knows of a member: the record under its address, filtered by the tombstone version
  and combined by precedence.
\<close>

definition suppressed_at :: "membership_version option \<Rightarrow> node_record \<Rightarrow> bool" where
  "suppressed_at v r \<longleftrightarrow>
     (case v of None \<Rightarrow> False | Some w \<Rightarrow> w > version r \<or> w = version r \<and> \<not> is_terminal (status r))"

definition keep :: "membership_version option \<Rightarrow> node_record option \<Rightarrow> node_record option" where
  "keep v x = (case x of None \<Rightarrow> None | Some r \<Rightarrow> if suppressed_at v r then None else Some r)"

definition join_record :: "node_record option \<Rightarrow> node_record option \<Rightarrow> node_record option" where
  "join_record x y =
     (case x of None \<Rightarrow> y | Some l \<Rightarrow> (case y of None \<Rightarrow> Some l | Some r \<Rightarrow> Some (preferred_record l r)))"

definition rec_of :: "gossip_state_model \<Rightarrow> unique_address \<Rightarrow> node_record option" where
  "rec_of s k = fmlookup (collect_records (ms_entries (gs_membership s))) k"

lemma suppresses_at: "ts_suppresses ts r \<longleftrightarrow> suppressed_at (ts_version ts (unique_address r)) r"
  by (simp add: ts_suppresses_version suppressed_at_def)

lemma rec_of_address: "rec_of s k = Some r \<Longrightarrow> unique_address r = k"
  using keyed_map_collect [of "ms_entries (gs_membership s)"] by (simp add: rec_of_def keyed_map_def)

lemma join_record_simps [simp]: "join_record None y = y" "join_record x None = x"
  by (simp_all add: join_record_def split: option.split)

lemma keep_simps [simp]: "keep v None = None" "keep None x = x"
  by (simp_all add: keep_def suppressed_at_def split: option.split)

lemma join_record_assoc: "join_record (join_record x y) z = join_record x (join_record y z)"
  by (cases x; cases y; cases z) (simp_all add: join_record_def preferred_record_simps(2))

lemma join_record_commute:
  "(\<And>r. x = Some r \<Longrightarrow> unique_address r = k) \<Longrightarrow> (\<And>r. y = Some r \<Longrightarrow> unique_address r = k) \<Longrightarrow>
     join_record x y = join_record y x"
  by (cases x; cases y) (simp_all add: join_record_def preferred_record_simps(1))

lemma join_record_idem: "join_record x x = x"
  by (cases x) (simp_all add: join_record_def preferred_record_simps(3))

lemma keep_address: "keep v x = Some r \<Longrightarrow> x = Some r"
  by (auto simp: keep_def split: option.splits if_splits)

text \<open>Records that survive a tombstone form an upper set of the precedence.\<close>

lemma unsuppressed_upward:
  "record_rank l \<le> record_rank r \<Longrightarrow> \<not> suppressed_at v l \<Longrightarrow> \<not> suppressed_at v r"
  by (cases "status l"; cases "status r")
    (auto simp: record_rank_def suppressed_at_def less_eq_prod_simp is_terminal_def status_rank_def split: option.splits)

lemma suppressed_mono: "v \<le> w \<Longrightarrow> suppressed_at v r \<Longrightarrow> suppressed_at w r"
  by (cases w) (auto simp: suppressed_at_def split: option.splits)

lemma keep_join_record:
  assumes "v \<le> w"
  shows "keep w (join_record (keep v x) (keep v y)) = join_record (keep w x) (keep w y)"
  using suppressed_mono [OF assms] unsuppressed_upward [of _ _ w]
  by (cases x; cases y) (fastforce simp: keep_def join_record_def preferred_record_rank not_le split: if_splits dest: less_imp_le)+

section \<open>The merge without reused authorities\<close>

text \<open>
  \<open>h\<close> gives the one incarnation that owns an authority. A state is settled when its tombstones
  cover its terminal records and suppress none of its records, which every merge establishes.
\<close>

definition gs_valid :: "(string \<Rightarrow> unique_address) \<Rightarrow> gossip_state_model \<Rightarrow> bool" where
  "gs_valid h s \<longleftrightarrow> ts_keyed (gs_tombstones s) \<and> distinct (map unique_address (ms_entries (gs_membership s))) \<and>
     (\<forall>r\<in>set (ms_entries (gs_membership s)). h (authority r) = unique_address r \<and>
        \<not> ts_suppresses (gs_tombstones s) r \<and> terminal_version r \<le> ts_version (gs_tombstones s) (unique_address r))"

definition gs_same :: "gossip_state_model \<Rightarrow> gossip_state_model \<Rightarrow> bool" where
  "gs_same a b \<longleftrightarrow> ms_version (gs_membership a) = ms_version (gs_membership b) \<and>
     collect_records (ms_entries (gs_membership a)) = collect_records (ms_entries (gs_membership b)) \<and>
     gs_tombstones a = gs_tombstones b \<and> gs_seen_digest a = gs_seen_digest b"

definition owned_map :: "(string \<Rightarrow> unique_address) \<Rightarrow> record_map \<Rightarrow> bool" where
  "owned_map h m \<longleftrightarrow> (\<forall>k r. fmlookup m k = Some r \<longrightarrow> unique_address r = k \<and> h (authority r) = k)"

lemma owned_no_rival:
  assumes "owned_map h m" and "h (authority remote) = unique_address remote"
  shows "\<not> list_ex (\<lambda>r. unique_address r \<noteq> unique_address remote \<and> authority r = authority remote \<and> P r) (map_values m)"
    and "filter (\<lambda>(_, r). unique_address r \<noteq> unique_address remote \<and> authority r = authority remote \<and> P r) (entries m) = []"
proof -
  have "r \<in> set (map_values m) \<Longrightarrow> authority r = authority remote \<Longrightarrow> unique_address r = unique_address remote" for r
    using assms by (fastforce simp: set_map_values owned_map_def)
  then show "\<not> list_ex (\<lambda>r. unique_address r \<noteq> unique_address remote \<and> authority r = authority remote \<and> P r) (map_values m)"
    by (auto simp: list_ex_iff)
  have "fmlookup m k = Some r \<Longrightarrow> authority r = authority remote \<Longrightarrow> unique_address r = unique_address remote" for k r
    using assms by (fastforce simp: owned_map_def)
  then show "filter (\<lambda>(_, r). unique_address r \<noteq> unique_address remote \<and> authority r = authority remote \<and> P r) (entries m) = []"
    by (auto simp: filter_empty_conv set_entries)
qed

lemma merge_remote_record_owned:
  assumes "owned_map h m" and "h (authority remote) = unique_address remote"
  shows "fmlookup (fst (merge_remote_record ts remote (m, o'))) k =
      (if k = unique_address remote then join_record (fmlookup m k) (keep (ts_version ts k) (Some remote)) else fmlookup m k)"
    and "owned_map h (fst (merge_remote_record ts remote (m, o')))"
proof -
  show l: "fmlookup (fst (merge_remote_record ts remote (m, o'))) k =
      (if k = unique_address remote then join_record (fmlookup m k) (keep (ts_version ts k) (Some remote)) else fmlookup m k)" for k
    using owned_no_rival(1) [OF assms, of "\<lambda>r. is_live_incarnation_status (status r) \<and> join_version r > join_version remote"]
      owned_no_rival(2) [OF assms, of "\<lambda>r. is_active (status r) \<and> join_version r < join_version remote"]
    by (auto simp: merge_remote_record_def store_remote_def Let_def keep_def join_record_def suppresses_at
        preferred_record_rank split: option.split)
  show "owned_map h (fst (merge_remote_record ts remote (m, o')))"
    unfolding owned_map_def l using assms
    by (auto simp: owned_map_def join_record_def keep_def preferred_record_rank split: option.splits if_splits)
qed

lemma merge_remote_fold_owned:
  assumes "owned_map h m" and "distinct (map unique_address rs)" and "\<forall>r\<in>set rs. h (authority r) = unique_address r"
  shows "fmlookup (fst (fold (merge_remote_record ts) rs (m, o'))) k =
      join_record (fmlookup m k) (keep (ts_version ts k) (map_of (addressed rs) k)) \<and>
    owned_map h (fst (fold (merge_remote_record ts) rs (m, o')))"
  using assms
proof (induction rs arbitrary: m o')
  case (Cons r rs)
  obtain m' o'' where s: "merge_remote_record ts r (m, o') = (m', o'')" by fastforce
  have m': "fmlookup m' j = (if j = unique_address r then join_record (fmlookup m j) (keep (ts_version ts j) (Some r)) else fmlookup m j)"
    "owned_map h m'" for j
    using merge_remote_record_owned [of h m r ts o'] Cons.prems s by auto
  have "map_of (addressed rs) k = None" if "k = unique_address r"
    using Cons.prems(2) that by (auto simp: map_of_eq_None_iff image_iff)
  with Cons.IH [OF m'(2), of o''] Cons.prems s m'(1) [of k] show ?case by auto
qed simp

lemma gs_validD:
  assumes "gs_valid h s"
  shows "ts_keyed (gs_tombstones s)" and "distinct (map unique_address (ms_entries (gs_membership s)))"
    and "\<forall>r\<in>set (ms_entries (gs_membership s)). h (authority r) = unique_address r"
  using assms by (auto simp: gs_valid_def)

lemma rec_of_map_of: "gs_valid h s \<Longrightarrow> rec_of s k = map_of (addressed (ms_entries (gs_membership s))) k"
  by (simp add: rec_of_def lookup_collect_records gs_validD(2))

lemma rec_of_in: "gs_valid h s \<Longrightarrow> rec_of s k = Some r \<Longrightarrow> r \<in> set (ms_entries (gs_membership s))"
  by (auto simp: rec_of_map_of dest: map_of_SomeD)

lemma rec_of_terminal:
  "gs_valid h s \<Longrightarrow> rec_of s k = Some r \<Longrightarrow> terminal_version r \<le> ts_version (gs_tombstones s) k"
  using rec_of_in rec_of_address unfolding gs_valid_def by blast

lemma rec_of_keep: "gs_valid h s \<Longrightarrow> keep (ts_version (gs_tombstones s) k) (rec_of s k) = rec_of s k"
  using rec_of_in [of h s k] rec_of_address [of s k]
  by (cases "rec_of s k") (auto simp: keep_def gs_valid_def suppresses_at)

lemma merged_tombstones_valid:
  assumes "gs_valid h b"
  shows "ts_version (merged_tombstones a b) k = max (ts_version (gs_tombstones a) k) (ts_version (gs_tombstones b) k)"
proof -
  have "ts_version (ts_from_records (ms_entries (gs_membership b))) k \<le> ts_version (gs_tombstones b) k"
  proof (cases "k \<in> unique_address ` set (ms_entries (gs_membership b))")
    case True
    then obtain r where "r \<in> set (ms_entries (gs_membership b))" "k = unique_address r" by blast
    with assms ts_version_from_records [OF gs_validD(2) [OF assms], of r] show ?thesis by (auto simp: gs_valid_def)
  next
    case False
    then show ?thesis by (simp add: ts_version_from_records_None)
  qed
  then show ?thesis by (simp add: merged_tombstones_version [OF gs_validD(1) [OF assms]] max.absorb1)
qed

lemma merged_records_valid:
  assumes "gs_valid h a" and "gs_valid h b" and "T = max (ts_version (gs_tombstones a) k) (ts_version (gs_tombstones b) k)"
  shows "fmlookup (merged_records a b) k = join_record (keep T (rec_of a k)) (keep T (rec_of b k))"
    and "owned_map h (merged_records a b)"
proof -
  let ?o = "outcome_empty\<lparr>tombstones_added := fst (ts_merge (gs_tombstones a) (gs_tombstones (gsm_new b)))\<rparr>"
  let ?ts = "merged_tombstones a b"
  obtain m o' where m: "suppress_local ?ts (collect_records (ms_entries (gs_membership a))) ?o = (m, o')" by fastforce
  have mk: "fmlookup m j = keep (ts_version ?ts j) (rec_of a j)" for j
    using suppress_local_lookup [of ?ts "collect_records (ms_entries (gs_membership a))" ?o j] m rec_of_address [of a j]
    by (auto simp: keep_def rec_of_def suppresses_at split: option.split)
  have "owned_map h m"
    unfolding owned_map_def mk using rec_of_in [OF assms(1)] rec_of_address gs_validD(3) [OF assms(1)]
    by (fastforce dest!: keep_address)
  from merge_remote_fold_owned [OF this gs_validD(2,3) [OF assms(2)], of ?ts o'] mk
  show "fmlookup (merged_records a b) k = join_record (keep T (rec_of a k)) (keep T (rec_of b k))"
    "owned_map h (merged_records a b)"
    by (simp_all add: merged_records_def m rec_of_map_of [OF assms(2)] merged_tombstones_valid [OF assms(2)] assms(3))
qed

lemma rec_of_merge:
  assumes "gs_valid h a" and "gs_valid h b" and "T = max (ts_version (gs_tombstones a) k) (ts_version (gs_tombstones b) k)"
  shows "rec_of (snd (gsm_merge a b)) k = join_record (keep T (rec_of a k)) (keep T (rec_of b k))"
  by (simp add: rec_of_def gsm_merge_parts collect_map_values merged_records_keyed merged_records_valid(1) [OF assms, unfolded rec_of_def])

lemma tombstones_merge:
  assumes "gs_valid h a" and "gs_valid h b"
  shows "ts_version (gs_tombstones (snd (gsm_merge a b))) k = max (ts_version (gs_tombstones a) k) (ts_version (gs_tombstones b) k)"
proof -
  let ?T = "max (ts_version (gs_tombstones a) k) (ts_version (gs_tombstones b) k)"
  have "(case fmlookup (merged_records a b) k of None \<Rightarrow> None | Some r \<Rightarrow> terminal_version r) \<le> ?T"
  proof (cases "fmlookup (merged_records a b) k")
    case (Some r)
    with merged_records_valid(1) [OF assms refl, of k] have "join_record (keep ?T (rec_of a k)) (keep ?T (rec_of b k)) = Some r"
      by simp
    then have "rec_of a k = Some r \<or> rec_of b k = Some r"
      by (auto simp: join_record_def preferred_record_rank dest: keep_address split: option.splits if_splits)
    then have "terminal_version r \<le> ?T"
      using rec_of_terminal [OF assms(1)] rec_of_terminal [OF assms(2)] by (auto simp: le_max_iff_disj)
    with Some show ?thesis by simp
  qed simp
  then show ?thesis
    by (simp add: final_tombstones_version merged_tombstones_valid [OF assms(2)] max.absorb1)
qed

lemma gs_valid_merge:
  assumes "gs_valid h a" and "gs_valid h b"
  shows "gs_valid h (snd (gsm_merge a b))"
proof -
  let ?s = "snd (gsm_merge a b)"
  have "h (authority r) = unique_address r \<and> \<not> ts_suppresses (gs_tombstones ?s) r \<and>
      terminal_version r \<le> ts_version (gs_tombstones ?s) (unique_address r)"
    if "r \<in> set (ms_entries (gs_membership ?s))" for r
  proof -
    from that have r: "fmlookup (merged_records a b) (unique_address r) = Some r" unfolding set_merged_entries .
    have "h (authority r) = unique_address r"
      using merged_records_valid(2) [OF assms refl] r unfolding owned_map_def by blast
    moreover have "terminal_version r \<le> ts_version (gs_tombstones ?s) (unique_address r)"
      unfolding final_tombstones_version r by simp
    ultimately show ?thesis using merged_record_not_stale [OF r] by blast
  qed
  moreover have "ts_keyed (gs_tombstones ?s)"
    using gs_validD(1) [OF assms(1)] by (simp add: gsm_merge_parts ts_keyed_merge ts_keyed_merged)
  moreover have "distinct (map unique_address (ms_entries (gs_membership ?s)))"
    by (simp add: gsm_merge_parts distinct_map_values merged_records_keyed)
  ultimately show ?thesis unfolding gs_valid_def by blast
qed

lemma gs_sameI:
  assumes "gs_valid h a" and "gs_valid h b" and "\<And>k. rec_of a k = rec_of b k"
    and "\<And>k. ts_version (gs_tombstones a) k = ts_version (gs_tombstones b) k"
    and "ms_version (gs_membership a) = ms_version (gs_membership b)" and "gs_seen_digest a = gs_seen_digest b"
  shows "gs_same a b"
  using assms ts_eqI [OF gs_validD(1) gs_validD(1), OF assms(1,2,4)]
  by (simp add: gs_same_def fmap_eq_iff rec_of_def)

lemma gs_sameD:
  assumes "gs_same a b"
  shows "rec_of a = rec_of b" and "gs_tombstones a = gs_tombstones b" and "gs_seen_digest a = gs_seen_digest b"
    and "ms_version (gs_membership a) = ms_version (gs_membership b)"
  using assms by (auto simp: gs_same_def rec_of_def)

interpretation gossip: replicated_data "gs_valid h" gs_same "\<lambda>a b. snd (gsm_merge a b)" for h
proof
  note msimps = rec_of_merge [where h = h, OF _ _ refl] tombstones_merge [where h = h] gsm_merge_parts(3,4) gs_valid_merge
  fix a b c a' b' :: gossip_state_model
  show "gs_same a a" and "gs_same a b \<Longrightarrow> gs_same b a" and "gs_same a b \<Longrightarrow> gs_same b c \<Longrightarrow> gs_same a c"
    by (auto simp: gs_same_def)
  show "gs_valid h a \<Longrightarrow> gs_valid h b \<Longrightarrow> gs_valid h (snd (gsm_merge a b))"
    by (rule gs_valid_merge)
  show "gs_same (snd (gsm_merge a b)) (snd (gsm_merge a' b'))"
    if "gs_valid h a" "gs_valid h a'" "gs_valid h b" "gs_valid h b'" "gs_same a a'" "gs_same b b'"
    using that gs_sameD [of a a'] gs_sameD [of b b']
    by (intro gs_sameI [of h]) (simp_all add: msimps)
  show "gs_same (snd (gsm_merge a b)) (snd (gsm_merge b a))" if v: "gs_valid h a" "gs_valid h b"
  proof (rule gs_sameI [of h])
    fix k
    show "rec_of (snd (gsm_merge a b)) k = rec_of (snd (gsm_merge b a)) k"
      unfolding rec_of_merge [OF v refl] rec_of_merge [OF v(2,1) refl] max.commute [of "ts_version (gs_tombstones b) k"]
      by (rule join_record_commute [where k = k]) (auto dest!: keep_address rec_of_address)
  qed (use v sdigest.merge_commute in \<open>simp_all add: msimps max.commute\<close>)
  show "gs_same (snd (gsm_merge (snd (gsm_merge a b)) c)) (snd (gsm_merge a (snd (gsm_merge b c))))"
    if v: "gs_valid h a" "gs_valid h b" "gs_valid h c"
  proof (rule gs_sameI [of h])
    fix k
    let ?a = "ts_version (gs_tombstones a) k" and ?b = "ts_version (gs_tombstones b) k" and ?c = "ts_version (gs_tombstones c) k"
    note ab = gs_valid_merge [OF v(1,2)] and bc = gs_valid_merge [OF v(2,3)]
    have "max ?a ?b \<le> max (max ?a ?b) ?c" "max ?b ?c \<le> max ?a (max ?b ?c)" by simp_all
    note k1 = keep_join_record [OF this(1)] and k2 = keep_join_record [OF this(2)]
    show "rec_of (snd (gsm_merge (snd (gsm_merge a b)) c)) k = rec_of (snd (gsm_merge a (snd (gsm_merge b c)))) k"
      unfolding rec_of_merge [OF ab v(3) refl] rec_of_merge [OF v(1) bc refl] rec_of_merge [OF v(1,2) refl]
        rec_of_merge [OF v(2,3) refl] tombstones_merge [OF v(1,2)] tombstones_merge [OF v(2,3)] k1 k2
      by (simp only: max.assoc join_record_assoc)
  qed (use v sdigest.merge_assoc in \<open>simp_all add: msimps max.assoc\<close>)
  show "gs_same (snd (gsm_merge a a)) a" if v: "gs_valid h a"
    using v sdigest.merge_idem
    by (intro gs_sameI [of h]) (simp_all add: msimps rec_of_keep join_record_idem)
qed

text \<open>A model made from a membership snapshot without tombstones is settled.\<close>

lemma gs_valid_new:
  assumes "distinct (map unique_address (ms_entries m))" and "\<forall>r\<in>set (ms_entries m). h (authority r) = unique_address r"
  shows "gs_valid h (gsm_new (gs_snapshot_new m ts_new))"
proof -
  have v: "ts_version (gs_tombstones (gsm_new (gs_snapshot_new m ts_new))) (unique_address r) = terminal_version r"
    if "r \<in> set (ms_entries m)" for r
    using ts_version_from_records [OF assms(1) that]
    by (simp add: gsm_new_def gs_snapshot_new_def ts_version_merge ts_keyed_from_records max_def)
  have "\<not> suppressed_at (terminal_version r) r" for r
    by (auto simp: suppressed_at_def terminal_version_def split: option.splits if_splits)
  with v assms show ?thesis
    by (auto simp: gs_valid_def suppresses_at ts_keyed_new_model gs_snapshot_new_def)
qed

section \<open>Properties\<close>

text \<open>
  Claim C10. Gossip converges: nodes that merged the same set of gossip states, in any order and any
  number of times, agree on the membership version, every member's record, every tombstone and the
  seen digest, as long as no authority is reused by a second incarnation.
\<close>

theorem gossip_strong_convergence:
  assumes "\<forall>x\<in>set (s # xs). gs_valid h x" and "set (s # xs) = set (t # ys)"
  shows "gs_same (fold (\<lambda>x s. snd (gsm_merge s x)) xs s) (fold (\<lambda>x s. snd (gsm_merge s x)) ys t)"
  using gossip.convergence [OF assms] by (simp add: gossip.receive_all_def)

definition gossip_of :: "node_record list \<Rightarrow> gossip_state_model" where
  "gossip_of rs = gsm_new (gs_snapshot_new \<lparr>ms_version = MembershipVersion 1, ms_entries = rs, ms_reachability = rs_empty\<rparr> ts_new)"

definition record_a :: "node_status \<Rightarrow> u64 \<Rightarrow> node_record" where
  "record_a st v = node_record_new_with_identity node_a data_center_default ''n'' st (MembershipVersion v) ''v'' []"

definition record_b :: "node_status \<Rightarrow> u64 \<Rightarrow> node_record" where
  "record_b st v = node_record_new_with_identity node_b data_center_default ''m'' st (MembershipVersion v) ''v'' []"

lemma record_ab_simps:
  "unique_address (record_a st v) = node_a" "unique_address (record_b st v) = node_b"
  "authority (record_a st v) = address_to_string (address_of node_a)"
  "authority (record_b st v) = address_to_string (address_of node_b)"
  "address_to_string (address_of node_a) \<noteq> address_to_string (address_of node_b)"
  by (simp_all add: record_a_def record_b_def node_record_new_with_identity_def address_to_string_def node_a_def
      node_b_def unique_address_new_def address_new_def)

theorem gossip_strong_convergence_witness:
  "gs_same
     (fold (\<lambda>x s. snd (gsm_merge s x)) [gossip_of [record_a Dead 3], gossip_of [record_b Up 2]] (gossip_of [record_a Up 1]))
     (fold (\<lambda>x s. snd (gsm_merge s x)) [gossip_of [record_a Up 1], gossip_of [record_a Dead 3]] (gossip_of [record_b Up 2]))"
proof -
  let ?h = "\<lambda>auth. if auth = address_to_string (address_of node_a) then node_a else node_b"
  have "gs_valid ?h (gossip_of [record_a st v])" "gs_valid ?h (gossip_of [record_b st v])" for st v
    unfolding gossip_of_def by (rule gs_valid_new; simp add: record_ab_simps record_ab_simps(5) [symmetric])+
  then show ?thesis by (intro gossip_strong_convergence [of _ _ ?h]) auto
qed

theorem gossip_merge_no_stale_records_witness:
  "let s = snd (gsm_merge (gossip_of [record_a Dead 3]) (gossip_of [record_a Up 2]))
   in \<forall>r\<in>set (ms_entries (gs_membership s)). unique_address r = node_a \<longrightarrow> version r \<ge> MembershipVersion 3"
proof -
  let ?a = "gossip_of [record_a Dead 3]" and ?b = "gossip_of [record_a Up 2]"
  have "ts_keyed (gs_tombstones ?b)" by (simp add: gossip_of_def ts_keyed_new_model gs_snapshot_new_def)
  note th = gossip_merge_no_stale_records [OF this refl, of ?a]
  have "ts_version (ts_from_records [record_a Dead 3]) (unique_address (record_a Dead 3)) = terminal_version (record_a Dead 3)"
    by (rule ts_version_from_records) simp_all
  then have "ts_version (gs_tombstones ?a) node_a = Some (MembershipVersion 3)"
    by (simp add: gossip_of_def gsm_new_def gs_snapshot_new_def ts_version_merge ts_keyed_from_records record_ab_simps
        terminal_version_def is_terminal_def record_a_def node_record_new_with_identity_def max_def)
  with th show ?thesis unfolding Let_def by (metis less_imp_le order_refl)
qed

lemma prune_fold_entries:
  "ms_entries (fold prune_step ts m) =
     filter (\<lambda>r. \<forall>t\<in>set ts. unique_address r \<noteq> gt_member t \<or> \<not> is_terminal (status r) \<or> version r > gt_version t) (ms_entries m)"
proof (induction ts arbitrary: m)
  case (Cons t ts)
  have "ms_entries (prune_step t m) =
      filter (\<lambda>r. unique_address r \<noteq> gt_member t \<or> \<not> is_terminal (status r) \<or> version r > gt_version t) (ms_entries m)"
    by (auto simp: prune_step_def Let_def is_terminal_def intro!: filter_cong)
  with Cons show ?case by (auto intro!: filter_cong)
qed simp

lemma prune_fold_reachability:
  "rs_records (ms_reachability (fold prune_step ts m)) =
     filter (\<lambda>r. \<forall>t\<in>set ts. rr_observer r \<noteq> gt_member t \<and> rr_subject r \<noteq> gt_member t) (rs_records (ms_reachability m))"
  by (induction ts arbitrary: m) (auto simp: prune_step_def Let_def intro!: filter_cong)

text \<open>
  Tombstones are pruned only once every active peer has seen the version, and then
  exactly the tombstones up to it go: of a settled state the pruned state keeps every other record
  and tombstone, drops exactly the terminal records up to that version, keeps no reachability
  record of a pruned member, and is settled again.
\<close>

theorem gossip_prune_when_seen:
  assumes "gs_valid h s" and "gsm_prune_tombstones_when_seen_by_all s peers v = (pruned, s')"
  shows "if sd_has_seen_all (gs_seen_digest s) peers v
    then ms_entries (gs_membership s') =
           filter (\<lambda>r. \<not> (is_terminal (status r) \<and> version r \<le> v)) (ms_entries (gs_membership s)) \<and>
         (\<forall>k. ts_version (gs_tombstones s') k =
           (case ts_version (gs_tombstones s) k of Some w \<Rightarrow> if w \<le> v then None else Some w | None \<Rightarrow> None)) \<and>
         pruned_tombstones pruned = filter (\<lambda>t. gt_version t \<le> v) (ts_values (gs_tombstones s)) \<and>
         (\<forall>r\<in>set (rs_records (ms_reachability (gs_membership s'))). \<forall>t\<in>set (pruned_tombstones pruned).
            rr_observer r \<noteq> gt_member t \<and> rr_subject r \<noteq> gt_member t) \<and>
         gs_valid h s'
    else s' = s \<and> pruned_tombstones pruned = []"
proof (cases "sd_has_seen_all (gs_seen_digest s) peers v")
  case False
  with assms(2) show ?thesis by (auto simp: gsm_prune_tombstones_when_seen_by_all_def gsm_has_seen_all_def)
next
  case True
  obtain ps ts where p: "ts_prune_retained (gs_tombstones s) v = (ps, ts)" by fastforce
  from True assms(2) p have s': "s' = s\<lparr>gs_tombstones := ts, gs_membership := fold prune_step ps (gs_membership s)\<rparr>"
    and pr: "pruned_tombstones pruned = ps"
    by (auto simp: gsm_prune_tombstones_when_seen_by_all_def gsm_has_seen_all_def gsm_prune_retained_tombstones_def)
  have ps: "ps = filter (\<lambda>t. gt_version t \<le> v) (ts_values (gs_tombstones s))"
    using ts_prune_retained_eq(1) [of "gs_tombstones s" v] p by simp
  have look: "fmlookup (ts_entries ts) k =
      (case fmlookup (ts_entries (gs_tombstones s)) k of None \<Rightarrow> None | Some t \<Rightarrow> if gt_version t \<le> v then None else Some t)" for k
    using ts_prune_retained_eq(2) [of "gs_tombstones s" v k] p by simp
  have tv: "ts_version ts k =
      (case ts_version (gs_tombstones s) k of Some w \<Rightarrow> if w \<le> v then None else Some w | None \<Rightarrow> None)" for k
    by (simp add: ts_version_def look split: option.split)
  have at_end: "ts_version (gs_tombstones s) (unique_address r) = Some (version r)"
    if "r \<in> set (ms_entries (gs_membership s))" "is_terminal (status r)" for r
  proof -
    from assms(1) that have "\<not> ts_suppresses (gs_tombstones s) r" "Some (version r) \<le> ts_version (gs_tombstones s) (unique_address r)"
      by (auto simp: gs_valid_def terminal_version_def)
    then show ?thesis
      by (cases "ts_version (gs_tombstones s) (unique_address r)") (auto simp: ts_suppresses_version)
  qed
  have dropped: "(\<forall>t\<in>set ps. unique_address r \<noteq> gt_member t \<or> \<not> is_terminal (status r) \<or> version r > gt_version t) \<longleftrightarrow>
      \<not> (is_terminal (status r) \<and> version r \<le> v)" if r: "r \<in> set (ms_entries (gs_membership s))" for r
  proof (cases "is_terminal (status r)")
    case True
    from at_end [OF r True] obtain t where t: "fmlookup (ts_entries (gs_tombstones s)) (unique_address r) = Some t" "gt_version t = version r"
      by (auto simp: ts_version_def)
    have m: "q = t" if "q \<in> set (ts_values (gs_tombstones s))" "gt_member q = unique_address r" for q
      using that t(1) gs_validD(1) [OF assms(1)] by (auto simp: ts_values_def set_map_values ts_keyed_def)
    have "t \<in> set (ts_values (gs_tombstones s))" "gt_member t = unique_address r"
      using t(1) gs_validD(1) [OF assms(1)] by (auto simp: ts_values_def set_map_values ts_keyed_def)
    then have "t \<in> set ps \<longleftrightarrow> version r \<le> v" by (simp add: ps t(2))
    moreover have "q = t" if "q \<in> set ps" "unique_address r = gt_member q" for q
      using that m by (simp add: ps)
    ultimately show ?thesis using True t(2) \<open>gt_member t = unique_address r\<close> by (metis less_irrefl)
  qed simp
  have es: "ms_entries (gs_membership s') =
      filter (\<lambda>r. \<not> (is_terminal (status r) \<and> version r \<le> v)) (ms_entries (gs_membership s))"
    unfolding s' using dropped by (simp add: prune_fold_entries cong: filter_cong)
  have "h (authority r) = unique_address r \<and> \<not> ts_suppresses ts r \<and> terminal_version r \<le> ts_version ts (unique_address r)"
    if r: "r \<in> set (ms_entries (gs_membership s))" "\<not> (is_terminal (status r) \<and> version r \<le> v)" for r
  proof -
    have "ts_version ts (unique_address r) \<le> ts_version (gs_tombstones s) (unique_address r)"
      by (simp add: tv split: option.split)
    with r(1) assms(1) have "\<not> ts_suppresses ts r" "h (authority r) = unique_address r"
      by (auto simp: gs_valid_def suppresses_at dest: suppressed_mono)
    with at_end [OF r(1)] r(2) show ?thesis by (auto simp: terminal_version_def tv)
  qed
  then have "gs_valid h s'"
    unfolding gs_valid_def es using gs_validD(1,2) [OF assms(1)]
    by (auto simp: s' ts_keyed_def look distinct_map_filter split: option.splits if_splits)
  with True es tv ps pr show ?thesis by (auto simp: s' prune_fold_reachability)
qed

theorem gossip_prune_when_seen_witness:
  "let s = snd (gsm_mark_seen (gossip_of [record_a Dead 3, record_b Up 2]) node_b (MembershipVersion 3))
   in ms_entries (gs_membership (snd (gsm_prune_tombstones_when_seen_by_all s [node_b] (MembershipVersion 3)))) = [record_b Up 2]"
proof -
  let ?h = "\<lambda>auth. if auth = address_to_string (address_of node_a) then node_a else node_b"
  let ?g = "gossip_of [record_a Dead 3, record_b Up 2]"
  let ?s = "snd (gsm_mark_seen ?g node_b (MembershipVersion 3))"
  have "gs_valid ?h ?g"
    unfolding gossip_of_def by (rule gs_valid_new) (simp_all add: record_ab_simps record_ab_simps(5) [symmetric])
  then have v: "gs_valid ?h ?s" by (simp add: gs_valid_def gsm_mark_seen_def split_beta)
  obtain p s' where p: "gsm_prune_tombstones_when_seen_by_all ?s [node_b] (MembershipVersion 3) = (p, s')" by fastforce
  have "sd_has_seen_all (gs_seen_digest ?s) [node_b] (MembershipVersion 3)"
    by (simp add: gsm_mark_seen_def split_beta sd_has_seen_all_def sd_lookup_mark_seen max_def
        gossip_of_def gs_snapshot_new_def sd_new_def)
  moreover have "ms_entries (gs_membership ?s) = [record_a Dead 3, record_b Up 2]"
    by (simp add: gsm_mark_seen_def split_beta gossip_of_def gsm_new_def gs_snapshot_new_def)
  ultimately show ?thesis
    using gossip_prune_when_seen [OF v p] p
    by (simp add: Let_def record_a_def record_b_def node_record_new_with_identity_def is_terminal_def
        less_eq_membership_version_def)
qed

end
