(* ===== verification/Wire_Buffer.thy ===== *)
theory Wire_Buffer
  imports Node_Address
begin

text \<open>
  The byte layer of \<open>remote-core/src/wire\<close> (\<open>primitives.rs\<close>, \<open>frame_header.rs\<close>, \<open>wire_error.rs\<close>,
  \<open>compressed_text.rs\<close>). Buffers are byte lists. The operations of the \<open>bytes\<close> crate are a parameter
  \<open>B\<close> of every definition; \<open>buf_laws\<close> states their documented behaviour: the put methods append in
  big-endian order, the get methods read and advance and panic on a buffer that is too short.
  Encoders and decoders return the buffer they leave also when they fail. Strings are the bytes of
  their UTF-8 form, checked by \<open>valid_utf8\<close> as \<open>String::from_utf8\<close> does.
\<close>

section \<open>Bytes\<close>

type_synonym byte = "8 word"
type_synonym bytes = "byte list"
type_synonym wire_u32 = "32 word"

fun be_bytes :: "nat \<Rightarrow> nat \<Rightarrow> bytes" where
  "be_bytes 0 n = []"
| "be_bytes (Suc k) n = be_bytes k (n div 256) @ [of_nat (n mod 256)]"

definition from_be :: "bytes \<Rightarrow> nat" where
  "from_be bs = foldl (\<lambda>acc b. acc * 256 + unat b) 0 bs"

lemma length_be_bytes [simp]: "length (be_bytes k n) = k"
  by (induction k arbitrary: n) simp_all

lemma from_be_snoc: "from_be (bs @ [b]) = from_be bs * 256 + unat b"
  by (simp add: from_be_def)

lemma from_be_be_bytes: "n < 256 ^ k \<Longrightarrow> from_be (be_bytes k n) = n"
proof (induction k arbitrary: n)
  case 0
  then show ?case by (simp add: from_be_def)
next
  case (Suc k)
  then have "n div 256 < 256 ^ k" by (simp add: less_mult_imp_div_less mult.commute)
  moreover have "unat (of_nat (n mod 256) :: byte) = n mod 256"
    by (simp add: unsigned_of_nat take_bit_nat_eq_self)
  ultimately show ?case using Suc.IH by (simp add: from_be_snoc)
qed

lemma unat_u16: "unat (x :: u16) < 256 ^ 2" using unsigned_less [of x, where ?'a = nat] by simp
lemma unat_u32: "unat (x :: wire_u32) < 256 ^ 4" using unsigned_less [of x, where ?'a = nat] by simp
lemma unat_u64: "unat (x :: u64) < 256 ^ 8" using unsigned_less [of x, where ?'a = nat] by simp

section \<open>The buffer operations\<close>

record buf_ops =
  put_u8 :: "byte \<Rightarrow> bytes \<Rightarrow> bytes"
  put_u16 :: "u16 \<Rightarrow> bytes \<Rightarrow> bytes"
  put_u32 :: "wire_u32 \<Rightarrow> bytes \<Rightarrow> bytes"
  put_u64 :: "u64 \<Rightarrow> bytes \<Rightarrow> bytes"
  put_slice :: "bytes \<Rightarrow> bytes \<Rightarrow> bytes"
  unsplit :: "bytes \<Rightarrow> bytes \<Rightarrow> bytes"
  get_u8 :: "bytes \<Rightarrow> (byte \<times> bytes) option"
  get_u16 :: "bytes \<Rightarrow> (u16 \<times> bytes) option"
  get_u32 :: "bytes \<Rightarrow> (wire_u32 \<times> bytes) option"
  get_u64 :: "bytes \<Rightarrow> (u64 \<times> bytes) option"
  split_to :: "nat \<Rightarrow> bytes \<Rightarrow> (bytes \<times> bytes) option"

definition get_be :: "nat \<Rightarrow> bytes \<Rightarrow> ('l::len word \<times> bytes) option" where
  "get_be k b = (if length b < k then None else Some (of_nat (from_be (take k b)), drop k b))"

definition buf_laws :: "buf_ops \<Rightarrow> bool" where
  "buf_laws B \<longleftrightarrow>
     (\<forall>x b. put_u8 B x b = b @ [x]) \<and>
     (\<forall>x b. put_u16 B x b = b @ be_bytes 2 (unat x)) \<and>
     (\<forall>x b. put_u32 B x b = b @ be_bytes 4 (unat x)) \<and>
     (\<forall>x b. put_u64 B x b = b @ be_bytes 8 (unat x)) \<and>
     (\<forall>x b. put_slice B x b = b @ x) \<and>
     (\<forall>x b. unsplit B x b = b @ x) \<and>
     (\<forall>b. get_u8 B b = get_be 1 b) \<and>
     (\<forall>b. get_u16 B b = get_be 2 b) \<and>
     (\<forall>b. get_u32 B b = get_be 4 b) \<and>
     (\<forall>b. get_u64 B b = get_be 8 b) \<and>
     (\<forall>n b. split_to B n b = (if length b < n then None else Some (take n b, drop n b)))"

text \<open>An instance with these laws, for evaluation.\<close>

definition plain_bufs :: buf_ops where
  "plain_bufs = \<lparr>put_u8 = (\<lambda>x b. b @ [x]), put_u16 = (\<lambda>x b. b @ be_bytes 2 (unat x)),
     put_u32 = (\<lambda>x b. b @ be_bytes 4 (unat x)), put_u64 = (\<lambda>x b. b @ be_bytes 8 (unat x)),
     put_slice = (\<lambda>x b. b @ x), unsplit = (\<lambda>x b. b @ x),
     get_u8 = get_be 1, get_u16 = get_be 2, get_u32 = get_be 4, get_u64 = get_be 8,
     split_to = (\<lambda>n b. if length b < n then None else Some (take n b, drop n b))\<rparr>"

lemma plain_bufs_laws: "buf_laws plain_bufs"
  by (simp add: buf_laws_def plain_bufs_def)

lemma buf_laws_simps:
  assumes "buf_laws B"
  shows "put_u8 B x b = b @ [x]" "put_u16 B x16 b = b @ be_bytes 2 (unat x16)" "put_u32 B x32 b = b @ be_bytes 4 (unat x32)"
    "put_u64 B x64 b = b @ be_bytes 8 (unat x64)" "put_slice B s b = b @ s" "unsplit B s b = b @ s"
    "get_u8 B b = get_be 1 b" "get_u16 B b = get_be 2 b" "get_u32 B b = get_be 4 b" "get_u64 B b = get_be 8 b"
    "split_to B n b = (if length b < n then None else Some (take n b, drop n b))"
  using assms unfolding buf_laws_def by blast+

section \<open>Encoders and decoders\<close>

datatype wire_error = InvalidFormat | UnknownVersion | UnknownKind | Truncated | InvalidUtf8 | FrameTooLarge

type_synonym encoder = "bytes \<Rightarrow> (wire_error + unit) \<times> bytes"

text \<open>A decoder fails with an error of the wire format, or panics in a get on a short buffer.\<close>

datatype decode_failure = Wire wire_error | BufPanic

type_synonym 'a decoder = "bytes \<Rightarrow> (decode_failure + 'a) \<times> bytes"

text \<open>Sequencing, with the question-mark operator after the first step.\<close>

definition enc_ok :: encoder where
  "enc_ok b = (Inr (), b)"

definition enc_err :: "wire_error \<Rightarrow> encoder" where
  "enc_err e b = (Inl e, b)"

definition enc_put :: "('a \<Rightarrow> bytes \<Rightarrow> bytes) \<Rightarrow> 'a \<Rightarrow> encoder" where
  "enc_put put x b = (Inr (), put x b)"

definition enc_then :: "encoder \<Rightarrow> encoder \<Rightarrow> encoder" where
  "enc_then e f b = (case e b of (Inl err, b') \<Rightarrow> (Inl err, b') | (Inr _, b') \<Rightarrow> f b')"

definition enc_seq :: "encoder list \<Rightarrow> encoder" where
  "enc_seq es = foldr enc_then es enc_ok"

definition dec_ok :: "'a \<Rightarrow> 'a decoder" where
  "dec_ok x b = (Inr x, b)"

definition dec_err :: "wire_error \<Rightarrow> 'a decoder" where
  "dec_err e b = (Inl (Wire e), b)"

definition dec_get :: "(bytes \<Rightarrow> ('a \<times> bytes) option) \<Rightarrow> 'a decoder" where
  "dec_get get b = (case get b of None \<Rightarrow> (Inl BufPanic, b) | Some (x, b') \<Rightarrow> (Inr x, b'))"

definition dec_then :: "'a decoder \<Rightarrow> ('a \<Rightarrow> 'b decoder) \<Rightarrow> 'b decoder" where
  "dec_then d f b = (case d b of (Inl e, b') \<Rightarrow> (Inl e, b') | (Inr x, b') \<Rightarrow> f x b')"

text \<open>\<open>if buf.remaining() < n { return Err(Truncated) }\<close>.\<close>

definition ensure_remaining :: "nat \<Rightarrow> unit decoder" where
  "ensure_remaining n b = (if length b < n then (Inl (Wire Truncated), b) else (Inr (), b))"

section \<open>Frame header\<close>

definition WIRE_VERSION :: byte where "WIRE_VERSION = 4"
definition FRAME_KIND_OFFSET :: nat where "FRAME_KIND_OFFSET = 5"
definition KIND_ENVELOPE :: byte where "KIND_ENVELOPE = 1"
definition KIND_HANDSHAKE_REQ :: byte where "KIND_HANDSHAKE_REQ = 2"
definition KIND_HANDSHAKE_RSP :: byte where "KIND_HANDSHAKE_RSP = 3"
definition KIND_CONTROL :: byte where "KIND_CONTROL = 4"
definition KIND_ACK :: byte where "KIND_ACK = 5"
definition KIND_DEPLOYMENT :: byte where "KIND_DEPLOYMENT = 6"

lemmas kind_defs = WIRE_VERSION_def KIND_ENVELOPE_def KIND_HANDSHAKE_REQ_def KIND_HANDSHAKE_RSP_def
  KIND_CONTROL_def KIND_ACK_def KIND_DEPLOYMENT_def

record frame_header =
  fh_length :: wire_u32
  fh_version :: byte
  fh_kind :: byte

definition usize_u32_max :: nat where
  "usize_u32_max = 2 ^ 32 - 1"

definition begin_frame :: "buf_ops \<Rightarrow> byte \<Rightarrow> bytes \<Rightarrow> nat \<times> bytes" where
  "begin_frame B kind b =
     (let len_pos = length b in (len_pos, put_u8 B kind (put_u8 B WIRE_VERSION (put_u32 B 0 b))))"

definition patch_frame_length :: "nat \<Rightarrow> encoder" where
  "patch_frame_length len_pos b =
     (let total = length b in
      if total < len_pos + 4 then (Inl InvalidFormat, b)
      else
        let after_len = total - (len_pos + 4) in
        if after_len > usize_u32_max then (Inl FrameTooLarge, b)
        else (Inr (), take len_pos b @ be_bytes 4 after_len @ drop (len_pos + 4) b))"

text \<open>An encoder that writes a frame of the given kind around a body.\<close>

definition encode_frame :: "buf_ops \<Rightarrow> byte \<Rightarrow> encoder \<Rightarrow> encoder" where
  "encode_frame B kind body b =
     (let (len_pos, b1) = begin_frame B kind b in enc_then body (patch_frame_length len_pos) b1)"

definition read_frame_header :: "buf_ops \<Rightarrow> byte \<Rightarrow> (frame_header \<times> nat) decoder" where
  "read_frame_header B expected_kind =
     dec_then (ensure_remaining 6) (\<lambda>_.
     dec_then (dec_get (get_u32 B)) (\<lambda>len.
     if unat len < 2 then dec_err InvalidFormat
     else
       let body_len = unat len - 2 in
       dec_then (ensure_remaining (unat len)) (\<lambda>_.
       dec_then (dec_get (get_u8 B)) (\<lambda>version.
       if version \<noteq> WIRE_VERSION then dec_err UnknownVersion
       else
         dec_then (dec_get (get_u8 B)) (\<lambda>kind.
         if kind \<noteq> expected_kind then dec_err UnknownKind
         else dec_ok (\<lparr>fh_length = len, fh_version = version, fh_kind = kind\<rparr>, body_len))))))"

definition peek_frame_kind :: "byte decoder" where
  "peek_frame_kind b = (if length b < 6 then (Inl (Wire Truncated), b) else (Inr (b ! FRAME_KIND_OFFSET), b))"

section \<open>Strings and byte strings\<close>

definition continuation :: "byte \<Rightarrow> bool" where
  "continuation b \<longleftrightarrow> 128 \<le> unat b \<and> unat b \<le> 191"

text \<open>The table of well-formed UTF-8 sequences, as \<open>core::str\<close> checks it.\<close>

fun valid_utf8 :: "bytes \<Rightarrow> bool" where
  "valid_utf8 [] \<longleftrightarrow> True"
| "valid_utf8 (a # bs) \<longleftrightarrow>
     (let n = unat a in
      if n < 128 then valid_utf8 bs
      else case bs of [] \<Rightarrow> False | b # cs \<Rightarrow>
        if 194 \<le> n \<and> n \<le> 223 then continuation b \<and> valid_utf8 cs
        else case cs of [] \<Rightarrow> False | c # ds \<Rightarrow>
          if n = 224 then 160 \<le> unat b \<and> unat b \<le> 191 \<and> continuation c \<and> valid_utf8 ds
          else if 225 \<le> n \<and> n \<le> 236 \<or> 238 \<le> n \<and> n \<le> 239 then continuation b \<and> continuation c \<and> valid_utf8 ds
          else if n = 237 then 128 \<le> unat b \<and> unat b \<le> 159 \<and> continuation c \<and> valid_utf8 ds
          else case ds of [] \<Rightarrow> False | d # es \<Rightarrow>
            if n = 240 then 144 \<le> unat b \<and> unat b \<le> 191 \<and> continuation c \<and> continuation d \<and> valid_utf8 es
            else if 241 \<le> n \<and> n \<le> 243 then continuation b \<and> continuation c \<and> continuation d \<and> valid_utf8 es
            else if n = 244 then 128 \<le> unat b \<and> unat b \<le> 143 \<and> continuation c \<and> continuation d \<and> valid_utf8 es
            else False)"

definition as_bytes :: "string \<Rightarrow> bytes" where
  "as_bytes s = map (\<lambda>c. of_nat (of_char c)) s"

definition from_utf8 :: "bytes \<Rightarrow> string option" where
  "from_utf8 bs = (if valid_utf8 bs then Some (map (\<lambda>b. char_of (unat b)) bs) else None)"

definition encode_bytes :: "buf_ops \<Rightarrow> bytes \<Rightarrow> encoder" where
  "encode_bytes B v =
     (if length v > usize_u32_max then enc_err InvalidFormat
      else enc_seq [enc_put (put_u32 B) (of_nat (length v)), enc_put (put_slice B) v])"

definition decode_bytes :: "buf_ops \<Rightarrow> bytes decoder" where
  "decode_bytes B =
     dec_then (ensure_remaining 4) (\<lambda>_.
     dec_then (dec_get (get_u32 B)) (\<lambda>len.
     dec_then (ensure_remaining (unat len)) (\<lambda>_.
     dec_get (split_to B (unat len)))))"

definition encode_string :: "buf_ops \<Rightarrow> string \<Rightarrow> encoder" where
  "encode_string B s =
     (let bs = as_bytes s in
      if length bs > usize_u32_max then enc_err InvalidFormat
      else enc_seq [enc_put (put_u32 B) (of_nat (length bs)), enc_put (put_slice B) bs])"

definition decode_string :: "buf_ops \<Rightarrow> string decoder" where
  "decode_string B =
     dec_then (ensure_remaining 4) (\<lambda>_.
     dec_then (dec_get (get_u32 B)) (\<lambda>len.
     dec_then (ensure_remaining (unat len)) (\<lambda>_.
     dec_then (dec_get (split_to B (unat len))) (\<lambda>slice.
     case from_utf8 slice of None \<Rightarrow> dec_err InvalidUtf8 | Some s \<Rightarrow> dec_ok s))))"

definition encode_option_string :: "buf_ops \<Rightarrow> string option \<Rightarrow> encoder" where
  "encode_option_string B v =
     (case v of None \<Rightarrow> enc_put (put_u8 B) 0
      | Some s \<Rightarrow> enc_seq [enc_put (put_u8 B) 1, encode_string B s])"

definition decode_option_string :: "buf_ops \<Rightarrow> string option decoder" where
  "decode_option_string B =
     dec_then (ensure_remaining 1) (\<lambda>_.
     dec_then (dec_get (get_u8 B)) (\<lambda>tag.
     if tag = 0 then dec_ok None
     else if tag = 1 then dec_then (decode_string B) (\<lambda>s. dec_ok (Some s))
     else dec_err InvalidFormat))"

section \<open>Compressed text\<close>

datatype compressed_text = Literal string | TableRef wire_u32

definition LITERAL_TAG :: byte where "LITERAL_TAG = 0"
definition TABLE_REF_TAG :: byte where "TABLE_REF_TAG = 1"

definition as_literal :: "compressed_text \<Rightarrow> string option" where
  "as_literal c = (case c of Literal s \<Rightarrow> Some s | TableRef _ \<Rightarrow> None)"

definition as_table_ref :: "compressed_text \<Rightarrow> wire_u32 option" where
  "as_table_ref c = (case c of Literal _ \<Rightarrow> None | TableRef i \<Rightarrow> Some i)"

definition encode_compressed_text :: "buf_ops \<Rightarrow> compressed_text \<Rightarrow> encoder" where
  "encode_compressed_text B v =
     (case v of
        Literal s \<Rightarrow> enc_seq [enc_put (put_u8 B) LITERAL_TAG, encode_string B s]
      | TableRef i \<Rightarrow> enc_seq [enc_put (put_u8 B) TABLE_REF_TAG, enc_put (put_u32 B) i])"

definition decode_compressed_text :: "buf_ops \<Rightarrow> compressed_text decoder" where
  "decode_compressed_text B =
     dec_then (ensure_remaining 1) (\<lambda>_.
     dec_then (dec_get (get_u8 B)) (\<lambda>tag.
     if tag = LITERAL_TAG then dec_then (decode_string B) (\<lambda>s. dec_ok (Literal s))
     else if tag = TABLE_REF_TAG then
       dec_then (ensure_remaining 4) (\<lambda>_. dec_then (dec_get (get_u32 B)) (\<lambda>i. dec_ok (TableRef i)))
     else dec_err InvalidFormat))"

definition encode_option_compressed_text :: "buf_ops \<Rightarrow> compressed_text option \<Rightarrow> encoder" where
  "encode_option_compressed_text B v =
     (case v of None \<Rightarrow> enc_put (put_u8 B) 0
      | Some c \<Rightarrow> enc_seq [enc_put (put_u8 B) 1, encode_compressed_text B c])"

definition decode_option_compressed_text :: "buf_ops \<Rightarrow> compressed_text option decoder" where
  "decode_option_compressed_text B =
     dec_then (ensure_remaining 1) (\<lambda>_.
     dec_then (dec_get (get_u8 B)) (\<lambda>tag.
     if tag = 0 then dec_ok None
     else if tag = 1 then dec_then (decode_compressed_text B) (\<lambda>c. dec_ok (Some c))
     else dec_err InvalidFormat))"

section \<open>What an encoder writes and a decoder reads\<close>

definition writes :: "encoder \<Rightarrow> bytes \<Rightarrow> bool" where
  "writes e w \<longleftrightarrow> (\<forall>b. e b = (Inr (), b @ w))"

definition reads :: "'a decoder \<Rightarrow> bytes \<Rightarrow> 'a \<Rightarrow> bool" where
  "reads d w x \<longleftrightarrow> (\<forall>rest. d (w @ rest) = (Inr x, rest))"

named_theorems write_rules \<open>what the encoders write\<close>
named_theorems read_rules \<open>what the decoders read\<close>

lemma writes_then: "writes e w \<Longrightarrow> writes f v \<Longrightarrow> writes (enc_then e f) (w @ v)"
  by (simp add: writes_def enc_then_def)

lemma writes_seq_Nil: "writes (enc_seq []) []"
  by (simp add: writes_def enc_seq_def enc_ok_def)

lemma writes_seq_Cons: "writes e w \<Longrightarrow> writes (enc_seq es) ws \<Longrightarrow> writes (enc_seq (e # es)) (w @ ws)"
  by (simp add: enc_seq_def writes_then)

lemma writes_put:
  assumes "buf_laws B"
  shows "writes (enc_put (put_u8 B) x8) [x8]" "writes (enc_put (put_u16 B) x16) (be_bytes 2 (unat x16))"
    "writes (enc_put (put_u32 B) x32) (be_bytes 4 (unat x32))" "writes (enc_put (put_u64 B) x64) (be_bytes 8 (unat x64))"
    "writes (enc_put (put_slice B) v) v"
  by (simp_all add: writes_def enc_put_def buf_laws_simps [OF assms])

lemma reads_ok: "reads (dec_ok x) [] x"
  by (simp add: reads_def dec_ok_def)

lemma reads_then: "reads d w x \<Longrightarrow> reads (f x) v y \<Longrightarrow> reads (dec_then d f) (w @ v) y"
  by (simp add: reads_def dec_then_def)

lemma reads_ensure: "reads (f ()) w y \<Longrightarrow> n \<le> length w \<Longrightarrow> reads (dec_then (ensure_remaining n) f) w y"
  by (simp add: reads_def dec_then_def ensure_remaining_def)

lemma from_be_single [simp]: "from_be [x] = unat x"
  by (simp add: from_be_def)

lemma reads_get:
  assumes "buf_laws B"
  shows "reads (dec_get (get_u8 B)) [x8] x8" "reads (dec_get (get_u16 B)) (be_bytes 2 (unat x16)) x16"
    "reads (dec_get (get_u32 B)) (be_bytes 4 (unat x32)) x32" "reads (dec_get (get_u64 B)) (be_bytes 8 (unat x64)) x64"
  by (simp_all add: reads_def dec_get_def buf_laws_simps [OF assms] get_be_def from_be_be_bytes [OF unat_u16]
      from_be_be_bytes [OF unat_u32] from_be_be_bytes [OF unat_u64])

lemma reads_split: "buf_laws B \<Longrightarrow> n = length w \<Longrightarrow> reads (dec_get (split_to B n)) w w"
  by (simp add: reads_def dec_get_def buf_laws_simps)

lemma reads_u8_Cons: "buf_laws B \<Longrightarrow> reads (f x) v y \<Longrightarrow> reads (dec_then (dec_get (get_u8 B)) f) (x # v) y"
  using reads_then [OF reads_get(1)] by fastforce

lemma reads_map: "reads d w x \<Longrightarrow> reads (dec_then d (\<lambda>x. dec_ok (g x))) w (g x)"
  using reads_then [OF _ reads_ok, of d w x g] by simp

section \<open>The format of strings and texts\<close>

text \<open>What the sources call a string is well formed UTF-8 and fits the 32-bit length.\<close>

definition wire_string :: "string \<Rightarrow> bool" where
  "wire_string s \<longleftrightarrow> valid_utf8 (as_bytes s) \<and> length s \<le> usize_u32_max"

definition fmt_bytes :: "bytes \<Rightarrow> bytes" where
  "fmt_bytes v = be_bytes 4 (length v) @ v"

definition fmt_string :: "string \<Rightarrow> bytes" where
  "fmt_string s = fmt_bytes (as_bytes s)"

definition fmt_option :: "('a \<Rightarrow> bytes) \<Rightarrow> 'a option \<Rightarrow> bytes" where
  "fmt_option f v = (case v of None \<Rightarrow> [0] | Some x \<Rightarrow> 1 # f x)"

definition fmt_text :: "compressed_text \<Rightarrow> bytes" where
  "fmt_text c = (case c of Literal s \<Rightarrow> LITERAL_TAG # fmt_string s | TableRef i \<Rightarrow> TABLE_REF_TAG # be_bytes 4 (unat i))"

definition wire_text :: "compressed_text \<Rightarrow> bool" where
  "wire_text c \<longleftrightarrow> (case c of Literal s \<Rightarrow> wire_string s | TableRef _ \<Rightarrow> True)"

lemma length_as_bytes [simp]: "length (as_bytes s) = length s"
  by (simp add: as_bytes_def)

lemma from_utf8_as_bytes: "valid_utf8 (as_bytes s) \<Longrightarrow> from_utf8 (as_bytes s) = Some s"
proof -
  have "char_of (unat (of_nat (of_char c) :: byte)) = (c :: char)" for c
    by (simp add: unsigned_of_nat take_bit_nat_eq_self)
  then show "valid_utf8 (as_bytes s) \<Longrightarrow> ?thesis" by (simp add: from_utf8_def as_bytes_def comp_def)
qed

lemma unat_length: "n \<le> usize_u32_max \<Longrightarrow> unat (of_nat n :: wire_u32) = n"
  by (simp add: usize_u32_max_def unsigned_of_nat take_bit_nat_eq_self)

lemma writes_bytes [write_rules]: "buf_laws B \<Longrightarrow> length v \<le> usize_u32_max \<Longrightarrow> writes (encode_bytes B v) (fmt_bytes v)"
  using writes_seq_Cons [OF writes_put(3) writes_seq_Cons [OF writes_put(5) writes_seq_Nil], of B B "of_nat (length v)" v]
  by (simp add: encode_bytes_def fmt_bytes_def unat_length)

lemma writes_string [write_rules]: "buf_laws B \<Longrightarrow> wire_string s \<Longrightarrow> writes (encode_string B s) (fmt_string s)"
  using writes_bytes [of B "as_bytes s"] by (simp add: encode_string_def encode_bytes_def fmt_string_def wire_string_def Let_def)

lemma reads_bytes [read_rules]:
  assumes "buf_laws B" and "length v \<le> usize_u32_max"
  shows "reads (decode_bytes B) (fmt_bytes v) v"
  unfolding decode_bytes_def fmt_bytes_def
  using reads_get(3) [OF assms(1), of "of_nat (length v)"] reads_split [OF assms(1), of "length v" v] assms(2)
  by (intro reads_ensure reads_then [where x = "of_nat (length v)"]) (simp_all add: unat_length)

lemma reads_string [read_rules]:
  assumes "buf_laws B" and "wire_string s"
  shows "reads (decode_string B) (fmt_string s) s"
proof -
  have len: "length (as_bytes s) \<le> usize_u32_max" and u: "from_utf8 (as_bytes s) = Some s"
    using assms(2) by (simp_all add: wire_string_def from_utf8_as_bytes)
  have "reads (dec_then (dec_get (split_to B (length s))) (\<lambda>slice. case from_utf8 slice of None \<Rightarrow> dec_err InvalidUtf8 | Some s \<Rightarrow> dec_ok s))
      (as_bytes s @ []) s"
  proof (rule reads_then)
    show "reads (dec_get (split_to B (length s))) (as_bytes s) (as_bytes s)" by (simp add: reads_split assms(1))
    show "reads (case from_utf8 (as_bytes s) of None \<Rightarrow> dec_err InvalidUtf8 | Some s \<Rightarrow> dec_ok s) [] s"
      unfolding u by (simp add: reads_ok)
  qed
  then show ?thesis
    unfolding decode_string_def fmt_string_def fmt_bytes_def
    using reads_get(3) [OF assms(1), of "of_nat (length s)"] len
    by (intro reads_ensure reads_then [where x = "of_nat (length s)"]) (simp_all add: unat_length)
qed

lemma writes_option:
  assumes "buf_laws B" and "\<And>x. v = Some x \<Longrightarrow> writes (e x) (f x)"
  shows "writes (case v of None \<Rightarrow> enc_put (put_u8 B) 0 | Some x \<Rightarrow> enc_seq [enc_put (put_u8 B) 1, e x]) (fmt_option f v)"
  using writes_put(1) [OF assms(1)] writes_seq_Cons [OF writes_put(1) writes_seq_Cons [OF assms(2) writes_seq_Nil], OF assms(1)]
  by (auto simp: fmt_option_def split: option.split)

lemma reads_option:
  assumes "buf_laws B" and "\<And>x. v = Some x \<Longrightarrow> reads d (f x) x"
  shows "reads (dec_then (ensure_remaining 1) (\<lambda>_. dec_then (dec_get (get_u8 B)) (\<lambda>tag.
     if tag = 0 then dec_ok None else if tag = 1 then dec_then d (\<lambda>x. dec_ok (Some x)) else dec_err InvalidFormat)))
     (fmt_option f v) v"
  using assms(2) by (cases v) (auto simp: fmt_option_def intro!: reads_ensure reads_u8_Cons [OF assms(1)] reads_ok reads_map)

definition wire_option :: "('a \<Rightarrow> bool) \<Rightarrow> 'a option \<Rightarrow> bool" where
  "wire_option P v \<longleftrightarrow> (case v of None \<Rightarrow> True | Some x \<Rightarrow> P x)"

lemma writes_option_string [write_rules]:
  assumes "buf_laws B" and "wire_option wire_string v"
  shows "writes (encode_option_string B v) (fmt_option fmt_string v)"
  unfolding encode_option_string_def
  by (rule writes_option [OF assms(1) writes_string [OF assms(1)]]) (use assms(2) in \<open>simp add: wire_option_def\<close>)

lemma reads_option_string [read_rules]:
  assumes "buf_laws B" and "wire_option wire_string v"
  shows "reads (decode_option_string B) (fmt_option fmt_string v) v"
  unfolding decode_option_string_def
  by (rule reads_option [OF assms(1) reads_string [OF assms(1)]]) (use assms(2) in \<open>simp add: wire_option_def\<close>)

lemma writes_text [write_rules]:
  assumes "buf_laws B" and "wire_text c"
  shows "writes (encode_compressed_text B c) (fmt_text c)"
proof (cases c)
  case (Literal s)
  with assms writes_seq_Cons [OF writes_put(1) writes_seq_Cons [OF writes_string writes_seq_Nil], of B B s LITERAL_TAG]
  show ?thesis by (simp add: encode_compressed_text_def fmt_text_def wire_text_def)
next
  case (TableRef i)
  with assms writes_seq_Cons [OF writes_put(1) writes_seq_Cons [OF writes_put(3) writes_seq_Nil], of B B TABLE_REF_TAG i]
  show ?thesis by (simp add: encode_compressed_text_def fmt_text_def)
qed

lemma reads_text [read_rules]:
  assumes "buf_laws B" and "wire_text c"
  shows "reads (decode_compressed_text B) (fmt_text c) c"
proof (cases c)
  case (Literal s)
  with assms show ?thesis
    unfolding decode_compressed_text_def fmt_text_def
    by (auto intro!: reads_ensure reads_u8_Cons [OF assms(1)] reads_map reads_string simp: wire_text_def)
next
  case (TableRef i)
  have "(TABLE_REF_TAG = LITERAL_TAG) = False" by (simp add: TABLE_REF_TAG_def LITERAL_TAG_def)
  with TableRef show ?thesis
    unfolding decode_compressed_text_def fmt_text_def
    by (auto intro!: reads_ensure reads_u8_Cons [OF assms(1)] reads_map reads_get(3) [OF assms(1)])
qed

lemma writes_option_text [write_rules]:
  assumes "buf_laws B" and "wire_option wire_text v"
  shows "writes (encode_option_compressed_text B v) (fmt_option fmt_text v)"
  unfolding encode_option_compressed_text_def
  by (rule writes_option [OF assms(1) writes_text [OF assms(1)]]) (use assms(2) in \<open>simp add: wire_option_def\<close>)

lemma reads_option_text [read_rules]:
  assumes "buf_laws B" and "wire_option wire_text v"
  shows "reads (decode_option_compressed_text B) (fmt_option fmt_text v) v"
  unfolding decode_option_compressed_text_def
  by (rule reads_option [OF assms(1) reads_text [OF assms(1)]]) (use assms(2) in \<open>simp add: wire_option_def\<close>)

section \<open>The format of frames\<close>

definition fmt_frame :: "byte \<Rightarrow> bytes \<Rightarrow> bytes" where
  "fmt_frame kind w = be_bytes 4 (2 + length w) @ WIRE_VERSION # kind # w"

lemma length_fmt_frame [simp]: "length (fmt_frame kind w) = 6 + length w"
  by (simp add: fmt_frame_def)

lemma writes_frame [write_rules]:
  assumes "buf_laws B" and "writes body w" and "2 + length w \<le> usize_u32_max"
  shows "writes (encode_frame B kind body) (fmt_frame kind w)"
proof -
  have "encode_frame B kind body b = (Inr (), b @ fmt_frame kind w)" for b
    using assms(2,3) by (simp add: writes_def encode_frame_def begin_frame_def enc_then_def patch_frame_length_def
        buf_laws_simps [OF assms(1)] fmt_frame_def Let_def)
  then show ?thesis by (simp add: writes_def)
qed

text \<open>A body that does not fit the length field is refused.\<close>

lemma encode_frame_too_large:
  assumes "buf_laws B" and "writes body w" and "usize_u32_max < 2 + length w"
  shows "fst (encode_frame B kind body b) = Inl FrameTooLarge"
  using assms(2,3) by (simp add: writes_def encode_frame_def begin_frame_def enc_then_def patch_frame_length_def
      buf_laws_simps [OF assms(1)] Let_def)

lemma read_header_frame:
  assumes "buf_laws B" and "2 + length w \<le> usize_u32_max"
  shows "read_frame_header B kind (fmt_frame kind w @ rest) =
    (Inr (\<lparr>fh_length = of_nat (2 + length w), fh_version = WIRE_VERSION, fh_kind = kind\<rparr>, length w), w @ rest)"
proof -
  have l: "from_be (be_bytes 4 (2 + length w)) = 2 + length w"
    using assms(2) by (intro from_be_be_bytes) (simp add: usize_u32_max_def)
  have u: "unat (of_nat (2 + length w) :: wire_u32) = 2 + length w" using assms(2) by (rule unat_length)
  show ?thesis
    unfolding read_frame_header_def fmt_frame_def
    using l u by (simp add: dec_then_def ensure_remaining_def dec_get_def buf_laws_simps [OF assms(1)] get_be_def dec_ok_def
        Let_def del: of_nat_add of_nat_Suc)
qed

lemma reads_frame:
  assumes "buf_laws B" and "2 + length w \<le> usize_u32_max" and "\<And>h. reads (f h) w x"
  shows "reads (dec_then (read_frame_header B kind) f) (fmt_frame kind w) x"
  using assms(3) by (simp add: reads_def dec_then_def read_header_frame [OF assms(1,2)])

lemma read_header_truncated:
  assumes "buf_laws B" and "2 + length w \<le> usize_u32_max" and "fmt_frame kind w = p @ q" and "q \<noteq> []"
  shows "fst (read_frame_header B kind p) = Inl (Wire Truncated)"
proof (cases "length p < 6")
  case True
  then show ?thesis by (simp add: read_frame_header_def dec_then_def ensure_remaining_def)
next
  case False
  let ?n = "2 + length w"
  have l: "from_be (be_bytes 4 ?n) = ?n" using assms(2) by (intro from_be_be_bytes) (simp add: usize_u32_max_def)
  have u: "unat (of_nat ?n :: wire_u32) = ?n" using assms(2) by (rule unat_length)
  have "take 4 p = take 4 (p @ q)" using False by simp
  also have "\<dots> = be_bytes 4 ?n" unfolding assms(3) [symmetric] fmt_frame_def by simp
  finally have t: "take 4 p = be_bytes 4 ?n" .
  have "length p + length q = 6 + length w" using assms(3) length_fmt_frame [of kind w] by simp
  with assms(4) have "length p - 4 < ?n" by (cases q) auto
  with False t l u show ?thesis
    by (simp add: read_frame_header_def dec_then_def ensure_remaining_def dec_get_def buf_laws_simps [OF assms(1)] get_be_def
        Let_def del: of_nat_add of_nat_Suc)
qed

section \<open>Decoders that never panic\<close>

text \<open>\<open>safe_from n d\<close>: on a buffer of at least \<open>n\<close> bytes the decoder \<open>d\<close> does not panic.\<close>

definition safe_from :: "nat \<Rightarrow> 'a decoder \<Rightarrow> bool" where
  "safe_from n d \<longleftrightarrow> (\<forall>b. n \<le> length b \<longrightarrow> fst (d b) \<noteq> Inl BufPanic)"

named_theorems safe_rules \<open>decoders that do not panic\<close>

lemma safe_mono: "safe_from m d \<Longrightarrow> m \<le> n \<Longrightarrow> safe_from n d"
  by (simp add: safe_from_def)

lemma safe_ok: "safe_from n (dec_ok x)" and safe_err: "safe_from n (dec_err e)"
  by (simp_all add: safe_from_def dec_ok_def dec_err_def)

lemma safe_then: "safe_from n d \<Longrightarrow> (\<And>x. safe_from 0 (f x)) \<Longrightarrow> safe_from n (dec_then d f)"
proof -
  assume d: "safe_from n d" and f: "\<And>x. safe_from 0 (f x)"
  have "fst (dec_then d f b) \<noteq> Inl BufPanic" if "n \<le> length b" for b
  proof (cases "d b")
    case (Pair r b')
    have "r \<noteq> Inl BufPanic" using d Pair that unfolding safe_from_def by (metis fst_conv)
    with Pair show ?thesis using f by (cases r) (simp_all add: dec_then_def safe_from_def)
  qed
  then show ?thesis by (simp add: safe_from_def)
qed

lemma safe_ensure: "safe_from (max m n) (f ()) \<Longrightarrow> safe_from m (dec_then (ensure_remaining n) f)"
  by (simp add: safe_from_def dec_then_def ensure_remaining_def)

lemma safe_get:
  assumes "buf_laws B"
  shows "1 \<le> n \<Longrightarrow> (\<And>x. safe_from (n - 1) (f8 x)) \<Longrightarrow> safe_from n (dec_then (dec_get (get_u8 B)) f8)"
    "2 \<le> n \<Longrightarrow> (\<And>x. safe_from (n - 2) (f16 x)) \<Longrightarrow> safe_from n (dec_then (dec_get (get_u16 B)) f16)"
    "4 \<le> n \<Longrightarrow> (\<And>x. safe_from (n - 4) (f32 x)) \<Longrightarrow> safe_from n (dec_then (dec_get (get_u32 B)) f32)"
    "8 \<le> n \<Longrightarrow> (\<And>x. safe_from (n - 8) (f64 x)) \<Longrightarrow> safe_from n (dec_then (dec_get (get_u64 B)) f64)"
  by (auto simp: safe_from_def dec_then_def dec_get_def buf_laws_simps [OF assms] get_be_def)

lemma safe_split: "buf_laws B \<Longrightarrow> k \<le> n \<Longrightarrow> safe_from n (dec_get (split_to B k))"
  by (auto simp: safe_from_def dec_get_def buf_laws_simps)

lemma safe_split_then:
  "buf_laws B \<Longrightarrow> k \<le> n \<Longrightarrow> (\<And>x. safe_from 0 (f x)) \<Longrightarrow> safe_from n (dec_then (dec_get (split_to B k)) f)"
  by (auto simp: safe_from_def dec_then_def dec_get_def buf_laws_simps)

lemma safe_bytes [safe_rules]: "buf_laws B \<Longrightarrow> safe_from n (decode_bytes B)"
  unfolding decode_bytes_def by (intro safe_ensure safe_get safe_split) simp_all

lemma safe_string [safe_rules]: "buf_laws B \<Longrightarrow> safe_from n (decode_string B)"
  unfolding decode_string_def
  by (intro safe_ensure safe_get safe_split_then) (simp_all add: safe_ok safe_err split: option.split)

lemma safe_option_string [safe_rules]: "buf_laws B \<Longrightarrow> safe_from n (decode_option_string B)"
  unfolding decode_option_string_def
  by (intro safe_ensure safe_get) (auto intro: safe_then safe_ok safe_err safe_string)

lemma safe_text [safe_rules]:
  assumes "buf_laws B"
  shows "safe_from n (decode_compressed_text B)"
proof -
  have "safe_from m (dec_then (ensure_remaining 4) (\<lambda>_. dec_then (dec_get (get_u32 B)) (\<lambda>i. dec_ok (TableRef i))))" for m
    by (intro safe_ensure safe_get [OF assms] safe_ok) simp
  moreover have "safe_from m (dec_then (decode_string B) (\<lambda>s. dec_ok (Literal s)))" for m
    by (intro safe_then safe_string safe_ok assms)
  ultimately show ?thesis
    unfolding decode_compressed_text_def by (intro safe_ensure safe_get [OF assms]) (auto simp: safe_err)
qed

lemma safe_option_text [safe_rules]: "buf_laws B \<Longrightarrow> safe_from n (decode_option_compressed_text B)"
  unfolding decode_option_compressed_text_def
  by (intro safe_ensure safe_get) (auto intro: safe_then safe_ok safe_err safe_text)

lemma safe_header [safe_rules]: "buf_laws B \<Longrightarrow> safe_from n (read_frame_header B kind)"
  unfolding read_frame_header_def Let_def
  by (intro safe_ensure safe_get) (auto intro!: safe_ensure safe_get safe_ok safe_err)

lemma safe_peek [safe_rules]: "safe_from n peek_frame_kind"
  by (simp add: safe_from_def peek_frame_kind_def)

end
