(* ===== verification/Wire_Codec.thy ===== *)
theory Wire_Codec
  imports Wire_Buffer
begin

text \<open>
  The PDUs of \<open>remote-core/src/wire\<close> and their codecs (\<open>envelope_*\<close>, \<open>ack_*\<close>, \<open>handshake_*\<close>,
  \<open>control_*\<close>, \<open>flush_scope.rs\<close>, \<open>compression_table_kind.rs\<close>, \<open>compression_table_entry.rs\<close>,
  \<open>remote_deployment_*\<close>) with \<open>OutboundPriority\<close> of \<open>remote-core/src/envelope/priority.rs\<close>. The trait
  \<open>Codec\<close> is the locale \<open>wire_codec\<close>: what an encoder appends is a format given independently of the
  code, the decoder reads exactly that format back, never panics, and reports a cut frame as
  \<open>Truncated\<close>. The five codecs interpret it.
\<close>

section \<open>The contract of a codec\<close>

locale wire_codec =
  fixes B :: buf_ops
    and kind_of :: "'p \<Rightarrow> byte"
    and body_of :: "'p \<Rightarrow> bytes"
    and valid_pdu :: "'p \<Rightarrow> bool"
    and encode :: "'p \<Rightarrow> encoder"
    and decode :: "'p decoder"
  assumes encode_writes: "buf_laws B \<Longrightarrow> valid_pdu p \<Longrightarrow> 2 + length (body_of p) \<le> usize_u32_max \<Longrightarrow>
      writes (encode p) (fmt_frame (kind_of p) (body_of p))"
    and encode_large: "buf_laws B \<Longrightarrow> valid_pdu p \<Longrightarrow> usize_u32_max < 2 + length (body_of p) \<Longrightarrow>
      fst (encode p b) = Inl FrameTooLarge"
    and decode_reads: "buf_laws B \<Longrightarrow> valid_pdu p \<Longrightarrow> 2 + length (body_of p) \<le> usize_u32_max \<Longrightarrow>
      reads decode (fmt_frame (kind_of p) (body_of p)) p"
    and decode_safe: "buf_laws B \<Longrightarrow> safe_from 0 decode"
    and decode_cut: "buf_laws B \<Longrightarrow> 2 + length w \<le> usize_u32_max \<Longrightarrow> fmt_frame (kind_of p) w = x @ y \<Longrightarrow> y \<noteq> [] \<Longrightarrow>
      fst (decode x) = Inl (Wire Truncated)"
begin

definition frame_of :: "'p \<Rightarrow> bytes" where
  "frame_of p = fmt_frame (kind_of p) (body_of p)"

lemma round_trip:
  assumes "buf_laws B" and "valid_pdu p" and "fst (encode p b) = Inr ()"
  shows "snd (encode p b) = b @ frame_of p" and "decode (frame_of p @ rest) = (Inr p, rest)"
proof -
  have n: "2 + length (body_of p) \<le> usize_u32_max"
    using encode_large [OF assms(1,2), of b] assms(3) by (cases "2 + length (body_of p) \<le> usize_u32_max") auto
  show "snd (encode p b) = b @ frame_of p"
    using encode_writes [OF assms(1,2) n] by (simp add: writes_def frame_of_def)
  show "decode (frame_of p @ rest) = (Inr p, rest)"
    using decode_reads [OF assms(1,2) n] by (simp add: reads_def frame_of_def)
qed

text \<open>Two values with the same bytes are the same value, also as prefixes of a stream.\<close>

lemma frames_unambiguous:
  assumes "buf_laws B" and "valid_pdu p" and "valid_pdu q" and "fst (encode p b) = Inr ()" and "fst (encode q b) = Inr ()"
    and "frame_of p @ r = frame_of q @ s"
  shows "p = q \<and> r = s"
proof -
  have "decode (frame_of q @ s) = (Inr p, r)"
    using round_trip(2) [OF assms(1,2,4), of r] unfolding assms(6) .
  then show ?thesis unfolding round_trip(2) [OF assms(1,3,5)] by simp
qed

lemma decode_no_panic: "buf_laws B \<Longrightarrow> fst (decode x) \<noteq> Inl BufPanic"
  using decode_safe by (simp add: safe_from_def)

lemma decode_prefix:
  assumes "buf_laws B" and "valid_pdu p" and "fst (encode p b) = Inr ()" and "frame_of p = x @ y" and "y \<noteq> []"
  shows "fst (decode x) = Inl (Wire Truncated)"
proof -
  have "2 + length (body_of p) \<le> usize_u32_max"
    using encode_large [OF assms(1,2), of b] assms(3) by (cases "2 + length (body_of p) \<le> usize_u32_max") auto
  then show ?thesis using assms decode_cut by (simp add: frame_of_def)
qed

end

text \<open>The decoders that read a header first and then the body.\<close>

lemma decode_cut_header:
  assumes "buf_laws B" and "2 + length w \<le> usize_u32_max" and "fmt_frame kind w = x @ y" and "y \<noteq> []"
  shows "fst (dec_then (read_frame_header B kind) f x) = Inl (Wire Truncated)"
  using read_header_truncated [OF assms] by (auto simp: dec_then_def split: prod.splits)

lemma safe_decode_header:
  assumes "buf_laws B" and "\<And>h. safe_from 0 (f h)"
  shows "safe_from n (dec_then (read_frame_header B kind) f)"
  by (intro safe_then safe_header assms)

text \<open>A codec of one frame kind is given by its body.\<close>

lemma single_kind_codec:
  assumes body: "\<And>p. buf_laws B \<Longrightarrow> valid p \<Longrightarrow> writes (enc p) (fmt p)"
    and dec: "\<And>p h. buf_laws B \<Longrightarrow> valid p \<Longrightarrow> reads (f h) (fmt p) p"
    and safe: "\<And>h. buf_laws B \<Longrightarrow> safe_from 0 (f h)"
    and encode: "\<And>p. encode p = encode_frame B kind (enc p)"
    and decode: "decode = dec_then (read_frame_header B kind) f"
  shows "wire_codec B (\<lambda>_. kind) fmt valid encode decode"
proof
  fix p b w x y
  assume B: "buf_laws B"
  show "valid p \<Longrightarrow> 2 + length (fmt p) \<le> usize_u32_max \<Longrightarrow> writes (encode p) (fmt_frame kind (fmt p))"
    unfolding encode by (rule writes_frame [OF B body [OF B]])
  show "valid p \<Longrightarrow> usize_u32_max < 2 + length (fmt p) \<Longrightarrow> fst (encode p b) = Inl FrameTooLarge"
    unfolding encode by (rule encode_frame_too_large [OF B body [OF B]])
  show "valid p \<Longrightarrow> 2 + length (fmt p) \<le> usize_u32_max \<Longrightarrow> reads decode (fmt_frame kind (fmt p)) p"
    unfolding decode by (rule reads_frame [OF B _ dec [OF B]])
  show "safe_from 0 decode" unfolding decode by (rule safe_decode_header [OF B safe [OF B]])
  show "2 + length w \<le> usize_u32_max \<Longrightarrow> fmt_frame kind w = x @ y \<Longrightarrow> y \<noteq> [] \<Longrightarrow> fst (decode x) = Inl (Wire Truncated)"
    unfolding decode by (rule decode_cut_header [OF B])
qed

text \<open>The encoders are sequences: what a list of steps writes is the concatenation.\<close>

lemma writes_seq_last: "writes e w \<Longrightarrow> writes (enc_seq [e]) w"
  using writes_seq_Cons [OF _ writes_seq_Nil] by fastforce

lemma writes_u8_Cons: "buf_laws B \<Longrightarrow> writes (enc_seq es) w \<Longrightarrow> writes (enc_seq (enc_put (put_u8 B) x # es)) (x # w)"
  using writes_seq_Cons [OF writes_put(1)] by fastforce

lemmas writes_seq_intros = writes_u8_Cons writes_seq_last writes_seq_Cons writes_put

lemmas reads_seq_intros = reads_ensure reads_u8_Cons reads_then reads_map reads_get

section \<open>Acknowledgements\<close>

record ack_pdu =
  ap_sequence_number :: u64
  ap_cumulative_ack :: u64
  ap_nack_bitmap :: u64

definition ack_new :: "u64 \<Rightarrow> u64 \<Rightarrow> u64 \<Rightarrow> ack_pdu" where
  "ack_new s c n = \<lparr>ap_sequence_number = s, ap_cumulative_ack = c, ap_nack_bitmap = n\<rparr>"

definition encode_ack_body :: "buf_ops \<Rightarrow> ack_pdu \<Rightarrow> encoder" where
  "encode_ack_body B p = enc_seq
     [enc_put (put_u64 B) (ap_sequence_number p), enc_put (put_u64 B) (ap_cumulative_ack p),
      enc_put (put_u64 B) (ap_nack_bitmap p)]"

definition decode_ack_body :: "buf_ops \<Rightarrow> ack_pdu decoder" where
  "decode_ack_body B =
     dec_then (ensure_remaining (8 * 3)) (\<lambda>_.
     dec_then (dec_get (get_u64 B)) (\<lambda>sequence_number.
     dec_then (dec_get (get_u64 B)) (\<lambda>cumulative_ack.
     dec_then (dec_get (get_u64 B)) (\<lambda>nack_bitmap.
     dec_ok (ack_new sequence_number cumulative_ack nack_bitmap)))))"

definition ack_encode :: "buf_ops \<Rightarrow> ack_pdu \<Rightarrow> encoder" where
  "ack_encode B p = encode_frame B KIND_ACK (encode_ack_body B p)"

definition ack_decode :: "buf_ops \<Rightarrow> ack_pdu decoder" where
  "ack_decode B = dec_then (read_frame_header B KIND_ACK) (\<lambda>_. decode_ack_body B)"

definition fmt_ack :: "ack_pdu \<Rightarrow> bytes" where
  "fmt_ack p = be_bytes 8 (unat (ap_sequence_number p)) @ be_bytes 8 (unat (ap_cumulative_ack p))
     @ be_bytes 8 (unat (ap_nack_bitmap p))"

lemma ack_new_fields: "ack_new (ap_sequence_number p) (ap_cumulative_ack p) (ap_nack_bitmap p) = p"
  by (simp add: ack_new_def)

interpretation ack: wire_codec B "\<lambda>_. KIND_ACK" fmt_ack "\<lambda>_. True" "ack_encode B" "ack_decode B"
  for B
proof (rule single_kind_codec [OF _ _ _ ack_encode_def ack_decode_def])
  fix p :: ack_pdu
  assume B: "buf_laws B"
  show "writes (encode_ack_body B p) (fmt_ack p)"
    unfolding encode_ack_body_def fmt_ack_def by (intro writes_seq_intros B)
  have "reads (decode_ack_body B) (fmt_ack p) (ack_new (ap_sequence_number p) (ap_cumulative_ack p) (ap_nack_bitmap p))"
    unfolding decode_ack_body_def fmt_ack_def by (rule reads_seq_intros B)+ simp
  then show "reads (decode_ack_body B) (fmt_ack p) p" unfolding ack_new_fields .
  show "safe_from 0 (decode_ack_body B)"
    unfolding decode_ack_body_def by (intro safe_ensure safe_get B safe_ok) simp_all
qed

section \<open>Envelopes\<close>

datatype outbound_priority = SystemPriority | UserPriority

definition is_system :: "outbound_priority \<Rightarrow> bool" where
  "is_system p \<longleftrightarrow> (case p of SystemPriority \<Rightarrow> True | UserPriority \<Rightarrow> False)"

definition priority_to_wire :: "outbound_priority \<Rightarrow> byte" where
  "priority_to_wire p = (case p of SystemPriority \<Rightarrow> 0 | UserPriority \<Rightarrow> 1)"

definition priority_from_wire :: "byte \<Rightarrow> outbound_priority option" where
  "priority_from_wire b = (if b = 0 then Some SystemPriority else if b = 1 then Some UserPriority else None)"

record envelope_payload =
  pl_serializer_id :: wire_u32
  pl_manifest :: "string option"
  pl_bytes :: bytes

definition payload_new :: "wire_u32 \<Rightarrow> string option \<Rightarrow> bytes \<Rightarrow> envelope_payload" where
  "payload_new sid m bs = \<lparr>pl_serializer_id = sid, pl_manifest = m, pl_bytes = bs\<rparr>"

record envelope_pdu =
  ep_recipient_path :: compressed_text
  ep_sender_path :: "compressed_text option"
  ep_correlation_hi :: u64
  ep_correlation_lo :: wire_u32
  ep_priority :: byte
  ep_redelivery_sequence :: "u64 option"
  ep_serializer_id :: wire_u32
  ep_manifest :: "compressed_text option"
  ep_payload :: bytes

definition envelope_new ::
  "string \<Rightarrow> string option \<Rightarrow> u64 \<Rightarrow> wire_u32 \<Rightarrow> byte \<Rightarrow> envelope_payload \<Rightarrow> envelope_pdu" where
  "envelope_new recipient sender hi lo prio payload =
     \<lparr>ep_recipient_path = Literal recipient, ep_sender_path = map_option Literal sender, ep_correlation_hi = hi,
      ep_correlation_lo = lo, ep_priority = prio, ep_redelivery_sequence = None,
      ep_serializer_id = pl_serializer_id payload, ep_manifest = map_option Literal (pl_manifest payload),
      ep_payload = pl_bytes payload\<rparr>"

definition envelope_new_with_metadata ::
  "compressed_text \<Rightarrow> compressed_text option \<Rightarrow> u64 \<Rightarrow> wire_u32 \<Rightarrow> byte \<Rightarrow> envelope_payload \<Rightarrow> compressed_text option \<Rightarrow> envelope_pdu" where
  "envelope_new_with_metadata recipient sender hi lo prio payload manifest_metadata =
     \<lparr>ep_recipient_path = recipient, ep_sender_path = sender, ep_correlation_hi = hi,
      ep_correlation_lo = lo, ep_priority = prio, ep_redelivery_sequence = None,
      ep_serializer_id = pl_serializer_id payload,
      ep_manifest = (case manifest_metadata of Some m \<Rightarrow> Some m | None \<Rightarrow> map_option Literal (pl_manifest payload)),
      ep_payload = pl_bytes payload\<rparr>"

definition with_redelivery_sequence :: "u64 option \<Rightarrow> envelope_pdu \<Rightarrow> envelope_pdu" where
  "with_redelivery_sequence s p = p\<lparr>ep_redelivery_sequence := s\<rparr>"

text \<open>The accessors of resolved metadata panic on a table reference: \<open>None\<close> is that panic.\<close>

definition recipient_path :: "envelope_pdu \<Rightarrow> string option" where
  "recipient_path p = as_literal (ep_recipient_path p)"

definition sender_path :: "envelope_pdu \<Rightarrow> string option option" where
  "sender_path p = (case ep_sender_path p of None \<Rightarrow> Some None | Some c \<Rightarrow> map_option Some (as_literal c))"

definition manifest_text :: "envelope_pdu \<Rightarrow> string option option" where
  "manifest_text p = (case ep_manifest p of None \<Rightarrow> Some None | Some c \<Rightarrow> map_option Some (as_literal c))"

definition encode_redelivery_sequence :: "buf_ops \<Rightarrow> byte \<Rightarrow> u64 option \<Rightarrow> encoder" where
  "encode_redelivery_sequence B prio s =
     (case (priority_from_wire prio, s) of
        (Some SystemPriority, Some n) \<Rightarrow> enc_seq [enc_put (put_u8 B) 1, enc_put (put_u64 B) n]
      | (Some UserPriority, None) \<Rightarrow> enc_put (put_u8 B) 0
      | _ \<Rightarrow> enc_err InvalidFormat)"

definition decode_redelivery_sequence :: "buf_ops \<Rightarrow> byte \<Rightarrow> u64 option decoder" where
  "decode_redelivery_sequence B prio =
     (case priority_from_wire prio of
        None \<Rightarrow> dec_err InvalidFormat
      | Some priority \<Rightarrow>
          dec_then (dec_get (get_u8 B)) (\<lambda>flag.
          dec_then
            (if flag = 0 then dec_ok None
             else if flag = 1 then dec_then (ensure_remaining 8) (\<lambda>_. dec_then (dec_get (get_u64 B)) (\<lambda>n. dec_ok (Some n)))
             else dec_err InvalidFormat) (\<lambda>s.
          case (priority, s) of
            (SystemPriority, Some n) \<Rightarrow> dec_ok (Some n)
          | (UserPriority, None) \<Rightarrow> dec_ok None
          | _ \<Rightarrow> dec_err InvalidFormat)))"

definition encode_envelope_body :: "buf_ops \<Rightarrow> envelope_pdu \<Rightarrow> encoder" where
  "encode_envelope_body B p = enc_seq
     [encode_compressed_text B (ep_recipient_path p),
      encode_option_compressed_text B (ep_sender_path p),
      enc_put (put_u64 B) (ep_correlation_hi p),
      enc_put (put_u32 B) (ep_correlation_lo p),
      enc_put (put_u8 B) (ep_priority p),
      encode_redelivery_sequence B (ep_priority p) (ep_redelivery_sequence p),
      enc_put (put_u32 B) (ep_serializer_id p),
      encode_option_compressed_text B (ep_manifest p),
      encode_bytes B (ep_payload p)]"

definition decode_envelope_body :: "buf_ops \<Rightarrow> envelope_pdu decoder" where
  "decode_envelope_body B =
     dec_then (decode_compressed_text B) (\<lambda>recipient.
     dec_then (decode_option_compressed_text B) (\<lambda>sender.
     dec_then (ensure_remaining (8 + 4 + 1 + 1 + 4)) (\<lambda>_.
     dec_then (dec_get (get_u64 B)) (\<lambda>hi.
     dec_then (dec_get (get_u32 B)) (\<lambda>lo.
     dec_then (dec_get (get_u8 B)) (\<lambda>prio.
     dec_then (decode_redelivery_sequence B prio) (\<lambda>s.
     dec_then (ensure_remaining 4) (\<lambda>_.
     dec_then (dec_get (get_u32 B)) (\<lambda>sid.
     dec_then (decode_option_compressed_text B) (\<lambda>manifest.
     dec_then (decode_bytes B) (\<lambda>payload.
     dec_ok (with_redelivery_sequence s
       (envelope_new_with_metadata recipient sender hi lo prio (payload_new sid None payload) manifest)))))))))))))"

definition envelope_encode :: "buf_ops \<Rightarrow> envelope_pdu \<Rightarrow> encoder" where
  "envelope_encode B p = encode_frame B KIND_ENVELOPE (encode_envelope_body B p)"

definition envelope_decode :: "buf_ops \<Rightarrow> envelope_pdu decoder" where
  "envelope_decode B = dec_then (read_frame_header B KIND_ENVELOPE) (\<lambda>_. decode_envelope_body B)"

subsection \<open>The format of envelopes\<close>

text \<open>System envelopes carry a redelivery sequence number and user envelopes do not.\<close>

definition sequence_matches :: "byte \<Rightarrow> u64 option \<Rightarrow> bool" where
  "sequence_matches prio s \<longleftrightarrow> prio = 0 \<and> s \<noteq> None \<or> prio = 1 \<and> s = None"

definition fmt_sequence :: "u64 option \<Rightarrow> bytes" where
  "fmt_sequence = fmt_option (\<lambda>n. be_bytes 8 (unat n))"

definition fmt_envelope :: "envelope_pdu \<Rightarrow> bytes" where
  "fmt_envelope p = fmt_text (ep_recipient_path p) @ fmt_option fmt_text (ep_sender_path p)
     @ be_bytes 8 (unat (ep_correlation_hi p)) @ be_bytes 4 (unat (ep_correlation_lo p))
     @ ep_priority p # fmt_sequence (ep_redelivery_sequence p) @ be_bytes 4 (unat (ep_serializer_id p))
     @ fmt_option fmt_text (ep_manifest p) @ fmt_bytes (ep_payload p)"

definition wire_envelope :: "envelope_pdu \<Rightarrow> bool" where
  "wire_envelope p \<longleftrightarrow> wire_text (ep_recipient_path p) \<and> wire_option wire_text (ep_sender_path p)
     \<and> wire_option wire_text (ep_manifest p) \<and> length (ep_payload p) \<le> usize_u32_max
     \<and> sequence_matches (ep_priority p) (ep_redelivery_sequence p)"

lemma writes_sequence [write_rules]:
  assumes "buf_laws B" and "sequence_matches prio s"
  shows "writes (encode_redelivery_sequence B prio s) (fmt_sequence s)"
proof (cases s)
  case None
  with assms writes_put(1) [OF assms(1), of 0] show ?thesis
    by (auto simp: sequence_matches_def encode_redelivery_sequence_def priority_from_wire_def fmt_sequence_def fmt_option_def)
next
  case (Some n)
  have "writes (enc_seq [enc_put (put_u8 B) 1, enc_put (put_u64 B) n]) (1 # be_bytes 8 (unat n))"
    by (intro writes_seq_intros assms(1))
  with Some assms(2) show ?thesis
    by (simp add: sequence_matches_def encode_redelivery_sequence_def priority_from_wire_def fmt_sequence_def fmt_option_def)
qed

lemma sequence_mismatch: "\<not> sequence_matches prio s \<Longrightarrow> encode_redelivery_sequence B prio s = enc_err InvalidFormat"
  by (auto simp: sequence_matches_def encode_redelivery_sequence_def priority_from_wire_def split: option.split)

lemma reads_sequence [read_rules]:
  assumes "buf_laws B" and "sequence_matches prio s"
  shows "reads (decode_redelivery_sequence B prio) (fmt_sequence s) s"
proof (cases s)
  case None
  with assms(2) have "prio = 1" by (simp add: sequence_matches_def)
  with None show ?thesis
    by (simp add: reads_def decode_redelivery_sequence_def priority_from_wire_def fmt_sequence_def fmt_option_def
        dec_then_def dec_get_def buf_laws_simps [OF assms(1)] get_be_def dec_ok_def)
next
  case (Some n)
  with assms(2) have "prio = 0" by (simp add: sequence_matches_def)
  with Some show ?thesis
    by (simp add: reads_def decode_redelivery_sequence_def priority_from_wire_def fmt_sequence_def fmt_option_def
        dec_then_def dec_get_def buf_laws_simps [OF assms(1)] get_be_def dec_ok_def ensure_remaining_def
        from_be_be_bytes [OF unat_u64])
qed

lemma safe_sequence:
  assumes B: "buf_laws B" and "1 \<le> n"
  shows "safe_from n (decode_redelivery_sequence B prio)"
proof -
  have "safe_from m (dec_then (ensure_remaining 8) (\<lambda>_. dec_then (dec_get (get_u64 B)) (\<lambda>n. dec_ok (Some n))))" for m
    by (intro safe_ensure safe_get B safe_ok) simp
  then have "safe_from m (if flag = 0 then dec_ok None
      else if flag = 1 then dec_then (ensure_remaining 8) (\<lambda>_. dec_then (dec_get (get_u64 B)) (\<lambda>n. dec_ok (Some n)))
      else dec_err InvalidFormat)" for m and flag :: byte
    by (simp add: safe_ok safe_err)
  then have "safe_from n (dec_then (dec_get (get_u8 B)) (\<lambda>flag. dec_then (if flag = 0 then dec_ok None
      else if flag = 1 then dec_then (ensure_remaining 8) (\<lambda>_. dec_then (dec_get (get_u64 B)) (\<lambda>n. dec_ok (Some n)))
      else dec_err InvalidFormat) g))" if "\<And>x. safe_from 0 (g x)" for g :: "u64 option \<Rightarrow> u64 option decoder"
    by (intro safe_get(1) [OF B] safe_then that assms(2))
  then show ?thesis
    unfolding decode_redelivery_sequence_def
    by (auto simp: safe_err safe_ok split: option.split outbound_priority.split)
qed

lemma envelope_fields:
  "with_redelivery_sequence (ep_redelivery_sequence p)
     (envelope_new_with_metadata (ep_recipient_path p) (ep_sender_path p) (ep_correlation_hi p) (ep_correlation_lo p)
       (ep_priority p) (payload_new (ep_serializer_id p) None (ep_payload p)) (ep_manifest p)) = p"
  by (simp add: with_redelivery_sequence_def envelope_new_with_metadata_def payload_new_def option.case_eq_if)

interpretation envelope: wire_codec B "\<lambda>_. KIND_ENVELOPE" fmt_envelope wire_envelope "envelope_encode B" "envelope_decode B"
  for B
proof (rule single_kind_codec [OF _ _ _ envelope_encode_def envelope_decode_def])
  fix p :: envelope_pdu
  assume B: "buf_laws B"
  show "writes (encode_envelope_body B p) (fmt_envelope p)" if "wire_envelope p"
    using that unfolding encode_envelope_body_def fmt_envelope_def wire_envelope_def
    by (intro writes_seq_intros write_rules B) simp_all
  show "reads (decode_envelope_body B) (fmt_envelope p) p" if "wire_envelope p"
  proof -
    have p: "wire_text (ep_recipient_path p)" "wire_option wire_text (ep_sender_path p)" "wire_option wire_text (ep_manifest p)"
      "length (ep_payload p) \<le> usize_u32_max" "sequence_matches (ep_priority p) (ep_redelivery_sequence p)"
      using that by (simp_all add: wire_envelope_def)
    have "reads (decode_envelope_body B) (fmt_envelope p) (with_redelivery_sequence (ep_redelivery_sequence p)
     (envelope_new_with_metadata (ep_recipient_path p) (ep_sender_path p) (ep_correlation_hi p) (ep_correlation_lo p)
       (ep_priority p) (payload_new (ep_serializer_id p) None (ep_payload p)) (ep_manifest p)))"
      unfolding decode_envelope_body_def fmt_envelope_def
      by (rule reads_seq_intros read_rules B p)+ (simp_all add: fmt_bytes_def)
    then show ?thesis unfolding envelope_fields .
  qed
  show "safe_from 0 (decode_envelope_body B)"
    unfolding decode_envelope_body_def
    by (intro safe_text safe_option_text safe_then safe_ensure safe_get B safe_sequence safe_ok safe_bytes) simp_all
qed

section \<open>Handshakes\<close>

record handshake_req =
  hq_from :: unique_address
  hq_to :: address

record handshake_rsp =
  hs_from :: unique_address

datatype handshake_pdu = Req handshake_req | Rsp handshake_rsp

definition encode_address :: "buf_ops \<Rightarrow> address \<Rightarrow> encoder" where
  "encode_address B a = enc_seq [encode_string B (system a), encode_string B (host a), enc_put (put_u16 B) (port a)]"

definition decode_address :: "buf_ops \<Rightarrow> address decoder" where
  "decode_address B =
     dec_then (decode_string B) (\<lambda>sys.
     dec_then (decode_string B) (\<lambda>hst.
     dec_then (ensure_remaining 2) (\<lambda>_.
     dec_then (dec_get (get_u16 B)) (\<lambda>prt.
     dec_ok (address_new sys hst prt)))))"

definition encode_unique_address :: "buf_ops \<Rightarrow> unique_address \<Rightarrow> encoder" where
  "encode_unique_address B a = enc_seq [encode_address B (address_of a), enc_put (put_u64 B) (uid a)]"

definition decode_unique_address :: "buf_ops \<Rightarrow> unique_address decoder" where
  "decode_unique_address B =
     dec_then (decode_address B) (\<lambda>a.
     dec_then (ensure_remaining 8) (\<lambda>_.
     dec_then (dec_get (get_u64 B)) (\<lambda>u.
     dec_ok (unique_address_new a u))))"

definition handshake_encode :: "buf_ops \<Rightarrow> handshake_pdu \<Rightarrow> encoder" where
  "handshake_encode B p =
     (case p of
        Req q \<Rightarrow> encode_frame B KIND_HANDSHAKE_REQ (enc_seq [encode_unique_address B (hq_from q), encode_address B (hq_to q)])
      | Rsp r \<Rightarrow> encode_frame B KIND_HANDSHAKE_RSP (encode_unique_address B (hs_from r)))"

definition handshake_decode :: "buf_ops \<Rightarrow> handshake_pdu decoder" where
  "handshake_decode B =
     dec_then peek_frame_kind (\<lambda>kind.
     if kind = KIND_HANDSHAKE_REQ then
       dec_then (read_frame_header B KIND_HANDSHAKE_REQ) (\<lambda>_.
       dec_then (decode_unique_address B) (\<lambda>from.
       dec_then (decode_address B) (\<lambda>to.
       dec_ok (Req \<lparr>hq_from = from, hq_to = to\<rparr>))))
     else if kind = KIND_HANDSHAKE_RSP then
       dec_then (read_frame_header B KIND_HANDSHAKE_RSP) (\<lambda>_.
       dec_then (decode_unique_address B) (\<lambda>from.
       dec_ok (Rsp \<lparr>hs_from = from\<rparr>)))
     else dec_err UnknownKind)"

subsection \<open>The format of handshakes\<close>

definition fmt_address :: "address \<Rightarrow> bytes" where
  "fmt_address a = fmt_string (system a) @ fmt_string (host a) @ be_bytes 2 (unat (port a))"

definition fmt_unique_address :: "unique_address \<Rightarrow> bytes" where
  "fmt_unique_address a = fmt_address (address_of a) @ be_bytes 8 (unat (uid a))"

definition wire_address :: "address \<Rightarrow> bool" where
  "wire_address a \<longleftrightarrow> wire_string (system a) \<and> wire_string (host a)"

definition fmt_handshake :: "handshake_pdu \<Rightarrow> bytes" where
  "fmt_handshake p = (case p of Req q \<Rightarrow> fmt_unique_address (hq_from q) @ fmt_address (hq_to q)
     | Rsp r \<Rightarrow> fmt_unique_address (hs_from r))"

definition handshake_kind :: "handshake_pdu \<Rightarrow> byte" where
  "handshake_kind p = (case p of Req _ \<Rightarrow> KIND_HANDSHAKE_REQ | Rsp _ \<Rightarrow> KIND_HANDSHAKE_RSP)"

definition wire_handshake :: "handshake_pdu \<Rightarrow> bool" where
  "wire_handshake p = (case p of Req q \<Rightarrow> wire_address (address_of (hq_from q)) \<and> wire_address (hq_to q)
     | Rsp r \<Rightarrow> wire_address (address_of (hs_from r)))"

lemma writes_address [write_rules]: "buf_laws B \<Longrightarrow> wire_address a \<Longrightarrow> writes (encode_address B a) (fmt_address a)"
  unfolding encode_address_def fmt_address_def wire_address_def by (intro writes_seq_intros write_rules) simp_all

lemma writes_unique_address [write_rules]:
  "buf_laws B \<Longrightarrow> wire_address (address_of a) \<Longrightarrow> writes (encode_unique_address B a) (fmt_unique_address a)"
  unfolding encode_unique_address_def fmt_unique_address_def by (intro writes_seq_intros write_rules) simp_all

lemma reads_address [read_rules]:
  assumes "buf_laws B" and "wire_address a"
  shows "reads (decode_address B) (fmt_address a) a"
proof -
  have a: "wire_string (system a)" "wire_string (host a)" using assms(2) by (simp_all add: wire_address_def)
  have "reads (decode_address B) (fmt_address a) (address_new (system a) (host a) (port a))"
    unfolding decode_address_def fmt_address_def by (rule reads_seq_intros read_rules assms(1) a)+ simp_all
  then show ?thesis by (cases a) (simp add: address_new_def)
qed

lemma reads_unique_address [read_rules]:
  assumes "buf_laws B" and "wire_address (address_of a)"
  shows "reads (decode_unique_address B) (fmt_unique_address a) a"
proof -
  have "reads (decode_unique_address B) (fmt_unique_address a) (unique_address_new (address_of a) (uid a))"
    unfolding decode_unique_address_def fmt_unique_address_def by (rule reads_seq_intros read_rules assms)+ simp_all
  then show ?thesis by (cases a) (simp add: unique_address_new_def)
qed

lemma safe_address [safe_rules]: "buf_laws B \<Longrightarrow> safe_from n (decode_address B)"
  unfolding decode_address_def by (intro safe_string safe_then safe_ensure safe_get safe_ok) simp_all

lemma safe_unique_address [safe_rules]: "buf_laws B \<Longrightarrow> safe_from n (decode_unique_address B)"
  unfolding decode_unique_address_def by (intro safe_address safe_then safe_ensure safe_get safe_ok) simp_all

lemma peek_frame: "peek_frame_kind (fmt_frame kind w @ rest) = (Inr kind, fmt_frame kind w @ rest)"
proof -
  have "length (be_bytes 4 (2 + length w)) = 4" by (rule length_be_bytes)
  then show ?thesis by (simp add: peek_frame_kind_def fmt_frame_def FRAME_KIND_OFFSET_def nth_append)
qed

lemma reads_peek:
  assumes "reads (f kind) (fmt_frame kind w) x"
  shows "reads (dec_then peek_frame_kind f) (fmt_frame kind w) x"
  using assms by (simp add: reads_def dec_then_def peek_frame)

lemma peek_prefix:
  assumes "fmt_frame kind w = x @ y"
  shows "peek_frame_kind x = (if length x < 6 then (Inl (Wire Truncated), x) else (Inr kind, x))"
proof (cases "length x < 6")
  case False
  then have "x ! FRAME_KIND_OFFSET = (x @ y) ! FRAME_KIND_OFFSET" by (simp add: nth_append FRAME_KIND_OFFSET_def)
  also have "\<dots> = kind"
    using peek_frame [of kind w "[]"] unfolding assms [symmetric] by (simp add: peek_frame_kind_def)
  finally show ?thesis using False by (simp add: peek_frame_kind_def)
qed (simp add: peek_frame_kind_def)

interpretation handshake: wire_codec B handshake_kind fmt_handshake wire_handshake "handshake_encode B" "handshake_decode B"
  for B
proof
  fix p :: handshake_pdu and b w x y :: bytes
  assume B: "buf_laws B"
  have ne: "(KIND_HANDSHAKE_RSP = KIND_HANDSHAKE_REQ) = False" by (simp add: kind_defs)
  have wq: "wire_handshake (Req q) \<Longrightarrow> writes (enc_seq [encode_unique_address B (hq_from q), encode_address B (hq_to q)]) (fmt_handshake (Req q))" for q
    by (auto simp: wire_handshake_def fmt_handshake_def intro!: writes_seq_intros write_rules B)
  have wr: "wire_handshake (Rsp r) \<Longrightarrow> writes (encode_unique_address B (hs_from r)) (fmt_handshake (Rsp r))" for r
    by (auto simp: wire_handshake_def fmt_handshake_def intro!: write_rules B)
  show "wire_handshake p \<Longrightarrow> 2 + length (fmt_handshake p) \<le> usize_u32_max \<Longrightarrow>
      writes (handshake_encode B p) (fmt_frame (handshake_kind p) (fmt_handshake p))"
    using writes_frame [OF B wq] writes_frame [OF B wr] by (cases p) (simp_all add: handshake_encode_def handshake_kind_def)
  show "wire_handshake p \<Longrightarrow> usize_u32_max < 2 + length (fmt_handshake p) \<Longrightarrow> fst (handshake_encode B p b) = Inl FrameTooLarge"
    using encode_frame_too_large [OF B wq] encode_frame_too_large [OF B wr]
    by (cases p) (simp_all add: handshake_encode_def handshake_kind_def)
  show "reads (handshake_decode B) (fmt_frame (handshake_kind p) (fmt_handshake p)) p"
    if p: "wire_handshake p" and l: "2 + length (fmt_handshake p) \<le> usize_u32_max"
  proof (cases p)
    case (Req q)
    have q: "wire_address (address_of (hq_from q))" "wire_address (hq_to q)" using p Req by (simp_all add: wire_handshake_def)
    have "reads (dec_then (decode_unique_address B) (\<lambda>from. dec_then (decode_address B) (\<lambda>to. dec_ok (Req \<lparr>hq_from = from, hq_to = to\<rparr>))))
        (fmt_unique_address (hq_from q) @ fmt_address (hq_to q)) (Req \<lparr>hq_from = hq_from q, hq_to = hq_to q\<rparr>)"
      by (rule reads_then reads_map [where g = "\<lambda>to. Req \<lparr>hq_from = hq_from q, hq_to = to\<rparr>"] read_rules B q)+
    moreover have "\<lparr>hq_from = hq_from q, hq_to = hq_to q\<rparr> = q" by simp
    ultimately show ?thesis using l Req unfolding handshake_decode_def
      by (auto simp: handshake_kind_def fmt_handshake_def intro!: reads_peek reads_frame B)
  next
    case (Rsp r)
    have r: "wire_address (address_of (hs_from r))" using p Rsp by (simp add: wire_handshake_def)
    have "reads (dec_then (decode_unique_address B) (\<lambda>from. dec_ok (Rsp \<lparr>hs_from = from\<rparr>)))
        (fmt_unique_address (hs_from r)) (Rsp \<lparr>hs_from = hs_from r\<rparr>)"
      by (rule reads_map read_rules B r)+
    moreover have "\<lparr>hs_from = hs_from r\<rparr> = r" by simp
    ultimately show ?thesis using l Rsp unfolding handshake_decode_def
      by (auto simp: handshake_kind_def fmt_handshake_def ne intro!: reads_peek reads_frame B)
  qed
  show "safe_from 0 (handshake_decode B)"
    unfolding handshake_decode_def
    by (intro safe_then safe_peek) (auto intro!: safe_header safe_then safe_address safe_unique_address safe_ok safe_err B)
  show "fst (handshake_decode B x) = Inl (Wire Truncated)"
    if "2 + length w \<le> usize_u32_max" "fmt_frame (handshake_kind p) w = x @ y" "y \<noteq> []"
    using peek_prefix [OF that(2)] decode_cut_header [OF B that] ne
    by (cases p) (auto simp: handshake_decode_def dec_then_def [of peek_frame_kind] handshake_kind_def)
qed

section \<open>Control messages\<close>

datatype flush_scope = ShutdownScope | BeforeDeathWatchNotification

definition scope_to_wire :: "flush_scope \<Rightarrow> byte" where
  "scope_to_wire s = (case s of ShutdownScope \<Rightarrow> 0 | BeforeDeathWatchNotification \<Rightarrow> 1)"

definition scope_from_wire :: "byte \<Rightarrow> flush_scope option" where
  "scope_from_wire b = (if b = 0 then Some ShutdownScope else if b = 1 then Some BeforeDeathWatchNotification else None)"

datatype table_kind = ActorRefTable | ManifestTable

definition table_to_wire :: "table_kind \<Rightarrow> byte" where
  "table_to_wire k = (case k of ActorRefTable \<Rightarrow> 0 | ManifestTable \<Rightarrow> 1)"

definition table_from_wire :: "byte \<Rightarrow> table_kind option" where
  "table_from_wire b = (if b = 0 then Some ActorRefTable else if b = 1 then Some ManifestTable else None)"

record table_entry =
  te_id :: wire_u32
  te_literal :: string

datatype control_pdu =
    Heartbeat string
  | HeartbeatResponse string u64
  | Quarantine string "string option"
  | Shutdown string
  | FlushRequest string u64 flush_scope wire_u32 wire_u32
  | FlushAck string u64 wire_u32 wire_u32
  | CompressionAdvertisement string table_kind u64 "table_entry list"
  | CompressionAck string table_kind u64

definition SUBKIND_HEARTBEAT :: byte where "SUBKIND_HEARTBEAT = 0"
definition SUBKIND_QUARANTINE :: byte where "SUBKIND_QUARANTINE = 1"
definition SUBKIND_SHUTDOWN :: byte where "SUBKIND_SHUTDOWN = 2"
definition SUBKIND_HEARTBEAT_RESPONSE :: byte where "SUBKIND_HEARTBEAT_RESPONSE = 3"
definition SUBKIND_FLUSH_REQUEST :: byte where "SUBKIND_FLUSH_REQUEST = 4"
definition SUBKIND_FLUSH_ACK :: byte where "SUBKIND_FLUSH_ACK = 5"
definition SUBKIND_COMPRESSION_ADVERTISEMENT :: byte where "SUBKIND_COMPRESSION_ADVERTISEMENT = 6"
definition SUBKIND_COMPRESSION_ACK :: byte where "SUBKIND_COMPRESSION_ACK = 7"
definition MIN_COMPRESSION_ENTRY_BYTES :: nat where "MIN_COMPRESSION_ENTRY_BYTES = 4 + 4"

lemmas subkind_defs = SUBKIND_HEARTBEAT_def SUBKIND_QUARANTINE_def SUBKIND_SHUTDOWN_def SUBKIND_HEARTBEAT_RESPONSE_def
  SUBKIND_FLUSH_REQUEST_def SUBKIND_FLUSH_ACK_def SUBKIND_COMPRESSION_ADVERTISEMENT_def SUBKIND_COMPRESSION_ACK_def

definition encode_authority_control :: "buf_ops \<Rightarrow> byte \<Rightarrow> string \<Rightarrow> string option \<Rightarrow> encoder" where
  "encode_authority_control B subkind authority reason =
     enc_seq [enc_put (put_u8 B) subkind, encode_string B authority, encode_option_string B reason]"

definition encode_compression_entries :: "buf_ops \<Rightarrow> table_entry list \<Rightarrow> encoder" where
  "encode_compression_entries B ents =
     (if length ents > usize_u32_max then enc_err InvalidFormat
      else enc_seq (enc_put (put_u32 B) (of_nat (length ents))
        # concat (map (\<lambda>e. [enc_put (put_u32 B) (te_id e), encode_string B (te_literal e)]) ents)))"

definition encode_compression_advertisement ::
  "buf_ops \<Rightarrow> string \<Rightarrow> table_kind \<Rightarrow> u64 \<Rightarrow> table_entry list \<Rightarrow> encoder" where
  "encode_compression_advertisement B authority k gen ents =
     enc_seq [encode_authority_control B SUBKIND_COMPRESSION_ADVERTISEMENT authority None,
       enc_put (put_u8 B) (table_to_wire k), enc_put (put_u64 B) gen, encode_compression_entries B ents]"

definition encode_control_body :: "buf_ops \<Rightarrow> control_pdu \<Rightarrow> encoder" where
  "encode_control_body B p =
     (case p of
        Heartbeat a \<Rightarrow> encode_authority_control B SUBKIND_HEARTBEAT a None
      | HeartbeatResponse a u \<Rightarrow>
          enc_seq [encode_authority_control B SUBKIND_HEARTBEAT_RESPONSE a None, enc_put (put_u64 B) u]
      | Quarantine a reason \<Rightarrow> encode_authority_control B SUBKIND_QUARANTINE a reason
      | Shutdown a \<Rightarrow> encode_authority_control B SUBKIND_SHUTDOWN a None
      | FlushRequest a fid scope lane acks \<Rightarrow>
          enc_seq [encode_authority_control B SUBKIND_FLUSH_REQUEST a None, enc_put (put_u64 B) fid,
            enc_put (put_u8 B) (scope_to_wire scope), enc_put (put_u32 B) lane, enc_put (put_u32 B) acks]
      | FlushAck a fid lane acks \<Rightarrow>
          enc_seq [encode_authority_control B SUBKIND_FLUSH_ACK a None, enc_put (put_u64 B) fid,
            enc_put (put_u32 B) lane, enc_put (put_u32 B) acks]
      | CompressionAdvertisement a k gen ents \<Rightarrow> encode_compression_advertisement B a k gen ents
      | CompressionAck a k gen \<Rightarrow>
          enc_seq [encode_authority_control B SUBKIND_COMPRESSION_ACK a None,
            enc_put (put_u8 B) (table_to_wire k), enc_put (put_u64 B) gen])"

definition ensure_no_reason :: "string option \<Rightarrow> unit decoder" where
  "ensure_no_reason reason = (case reason of None \<Rightarrow> dec_ok () | Some _ \<Rightarrow> dec_err InvalidFormat)"

definition decode_heartbeat_response :: "buf_ops \<Rightarrow> string \<Rightarrow> control_pdu decoder" where
  "decode_heartbeat_response B a =
     dec_then (ensure_remaining 8) (\<lambda>_. dec_then (dec_get (get_u64 B)) (\<lambda>u. dec_ok (HeartbeatResponse a u)))"

definition decode_flush_request :: "buf_ops \<Rightarrow> string \<Rightarrow> control_pdu decoder" where
  "decode_flush_request B a =
     dec_then (ensure_remaining 17) (\<lambda>_.
     dec_then (dec_get (get_u64 B)) (\<lambda>fid.
     dec_then (dec_get (get_u8 B)) (\<lambda>tag.
     case scope_from_wire tag of
       None \<Rightarrow> dec_err InvalidFormat
     | Some scope \<Rightarrow>
         dec_then (dec_get (get_u32 B)) (\<lambda>lane.
         dec_then (dec_get (get_u32 B)) (\<lambda>acks.
         dec_ok (FlushRequest a fid scope lane acks))))))"

definition decode_flush_ack :: "buf_ops \<Rightarrow> string \<Rightarrow> control_pdu decoder" where
  "decode_flush_ack B a =
     dec_then (ensure_remaining 16) (\<lambda>_.
     dec_then (dec_get (get_u64 B)) (\<lambda>fid.
     dec_then (dec_get (get_u32 B)) (\<lambda>lane.
     dec_then (dec_get (get_u32 B)) (\<lambda>acks.
     dec_ok (FlushAck a fid lane acks)))))"

text \<open>The entry count is checked against the bytes left before the vector is allocated.\<close>

definition ensure_entries :: "nat \<Rightarrow> unit decoder" where
  "ensure_entries n b =
     (if n > length b div MIN_COMPRESSION_ENTRY_BYTES then (Inl (Wire Truncated), b) else (Inr (), b))"

primrec decode_entries :: "buf_ops \<Rightarrow> nat \<Rightarrow> table_entry list decoder" where
  "decode_entries B 0 = dec_ok []"
| "decode_entries B (Suc n) =
     dec_then (ensure_remaining 4) (\<lambda>_.
     dec_then (dec_get (get_u32 B)) (\<lambda>i.
     dec_then (decode_string B) (\<lambda>literal.
     dec_then (decode_entries B n) (\<lambda>ents.
     dec_ok (\<lparr>te_id = i, te_literal = literal\<rparr> # ents)))))"

definition decode_compression_entries :: "buf_ops \<Rightarrow> table_entry list decoder" where
  "decode_compression_entries B =
     dec_then (ensure_remaining 4) (\<lambda>_.
     dec_then (dec_get (get_u32 B)) (\<lambda>count.
     dec_then (ensure_entries (unat count)) (\<lambda>_.
     decode_entries B (unat count))))"

definition decode_compression_advertisement :: "buf_ops \<Rightarrow> string \<Rightarrow> string option \<Rightarrow> control_pdu decoder" where
  "decode_compression_advertisement B a reason =
     dec_then (ensure_no_reason reason) (\<lambda>_.
     dec_then (ensure_remaining 13) (\<lambda>_.
     dec_then (dec_get (get_u8 B)) (\<lambda>tag.
     case table_from_wire tag of
       None \<Rightarrow> dec_err InvalidFormat
     | Some k \<Rightarrow>
         dec_then (dec_get (get_u64 B)) (\<lambda>gen.
         dec_then (decode_compression_entries B) (\<lambda>ents.
         dec_ok (CompressionAdvertisement a k gen ents))))))"

definition decode_compression_ack :: "buf_ops \<Rightarrow> string \<Rightarrow> string option \<Rightarrow> control_pdu decoder" where
  "decode_compression_ack B a reason =
     dec_then (ensure_no_reason reason) (\<lambda>_.
     dec_then (ensure_remaining 9) (\<lambda>_.
     dec_then (dec_get (get_u8 B)) (\<lambda>tag.
     case table_from_wire tag of
       None \<Rightarrow> dec_err InvalidFormat
     | Some k \<Rightarrow> dec_then (dec_get (get_u64 B)) (\<lambda>gen. dec_ok (CompressionAck a k gen)))))"

definition decode_control_body :: "buf_ops \<Rightarrow> byte \<Rightarrow> string \<Rightarrow> string option \<Rightarrow> control_pdu decoder" where
  "decode_control_body B subkind a reason =
     (if subkind = SUBKIND_HEARTBEAT then dec_ok (Heartbeat a)
      else if subkind = SUBKIND_HEARTBEAT_RESPONSE then decode_heartbeat_response B a
      else if subkind = SUBKIND_QUARANTINE then dec_ok (Quarantine a reason)
      else if subkind = SUBKIND_SHUTDOWN then dec_ok (Shutdown a)
      else if subkind = SUBKIND_FLUSH_REQUEST then decode_flush_request B a
      else if subkind = SUBKIND_FLUSH_ACK then decode_flush_ack B a
      else if subkind = SUBKIND_COMPRESSION_ADVERTISEMENT then decode_compression_advertisement B a reason
      else if subkind = SUBKIND_COMPRESSION_ACK then decode_compression_ack B a reason
      else dec_err InvalidFormat)"

definition control_encode :: "buf_ops \<Rightarrow> control_pdu \<Rightarrow> encoder" where
  "control_encode B p = encode_frame B KIND_CONTROL (encode_control_body B p)"

definition decode_control :: "buf_ops \<Rightarrow> control_pdu decoder" where
  "decode_control B =
     dec_then (ensure_remaining 1) (\<lambda>_.
     dec_then (dec_get (get_u8 B)) (\<lambda>subkind.
     dec_then (decode_string B) (\<lambda>a.
     dec_then (decode_option_string B) (\<lambda>reason.
     decode_control_body B subkind a reason))))"

definition control_decode :: "buf_ops \<Rightarrow> control_pdu decoder" where
  "control_decode B = dec_then (read_frame_header B KIND_CONTROL) (\<lambda>_. decode_control B)"

subsection \<open>The format of control messages\<close>

definition fmt_authority :: "byte \<Rightarrow> string \<Rightarrow> string option \<Rightarrow> bytes" where
  "fmt_authority subkind a reason = subkind # fmt_string a @ fmt_option fmt_string reason"

definition fmt_entry :: "table_entry \<Rightarrow> bytes" where
  "fmt_entry e = be_bytes 4 (unat (te_id e)) @ fmt_string (te_literal e)"

definition fmt_entries :: "table_entry list \<Rightarrow> bytes" where
  "fmt_entries es = be_bytes 4 (length es) @ concat (map fmt_entry es)"

definition fmt_control :: "control_pdu \<Rightarrow> bytes" where
  "fmt_control p =
     (case p of
        Heartbeat a \<Rightarrow> fmt_authority 0 a None
      | Quarantine a reason \<Rightarrow> fmt_authority 1 a reason
      | Shutdown a \<Rightarrow> fmt_authority 2 a None
      | HeartbeatResponse a u \<Rightarrow> fmt_authority 3 a None @ be_bytes 8 (unat u)
      | FlushRequest a fid scope lane acks \<Rightarrow>
          fmt_authority 4 a None @ be_bytes 8 (unat fid) @ scope_to_wire scope # be_bytes 4 (unat lane) @ be_bytes 4 (unat acks)
      | FlushAck a fid lane acks \<Rightarrow>
          fmt_authority 5 a None @ be_bytes 8 (unat fid) @ be_bytes 4 (unat lane) @ be_bytes 4 (unat acks)
      | CompressionAdvertisement a k gen es \<Rightarrow>
          fmt_authority 6 a None @ table_to_wire k # be_bytes 8 (unat gen) @ fmt_entries es
      | CompressionAck a k gen \<Rightarrow> fmt_authority 7 a None @ table_to_wire k # be_bytes 8 (unat gen))"

definition wire_control :: "control_pdu \<Rightarrow> bool" where
  "wire_control p =
     (case p of
        Heartbeat a \<Rightarrow> wire_string a
      | Quarantine a reason \<Rightarrow> wire_string a \<and> wire_option wire_string reason
      | Shutdown a \<Rightarrow> wire_string a
      | HeartbeatResponse a _ \<Rightarrow> wire_string a
      | FlushRequest a _ _ _ _ \<Rightarrow> wire_string a
      | FlushAck a _ _ _ \<Rightarrow> wire_string a
      | CompressionAdvertisement a _ _ es \<Rightarrow>
          wire_string a \<and> length es \<le> usize_u32_max \<and> (\<forall>e\<in>set es. wire_string (te_literal e))
      | CompressionAck a _ _ \<Rightarrow> wire_string a)"

lemma wire_option_None [simp]: "wire_option P None" and wire_option_Some [simp]: "wire_option P (Some x) = P x"
  by (simp_all add: wire_option_def)

lemma scope_round_trip [simp]: "scope_from_wire (scope_to_wire s) = Some s"
  by (cases s) (simp_all add: scope_from_wire_def scope_to_wire_def)

lemma table_round_trip [simp]: "table_from_wire (table_to_wire k) = Some k"
  by (cases k) (simp_all add: table_from_wire_def table_to_wire_def)

lemma writes_authority [write_rules]:
  "buf_laws B \<Longrightarrow> wire_string a \<Longrightarrow> wire_option wire_string r \<Longrightarrow> writes (encode_authority_control B k a r) (fmt_authority k a r)"
  unfolding encode_authority_control_def fmt_authority_def by (intro writes_seq_intros write_rules)

lemma writes_entries [write_rules]:
  assumes "buf_laws B" and "length es \<le> usize_u32_max" and "\<forall>e\<in>set es. wire_string (te_literal e)"
  shows "writes (encode_compression_entries B es) (fmt_entries es)"
proof -
  have "writes (enc_seq (concat (map (\<lambda>e. [enc_put (put_u32 B) (te_id e), encode_string B (te_literal e)]) es))) (concat (map fmt_entry es))"
    using assms(3) by (induction es) (auto simp: writes_seq_Nil fmt_entry_def intro!: writes_seq_Cons writes_put write_rules assms(1))
  with writes_put(3) [OF assms(1), of "of_nat (length es)"] assms(2) show ?thesis
    unfolding encode_compression_entries_def fmt_entries_def by (auto simp: unat_length intro!: writes_seq_Cons)
qed

lemma writes_control: "buf_laws B \<Longrightarrow> wire_control p \<Longrightarrow> writes (encode_control_body B p) (fmt_control p)"
  unfolding encode_control_body_def fmt_control_def wire_control_def encode_compression_advertisement_def
  by (cases p) (auto simp: subkind_defs simp del: append_Cons append_assoc intro!: writes_seq_intros write_rules)

lemma length_fmt_entries: "MIN_COMPRESSION_ENTRY_BYTES * length es \<le> length (concat (map fmt_entry es))"
  by (induction es) (simp_all add: MIN_COMPRESSION_ENTRY_BYTES_def fmt_entry_def fmt_string_def fmt_bytes_def)

lemma reads_decode_entries:
  assumes "buf_laws B" and "\<forall>e\<in>set es. wire_string (te_literal e)"
  shows "reads (decode_entries B (length es)) (concat (map fmt_entry es)) es"
  using assms(2)
proof (induction es)
  case Nil
  then show ?case by (simp add: reads_ok)
next
  case (Cons e es)
  have "reads (dec_then (dec_get (get_u32 B)) (\<lambda>i. dec_then (decode_string B) (\<lambda>l. dec_then (decode_entries B (length es))
      (\<lambda>ents. dec_ok (\<lparr>te_id = i, te_literal = l\<rparr> # ents)))))
      (be_bytes 4 (unat (te_id e)) @ fmt_string (te_literal e) @ concat (map fmt_entry es)) (\<lparr>te_id = te_id e, te_literal = te_literal e\<rparr> # es)"
    using Cons by (intro reads_then [OF reads_get(3) [OF assms(1)]] reads_then [OF reads_string [OF assms(1)]]
      reads_map [where g = "\<lambda>ents. \<lparr>te_id = te_id e, te_literal = te_literal e\<rparr> # ents"]) simp_all
  moreover have "\<lparr>te_id = te_id e, te_literal = te_literal e\<rparr> = e" by simp
  ultimately show ?case by (auto simp: fmt_entry_def [of e] intro!: reads_ensure)
qed

lemma reads_ensure_entries:
  assumes "reads (f ()) w y" and "MIN_COMPRESSION_ENTRY_BYTES * n \<le> length w"
  shows "reads (dec_then (ensure_entries n) f) w y"
proof -
  have "n \<le> (length w + k) div MIN_COMPRESSION_ENTRY_BYTES" for k
    using assms(2) by (simp add: MIN_COMPRESSION_ENTRY_BYTES_def less_eq_div_iff_mult_less_eq mult.commute)
  then show ?thesis using assms(1) by (simp add: reads_def dec_then_def ensure_entries_def not_less)
qed

lemma reads_entries [read_rules]:
  assumes "buf_laws B" and "length es \<le> usize_u32_max" and "\<forall>e\<in>set es. wire_string (te_literal e)"
  shows "reads (decode_compression_entries B) (fmt_entries es) es"
proof -
  have "reads (dec_get (get_u32 B)) (be_bytes 4 (length es)) (of_nat (length es))"
    using reads_get(3) [OF assms(1), of "of_nat (length es)"] by (simp add: unat_length assms(2))
  moreover have "reads (dec_then (ensure_entries (length es)) (\<lambda>_. decode_entries B (length es))) (concat (map fmt_entry es)) es"
    by (rule reads_ensure_entries reads_decode_entries assms length_fmt_entries)+
  ultimately show ?thesis
    unfolding decode_compression_entries_def fmt_entries_def
    by (intro reads_ensure reads_then [where x = "of_nat (length es)"]) (simp_all add: unat_length assms(2))
qed

lemma dec_then_ok [simp]: "dec_then (dec_ok x) f = f x"
  by (simp add: fun_eq_iff dec_then_def dec_ok_def)

lemma reads_flush_request:
  assumes B: "buf_laws B"
  shows "reads (decode_flush_request B a)
    (be_bytes 8 (unat fid) @ scope_to_wire scope # be_bytes 4 (unat lane) @ be_bytes 4 (unat acks)) (FlushRequest a fid scope lane acks)"
proof -
  have "reads (dec_then (dec_get (get_u32 B)) (\<lambda>lane. dec_then (dec_get (get_u32 B)) (\<lambda>acks. dec_ok (FlushRequest a fid scope lane acks))))
      (be_bytes 4 (unat lane) @ be_bytes 4 (unat acks)) (FlushRequest a fid scope lane acks)"
    by (rule reads_seq_intros B)+
  then show ?thesis
    unfolding decode_flush_request_def by (intro reads_ensure reads_then [OF reads_get(4)] reads_u8_Cons B) simp_all
qed

lemma reads_flush_ack:
  assumes "buf_laws B"
  shows "reads (decode_flush_ack B a) (be_bytes 8 (unat fid) @ be_bytes 4 (unat lane) @ be_bytes 4 (unat acks)) (FlushAck a fid lane acks)"
  unfolding decode_flush_ack_def by (rule reads_seq_intros assms)+ simp_all

lemma reads_heartbeat_response:
  assumes "buf_laws B"
  shows "reads (decode_heartbeat_response B a) (be_bytes 8 (unat u)) (HeartbeatResponse a u)"
  unfolding decode_heartbeat_response_def by (rule reads_seq_intros assms)+ simp_all

lemma reads_advertisement:
  assumes B: "buf_laws B" and es: "length es \<le> usize_u32_max" "\<forall>e\<in>set es. wire_string (te_literal e)"
  shows "reads (decode_compression_advertisement B a None) (table_to_wire k # be_bytes 8 (unat gen) @ fmt_entries es)
    (CompressionAdvertisement a k gen es)"
proof -
  have "reads (dec_then (dec_get (get_u64 B)) (\<lambda>gen. dec_then (decode_compression_entries B) (\<lambda>ents.
      dec_ok (CompressionAdvertisement a k gen ents)))) (be_bytes 8 (unat gen) @ fmt_entries es) (CompressionAdvertisement a k gen es)"
    by (rule reads_then reads_map read_rules reads_get B es)+
  then have "reads (dec_then (ensure_remaining 13) (\<lambda>_. dec_then (dec_get (get_u8 B)) (\<lambda>tag. case table_from_wire tag of
      None \<Rightarrow> dec_err InvalidFormat | Some k \<Rightarrow> dec_then (dec_get (get_u64 B)) (\<lambda>gen. dec_then (decode_compression_entries B) (\<lambda>ents.
      dec_ok (CompressionAdvertisement a k gen ents))))))
      (table_to_wire k # be_bytes 8 (unat gen) @ fmt_entries es) (CompressionAdvertisement a k gen es)"
    by (intro reads_ensure reads_u8_Cons B) (simp_all add: fmt_entries_def)
  then show ?thesis
    unfolding decode_compression_advertisement_def by (simp add: ensure_no_reason_def)
qed

lemma reads_compression_ack:
  assumes B: "buf_laws B"
  shows "reads (decode_compression_ack B a None) (table_to_wire k # be_bytes 8 (unat gen)) (CompressionAck a k gen)"
proof -
  have "reads (dec_then (dec_get (get_u64 B)) (\<lambda>gen. dec_ok (CompressionAck a k gen))) (be_bytes 8 (unat gen)) (CompressionAck a k gen)"
    by (rule reads_map reads_get B)+
  then have "reads (dec_then (ensure_remaining 9) (\<lambda>_. dec_then (dec_get (get_u8 B)) (\<lambda>tag. case table_from_wire tag of
      None \<Rightarrow> dec_err InvalidFormat | Some k \<Rightarrow> dec_then (dec_get (get_u64 B)) (\<lambda>gen. dec_ok (CompressionAck a k gen)))))
      (table_to_wire k # be_bytes 8 (unat gen)) (CompressionAck a k gen)"
    by (intro reads_ensure reads_u8_Cons B) simp_all
  then show ?thesis
    unfolding decode_compression_ack_def by (simp add: ensure_no_reason_def)
qed

lemma reads_authority:
  assumes B: "buf_laws B" and a: "wire_string a" "wire_option wire_string reason"
    and body: "reads (decode_control_body B k a reason) w p"
  shows "reads (decode_control B) (fmt_authority k a reason @ w) p"
proof -
  have "reads (decode_control B) (k # fmt_string a @ fmt_option fmt_string reason @ w) p"
    unfolding decode_control_def
    by (rule reads_ensure reads_u8_Cons reads_then [OF reads_string] reads_then [OF reads_option_string] B a body)+ simp
  then show ?thesis by (simp add: fmt_authority_def)
qed

lemmas reads_control_bodies = reads_flush_request reads_flush_ack reads_heartbeat_response reads_advertisement
  reads_compression_ack reads_ok

lemma reads_control:
  assumes B: "buf_laws B" and "wire_control p"
  shows "reads (decode_control B) (fmt_control p) p"
proof -
  note a = reads_authority [OF B _ _ _, of _ _ _ "[]", simplified]
  show ?thesis
    using assms(2) unfolding fmt_control_def wire_control_def
    by (cases p) (auto intro!: reads_authority [OF B] a reads_control_bodies B
        simp: decode_control_body_def subkind_defs)
qed

lemma safe_decode_entries: "buf_laws B \<Longrightarrow> safe_from m (decode_entries B n)"
proof (induction n arbitrary: m)
  case 0
  then show ?case by (simp add: safe_ok)
next
  case (Suc n)
  then have B: "buf_laws B" and IH: "safe_from m (decode_entries B n)" for m by simp_all
  show ?case unfolding decode_entries.simps
    by (intro safe_ensure safe_get B safe_then safe_string safe_ok IH) simp
qed

lemma safe_entries: "buf_laws B \<Longrightarrow> safe_from n (decode_compression_entries B)"
proof -
  assume B: "buf_laws B"
  have "safe_from m (dec_then (ensure_entries k) (\<lambda>_. decode_entries B k))" for m k
    by (intro safe_then safe_decode_entries B) (simp add: safe_from_def ensure_entries_def)
  then show ?thesis unfolding decode_compression_entries_def by (intro safe_ensure safe_get B) simp_all
qed

lemma safe_no_reason: "safe_from n (ensure_no_reason r)"
  by (simp add: ensure_no_reason_def safe_ok safe_err split: option.split)

lemma safe_control_body: "buf_laws B \<Longrightarrow> safe_from n (decode_control_body B k a reason)"
proof -
  assume B: "buf_laws B"
  have "safe_from n (decode_heartbeat_response B a)" for n
    unfolding decode_heartbeat_response_def by (intro safe_ensure safe_get B safe_ok) simp
  moreover have "safe_from n (decode_flush_ack B a)" for n
    unfolding decode_flush_ack_def by (intro safe_ensure safe_get B safe_ok) simp_all
  moreover have "safe_from n (decode_flush_request B a)" for n
    unfolding decode_flush_request_def
    by (intro safe_ensure safe_get B) (auto simp: safe_err split: option.split intro!: safe_get B safe_ok)
  moreover have "safe_from n (decode_compression_advertisement B a reason)" for n
    unfolding decode_compression_advertisement_def
    by (intro safe_ensure safe_get B safe_no_reason safe_then)
      (auto simp: safe_err split: option.split intro!: safe_get(4) [OF B] safe_then [OF safe_entries [OF B]] safe_ok)
  moreover have "safe_from n (decode_compression_ack B a reason)" for n
    unfolding decode_compression_ack_def
    by (intro safe_ensure safe_get B safe_no_reason safe_then)
      (auto simp: safe_err split: option.split intro!: safe_get B safe_ok)
  ultimately show ?thesis unfolding decode_control_body_def by (simp add: safe_ok safe_err)
qed

interpretation control: wire_codec B "\<lambda>_. KIND_CONTROL" fmt_control wire_control "control_encode B" "control_decode B"
  for B
proof (rule single_kind_codec [OF writes_control reads_control _ control_encode_def control_decode_def])
  assume B: "buf_laws B"
  show "safe_from 0 (decode_control B)"
    unfolding decode_control_def
    by (intro safe_ensure safe_get B safe_then safe_string safe_option_string safe_control_body) simp
qed

section \<open>Remote deployment\<close>

datatype deployment_failure_code =
  UnknownFactoryId | DuplicateChildName | DeserializationFailed | SpawnFailed | Timeout | Unsupported | InvalidRequest | AddressTerminated

definition code_to_wire :: "deployment_failure_code \<Rightarrow> byte" where
  "code_to_wire c =
     (case c of UnknownFactoryId \<Rightarrow> 1 | DuplicateChildName \<Rightarrow> 2 | DeserializationFailed \<Rightarrow> 3 | SpawnFailed \<Rightarrow> 4
      | Timeout \<Rightarrow> 5 | Unsupported \<Rightarrow> 6 | InvalidRequest \<Rightarrow> 7 | AddressTerminated \<Rightarrow> 8)"

definition code_from_wire :: "byte \<Rightarrow> deployment_failure_code option" where
  "code_from_wire b =
     (if b = 1 then Some UnknownFactoryId else if b = 2 then Some DuplicateChildName else if b = 3 then Some DeserializationFailed
      else if b = 4 then Some SpawnFailed else if b = 5 then Some Timeout else if b = 6 then Some Unsupported
      else if b = 7 then Some InvalidRequest else if b = 8 then Some AddressTerminated else None)"

record create_request =
  cr_correlation_hi :: u64
  cr_correlation_lo :: wire_u32
  cr_target_parent_path :: string
  cr_child_name :: string
  cr_factory_id :: string
  cr_origin_node :: string
  cr_serializer_id :: wire_u32
  cr_manifest :: "string option"
  cr_payload :: bytes

record create_success =
  cs_correlation_hi :: u64
  cs_correlation_lo :: wire_u32
  cs_actor_path :: string

record create_failure =
  cf_correlation_hi :: u64
  cf_correlation_lo :: wire_u32
  cf_code :: deployment_failure_code
  cf_reason :: string

datatype deployment_pdu = CreateRequest create_request | CreateSuccess create_success | CreateFailure create_failure

definition TAG_CREATE_REQUEST :: byte where "TAG_CREATE_REQUEST = 1"
definition TAG_CREATE_SUCCESS :: byte where "TAG_CREATE_SUCCESS = 2"
definition TAG_CREATE_FAILURE :: byte where "TAG_CREATE_FAILURE = 3"

lemmas tag_defs = TAG_CREATE_REQUEST_def TAG_CREATE_SUCCESS_def TAG_CREATE_FAILURE_def

definition encode_correlation :: "buf_ops \<Rightarrow> u64 \<Rightarrow> wire_u32 \<Rightarrow> encoder" where
  "encode_correlation B hi lo = enc_seq [enc_put (put_u64 B) hi, enc_put (put_u32 B) lo]"

definition decode_correlation :: "buf_ops \<Rightarrow> (u64 \<times> wire_u32) decoder" where
  "decode_correlation B =
     dec_then (ensure_remaining (8 + 4)) (\<lambda>_.
     dec_then (dec_get (get_u64 B)) (\<lambda>hi.
     dec_then (dec_get (get_u32 B)) (\<lambda>lo.
     dec_ok (hi, lo))))"

definition encode_create_request :: "buf_ops \<Rightarrow> create_request \<Rightarrow> encoder" where
  "encode_create_request B r = enc_seq
     [enc_put (put_u8 B) TAG_CREATE_REQUEST, encode_correlation B (cr_correlation_hi r) (cr_correlation_lo r),
      encode_string B (cr_target_parent_path r), encode_string B (cr_child_name r), encode_string B (cr_factory_id r),
      encode_string B (cr_origin_node r), enc_put (put_u32 B) (cr_serializer_id r),
      encode_option_string B (cr_manifest r), encode_bytes B (cr_payload r)]"

definition encode_create_success :: "buf_ops \<Rightarrow> create_success \<Rightarrow> encoder" where
  "encode_create_success B r = enc_seq
     [enc_put (put_u8 B) TAG_CREATE_SUCCESS, encode_correlation B (cs_correlation_hi r) (cs_correlation_lo r),
      encode_string B (cs_actor_path r)]"

definition encode_create_failure :: "buf_ops \<Rightarrow> create_failure \<Rightarrow> encoder" where
  "encode_create_failure B r = enc_seq
     [enc_put (put_u8 B) TAG_CREATE_FAILURE, encode_correlation B (cf_correlation_hi r) (cf_correlation_lo r),
      enc_put (put_u8 B) (code_to_wire (cf_code r)), encode_string B (cf_reason r)]"

definition decode_create_request :: "buf_ops \<Rightarrow> create_request decoder" where
  "decode_create_request B =
     dec_then (decode_correlation B) (\<lambda>corr.
     dec_then (decode_string B) (\<lambda>parent.
     dec_then (decode_string B) (\<lambda>child.
     dec_then (decode_string B) (\<lambda>factory.
     dec_then (decode_string B) (\<lambda>origin.
     dec_then (ensure_remaining 4) (\<lambda>_.
     dec_then (dec_get (get_u32 B)) (\<lambda>sid.
     dec_then (decode_option_string B) (\<lambda>manifest.
     dec_then (decode_bytes B) (\<lambda>payload.
     dec_ok \<lparr>cr_correlation_hi = fst corr, cr_correlation_lo = snd corr, cr_target_parent_path = parent, cr_child_name = child,
       cr_factory_id = factory, cr_origin_node = origin, cr_serializer_id = sid, cr_manifest = manifest,
       cr_payload = payload\<rparr>)))))))))"

definition decode_create_success :: "buf_ops \<Rightarrow> create_success decoder" where
  "decode_create_success B =
     dec_then (decode_correlation B) (\<lambda>corr.
     dec_then (decode_string B) (\<lambda>path.
     dec_ok \<lparr>cs_correlation_hi = fst corr, cs_correlation_lo = snd corr, cs_actor_path = path\<rparr>))"

definition decode_create_failure :: "buf_ops \<Rightarrow> create_failure decoder" where
  "decode_create_failure B =
     dec_then (decode_correlation B) (\<lambda>corr.
     dec_then (ensure_remaining 1) (\<lambda>_.
     dec_then (dec_get (get_u8 B)) (\<lambda>tag.
     case code_from_wire tag of
       None \<Rightarrow> dec_err InvalidFormat
     | Some code \<Rightarrow>
         dec_then (decode_string B) (\<lambda>reason.
         dec_ok \<lparr>cf_correlation_hi = fst corr, cf_correlation_lo = snd corr, cf_code = code, cf_reason = reason\<rparr>))))"

definition encode_deployment_body :: "buf_ops \<Rightarrow> deployment_pdu \<Rightarrow> encoder" where
  "encode_deployment_body B p =
     (case p of
        CreateRequest r \<Rightarrow> encode_create_request B r
      | CreateSuccess r \<Rightarrow> encode_create_success B r
      | CreateFailure r \<Rightarrow> encode_create_failure B r)"

definition decode_deployment_body :: "buf_ops \<Rightarrow> deployment_pdu decoder" where
  "decode_deployment_body B =
     dec_then (ensure_remaining 1) (\<lambda>_.
     dec_then (dec_get (get_u8 B)) (\<lambda>tag.
     if tag = TAG_CREATE_REQUEST then dec_then (decode_create_request B) (\<lambda>r. dec_ok (CreateRequest r))
     else if tag = TAG_CREATE_SUCCESS then dec_then (decode_create_success B) (\<lambda>r. dec_ok (CreateSuccess r))
     else if tag = TAG_CREATE_FAILURE then dec_then (decode_create_failure B) (\<lambda>r. dec_ok (CreateFailure r))
     else dec_err InvalidFormat))"

definition deployment_encode :: "buf_ops \<Rightarrow> deployment_pdu \<Rightarrow> encoder" where
  "deployment_encode B p = encode_frame B KIND_DEPLOYMENT (encode_deployment_body B p)"

definition deployment_decode :: "buf_ops \<Rightarrow> deployment_pdu decoder" where
  "deployment_decode B = dec_then (read_frame_header B KIND_DEPLOYMENT) (\<lambda>_. decode_deployment_body B)"

subsection \<open>The format of deployment messages\<close>

definition fmt_correlation :: "u64 \<Rightarrow> wire_u32 \<Rightarrow> bytes" where
  "fmt_correlation hi lo = be_bytes 8 (unat hi) @ be_bytes 4 (unat lo)"

definition fmt_deployment :: "deployment_pdu \<Rightarrow> bytes" where
  "fmt_deployment p =
     (case p of
        CreateRequest r \<Rightarrow> 1 # fmt_correlation (cr_correlation_hi r) (cr_correlation_lo r)
          @ fmt_string (cr_target_parent_path r) @ fmt_string (cr_child_name r) @ fmt_string (cr_factory_id r)
          @ fmt_string (cr_origin_node r) @ be_bytes 4 (unat (cr_serializer_id r))
          @ fmt_option fmt_string (cr_manifest r) @ fmt_bytes (cr_payload r)
      | CreateSuccess r \<Rightarrow> 2 # fmt_correlation (cs_correlation_hi r) (cs_correlation_lo r) @ fmt_string (cs_actor_path r)
      | CreateFailure r \<Rightarrow> 3 # fmt_correlation (cf_correlation_hi r) (cf_correlation_lo r)
          @ code_to_wire (cf_code r) # fmt_string (cf_reason r))"

definition wire_deployment :: "deployment_pdu \<Rightarrow> bool" where
  "wire_deployment p =
     (case p of
        CreateRequest r \<Rightarrow> wire_string (cr_target_parent_path r) \<and> wire_string (cr_child_name r) \<and> wire_string (cr_factory_id r)
          \<and> wire_string (cr_origin_node r) \<and> wire_option wire_string (cr_manifest r) \<and> length (cr_payload r) \<le> usize_u32_max
      | CreateSuccess r \<Rightarrow> wire_string (cs_actor_path r)
      | CreateFailure r \<Rightarrow> wire_string (cf_reason r))"

lemma code_round_trip [simp]: "code_from_wire (code_to_wire c) = Some c"
  by (cases c) (simp_all add: code_from_wire_def code_to_wire_def)

lemma writes_correlation [write_rules]: "buf_laws B \<Longrightarrow> writes (encode_correlation B hi lo) (fmt_correlation hi lo)"
  unfolding encode_correlation_def fmt_correlation_def by (intro writes_seq_intros)

lemma reads_correlation [read_rules]:
  assumes "buf_laws B"
  shows "reads (decode_correlation B) (fmt_correlation hi lo) (hi, lo)"
  unfolding decode_correlation_def fmt_correlation_def by (rule reads_seq_intros assms)+ simp

lemma safe_correlation [safe_rules]: "buf_laws B \<Longrightarrow> safe_from n (decode_correlation B)"
  unfolding decode_correlation_def by (intro safe_ensure safe_get safe_ok) simp_all

lemma writes_deployment: "buf_laws B \<Longrightarrow> wire_deployment p \<Longrightarrow> writes (encode_deployment_body B p) (fmt_deployment p)"
  unfolding encode_deployment_body_def fmt_deployment_def wire_deployment_def
    encode_create_request_def encode_create_success_def encode_create_failure_def
  by (cases p) (auto simp: tag_defs intro!: writes_seq_intros write_rules)

lemma reads_create_request:
  assumes B: "buf_laws B" and "wire_deployment (CreateRequest r)"
  shows "reads (decode_create_request B) (fmt_correlation (cr_correlation_hi r) (cr_correlation_lo r)
          @ fmt_string (cr_target_parent_path r) @ fmt_string (cr_child_name r) @ fmt_string (cr_factory_id r)
          @ fmt_string (cr_origin_node r) @ be_bytes 4 (unat (cr_serializer_id r))
          @ fmt_option fmt_string (cr_manifest r) @ fmt_bytes (cr_payload r)) r" (is "reads _ ?w r")
proof -
  have r: "wire_string (cr_target_parent_path r)" "wire_string (cr_child_name r)" "wire_string (cr_factory_id r)"
    "wire_string (cr_origin_node r)" "wire_option wire_string (cr_manifest r)" "length (cr_payload r) \<le> usize_u32_max"
    using assms(2) by (simp_all add: wire_deployment_def)
  let ?r = "\<lambda>payload. \<lparr>cr_correlation_hi = fst (cr_correlation_hi r, cr_correlation_lo r),
      cr_correlation_lo = snd (cr_correlation_hi r, cr_correlation_lo r),
      cr_target_parent_path = cr_target_parent_path r, cr_child_name = cr_child_name r, cr_factory_id = cr_factory_id r,
      cr_origin_node = cr_origin_node r, cr_serializer_id = cr_serializer_id r, cr_manifest = cr_manifest r, cr_payload = payload\<rparr>"
  have "reads (decode_create_request B) ?w (?r (cr_payload r))"
    unfolding decode_create_request_def
    by (rule reads_ensure reads_then reads_map [where g = ?r] read_rules reads_get B r)+ simp
  moreover have "?r (cr_payload r) = r" by simp
  ultimately show ?thesis by (simp only:)
qed

lemma reads_create_success:
  assumes B: "buf_laws B" and "wire_string (cs_actor_path r)"
  shows "reads (decode_create_success B) (fmt_correlation (cs_correlation_hi r) (cs_correlation_lo r) @ fmt_string (cs_actor_path r)) r"
proof -
  let ?r = "\<lambda>path. \<lparr>cs_correlation_hi = fst (cs_correlation_hi r, cs_correlation_lo r),
      cs_correlation_lo = snd (cs_correlation_hi r, cs_correlation_lo r), cs_actor_path = path\<rparr>"
  have "reads (decode_create_success B) (fmt_correlation (cs_correlation_hi r) (cs_correlation_lo r) @ fmt_string (cs_actor_path r))
      (?r (cs_actor_path r))"
    unfolding decode_create_success_def by (rule reads_then reads_map [where g = ?r] read_rules assms)+
  moreover have "?r (cs_actor_path r) = r" by simp
  ultimately show ?thesis by (simp only:)
qed

lemma reads_create_failure:
  assumes B: "buf_laws B" and "wire_string (cf_reason r)"
  shows "reads (decode_create_failure B)
    (fmt_correlation (cf_correlation_hi r) (cf_correlation_lo r) @ code_to_wire (cf_code r) # fmt_string (cf_reason r)) r"
proof -
  let ?r = "\<lambda>reason. \<lparr>cf_correlation_hi = cf_correlation_hi r, cf_correlation_lo = cf_correlation_lo r,
      cf_code = cf_code r, cf_reason = reason\<rparr>"
  have "reads (dec_then (decode_string B) (\<lambda>reason. dec_ok (?r reason))) (fmt_string (cf_reason r)) (?r (cf_reason r))"
    by (rule reads_map [where g = ?r] read_rules assms)+
  moreover have "?r (cf_reason r) = r" by simp
  ultimately have "reads (dec_then (decode_string B) (\<lambda>reason. dec_ok (?r reason))) (fmt_string (cf_reason r)) r" by (simp only:)
  then show ?thesis
    unfolding decode_create_failure_def by (intro reads_then [OF reads_correlation] reads_ensure reads_u8_Cons B) simp_all
qed

lemma reads_deployment:
  assumes B: "buf_laws B" and "wire_deployment p"
  shows "reads (decode_deployment_body B) (fmt_deployment p) p"
  unfolding decode_deployment_body_def fmt_deployment_def
  using assms(2) reads_map [OF reads_create_request [OF B], of _ CreateRequest]
    reads_map [OF reads_create_success [OF B], of _ CreateSuccess] reads_map [OF reads_create_failure [OF B], of _ CreateFailure]
  by (cases p) (auto simp: tag_defs wire_deployment_def intro!: reads_ensure reads_u8_Cons B)

interpretation deployment: wire_codec B "\<lambda>_. KIND_DEPLOYMENT" fmt_deployment wire_deployment "deployment_encode B" "deployment_decode B"
  for B
proof (rule single_kind_codec [OF writes_deployment reads_deployment _ deployment_encode_def deployment_decode_def])
  assume B: "buf_laws B"
  have "safe_from 0 (decode_create_request B)"
    unfolding decode_create_request_def
    by (intro safe_correlation safe_string safe_ensure safe_get safe_option_string safe_bytes safe_ok B safe_then) simp
  moreover have "safe_from 0 (decode_create_success B)"
    unfolding decode_create_success_def by (intro safe_correlation safe_then safe_string safe_ok B)
  moreover have "safe_from 0 (decode_create_failure B)"
    unfolding decode_create_failure_def
    by (intro safe_correlation safe_ensure safe_get B safe_then) (auto split: option.split intro!: safe_err safe_then safe_string safe_ok B)
  ultimately show "safe_from 0 (decode_deployment_body B)"
    unfolding decode_deployment_body_def
    by (intro safe_ensure safe_get B) (auto intro!: safe_then safe_ok safe_err)
qed

section \<open>What decoders produce\<close>

text \<open>\<open>yields P d\<close>: every value the decoder \<open>d\<close> returns, on whatever bytes, satisfies \<open>P\<close>.\<close>

definition yields :: "('a \<Rightarrow> bool) \<Rightarrow> 'a decoder \<Rightarrow> bool" where
  "yields P d \<longleftrightarrow> (\<forall>b x. fst (d b) = Inr x \<longrightarrow> P x)"

lemma yields_then:
  assumes "yields Q d" and "\<And>x. Q x \<Longrightarrow> yields P (f x)"
  shows "yields P (dec_then d f)"
  unfolding yields_def
proof (intro allI impI)
  fix b x
  assume "fst (dec_then d f b) = Inr x"
  then obtain y r where "d b = (Inr y, r)" and "fst (f y r) = Inr x"
    by (auto simp: dec_then_def split: prod.splits sum.splits)
  with assms show "P x" unfolding yields_def by (metis fst_conv)
qed

lemma yields_skip: "(\<And>x. yields P (f x)) \<Longrightarrow> yields P (dec_then d f)"
  by (rule yields_then [where Q = "\<lambda>_. True"]) (simp_all add: yields_def [of "\<lambda>_. True"])

lemma yields_ok: "P x \<Longrightarrow> yields P (dec_ok x)" and yields_err: "yields P (dec_err e)"
  by (simp_all add: yields_def dec_ok_def dec_err_def)

lemma yields_if: "(c \<Longrightarrow> yields P d) \<Longrightarrow> (\<not> c \<Longrightarrow> yields P e) \<Longrightarrow> yields P (if c then d else e)"
  by simp

lemma yields_case_option: "(v = None \<Longrightarrow> yields P d) \<Longrightarrow> (\<And>x. v = Some x \<Longrightarrow> yields P (e x)) \<Longrightarrow> yields P (case v of None \<Rightarrow> d | Some x \<Rightarrow> e x)"
  by (cases v) simp_all

lemmas yields_step = yields_if yields_case_option yields_ok yields_err

lemma as_bytes_from_utf8: "from_utf8 bs = Some s \<Longrightarrow> as_bytes s = bs \<and> valid_utf8 bs"
proof -
  have "of_nat (of_char (char_of (unat b) :: char)) = b" for b :: byte
    using unsigned_less [of b, where ?'a = nat] by (simp add: of_char_of)
  then show "from_utf8 bs = Some s \<Longrightarrow> ?thesis"
    by (auto simp: from_utf8_def as_bytes_def comp_def split: if_splits)
qed

lemma yields_split: "buf_laws B \<Longrightarrow> yields (\<lambda>v. length v = n) (dec_get (split_to B n))"
  by (auto simp: yields_def dec_get_def buf_laws_simps)

lemma unat_u32_max: "unat (x :: wire_u32) \<le> usize_u32_max"
  using unat_u32 [of x] by (simp add: usize_u32_max_def)

lemma yields_bytes: "buf_laws B \<Longrightarrow> yields (\<lambda>v. length v \<le> usize_u32_max) (decode_bytes B)"
proof -
  assume B: "buf_laws B"
  have "yields (\<lambda>v. length v \<le> usize_u32_max) (dec_get (split_to B (unat l)))" for l :: wire_u32
    using yields_split [OF B, of "unat l"] unat_u32_max [of l] by (simp add: yields_def)
  then show ?thesis unfolding decode_bytes_def by (intro yields_skip)
qed

lemma yields_string: "buf_laws B \<Longrightarrow> yields wire_string (decode_string B)"
proof -
  assume B: "buf_laws B"
  have "wire_string s" if "from_utf8 v = Some s" "length v = unat l" for v s and l :: wire_u32
    using as_bytes_from_utf8 [OF that(1)] that(2) unat_u32_max [of l] length_as_bytes [of s] by (simp add: wire_string_def)
  then have "yields wire_string (dec_then (dec_get (split_to B (unat l)))
      (\<lambda>v. case from_utf8 v of None \<Rightarrow> dec_err InvalidUtf8 | Some s \<Rightarrow> dec_ok s))" for l :: wire_u32
    by (intro yields_then [OF yields_split [OF B]] yields_step) simp
  then show ?thesis unfolding decode_string_def by (intro yields_skip [where d = "ensure_remaining _"] yields_skip [where d = "dec_get (get_u32 B)"])
qed

lemma yields_option_string: "buf_laws B \<Longrightarrow> yields (wire_option wire_string) (decode_option_string B)"
  unfolding decode_option_string_def
  by (intro yields_then [OF yields_string] yields_skip yields_step) simp_all

lemma yields_text: "buf_laws B \<Longrightarrow> yields wire_text (decode_compressed_text B)"
  unfolding decode_compressed_text_def
  by (intro yields_then [OF yields_string] yields_skip yields_step) (simp_all add: wire_text_def)

lemma yields_option_text: "buf_laws B \<Longrightarrow> yields (wire_option wire_text) (decode_option_compressed_text B)"
  unfolding decode_option_compressed_text_def
  by (intro yields_then [OF yields_text] yields_skip yields_step) simp_all

lemma yields_sequence: "yields (sequence_matches prio) (decode_redelivery_sequence B prio)"
  unfolding decode_redelivery_sequence_def
  by (intro yields_case_option yields_skip yields_err)
    (auto simp: sequence_matches_def priority_from_wire_def split: option.split outbound_priority.split if_splits
      intro!: yields_ok yields_err)

lemma yields_envelope:
  assumes B: "buf_laws B"
  shows "yields wire_envelope (envelope_decode B)"
  unfolding envelope_decode_def decode_envelope_body_def
  by (intro yields_then [OF yields_text [OF B]] yields_then [OF yields_option_text [OF B]] yields_then [OF yields_bytes [OF B]]
      yields_then [OF yields_sequence] yields_skip yields_ok)
    (simp add: wire_envelope_def with_redelivery_sequence_def envelope_new_with_metadata_def payload_new_def option.case_eq_if)

lemma yields_address:
  assumes B: "buf_laws B"
  shows "yields wire_address (decode_address B)"
  unfolding decode_address_def
  by (intro yields_then [OF yields_string [OF B]] yields_skip yields_ok) (simp add: wire_address_def address_new_def)

lemma yields_unique_address:
  assumes B: "buf_laws B"
  shows "yields (\<lambda>a. wire_address (address_of a)) (decode_unique_address B)"
  unfolding decode_unique_address_def
  by (intro yields_then [OF yields_address [OF B]] yields_skip yields_ok) (simp add: unique_address_new_def)

lemma yields_handshake:
  assumes B: "buf_laws B"
  shows "yields wire_handshake (handshake_decode B)"
  unfolding handshake_decode_def
  by (intro yields_then [OF yields_address [OF B]] yields_then [OF yields_unique_address [OF B]] yields_skip yields_step)
    (simp_all add: wire_handshake_def)

lemma yields_entries:
  assumes B: "buf_laws B"
  shows "yields (\<lambda>es. length es \<le> usize_u32_max \<and> (\<forall>e\<in>set es. wire_string (te_literal e))) (decode_compression_entries B)"
proof -
  have "yields (\<lambda>es. length es = n \<and> (\<forall>e\<in>set es. wire_string (te_literal e))) (decode_entries B n)" for n
  proof (induction n)
    case 0
    then show ?case by (simp add: yields_ok)
  next
    case (Suc n)
    show ?case unfolding decode_entries.simps
      by (intro yields_then [OF yields_string [OF B]] yields_then [OF Suc] yields_skip yields_ok) auto
  qed
  then have "yields (\<lambda>es. length es \<le> usize_u32_max \<and> (\<forall>e\<in>set es. wire_string (te_literal e))) (decode_entries B (unat n))"
    for n :: wire_u32
    using unat_u32_max [of n] unfolding yields_def by metis
  then show ?thesis unfolding decode_compression_entries_def by (intro yields_skip)
qed

lemma yields_control:
  assumes B: "buf_laws B"
  shows "yields wire_control (control_decode B)"
proof -
  have body: "yields wire_control (decode_control_body B k a reason)" if "wire_string a" "wire_option wire_string reason" for k a reason
    unfolding decode_control_body_def decode_heartbeat_response_def decode_flush_request_def decode_flush_ack_def
      decode_compression_advertisement_def decode_compression_ack_def
    by (intro yields_then [OF yields_entries [OF B]] yields_skip yields_step) (use that in \<open>simp_all add: wire_control_def\<close>)
  show ?thesis unfolding control_decode_def decode_control_def
    by (intro yields_then [OF yields_string [OF B]] yields_then [OF yields_option_string [OF B]] yields_skip body)
qed

lemma yields_deployment:
  assumes B: "buf_laws B"
  shows "yields wire_deployment (deployment_decode B)"
proof -
  have q: "yields (\<lambda>r. wire_deployment (CreateRequest r)) (decode_create_request B)"
    unfolding decode_create_request_def
    by (intro yields_then [OF yields_string [OF B]] yields_then [OF yields_option_string [OF B]] yields_then [OF yields_bytes [OF B]]
        yields_skip yields_ok) (simp add: wire_deployment_def)
  have s: "yields (\<lambda>r. wire_deployment (CreateSuccess r)) (decode_create_success B)"
    unfolding decode_create_success_def
    by (intro yields_then [OF yields_string [OF B]] yields_skip yields_ok) (simp add: wire_deployment_def)
  have f: "yields (\<lambda>r. wire_deployment (CreateFailure r)) (decode_create_failure B)"
    unfolding decode_create_failure_def
    by (intro yields_then [OF yields_string [OF B]] yields_skip yields_step) (simp add: wire_deployment_def)
  show ?thesis unfolding deployment_decode_def decode_deployment_body_def
    by (intro yields_then [OF q] yields_then [OF s] yields_then [OF f] yields_skip yields_step)
qed

end
