(* ===== verification/Compression_Table.thy ===== *)
theory Compression_Table
  imports Wire_Codec "HOL-Library.Product_Lexorder"
begin

text \<open>
  \<open>remote-core/src/wire/compression_table.rs\<close>: the table of literals one peer keeps for one kind of
  metadata. The outbound table counts the literals it sees, advertises them and refers to an entry by
  its number once the peer has acknowledged it; the inbound table holds what the peer advertised.
  Entry numbers are 32 bits and generations and hit counts 64 bits, with saturating addition.
\<close>

section \<open>The table\<close>

record entry_state =
  es_id :: wire_u32
  es_literal :: string
  es_hit_count :: u64
  es_advertised_generation :: "u64 option"
  es_acknowledged_generation :: "u64 option"

definition entry_state_new :: "wire_u32 \<Rightarrow> string \<Rightarrow> entry_state" where
  "entry_state_new i literal = \<lparr>es_id = i, es_literal = literal, es_hit_count = 0,
     es_advertised_generation = None, es_acknowledged_generation = None\<rparr>"

definition from_advertisement :: "table_entry \<Rightarrow> u64 \<Rightarrow> entry_state" where
  "from_advertisement e gen = \<lparr>es_id = te_id e, es_literal = te_literal e, es_hit_count = 0,
     es_advertised_generation = Some gen, es_acknowledged_generation = Some gen\<rparr>"

record compression_table =
  ct_max :: "nat option"
  ct_next_entry_id :: wire_u32
  ct_next_generation :: u64
  ct_latest_pending_generation :: "u64 option"
  ct_entries :: "entry_state list"

definition table_new :: "nat option \<Rightarrow> compression_table" where
  "table_new m = \<lparr>ct_max = m, ct_next_entry_id = 1, ct_next_generation = 1,
     ct_latest_pending_generation = None, ct_entries = []\<rparr>"

definition is_enabled :: "compression_table \<Rightarrow> bool" where
  "is_enabled t \<longleftrightarrow> ct_max t \<noteq> None"

definition entry_id :: "string \<Rightarrow> compression_table \<Rightarrow> wire_u32 option" where
  "entry_id literal t = map_option es_id (find (\<lambda>e. es_literal e = literal) (ct_entries t))"

definition hit_count :: "string \<Rightarrow> compression_table \<Rightarrow> u64 option" where
  "hit_count literal t = map_option es_hit_count (find (\<lambda>e. es_literal e = literal) (ct_entries t))"

text \<open>\<open>iter_mut().find(..)\<close> changes the first entry that satisfies the predicate.\<close>

fun update_first :: "('a \<Rightarrow> bool) \<Rightarrow> ('a \<Rightarrow> 'a) \<Rightarrow> 'a list \<Rightarrow> 'a list" where
  "update_first P f [] = []"
| "update_first P f (x # xs) = (if P x then f x # xs else x # update_first P f xs)"

definition observe :: "string \<Rightarrow> compression_table \<Rightarrow> compression_table" where
  "observe literal t =
     (case ct_max t of
        None \<Rightarrow> t
      | Some m \<Rightarrow>
          if \<exists>e\<in>set (ct_entries t). es_literal e = literal then
            t\<lparr>ct_entries := update_first (\<lambda>e. es_literal e = literal)
                (\<lambda>e. e\<lparr>es_hit_count := saturating_add (es_hit_count e) 1\<rparr>) (ct_entries t)\<rparr>
          else if length (ct_entries t) \<ge> m then t
          else
            let i = ct_next_entry_id t in
            t\<lparr>ct_next_entry_id := saturating_add (ct_next_entry_id t) 1,
              ct_entries := ct_entries t @ [(entry_state_new i literal)\<lparr>es_hit_count := 1\<rparr>]\<rparr>)"

record advertisement =
  ad_table_kind :: table_kind
  ad_generation :: u64
  ad_entries :: "table_entry list"

text \<open>Entries with more hits first, then by number: the sort key of the indexes. Subtracting from the
  largest count reverses the order of the counts.\<close>

definition advertisement_key :: "entry_state \<Rightarrow> u64 \<times> wire_u32" where
  "advertisement_key e = (- 1 - es_hit_count e, es_id e)"

definition advertised_indexes :: "nat \<Rightarrow> entry_state list \<Rightarrow> nat list" where
  "advertised_indexes m es = take m (sort_key (\<lambda>i. advertisement_key (es ! i)) [0..<length es])"

definition create_advertisement :: "table_kind \<Rightarrow> compression_table \<Rightarrow> advertisement option \<times> compression_table" where
  "create_advertisement k t =
     (case ct_max t of
        None \<Rightarrow> (None, t)
      | Some m \<Rightarrow>
          if ct_entries t = [] then (None, t)
          else if ct_latest_pending_generation t \<noteq> None then (None, t)
          else
            let gen = ct_next_generation t; es = ct_entries t; indexes = advertised_indexes m es in
            (Some \<lparr>ad_table_kind = k, ad_generation = gen,
                ad_entries = map (\<lambda>i. \<lparr>te_id = es_id (es ! i), te_literal = es_literal (es ! i)\<rparr>) indexes\<rparr>,
             t\<lparr>ct_next_generation := saturating_add gen 1, ct_latest_pending_generation := Some gen,
               ct_entries := fold (\<lambda>i es. es[i := (es ! i)\<lparr>es_advertised_generation := Some gen\<rparr>]) indexes es\<rparr>))"

definition acknowledge :: "u64 \<Rightarrow> compression_table \<Rightarrow> bool \<times> compression_table" where
  "acknowledge gen t =
     (if ct_latest_pending_generation t \<noteq> Some gen then (False, t)
      else
        let applied = list_ex (\<lambda>e. es_advertised_generation e = Some gen) (ct_entries t);
            es = map (\<lambda>e. e\<lparr>es_acknowledged_generation :=
                   (if es_advertised_generation e = Some gen then Some gen else None)\<rparr>) (ct_entries t)
        in (applied, t\<lparr>ct_entries := es,
              ct_latest_pending_generation := (if applied then None else ct_latest_pending_generation t)\<rparr>))"

definition table_encode :: "string \<Rightarrow> compression_table \<Rightarrow> compressed_text" where
  "table_encode literal t =
     (if \<not> is_enabled t then Literal literal
      else case find (\<lambda>e. es_literal e = literal \<and> es_acknowledged_generation e \<noteq> None) (ct_entries t) of
        None \<Rightarrow> Literal literal
      | Some e \<Rightarrow> TableRef (es_id e))"

fun has_duplicate_entry_id :: "table_entry list \<Rightarrow> bool" where
  "has_duplicate_entry_id [] \<longleftrightarrow> False"
| "has_duplicate_entry_id (e # es) \<longleftrightarrow> (\<exists>c\<in>set es. te_id c = te_id e) \<or> has_duplicate_entry_id es"

definition apply_advertisement :: "u64 \<Rightarrow> table_entry list \<Rightarrow> compression_table \<Rightarrow> (wire_error + unit) \<times> compression_table" where
  "apply_advertisement gen es t =
     (case ct_max t of
        None \<Rightarrow> (Inr (), t\<lparr>ct_entries := [], ct_latest_pending_generation := None\<rparr>)
      | Some m \<Rightarrow>
          if length es > m then (Inl InvalidFormat, t)
          else if has_duplicate_entry_id es then (Inl InvalidFormat, t)
          else (Inr (), t\<lparr>ct_entries := map (\<lambda>e. from_advertisement e gen) es, ct_latest_pending_generation := None\<rparr>))"

definition table_resolve :: "wire_u32 \<Rightarrow> compression_table \<Rightarrow> string option" where
  "table_resolve i t =
     (if \<not> is_enabled t then None else map_option es_literal (find (\<lambda>e. es_id e = i) (ct_entries t)))"

section \<open>Numbered literals\<close>

text \<open>What the tables agree on: the pairs of a number and a literal they hold, and those acknowledged.\<close>

definition pair_of :: "entry_state \<Rightarrow> wire_u32 \<times> string" where
  "pair_of e = (es_id e, es_literal e)"

definition pairs_of :: "compression_table \<Rightarrow> (wire_u32 \<times> string) set" where
  "pairs_of t = set (map pair_of (ct_entries t))"

definition acked_pairs :: "compression_table \<Rightarrow> (wire_u32 \<times> string) set" where
  "acked_pairs t = set (map pair_of (filter (\<lambda>e. es_acknowledged_generation e \<noteq> None) (ct_entries t)))"

definition offered_pairs :: "compression_table \<Rightarrow> (wire_u32 \<times> string) set" where
  "offered_pairs t = set (map pair_of (filter (\<lambda>e. es_advertised_generation e \<noteq> None) (ct_entries t)))"

definition entry_pairs :: "table_entry list \<Rightarrow> (wire_u32 \<times> string) set" where
  "entry_pairs es = (\<lambda>e. (te_id e, te_literal e)) ` set es"

text \<open>
  The outbound table: the entries are numbered from 1 in the order they were observed and never
  exceed the configured maximum, no literal has two entries, and only advertised entries are
  acknowledged.
\<close>

definition outbound_ok :: "compression_table \<Rightarrow> bool" where
  "outbound_ok t \<longleftrightarrow>
     map (\<lambda>e. unat (es_id e)) (ct_entries t) = [1..<Suc (length (ct_entries t))]
     \<and> unat (ct_next_entry_id t) = min (Suc (length (ct_entries t))) (2 ^ 32 - 1)
     \<and> distinct (map es_literal (ct_entries t))
     \<and> (case ct_max t of None \<Rightarrow> ct_entries t = [] | Some m \<Rightarrow> length (ct_entries t) \<le> m \<and> m < 2 ^ 32)
     \<and> acked_pairs t \<subseteq> offered_pairs t"

definition inbound_ok :: "compression_table \<Rightarrow> bool" where
  "inbound_ok t \<longleftrightarrow> distinct (map es_id (ct_entries t))"

lemma has_duplicate_iff: "has_duplicate_entry_id es \<longleftrightarrow> \<not> distinct (map te_id es)"
proof (induction es)
  case (Cons e es)
  have "(\<exists>c\<in>set es. te_id c = te_id e) \<longleftrightarrow> te_id e \<in> te_id ` set es"
    by (auto intro: rev_image_eqI)
  with Cons show ?case by simp
qed simp

lemma outbound_distinct: "outbound_ok t \<Longrightarrow> distinct (map es_id (ct_entries t))"
proof -
  assume "outbound_ok t"
  then have "distinct (map (\<lambda>e. unat (es_id e)) (ct_entries t))" unfolding outbound_ok_def by (metis distinct_upt)
  then have "distinct (map unat (map es_id (ct_entries t)))" by (simp add: comp_def)
  then show ?thesis by (metis distinct_map)
qed

lemma pairs_table_new [simp]: "pairs_of (table_new m) = {}" "acked_pairs (table_new m) = {}" "offered_pairs (table_new m) = {}"
  by (simp_all add: pairs_of_def acked_pairs_def offered_pairs_def table_new_def)

lemma table_new_ok: "(\<And>n. m = Some n \<Longrightarrow> n < 2 ^ 32) \<Longrightarrow> outbound_ok (table_new m)" "inbound_ok (table_new m)"
  by (simp_all add: outbound_ok_def inbound_ok_def table_new_def acked_pairs_def split: option.split)

subsection \<open>Observation\<close>

lemma update_first_map: "(\<And>x. g (f x) = g x) \<Longrightarrow> map g (update_first P f xs) = map g xs"
  by (induction xs) auto

lemma length_update_first [simp]: "length (update_first P f xs) = length xs"
  by (induction xs) auto

lemma update_first_filter:
  assumes "\<And>x. g (f x) = g x" and "\<And>x. Q (f x) = Q x"
  shows "map g (filter Q (update_first P f xs)) = map g (filter Q xs)"
  using assms by (induction xs) auto

lemma pair_of_simps [simp]:
  "pair_of (e\<lparr>es_hit_count := h\<rparr>) = pair_of e" "pair_of (e\<lparr>es_advertised_generation := g\<rparr>) = pair_of e"
  "pair_of (e\<lparr>es_acknowledged_generation := g\<rparr>) = pair_of e" "pair_of (entry_state_new i l) = (i, l)"
  "pair_of (from_advertisement te gen) = (te_id te, te_literal te)"
  by (simp_all add: pair_of_def entry_state_new_def from_advertisement_def)

lemma observe_cases:
  obtains (same) "observe literal t = t"
  | (hit) "observe literal t = t\<lparr>ct_entries := update_first (\<lambda>e. es_literal e = literal)
                (\<lambda>e. e\<lparr>es_hit_count := saturating_add (es_hit_count e) 1\<rparr>) (ct_entries t)\<rparr>"
  | (fresh) m where "ct_max t = Some m" "literal \<notin> es_literal ` set (ct_entries t)" "length (ct_entries t) < m"
      "observe literal t = t\<lparr>ct_next_entry_id := saturating_add (ct_next_entry_id t) 1,
        ct_entries := ct_entries t @ [(entry_state_new (ct_next_entry_id t) literal)\<lparr>es_hit_count := 1\<rparr>]\<rparr>"
proof (cases "ct_max t")
  case None
  then show ?thesis by (intro same) (simp add: observe_def)
next
  case (Some m)
  consider (a) "\<exists>e\<in>set (ct_entries t). es_literal e = literal" | (b) "literal \<notin> es_literal ` set (ct_entries t)" "length (ct_entries t) \<ge> m"
    | (c) "literal \<notin> es_literal ` set (ct_entries t)" "length (ct_entries t) < m" by (metis image_iff not_le)
  then show ?thesis
  proof cases
    case a
    with Some show ?thesis by (intro hit) (simp add: observe_def)
  next
    case b
    then have "\<not> (\<exists>e\<in>set (ct_entries t). es_literal e = literal)" by (metis image_iff)
    with Some b show ?thesis by (intro same) (simp add: observe_def)
  next
    case c
    then have "\<not> (\<exists>e\<in>set (ct_entries t). es_literal e = literal)" by (metis image_iff)
    with Some c show ?thesis by (intro fresh) (simp_all add: observe_def Let_def)
  qed
qed

lemma observe_pairs [simp]:
  "acked_pairs (observe literal t) = acked_pairs t" "offered_pairs (observe literal t) = offered_pairs t"
  "ct_max (observe literal t) = ct_max t" "ct_latest_pending_generation (observe literal t) = ct_latest_pending_generation t"
  by (cases rule: observe_cases [of literal t];
      simp add: acked_pairs_def offered_pairs_def update_first_filter entry_state_new_def del: set_map set_filter)+

lemma observe_advertised:
  "list_ex (\<lambda>e. es_advertised_generation e = g) (ct_entries t) \<Longrightarrow>
   list_ex (\<lambda>e. es_advertised_generation e = g) (ct_entries (observe literal t))"
proof (cases rule: observe_cases [of literal t])
  case hit
  assume "list_ex (\<lambda>e. es_advertised_generation e = g) (ct_entries t)"
  then have "g \<in> set (map es_advertised_generation (ct_entries t))" by (auto simp: list_ex_iff)
  then have "g \<in> set (map es_advertised_generation (ct_entries (observe literal t)))"
    using hit by (simp add: update_first_map del: set_map)
  then show ?thesis by (auto simp: list_ex_iff)
qed simp_all

lemma observe_grows: "pairs_of t \<subseteq> pairs_of (observe literal t)"
  by (cases rule: observe_cases [of literal t]) (auto simp: pairs_of_def update_first_map simp del: set_map)

lemma saturating_next:
  assumes "unat (i :: wire_u32) = Suc n" and "n < 2 ^ 32 - 1"
  shows "unat (saturating_add i 1) = min (Suc (Suc n)) (2 ^ 32 - 1)"
proof (cases "checked_add i 1")
  case None
  then have "2 ^ 32 \<le> Suc (Suc n)" using assms(1) by (simp add: checked_add_None_iff)
  moreover have "unat (- 1 :: wire_u32) = 2 ^ 32 - 1"
    by (simp add: unsigned_minus_1_eq_mask mask_eq_exp_minus_1)
  ultimately show ?thesis using None by (simp add: saturating_add_def)
next
  case (Some c)
  then have "unat c = Suc (Suc n)" using assms by (simp add: checked_add_Some_iff)
  moreover have "unat c < 2 ^ 32" using unsigned_less [of c, where ?'a = nat] by simp
  ultimately show ?thesis using Some by (simp add: saturating_add_def)
qed

lemma observe_ok:
  assumes t: "outbound_ok t"
  shows "outbound_ok (observe literal t)"
proof (cases rule: observe_cases [of literal t])
  case same
  then show ?thesis using t by simp
next
  case hit
  then show ?thesis using t observe_pairs(1,2) [of literal t]
    by (auto simp: outbound_ok_def update_first_map split: option.splits)
next
  case (fresh m)
  have b: "length (ct_entries t) < 2 ^ 32 - 1" and n: "unat (ct_next_entry_id t) = Suc (length (ct_entries t))"
    using t fresh(1,3) by (auto simp: outbound_ok_def)
  note s = saturating_next [OF n b]
  have "map (\<lambda>e. unat (es_id e)) (ct_entries t) = [1..<Suc (length (ct_entries t))]" using t by (simp add: outbound_ok_def)
  with t fresh n s observe_pairs(1,2) [of literal t] show ?thesis
    by (auto simp: outbound_ok_def entry_state_new_def)
qed

subsection \<open>Advertisement and acknowledgement\<close>

definition mark_advertised :: "u64 \<Rightarrow> nat list \<Rightarrow> entry_state list \<Rightarrow> entry_state list" where
  "mark_advertised gen indexes es = fold (\<lambda>i es. es[i := (es ! i)\<lparr>es_advertised_generation := Some gen\<rparr>]) indexes es"

lemma length_mark [simp]: "length (mark_advertised gen is es) = length es"
  unfolding mark_advertised_def by (induction "is" arbitrary: es) simp_all

lemma mark_map:
  assumes "\<And>e g. f (e\<lparr>es_advertised_generation := g\<rparr>) = f e"
  shows "map f (mark_advertised gen is es) = map f es"
proof -
  have "(map f es)[i := f (es ! i)] = map f es" for i and es :: "entry_state list" by (metis list_update_id map_update)
  then show ?thesis unfolding mark_advertised_def by (induction "is" arbitrary: es) (simp_all add: map_update assms)
qed

lemma mark_nth:
  "j < length es \<Longrightarrow> es_advertised_generation (mark_advertised gen is es ! j) =
    (if j \<in> set is then Some gen else es_advertised_generation (es ! j))"
  unfolding mark_advertised_def by (induction "is" arbitrary: es) (auto simp: nth_list_update)

lemma indexes_all:
  assumes "length es \<le> m"
  shows "set (advertised_indexes m es) = {0..<length es}" "distinct (advertised_indexes m es)"
    "length (advertised_indexes m es) = length es"
  using assms by (simp_all add: advertised_indexes_def distinct_sort)

lemma acked_pairs_map:
  "acked_pairs t = {p. \<exists>g. (p, Some g) \<in> set (map (\<lambda>e. (pair_of e, es_acknowledged_generation e)) (ct_entries t))}"
  by (auto simp: acked_pairs_def image_iff; metis)

lemma create_advertisement_cases:
  obtains (none) "create_advertisement k t = (None, t)"
  | (some) m ad where "ct_max t = Some m" "ct_latest_pending_generation t = None" "ct_entries t \<noteq> []"
      "ad = \<lparr>ad_table_kind = k, ad_generation = ct_next_generation t, ad_entries = map (\<lambda>i. \<lparr>te_id = es_id (ct_entries t ! i),
          te_literal = es_literal (ct_entries t ! i)\<rparr>) (advertised_indexes m (ct_entries t))\<rparr>"
      "create_advertisement k t = (Some ad, t\<lparr>ct_next_generation := saturating_add (ct_next_generation t) 1,
        ct_latest_pending_generation := Some (ct_next_generation t),
        ct_entries := mark_advertised (ct_next_generation t) (advertised_indexes m (ct_entries t)) (ct_entries t)\<rparr>)"
proof (cases "ct_max t = None \<or> ct_entries t = [] \<or> ct_latest_pending_generation t \<noteq> None")
  case True
  then show ?thesis by (intro none) (auto simp: create_advertisement_def split: option.split)
next
  case False
  then show ?thesis by (auto simp: create_advertisement_def Let_def mark_advertised_def intro!: some)
qed

text \<open>An advertisement carries every entry of the table, each once.\<close>

lemma create_advertisement_spec:
  assumes t: "outbound_ok t" and c: "create_advertisement k t = (Some ad, t')"
  shows "outbound_ok t'" "entry_pairs (ad_entries ad) = pairs_of t" "\<not> has_duplicate_entry_id (ad_entries ad)"
    "pairs_of t' = pairs_of t" "acked_pairs t' = acked_pairs t" "offered_pairs t' = pairs_of t"
    "ct_latest_pending_generation t = None" "ct_latest_pending_generation t' = Some (ad_generation ad)"
    "ct_max t' = ct_max t" "list_ex (\<lambda>e. es_advertised_generation e = Some (ad_generation ad)) (ct_entries t')"
    "ad_table_kind ad = k" "\<exists>m. ct_max t = Some m \<and> length (ad_entries ad) \<le> m"
proof -
  obtain m where m: "ct_max t = Some m" "ct_latest_pending_generation t = None" "ct_entries t \<noteq> []"
    and ad: "ad = \<lparr>ad_table_kind = k, ad_generation = ct_next_generation t, ad_entries = map (\<lambda>i. \<lparr>te_id = es_id (ct_entries t ! i),
          te_literal = es_literal (ct_entries t ! i)\<rparr>) (advertised_indexes m (ct_entries t))\<rparr>"
    and t': "t' = t\<lparr>ct_next_generation := saturating_add (ct_next_generation t) 1,
        ct_latest_pending_generation := Some (ct_next_generation t),
        ct_entries := mark_advertised (ct_next_generation t) (advertised_indexes m (ct_entries t)) (ct_entries t)\<rparr>"
    using c by (cases rule: create_advertisement_cases [of k t]) auto
  let ?es = "ct_entries t" and ?es' = "ct_entries t'"
  have len: "length ?es \<le> m" using t m(1) by (simp add: outbound_ok_def)
  note ix = indexes_all [OF len]
  have nth: "\<And>j. j < length ?es \<Longrightarrow> es_advertised_generation (?es' ! j) = Some (ct_next_generation t)"
    and len': "length ?es' = length ?es" by (simp_all add: t' mark_nth ix)
  have adv: "\<forall>e\<in>set ?es'. es_advertised_generation e = Some (ct_next_generation t)"
    using nth len' by (metis in_set_conv_nth)
  have maps: "map (\<lambda>e. unat (es_id e)) ?es' = map (\<lambda>e. unat (es_id e)) ?es" "map es_literal ?es' = map es_literal ?es"
    "map pair_of ?es' = map pair_of ?es"
    "map (\<lambda>e. (pair_of e, es_acknowledged_generation e)) ?es' = map (\<lambda>e. (pair_of e, es_acknowledged_generation e)) ?es"
    by (simp_all add: t' mark_map)
  show p: "pairs_of t' = pairs_of t" by (simp add: pairs_of_def maps del: set_map)
  show a: "acked_pairs t' = acked_pairs t" by (simp add: acked_pairs_map maps del: set_map)
  have "filter (\<lambda>e. es_advertised_generation e \<noteq> None) ?es' = ?es'" using adv by (simp add: filter_id_conv)
  then have o: "offered_pairs t' = pairs_of t'" by (simp only: offered_pairs_def pairs_of_def)
  then show "offered_pairs t' = pairs_of t" using p by simp
  have "acked_pairs t' \<subseteq> offered_pairs t'" unfolding o by (auto simp: acked_pairs_def pairs_of_def)
  then show "outbound_ok t'" using t maps len' m(1) by (simp add: outbound_ok_def t' del: set_map)
  have "entry_pairs (ad_entries ad) = (\<lambda>i. pair_of (?es ! i)) ` {0..<length ?es}"
    by (simp add: entry_pairs_def ad ix image_image pair_of_def)
  also have "\<dots> = set (map (\<lambda>i. pair_of (?es ! i)) [0..<length ?es])" by simp
  also have "\<dots> = pairs_of t" 
    using arg_cong [OF map_nth [of ?es], of "\<lambda>l. set (map pair_of l)"] by (simp add: pairs_of_def comp_def image_image)
  finally show "entry_pairs (ad_entries ad) = pairs_of t" .
  have "map te_id (ad_entries ad) = map (\<lambda>i. map es_id ?es ! i) (advertised_indexes m ?es)" using ix by (simp add: ad)
  then show "\<not> has_duplicate_entry_id (ad_entries ad)"
    using inj_on_nth [OF outbound_distinct [OF t], of "set (advertised_indexes m ?es)"] ix
    by (simp add: has_duplicate_iff distinct_map [of "(!) (map es_id ?es)"])
  show "list_ex (\<lambda>e. es_advertised_generation e = Some (ad_generation ad)) ?es'"
    using adv m(3) len' by (cases ?es') (auto simp: ad)
  show "\<exists>m. ct_max t = Some m \<and> length (ad_entries ad) \<le> m" using m(1) len ix by (simp add: ad)
  show "ct_latest_pending_generation t = None" "ct_latest_pending_generation t' = Some (ad_generation ad)"
    "ct_max t' = ct_max t" "ad_table_kind ad = k" using t' ad m by simp_all
qed

lemma acknowledge_spec:
  assumes t: "outbound_ok t"
  shows "outbound_ok (snd (acknowledge gen t))" "pairs_of (snd (acknowledge gen t)) = pairs_of t"
    "offered_pairs (snd (acknowledge gen t)) = offered_pairs t" "ct_max (snd (acknowledge gen t)) = ct_max t"
    "ct_latest_pending_generation t = Some gen \<Longrightarrow> acked_pairs (snd (acknowledge gen t)) \<subseteq> offered_pairs t"
    "ct_latest_pending_generation t = Some gen \<Longrightarrow> list_ex (\<lambda>e. es_advertised_generation e = Some gen) (ct_entries t) \<Longrightarrow>
      ct_latest_pending_generation (snd (acknowledge gen t)) = None"
proof -
  have o: "offered_pairs (snd (acknowledge gen t)) = offered_pairs t"
    by (simp add: acknowledge_def offered_pairs_def Let_def filter_map comp_def del: set_filter set_map)
  have a: "ct_latest_pending_generation t = Some gen \<Longrightarrow> acked_pairs (snd (acknowledge gen t)) \<subseteq> offered_pairs t"
  proof -
    assume "ct_latest_pending_generation t = Some gen"
    then have "acked_pairs (snd (acknowledge gen t)) = pair_of ` set (filter (\<lambda>e. es_advertised_generation e = Some gen) (ct_entries t))"
      by (simp add: acknowledge_def acked_pairs_def Let_def filter_map comp_def del: set_filter)
    then show ?thesis by (auto simp: offered_pairs_def)
  qed
  have "acked_pairs (snd (acknowledge gen t)) \<subseteq> offered_pairs t"
    using a t by (cases "ct_latest_pending_generation t = Some gen") (simp_all add: acknowledge_def outbound_ok_def)
  moreover have "map (\<lambda>e. unat (es_id e)) (ct_entries (snd (acknowledge gen t))) = map (\<lambda>e. unat (es_id e)) (ct_entries t)"
    "map es_literal (ct_entries (snd (acknowledge gen t))) = map es_literal (ct_entries t)"
    "length (ct_entries (snd (acknowledge gen t))) = length (ct_entries t)"
    "ct_next_entry_id (snd (acknowledge gen t)) = ct_next_entry_id t" "ct_max (snd (acknowledge gen t)) = ct_max t"
    by (simp_all add: acknowledge_def Let_def comp_def)
  ultimately show "outbound_ok (snd (acknowledge gen t))"
    using t o by (auto simp: outbound_ok_def split: option.splits)
  show "pairs_of (snd (acknowledge gen t)) = pairs_of t"
    by (simp add: acknowledge_def pairs_of_def Let_def image_image)
  show "ct_latest_pending_generation t = Some gen \<Longrightarrow> list_ex (\<lambda>e. es_advertised_generation e = Some gen) (ct_entries t) \<Longrightarrow>
      ct_latest_pending_generation (snd (acknowledge gen t)) = None" by (simp add: acknowledge_def Let_def)
  show "ct_max (snd (acknowledge gen t)) = ct_max t" by (simp add: acknowledge_def Let_def)
  show "offered_pairs (snd (acknowledge gen t)) = offered_pairs t" by (fact o)
  show "ct_latest_pending_generation t = Some gen \<Longrightarrow> acked_pairs (snd (acknowledge gen t)) \<subseteq> offered_pairs t" by (fact a)
qed

subsection \<open>Encoding and resolution\<close>

lemma table_encode_cases:
  "table_encode literal t = Literal literal \<or> (\<exists>i. table_encode literal t = TableRef i \<and> (i, literal) \<in> acked_pairs t)"
  by (auto simp: table_encode_def acked_pairs_def find_Some_iff pair_of_def image_iff split: option.split) (metis nth_mem)

lemma resolve_pair:
  assumes "inbound_ok t" and "is_enabled t" and "(i, literal) \<in> pairs_of t"
  shows "table_resolve i t = Some literal"
proof -
  obtain e where e: "e \<in> set (ct_entries t)" "es_id e = i" "es_literal e = literal" using assms(3) by (auto simp: pairs_of_def pair_of_def)
  obtain f where f: "find (\<lambda>e. es_id e = i) (ct_entries t) = Some f"
    using e(1,2) by (metis (mono_tags, lifting) find_None_iff option.exhaust)
  then have "f \<in> set (ct_entries t)" "es_id f = i" by (auto simp: find_Some_iff)
  then have "f = e" using e assms(1) by (auto simp: inbound_ok_def distinct_map inj_on_def)
  then show ?thesis using assms(2) f e(3) by (simp add: table_resolve_def)
qed

lemma apply_advertisement_spec:
  assumes "ct_max t = Some m" and "length es \<le> m" and "\<not> has_duplicate_entry_id es"
  shows "fst (apply_advertisement gen es t) = Inr ()" "pairs_of (snd (apply_advertisement gen es t)) = entry_pairs es"
    "inbound_ok (snd (apply_advertisement gen es t))" "ct_max (snd (apply_advertisement gen es t)) = Some m"
  using assms by (simp_all add: apply_advertisement_def pairs_of_def entry_pairs_def image_image inbound_ok_def comp_def has_duplicate_iff
      from_advertisement_def pair_of_def)

lemma encode_acked:
  assumes t: "outbound_ok t" "is_enabled t" and p: "(i, literal) \<in> acked_pairs t"
  shows "table_encode literal t = TableRef i"
proof -
  obtain e where e: "e \<in> set (ct_entries t)" "es_id e = i" "es_literal e = literal" "es_acknowledged_generation e \<noteq> None"
    using p by (auto simp: acked_pairs_def pair_of_def)
  then obtain f where f: "find (\<lambda>e. es_literal e = literal \<and> es_acknowledged_generation e \<noteq> None) (ct_entries t) = Some f"
    by (metis (mono_tags, lifting) find_None_iff option.exhaust)
  then have "f \<in> set (ct_entries t)" "es_literal f = literal" by (auto simp: find_Some_iff)
  then have "f = e" using e t(1) by (auto simp: outbound_ok_def distinct_map inj_on_def)
  then show ?thesis using f e t(2) by (simp add: table_encode_def)
qed

lemma acknowledged_all:
  assumes t: "outbound_ok t" and c: "create_advertisement k t = (Some ad, t')"
  shows "acked_pairs (snd (acknowledge (ad_generation ad) t')) = pairs_of t"
proof -
  note ad = create_advertisement_spec [OF t c]
  have "es_advertised_generation x = Some (ad_generation ad)" if "x \<in> set (ct_entries t')" for x
  proof -
    obtain m where "ct_max t = Some m" "length (ct_entries t) \<le> m" using t ad(12) by (auto simp: outbound_ok_def)
    then have "\<forall>j<length (ct_entries t'). es_advertised_generation (ct_entries t' ! j) = Some (ad_generation ad)"
      using c by (cases rule: create_advertisement_cases [of k t]) (auto simp: mark_nth indexes_all)
    then show ?thesis using that by (metis in_set_conv_nth)
  qed
  then have "acked_pairs (snd (acknowledge (ad_generation ad) t')) = pairs_of t'"
    using ad(8) by (auto simp: acknowledge_def acked_pairs_def pairs_of_def Let_def filter_map comp_def image_iff)
  then show ?thesis using ad(4) by simp
qed

section \<open>Properties\<close>

definition sample_table :: compression_table where
  "sample_table = observe ''a'' (observe ''b'' (observe ''a'' (table_new (Some 2))))"

text \<open>
  A literal the client has observed becomes a reference: when no advertisement is pending,
  an enabled table creates one that carries the entry, a server that accepts as many entries applies
  it, and after the acknowledgement the client encodes the literal as the number of its entry, which
  the server resolves to that literal.
\<close>

theorem compression_reference_available:
  assumes "outbound_ok t" and "ct_max t = Some m" and "ct_latest_pending_generation t = None"
    and "e \<in> set (ct_entries t)" and "ct_max r = Some n" and "m \<le> n"
  shows "\<exists>ad t'. create_advertisement k t = (Some ad, t')
    \<and> fst (apply_advertisement (ad_generation ad) (ad_entries ad) r) = Inr ()
    \<and> table_encode (es_literal e) (snd (acknowledge (ad_generation ad) t')) = TableRef (es_id e)
    \<and> table_resolve (es_id e) (snd (apply_advertisement (ad_generation ad) (ad_entries ad) r)) = Some (es_literal e)"
proof -
  obtain ad t' where c: "create_advertisement k t = (Some ad, t')"
    using assms(2-4) by (cases "ct_entries t") (auto simp: create_advertisement_def Let_def)
  note ad = create_advertisement_spec [OF assms(1) c]
  let ?g = "ad_generation ad" and ?t = "snd (acknowledge (ad_generation ad) t')"
  have p: "(es_id e, es_literal e) \<in> pairs_of t" using assms(4) by (auto simp: pairs_of_def pair_of_def)
  have len: "length (ad_entries ad) \<le> n" using ad(12) assms(2,6) by simp
  note r = apply_advertisement_spec [OF assms(5) len ad(3), of ?g]
  note ack = acknowledge_spec [OF ad(1), of ?g]
  have "table_resolve (es_id e) (snd (apply_advertisement ?g (ad_entries ad) r)) = Some (es_literal e)"
    using r ad(2) p by (intro resolve_pair) (simp_all add: is_enabled_def)
  moreover have "(es_id e, es_literal e) \<in> acked_pairs ?t" using acknowledged_all [OF assms(1) c] p by simp
  ultimately show ?thesis
    using c r(1) encode_acked [OF ack(1), of "es_id e" "es_literal e"] ack(4) ad(9) assms(2) by (auto simp: is_enabled_def)
qed

theorem compression_reference_available_witness:
  "\<exists>ad t'. create_advertisement ActorRefTable sample_table = (Some ad, t')
    \<and> fst (apply_advertisement (ad_generation ad) (ad_entries ad) (table_new (Some 3))) = Inr ()
    \<and> table_encode ''b'' (snd (acknowledge (ad_generation ad) t')) = TableRef 2
    \<and> table_resolve 2 (snd (apply_advertisement (ad_generation ad) (ad_entries ad) (table_new (Some 3)))) = Some ''b''"
proof -
  have t: "outbound_ok sample_table" unfolding sample_table_def by (intro observe_ok table_new_ok) simp
  have m: "ct_max sample_table = Some 2" "ct_latest_pending_generation sample_table = None"
    by (simp_all add: sample_table_def, simp_all add: table_new_def)
  have e: "\<exists>e\<in>set (ct_entries sample_table). es_literal e = ''b'' \<and> es_id e = 2" by code_simp
  then obtain e where e: "e \<in> set (ct_entries sample_table)" "es_literal e = ''b''" "es_id e = 2" by blast
  have r: "ct_max (table_new (Some 3)) = Some 3" by (simp add: table_new_def)
  show ?thesis
    using compression_reference_available [OF t m e(1) r, of ActorRefTable] unfolding e(2,3) by simp
qed

end
