(* ===== verification/Frame_Codec.thy ===== *)
theory Frame_Codec
  imports Wire_Codec
begin

text \<open>
  \<open>WireFrame\<close> (\<open>remote-core/src/wire/wire_frame.rs\<close>) and the stream codec of the TCP transport
  (\<open>remote-adaptor-std/src/transport/tcp/frame_codec.rs\<close>). The encoder writes a frame into a scratch
  buffer, checks the size limit and only then appends it; the decoder waits for a whole frame and
  hands it to the decoder of its kind. A reader that calls the decoder on a growing buffer gets back
  the frames that were sent, in order, however the bytes are cut into chunks.
\<close>

section \<open>The codec\<close>

datatype wire_frame =
    EnvelopeFrame envelope_pdu
  | HandshakeFrame handshake_pdu
  | ControlFrame control_pdu
  | AckFrame ack_pdu
  | DeploymentFrame deployment_pdu

definition FRAME_HEADER_LEN :: nat where "FRAME_HEADER_LEN = 6"
definition MIN_FRAME_LENGTH :: nat where "MIN_FRAME_LENGTH = 2"
definition DEFAULT_MAXIMUM_FRAME_SIZE :: nat where "DEFAULT_MAXIMUM_FRAME_SIZE = 256 * 1024"
definition MINIMUM_MAXIMUM_FRAME_SIZE :: nat where "MINIMUM_MAXIMUM_FRAME_SIZE = 32 * 1024"
definition MAXIMUM_MAXIMUM_FRAME_SIZE :: nat where "MAXIMUM_MAXIMUM_FRAME_SIZE = 16 * 1024 * 1024"

definition declared_frame_length :: "bytes \<Rightarrow> wire_error + nat" where
  "declared_frame_length frame =
     (if length frame < FRAME_HEADER_LEN then Inl InvalidFormat else Inr (from_be (take 4 frame)))"

text \<open>The constructor asserts the range of the limit: \<open>None\<close> is the panic.\<close>

definition with_maximum_frame_size :: "nat \<Rightarrow> nat option" where
  "with_maximum_frame_size n =
     (if MINIMUM_MAXIMUM_FRAME_SIZE \<le> n \<and> n \<le> MAXIMUM_MAXIMUM_FRAME_SIZE then Some n else None)"

definition encode_pdu :: "buf_ops \<Rightarrow> wire_frame \<Rightarrow> encoder" where
  "encode_pdu B item =
     (case item of
        EnvelopeFrame p \<Rightarrow> envelope_encode B p
      | HandshakeFrame p \<Rightarrow> handshake_encode B p
      | ControlFrame p \<Rightarrow> control_encode B p
      | AckFrame p \<Rightarrow> ack_encode B p
      | DeploymentFrame p \<Rightarrow> deployment_encode B p)"

definition frame_encode :: "buf_ops \<Rightarrow> nat \<Rightarrow> wire_frame \<Rightarrow> encoder" where
  "frame_encode B maximum_frame_size item dst =
     (case encode_pdu B item [] of
        (Inl e, _) \<Rightarrow> (Inl e, dst)
      | (Inr _, frame) \<Rightarrow>
          (case declared_frame_length frame of
             Inl e \<Rightarrow> (Inl e, dst)
           | Inr len \<Rightarrow> if len > maximum_frame_size then (Inl FrameTooLarge, dst) else (Inr (), unsplit B frame dst)))"

definition decode_pdu :: "buf_ops \<Rightarrow> byte \<Rightarrow> wire_frame decoder" where
  "decode_pdu B kind =
     (if kind = KIND_ENVELOPE then dec_then (envelope_decode B) (\<lambda>p. dec_ok (EnvelopeFrame p))
      else if kind = KIND_HANDSHAKE_REQ \<or> kind = KIND_HANDSHAKE_RSP then
        dec_then (handshake_decode B) (\<lambda>p. dec_ok (HandshakeFrame p))
      else if kind = KIND_CONTROL then dec_then (control_decode B) (\<lambda>p. dec_ok (ControlFrame p))
      else if kind = KIND_ACK then dec_then (ack_decode B) (\<lambda>p. dec_ok (AckFrame p))
      else if kind = KIND_DEPLOYMENT then dec_then (deployment_decode B) (\<lambda>p. dec_ok (DeploymentFrame p))
      else dec_err UnknownKind)"

definition frame_decode :: "buf_ops \<Rightarrow> nat \<Rightarrow> wire_frame option decoder" where
  "frame_decode B maximum_frame_size src =
     (if length src < FRAME_HEADER_LEN then (Inr None, src)
      else case declared_frame_length src of
        Inl e \<Rightarrow> (Inl (Wire e), src)
      | Inr len \<Rightarrow>
          if len < MIN_FRAME_LENGTH then (Inl (Wire InvalidFormat), src)
          else if len > maximum_frame_size then (Inl (Wire FrameTooLarge), src)
          else if 4 + len \<ge> 2 ^ 64 then (Inl (Wire FrameTooLarge), src)
          else if length src < 4 + len then (Inr None, src)
          else
            let kind = src ! FRAME_KIND_OFFSET in
            case split_to B (4 + len) src of
              None \<Rightarrow> (Inl BufPanic, src)
            | Some (frame, rest) \<Rightarrow>
                (case fst (decode_pdu B kind frame) of
                   Inl e \<Rightarrow> (Inl e, rest)
                 | Inr item \<Rightarrow> (Inr (Some item), rest)))"

text \<open>
  A reader of a byte stream: it decodes until the buffer holds no complete frame or a frame is
  refused. Every step consumes at least a header, so the length of the buffer bounds the steps.
\<close>

fun drain :: "buf_ops \<Rightarrow> nat \<Rightarrow> nat \<Rightarrow> bytes \<Rightarrow> wire_frame list \<times> decode_failure option \<times> bytes" where
  "drain B limit 0 b = ([], None, b)"
| "drain B limit (Suc fuel) b =
     (case frame_decode B limit b of
        (Inl e, r) \<Rightarrow> ([], Some e, r)
      | (Inr None, r) \<Rightarrow> ([], None, r)
      | (Inr (Some f), r) \<Rightarrow> (let (fs, e, r') = drain B limit fuel r in (f # fs, e, r')))"

definition read_buffer :: "buf_ops \<Rightarrow> nat \<Rightarrow> bytes \<Rightarrow> wire_frame list \<times> decode_failure option \<times> bytes" where
  "read_buffer B limit b = drain B limit (Suc (length b)) b"

fun read_chunks :: "buf_ops \<Rightarrow> nat \<Rightarrow> bytes \<Rightarrow> bytes list \<Rightarrow> wire_frame list \<times> decode_failure option \<times> bytes" where
  "read_chunks B limit b [] = ([], None, b)"
| "read_chunks B limit b (c # cs) =
     (case read_buffer B limit (b @ c) of
        (fs, Some e, r) \<Rightarrow> (fs, Some e, r)
      | (fs, None, r) \<Rightarrow> (let (gs, e, r') = read_chunks B limit r cs in (fs @ gs, e, r')))"

fun write_frames :: "buf_ops \<Rightarrow> nat \<Rightarrow> wire_frame list \<Rightarrow> encoder" where
  "write_frames B limit [] b = (Inr (), b)"
| "write_frames B limit (f # fs) b = enc_then (frame_encode B limit f) (write_frames B limit fs) b"

section \<open>The format of a stream\<close>

definition frame_kind :: "wire_frame \<Rightarrow> byte" where
  "frame_kind f =
     (case f of EnvelopeFrame _ \<Rightarrow> 1 | HandshakeFrame p \<Rightarrow> handshake_kind p | ControlFrame _ \<Rightarrow> 4 | AckFrame _ \<Rightarrow> 5 | DeploymentFrame _ \<Rightarrow> 6)"

definition frame_body :: "wire_frame \<Rightarrow> bytes" where
  "frame_body f =
     (case f of EnvelopeFrame p \<Rightarrow> fmt_envelope p | HandshakeFrame p \<Rightarrow> fmt_handshake p | ControlFrame p \<Rightarrow> fmt_control p
      | AckFrame p \<Rightarrow> fmt_ack p | DeploymentFrame p \<Rightarrow> fmt_deployment p)"

definition wire_frame_ok :: "wire_frame \<Rightarrow> bool" where
  "wire_frame_ok f \<longleftrightarrow>
     (case f of EnvelopeFrame p \<Rightarrow> wire_envelope p | HandshakeFrame p \<Rightarrow> wire_handshake p | ControlFrame p \<Rightarrow> wire_control p
      | AckFrame p \<Rightarrow> True | DeploymentFrame p \<Rightarrow> wire_deployment p)"

definition fmt_wire_frame :: "wire_frame \<Rightarrow> bytes" where
  "fmt_wire_frame f = fmt_frame (frame_kind f) (frame_body f)"

text \<open>The dispatch on the kind is itself a codec.\<close>

lemma reads_dispatch:
  assumes B: "buf_laws B" and f: "wire_frame_ok f" and l: "2 + length (frame_body f) \<le> usize_u32_max"
  shows "reads (decode_pdu B (frame_kind f)) (fmt_wire_frame f) f"
proof (cases f)
  case (EnvelopeFrame p)
  with f l reads_map [OF envelope.decode_reads [OF B], of p EnvelopeFrame] show ?thesis
    by (simp add: wire_frame_ok_def fmt_wire_frame_def frame_kind_def frame_body_def decode_pdu_def kind_defs)
next
  case (HandshakeFrame p)
  have "frame_kind f = KIND_HANDSHAKE_REQ \<or> frame_kind f = KIND_HANDSHAKE_RSP"
    using HandshakeFrame by (simp add: frame_kind_def handshake_kind_def split: handshake_pdu.split)
  moreover have "frame_kind f \<noteq> KIND_ENVELOPE" using calculation by (auto simp: kind_defs)
  ultimately have "decode_pdu B (frame_kind f) = dec_then (handshake_decode B) (\<lambda>p. dec_ok (HandshakeFrame p))"
    unfolding decode_pdu_def by simp
  with HandshakeFrame f l reads_map [OF handshake.decode_reads [OF B], of p HandshakeFrame] show ?thesis
    by (simp add: wire_frame_ok_def fmt_wire_frame_def frame_kind_def frame_body_def)
next
  case (ControlFrame p)
  with f l reads_map [OF control.decode_reads [OF B], of p ControlFrame] show ?thesis
    by (simp add: wire_frame_ok_def fmt_wire_frame_def frame_kind_def frame_body_def decode_pdu_def kind_defs)
next
  case (AckFrame p)
  with f l reads_map [OF ack.decode_reads [OF B], of p AckFrame] show ?thesis
    by (simp add: wire_frame_ok_def fmt_wire_frame_def frame_kind_def frame_body_def decode_pdu_def kind_defs)
next
  case (DeploymentFrame p)
  with f l reads_map [OF deployment.decode_reads [OF B], of p DeploymentFrame] show ?thesis
    by (simp add: wire_frame_ok_def fmt_wire_frame_def frame_kind_def frame_body_def decode_pdu_def kind_defs)
qed

lemma encode_dispatch:
  assumes B: "buf_laws B" and f: "wire_frame_ok f"
  shows "2 + length (frame_body f) \<le> usize_u32_max \<Longrightarrow> encode_pdu B f b = (Inr (), b @ fmt_wire_frame f)"
    "usize_u32_max < 2 + length (frame_body f) \<Longrightarrow> fst (encode_pdu B f b) = Inl FrameTooLarge"
  using f envelope.encode_writes [OF B] handshake.encode_writes [OF B] control.encode_writes [OF B] ack.encode_writes [OF B]
    deployment.encode_writes [OF B]
    envelope.encode_large [OF B] handshake.encode_large [OF B] control.encode_large [OF B] ack.encode_large [OF B]
    deployment.encode_large [OF B]
  by (cases f; simp add: wire_frame_ok_def fmt_wire_frame_def frame_kind_def frame_body_def encode_pdu_def kind_defs writes_def)+

lemma safe_dispatch: "buf_laws B \<Longrightarrow> safe_from 0 (decode_pdu B kind)"
  unfolding decode_pdu_def
  using envelope.decode_safe handshake.decode_safe control.decode_safe ack.decode_safe deployment.decode_safe
  by (auto intro!: safe_then safe_ok safe_err)

lemma declared_fmt:
  assumes "2 + length (frame_body f) \<le> usize_u32_max"
  shows "declared_frame_length (fmt_wire_frame f @ rest) = Inr (2 + length (frame_body f))"
proof -
  have "from_be (be_bytes 4 (2 + length (frame_body f))) = 2 + length (frame_body f)"
    using assms by (intro from_be_be_bytes) (simp add: usize_u32_max_def)
  then show ?thesis by (simp add: declared_frame_length_def fmt_wire_frame_def fmt_frame_def FRAME_HEADER_LEN_def)
qed

section \<open>Single frames\<close>

definition sendable :: "nat \<Rightarrow> wire_frame \<Rightarrow> bool" where
  "sendable limit f \<longleftrightarrow> wire_frame_ok f \<and> 2 + length (frame_body f) \<le> limit"

lemma accepted_limit: "with_maximum_frame_size n = Some limit \<Longrightarrow> limit \<le> usize_u32_max"
  by (auto simp: with_maximum_frame_size_def MAXIMUM_MAXIMUM_FRAME_SIZE_def usize_u32_max_def split: if_splits)

lemma frame_encode_ok:
  assumes "buf_laws B" and "wire_frame_ok f" and "limit \<le> usize_u32_max"
  shows "frame_encode B limit f dst = (if sendable limit f then (Inr (), dst @ fmt_wire_frame f) else (Inl FrameTooLarge, dst))"
proof (cases "2 + length (frame_body f) \<le> usize_u32_max")
  case True
  with encode_dispatch(1) [OF assms(1,2), of "[]"] declared_fmt [OF True, of "[]"] assms(2) show ?thesis
    by (simp add: frame_encode_def sendable_def buf_laws_simps [OF assms(1)])
next
  case False
  then have "fst (encode_pdu B f []) = Inl FrameTooLarge" using encode_dispatch(2) [OF assms(1,2), of "[]"] by simp
  with False assms(3) show ?thesis by (auto simp: frame_encode_def sendable_def split: prod.splits)
qed

lemma kind_of_frame: "(fmt_wire_frame f @ rest) ! FRAME_KIND_OFFSET = frame_kind f"
  using peek_frame [of "frame_kind f" "frame_body f" rest]
  by (simp add: peek_frame_kind_def fmt_wire_frame_def split: if_splits)

lemma frame_decode_complete:
  assumes B: "buf_laws B" and f: "sendable limit f" and limit: "limit \<le> usize_u32_max"
  shows "frame_decode B limit (fmt_wire_frame f @ rest) = (Inr (Some f), rest)"
proof -
  have ok: "wire_frame_ok f" and l: "2 + length (frame_body f) \<le> limit" using f by (simp_all add: sendable_def)
  have u: "2 + length (frame_body f) \<le> usize_u32_max" using l limit by simp
  have len: "length (fmt_wire_frame f) = 6 + length (frame_body f)" by (simp add: fmt_wire_frame_def)
  have "decode_pdu B (frame_kind f) (fmt_wire_frame f) = (Inr f, [])"
    using reads_dispatch [OF B ok u] unfolding reads_def by (metis append_Nil2)
  moreover have "\<not> 2 ^ 64 \<le> 4 + (2 + length (frame_body f))" using u by (simp add: usize_u32_max_def)
  ultimately show ?thesis
    using declared_fmt [OF u, of rest] l len kind_of_frame [of f rest]
    by (simp add: frame_decode_def FRAME_HEADER_LEN_def MIN_FRAME_LENGTH_def buf_laws_simps [OF B] Let_def)
qed

lemma frame_decode_waits:
  assumes f: "sendable limit f" and limit: "limit \<le> usize_u32_max" and cut: "fmt_wire_frame f = x @ y" "y \<noteq> []"
  shows "frame_decode B limit x = (Inr None, x)"
proof (cases "length x < 6")
  case True
  then show ?thesis by (simp add: frame_decode_def FRAME_HEADER_LEN_def)
next
  case False
  have l: "2 + length (frame_body f) \<le> limit" using f by (simp add: sendable_def)
  then have u: "2 + length (frame_body f) \<le> usize_u32_max" using limit by simp
  have "take 4 (x @ y) = take 4 x" using False by simp
  then have d: "declared_frame_length x = Inr (2 + length (frame_body f))"
    using declared_fmt [OF u, of "[]"] False unfolding cut(1) by (simp add: declared_frame_length_def FRAME_HEADER_LEN_def split: if_splits)
  have "length x + length y = 6 + length (frame_body f)"
    using arg_cong [OF cut(1), of length] by (simp add: fmt_wire_frame_def)
  then have "length x < 4 + (2 + length (frame_body f))" using cut(2) by (cases y) auto
  moreover have "\<not> 2 ^ 64 \<le> 4 + (2 + length (frame_body f))" using u by (simp add: usize_u32_max_def)
  ultimately show ?thesis using d l False by (simp add: frame_decode_def FRAME_HEADER_LEN_def MIN_FRAME_LENGTH_def Let_def)
qed

section \<open>Streams\<close>

definition fmt_stream :: "wire_frame list \<Rightarrow> bytes" where
  "fmt_stream fs = concat (map fmt_wire_frame fs)"

lemma fmt_stream_simps [simp]: "fmt_stream [] = []" "fmt_stream (f # fs) = fmt_wire_frame f @ fmt_stream fs"
  by (simp_all add: fmt_stream_def)

lemma write_frames_ok:
  assumes "buf_laws B" and "limit \<le> usize_u32_max"
  shows "list_all (sendable limit) fs \<Longrightarrow> write_frames B limit fs b = (Inr (), b @ fmt_stream fs)"
  by (induction fs arbitrary: b) (simp_all add: enc_then_def frame_encode_ok [OF assms(1) _ assms(2)] sendable_def)

text \<open>On a prefix of a stream the reader returns the frames that are complete and keeps the rest.\<close>

definition incomplete :: "bytes \<Rightarrow> wire_frame list \<Rightarrow> bool" where
  "incomplete r fs \<longleftrightarrow> (case fs of [] \<Rightarrow> r = [] | f # _ \<Rightarrow> (\<exists>y. y \<noteq> [] \<and> fmt_wire_frame f = r @ y))"

lemma drain_prefix:
  assumes B: "buf_laws B" and limit: "limit \<le> usize_u32_max"
  shows "list_all (sendable limit) fs \<Longrightarrow> fmt_stream fs = x @ q \<Longrightarrow> length x < fuel \<Longrightarrow>
    \<exists>k r. drain B limit fuel x = (take k fs, None, r) \<and> fmt_stream (drop k fs) = r @ q \<and> incomplete r (drop k fs)"
proof (induction fs arbitrary: x fuel)
  case Nil
  then obtain n where "fuel = Suc n" by (cases fuel) auto
  moreover have "frame_decode B limit [] = (Inr None, [])" by (simp add: frame_decode_def FRAME_HEADER_LEN_def)
  ultimately show ?case using Nil by (simp add: incomplete_def)
next
  case (Cons f fs)
  then obtain n where n: "fuel = Suc n" by (cases fuel) auto
  have f: "sendable limit f" and fs: "list_all (sendable limit) fs" using Cons.prems(1) by simp_all
  have eq: "fmt_wire_frame f @ fmt_stream fs = x @ q" using Cons.prems(2) by simp
  show ?case
  proof (cases "length (fmt_wire_frame f) \<le> length x")
    case True
    then obtain x' where x: "x = fmt_wire_frame f @ x'" and rest: "fmt_stream fs = x' @ q"
      using eq by (metis append_eq_append_conv2 append.assoc same_append_eq append_eq_append_conv_if append_take_drop_id)
    have "length x' < n" using Cons.prems(3) n x by (simp add: fmt_wire_frame_def)
    then obtain k r where "drain B limit n x' = (take k fs, None, r)" "fmt_stream (drop k fs) = r @ q" "incomplete r (drop k fs)"
      using Cons.IH [OF fs rest] by blast
    then have "drain B limit fuel x = (take (Suc k) (f # fs), None, r) \<and> fmt_stream (drop (Suc k) (f # fs)) = r @ q
        \<and> incomplete r (drop (Suc k) (f # fs))"
      using n x frame_decode_complete [OF B f limit, of x'] by simp
    then show ?thesis by blast
  next
    case False
    define y where "y = drop (length x) (fmt_wire_frame f)"
    have cut: "fmt_wire_frame f = x @ y" "y \<noteq> []"
      using False arg_cong [OF eq, of "take (length x)"] by (simp_all add: y_def) (metis append_take_drop_id)
    have "drain B limit fuel x = (take 0 (f # fs), None, x)"
      using n frame_decode_waits [OF f limit cut] by simp
    moreover have "incomplete x (f # fs)" using cut by (auto simp: incomplete_def)
    ultimately show ?thesis using Cons.prems(2) by (metis drop0)
  qed
qed

lemma incomplete_end: "incomplete r fs \<Longrightarrow> fmt_stream fs = r \<Longrightarrow> fs = [] \<and> r = []"
  by (cases fs) (auto simp: incomplete_def)

lemma read_buffer_prefix:
  assumes "buf_laws B" and "limit \<le> usize_u32_max" and "list_all (sendable limit) fs" and "fmt_stream fs = x @ q"
  obtains k r where "read_buffer B limit x = (take k fs, None, r)" and "fmt_stream (drop k fs) = r @ q" and "incomplete r (drop k fs)"
  using drain_prefix [OF assms, of "Suc (length x)"] by (auto simp: read_buffer_def)

lemma read_chunks_stream:
  assumes B: "buf_laws B" and limit: "limit \<le> usize_u32_max"
  shows "list_all (sendable limit) fs \<Longrightarrow> b @ concat cs = fmt_stream fs \<Longrightarrow> cs \<noteq> [] \<Longrightarrow> read_chunks B limit b cs = (fs, None, [])"
proof (induction cs arbitrary: b fs)
  case Nil
  then show ?case by simp
next
  case (Cons c cs)
  obtain k r where r: "read_buffer B limit (b @ c) = (take k fs, None, r)" "fmt_stream (drop k fs) = r @ concat cs"
    "incomplete r (drop k fs)"
    using read_buffer_prefix [OF B limit Cons.prems(1), of "b @ c" "concat cs"] Cons.prems(2) by auto
  show ?case
  proof (cases "cs = []")
    case True
    then have "drop k fs = []" "r = []" using incomplete_end [OF r(3)] r(2) by auto
    with r(1) True show ?thesis by simp
  next
    case False
    have "list_all (sendable limit) (drop k fs)" using Cons.prems(1) by (auto simp: list_all_iff dest: in_set_dropD)
    then have "read_chunks B limit r cs = (drop k fs, None, [])" using Cons.IH [OF _ _ False, of "drop k fs" r] r(2) by simp
    with r(1) show ?thesis by simp
  qed
qed

lemma write_frames_sendable:
  assumes "buf_laws B" and "limit \<le> usize_u32_max" and "list_all wire_frame_ok fs" and "fst (write_frames B limit fs b) = Inr ()"
  shows "list_all (sendable limit) fs"
  using assms(3,4)
  by (induction fs arbitrary: b) (simp_all add: enc_then_def frame_encode_ok [OF assms(1) _ assms(2)] split: if_splits)

lemma dispatch_cut:
  assumes B: "buf_laws B" and l: "2 + length (frame_body f) \<le> usize_u32_max" and cut: "fmt_wire_frame f = x @ y" "y \<noteq> []"
  shows "fst (decode_pdu B (frame_kind f) x) = Inl (Wire Truncated)"
proof -
  have cut': "fst (dec_then d g x) = Inl (Wire Truncated)" if "fst (d x) = Inl (Wire Truncated)"
    for d :: "'a decoder" and g :: "'a \<Rightarrow> wire_frame decoder"
    using that by (auto simp: dec_then_def split: prod.splits)
  have h: "fmt_frame (frame_kind f) (frame_body f) = x @ y" using cut(1) by (simp add: fmt_wire_frame_def)
  show ?thesis
  proof (cases f)
    case (HandshakeFrame p)
    have "frame_kind f = KIND_HANDSHAKE_REQ \<or> frame_kind f = KIND_HANDSHAKE_RSP"
      using HandshakeFrame by (simp add: frame_kind_def handshake_kind_def split: handshake_pdu.split)
    moreover have "frame_kind f \<noteq> KIND_ENVELOPE" using calculation by (auto simp: kind_defs)
    moreover have "frame_kind f = handshake_kind p" using HandshakeFrame by (simp add: frame_kind_def)
    ultimately show ?thesis
      unfolding decode_pdu_def using handshake.decode_cut [OF B l, of p x y] h cut(2) cut' [of "handshake_decode B"] by simp
  qed (use h cut(2) cut' envelope.decode_cut [OF B l, of x y] control.decode_cut [OF B l, of x y] ack.decode_cut [OF B l, of x y]
      deployment.decode_cut [OF B l, of x y] in \<open>simp_all add: frame_kind_def decode_pdu_def kind_defs\<close>)
qed

section \<open>Properties\<close>

definition ack_frame :: wire_frame where
  "ack_frame = AckFrame (ack_new 7 6 0)"

definition system_frame :: wire_frame where
  "system_frame = EnvelopeFrame (with_redelivery_sequence (Some 9) (envelope_new ''user'' (Some ''me'') 1 2 0 (payload_new 3 None [1, 2])))"

lemma sample_limit: "with_maximum_frame_size 32768 = Some 32768"
  by (simp add: with_maximum_frame_size_def MINIMUM_MAXIMUM_FRAME_SIZE_def MAXIMUM_MAXIMUM_FRAME_SIZE_def)

lemma sample_valid: "wire_frame_ok ack_frame" "wire_frame_ok system_frame"
  by (simp_all add: wire_frame_ok_def ack_frame_def system_frame_def wire_envelope_def envelope_new_def payload_new_def
      with_redelivery_sequence_def wire_text_def wire_string_def sequence_matches_def as_bytes_def usize_u32_max_def)

lemma sample_sendable: "100 \<le> limit \<Longrightarrow> sendable limit ack_frame" "100 \<le> limit \<Longrightarrow> sendable limit system_frame"
  using sample_valid
  by (simp_all add: sendable_def ack_frame_def system_frame_def frame_body_def fmt_ack_def fmt_envelope_def fmt_text_def
      fmt_option_def fmt_string_def fmt_bytes_def fmt_sequence_def envelope_new_def payload_new_def with_redelivery_sequence_def)

text \<open>
  Claim C12. Frames sent over a TCP stream arrive as they were sent: whenever all frames of a list
  are accepted by the encoder and their bytes reach the reader in chunks cut at arbitrary positions,
  the decoder returns exactly that list, in order, with no error and no byte left over.
\<close>

theorem frame_stream_round_trip:
  assumes "buf_laws B" and "with_maximum_frame_size n = Some limit"
    and "list_all wire_frame_ok fs" and "fst (write_frames B limit fs []) = Inr ()"
    and "concat chunks = snd (write_frames B limit fs [])" and "chunks \<noteq> []"
  shows "read_chunks B limit [] chunks = (fs, None, [])"
proof (rule read_chunks_stream)
  show limit: "limit \<le> usize_u32_max" by (rule accepted_limit [OF assms(2)])
  show fs: "list_all (sendable limit) fs" by (rule write_frames_sendable [OF assms(1) limit assms(3,4)])
  show "[] @ concat chunks = fmt_stream fs" using assms(5) write_frames_ok [OF assms(1) limit fs, of "[]"] by simp
qed (fact assms)+

theorem frame_stream_round_trip_witness:
  "read_chunks plain_bufs 32768 [] [take 5 (fmt_stream [ack_frame, system_frame]), drop 5 (fmt_stream [ack_frame, system_frame])]
     = ([ack_frame, system_frame], None, [])"
proof -
  note n = sample_limit
  have ok: "list_all wire_frame_ok [ack_frame, system_frame]" by (simp add: sample_valid)
  have "list_all (sendable 32768) [ack_frame, system_frame]" by (simp add: sample_sendable)
  then have w: "write_frames plain_bufs 32768 [ack_frame, system_frame] [] = (Inr (), fmt_stream [ack_frame, system_frame])"
    using write_frames_ok [OF plain_bufs_laws accepted_limit [OF n]] by (simp del: write_frames.simps fmt_stream_simps)
  show ?thesis
    by (rule frame_stream_round_trip [OF plain_bufs_laws n ok]) (simp_all add: w del: fmt_stream_simps write_frames.simps)
qed

text \<open>
  Claim C29. The stream decoder on arbitrary bytes: it never panics; when it waits for more data it
  leaves the buffer as it is, and it only waits while the buffer is shorter than a header or than
  the maximum frame size plus the length field, so a peer cannot make it buffer more; in every other
  case it consumes a prefix of the buffer.
\<close>

theorem frame_decode_total:
  assumes "buf_laws B"
  shows "fst (frame_decode B limit src) \<noteq> Inl BufPanic
    \<and> (fst (frame_decode B limit src) = Inr None \<longrightarrow> snd (frame_decode B limit src) = src \<and> length src < max 6 (4 + limit))
    \<and> (\<exists>k. snd (frame_decode B limit src) = drop k src)"
proof (intro conjI)
  show "fst (frame_decode B limit src) \<noteq> Inl BufPanic"
    using safe_dispatch [OF assms] unfolding safe_from_def
    by (auto simp: frame_decode_def declared_frame_length_def buf_laws_simps [OF assms] Let_def split: sum.splits)
  show "fst (frame_decode B limit src) = Inr None \<longrightarrow> snd (frame_decode B limit src) = src \<and> length src < max 6 (4 + limit)"
    by (auto simp: frame_decode_def FRAME_HEADER_LEN_def declared_frame_length_def buf_laws_simps [OF assms] Let_def split: sum.splits)
  have "snd (frame_decode B limit src) = src \<or> (\<exists>k. snd (frame_decode B limit src) = drop k src)"
    by (auto simp: frame_decode_def declared_frame_length_def buf_laws_simps [OF assms] Let_def split: sum.splits)
  then show "\<exists>k. snd (frame_decode B limit src) = drop k src" by (metis drop0)
qed

theorem frame_decode_total_witness:
  "fst (frame_decode plain_bufs 32768 [0, 0, 0, 2, 4, 9]) \<noteq> Inl BufPanic"
  using frame_decode_total [OF plain_bufs_laws] by simp

text \<open>
  Claim C30. Each PDU codec is a round trip: whenever encoding a PDU succeeds, the encoder has
  appended one frame to the buffer; the decoder of its kind reads that frame back from the front of
  any longer buffer, leaving exactly the bytes after it, and on every strict prefix of the frame it
  reports \<open>Truncated\<close>.
\<close>

theorem pdu_round_trip:
  assumes "buf_laws B" and "wire_frame_ok f" and "fst (encode_pdu B f b) = Inr ()"
  shows "\<exists>w. snd (encode_pdu B f b) = b @ w
    \<and> (\<forall>rest. decode_pdu B (w ! FRAME_KIND_OFFSET) (w @ rest) = (Inr f, rest))
    \<and> (\<forall>x y. w = x @ y \<and> y \<noteq> [] \<longrightarrow> fst (decode_pdu B (w ! FRAME_KIND_OFFSET) x) = Inl (Wire Truncated))"
proof (intro exI conjI)
  have l: "2 + length (frame_body f) \<le> usize_u32_max"
    using encode_dispatch(2) [OF assms(1,2), of b] assms(3) by (metis Inl_Inr_False not_le)
  have k: "fmt_wire_frame f ! FRAME_KIND_OFFSET = frame_kind f" using kind_of_frame [of f "[]"] by simp
  show "snd (encode_pdu B f b) = b @ fmt_wire_frame f" using encode_dispatch(1) [OF assms(1,2) l] by simp
  show "\<forall>rest. decode_pdu B (fmt_wire_frame f ! FRAME_KIND_OFFSET) (fmt_wire_frame f @ rest) = (Inr f, rest)"
    using reads_dispatch [OF assms(1,2) l] by (simp add: k reads_def)
  show "\<forall>x y. fmt_wire_frame f = x @ y \<and> y \<noteq> [] \<longrightarrow>
      fst (decode_pdu B (fmt_wire_frame f ! FRAME_KIND_OFFSET) x) = Inl (Wire Truncated)"
    unfolding k using dispatch_cut [OF assms(1) l] by blast
qed

theorem pdu_round_trip_witness:
  "\<exists>w. snd (encode_pdu plain_bufs ack_frame []) = [] @ w
    \<and> (\<forall>rest. decode_pdu plain_bufs (w ! FRAME_KIND_OFFSET) (w @ rest) = (Inr ack_frame, rest))
    \<and> (\<forall>x y. w = x @ y \<and> y \<noteq> [] \<longrightarrow> fst (decode_pdu plain_bufs (w ! FRAME_KIND_OFFSET) x) = Inl (Wire Truncated))"
proof (rule pdu_round_trip [OF plain_bufs_laws])
  show ok: "wire_frame_ok ack_frame" by (rule sample_valid)
  have "sendable usize_u32_max ack_frame" by (rule sample_sendable) (simp add: usize_u32_max_def)
  then show "fst (encode_pdu plain_bufs ack_frame []) = Inr ()"
    using encode_dispatch(1) [OF plain_bufs_laws ok, of "[]"] by (simp add: sendable_def)
qed

text \<open>
  Whatever bytes a peer sends, a frame that decodes is well formed: its strings are valid
  UTF-8 within the 32-bit length, its payload fits, and an envelope carries a redelivery sequence
  number exactly when it has system priority. Encoding a decoded frame again therefore succeeds or
  is refused only for its size.
\<close>

theorem decoded_frames_well_formed:
  assumes "buf_laws B" and "fst (frame_decode B limit src) = Inr (Some f)"
  shows "wire_frame_ok f \<and> fst (encode_pdu B f b) \<in> {Inr (), Inl FrameTooLarge}"
proof (rule conjI)
  have "yields wire_frame_ok (decode_pdu B k)" for k
    unfolding decode_pdu_def
    by (intro yields_if yields_then [OF yields_envelope [OF assms(1)]] yields_then [OF yields_handshake [OF assms(1)]]
        yields_then [OF yields_control [OF assms(1)]] yields_then [OF yields_deployment [OF assms(1)]] yields_skip yields_ok yields_err)
      (simp_all add: wire_frame_ok_def)
  moreover obtain k v where "fst (decode_pdu B k v) = Inr f"
    using assms(2) by (auto simp: frame_decode_def Let_def split: if_splits sum.splits option.splits prod.splits)
  ultimately show ok: "wire_frame_ok f" by (auto simp: yields_def)
  show "fst (encode_pdu B f b) \<in> {Inr (), Inl FrameTooLarge}"
    using encode_dispatch [OF assms(1) ok, of b] by (cases "2 + length (frame_body f) \<le> usize_u32_max") simp_all
qed

theorem decoded_frames_well_formed_witness:
  "wire_frame_ok ack_frame \<and> fst (encode_pdu plain_bufs ack_frame []) \<in> {Inr (), Inl FrameTooLarge}"
proof -
  have "sendable 32768 ack_frame" by (rule sample_sendable) simp
  then have "frame_decode plain_bufs 32768 (fmt_wire_frame ack_frame @ []) = (Inr (Some ack_frame), [])"
    by (intro frame_decode_complete plain_bufs_laws) (simp_all add: usize_u32_max_def)
  then show ?thesis
    using decoded_frames_well_formed [OF plain_bufs_laws, where limit = 32768 and src = "fmt_wire_frame ack_frame @ []"] by simp
qed

text \<open>
  The stream encoder is all or nothing. A frame it refuses, for whatever reason, leaves
  the output buffer as it was, although the PDU encoders write before they fail. A well formed frame
  is appended whole when its declared length is within the limit and refused as \<open>FrameTooLarge\<close>
  otherwise.
\<close>

theorem frame_encode_all_or_nothing:
  assumes "buf_laws B" and "with_maximum_frame_size n = Some limit"
  shows "(fst (frame_encode B limit f dst) = Inl e \<longrightarrow> snd (frame_encode B limit f dst) = dst)
    \<and> (wire_frame_ok f \<longrightarrow> frame_encode B limit f dst =
      (if 2 + length (frame_body f) \<le> limit then (Inr (), dst @ fmt_wire_frame f) else (Inl FrameTooLarge, dst)))"
  using frame_encode_ok [OF assms(1) _ accepted_limit [OF assms(2)], of f dst]
  by (auto simp: frame_encode_def sendable_def split: prod.splits sum.splits if_splits)

theorem frame_encode_all_or_nothing_witness:
  "frame_encode plain_bufs 32768 ack_frame [] = (Inr (), [] @ fmt_wire_frame ack_frame)"
proof -
  have "sendable 32768 ack_frame" by (rule sample_sendable) simp
  then show ?thesis
    using frame_encode_all_or_nothing [OF plain_bufs_laws sample_limit, of ack_frame "[]"] by (simp add: sendable_def)
qed

end
