(* ===== verification/Tcp_Compression.thy ===== *)
theory Tcp_Compression
  imports Compression_Table Frame_Codec "HOL-Library.Sublist"
begin

text \<open>
  \<open>remote-adaptor-std/src/transport/tcp/compression.rs\<close> with \<open>RemoteCompressionConfig\<close> of
  \<open>remote-core/src/config\<close>: the four tables of a connection, what they do to the frames that leave
  and arrive, and the connection itself: the client of \<open>client.rs\<close> sends frames and advertisements,
  the read loop of \<open>server.rs\<close> answers advertisements, both channels deliver in order.
\<close>

section \<open>Configuration\<close>

record compression_config =
  cc_actor_ref_max :: "nat option"
  cc_actor_ref_interval :: nat
  cc_manifest_max :: "nat option"
  cc_manifest_interval :: nat

definition config_new :: compression_config where
  "config_new = \<lparr>cc_actor_ref_max = Some 256, cc_actor_ref_interval = 60, cc_manifest_max = Some 256, cc_manifest_interval = 60\<rparr>"

definition with_actor_ref_max :: "nat option \<Rightarrow> compression_config \<Rightarrow> compression_config" where
  "with_actor_ref_max m c = c\<lparr>cc_actor_ref_max := m\<rparr>"

definition with_manifest_max :: "nat option \<Rightarrow> compression_config \<Rightarrow> compression_config" where
  "with_manifest_max m c = c\<lparr>cc_manifest_max := m\<rparr>"

text \<open>A zero interval panics.\<close>

definition with_actor_ref_interval :: "nat \<Rightarrow> compression_config \<Rightarrow> compression_config option" where
  "with_actor_ref_interval d c = (if d = 0 then None else Some (c\<lparr>cc_actor_ref_interval := d\<rparr>))"

definition with_manifest_interval :: "nat \<Rightarrow> compression_config \<Rightarrow> compression_config option" where
  "with_manifest_interval d c = (if d = 0 then None else Some (c\<lparr>cc_manifest_interval := d\<rparr>))"

section \<open>The tables of a connection\<close>

record tcp_tables =
  outbound_actor_refs :: compression_table
  outbound_manifests :: compression_table
  inbound_actor_refs :: compression_table
  inbound_manifests :: compression_table

datatype inbound_action = Forward wire_frame | Reply control_pdu | Consumed

definition tcp_tables_new :: "compression_config \<Rightarrow> tcp_tables" where
  "tcp_tables_new c = \<lparr>outbound_actor_refs = table_new (cc_actor_ref_max c), outbound_manifests = table_new (cc_manifest_max c),
     inbound_actor_refs = table_new (cc_actor_ref_max c), inbound_manifests = table_new (cc_manifest_max c)\<rparr>"

definition outbound_table :: "table_kind \<Rightarrow> tcp_tables \<Rightarrow> compression_table" where
  "outbound_table k c = (case k of ActorRefTable \<Rightarrow> outbound_actor_refs c | ManifestTable \<Rightarrow> outbound_manifests c)"

definition inbound_table :: "table_kind \<Rightarrow> tcp_tables \<Rightarrow> compression_table" where
  "inbound_table k c = (case k of ActorRefTable \<Rightarrow> inbound_actor_refs c | ManifestTable \<Rightarrow> inbound_manifests c)"

definition set_outbound :: "table_kind \<Rightarrow> compression_table \<Rightarrow> tcp_tables \<Rightarrow> tcp_tables" where
  "set_outbound k t c = (case k of ActorRefTable \<Rightarrow> c\<lparr>outbound_actor_refs := t\<rparr> | ManifestTable \<Rightarrow> c\<lparr>outbound_manifests := t\<rparr>)"

definition set_inbound :: "table_kind \<Rightarrow> compression_table \<Rightarrow> tcp_tables \<Rightarrow> tcp_tables" where
  "set_inbound k t c = (case k of ActorRefTable \<Rightarrow> c\<lparr>inbound_actor_refs := t\<rparr> | ManifestTable \<Rightarrow> c\<lparr>inbound_manifests := t\<rparr>)"

definition observe_and_encode :: "compressed_text \<Rightarrow> compression_table \<Rightarrow> compressed_text \<times> compression_table" where
  "observe_and_encode metadata t =
     (case as_literal metadata of
        None \<Rightarrow> (metadata, t)
      | Some literal \<Rightarrow> let t' = observe literal t in (table_encode literal t', t'))"

definition observe_option :: "compressed_text option \<Rightarrow> compression_table \<Rightarrow> compressed_text option \<times> compression_table" where
  "observe_option m t = (case m of None \<Rightarrow> (None, t) | Some c \<Rightarrow> let (c', t') = observe_and_encode c t in (Some c', t'))"

definition apply_outbound_envelope :: "envelope_pdu \<Rightarrow> tcp_tables \<Rightarrow> envelope_pdu \<times> tcp_tables" where
  "apply_outbound_envelope p c =
     (let (recipient, a1) = observe_and_encode (ep_recipient_path p) (outbound_actor_refs c);
          (sender, a2) = observe_option (ep_sender_path p) a1;
          (manifest, m1) = observe_option (ep_manifest p) (outbound_manifests c)
      in (with_redelivery_sequence (ep_redelivery_sequence p)
            (envelope_new_with_metadata recipient sender (ep_correlation_hi p) (ep_correlation_lo p) (ep_priority p)
              (payload_new (ep_serializer_id p) None (ep_payload p)) manifest),
          c\<lparr>outbound_actor_refs := a2, outbound_manifests := m1\<rparr>))"

definition apply_outbound_frame :: "wire_frame \<Rightarrow> tcp_tables \<Rightarrow> wire_frame \<times> tcp_tables" where
  "apply_outbound_frame f c =
     (case f of
        EnvelopeFrame p \<Rightarrow> let (p', c') = apply_outbound_envelope p c in (EnvelopeFrame p', c')
      | _ \<Rightarrow> (f, c))"

definition resolve_text :: "compressed_text \<Rightarrow> compression_table \<Rightarrow> wire_error + string" where
  "resolve_text c t =
     (case c of
        Literal s \<Rightarrow> Inr s
      | TableRef i \<Rightarrow> (case table_resolve i t of None \<Rightarrow> Inl InvalidFormat | Some s \<Rightarrow> Inr s))"

definition resolve_option :: "compressed_text option \<Rightarrow> compression_table \<Rightarrow> wire_error + string option" where
  "resolve_option m t =
     (case m of
        None \<Rightarrow> Inr None
      | Some c \<Rightarrow> (case resolve_text c t of Inl e \<Rightarrow> Inl e | Inr s \<Rightarrow> Inr (Some s)))"

definition resolve_inbound_envelope :: "envelope_pdu \<Rightarrow> tcp_tables \<Rightarrow> wire_error + envelope_pdu" where
  "resolve_inbound_envelope p c =
     (case resolve_text (ep_recipient_path p) (inbound_actor_refs c) of
        Inl e \<Rightarrow> Inl e
      | Inr recipient \<Rightarrow>
          (case resolve_option (ep_sender_path p) (inbound_actor_refs c) of
             Inl e \<Rightarrow> Inl e
           | Inr sender \<Rightarrow>
               (case resolve_option (ep_manifest p) (inbound_manifests c) of
                  Inl e \<Rightarrow> Inl e
                | Inr manifest \<Rightarrow>
                    Inr (with_redelivery_sequence (ep_redelivery_sequence p)
                      (envelope_new_with_metadata (Literal recipient) (map_option Literal sender) (ep_correlation_hi p)
                        (ep_correlation_lo p) (ep_priority p) (payload_new (ep_serializer_id p) None (ep_payload p))
                        (map_option Literal manifest))))))"

definition handle_inbound_frame :: "string \<Rightarrow> wire_frame \<Rightarrow> tcp_tables \<Rightarrow> (wire_error + inbound_action) \<times> tcp_tables" where
  "handle_inbound_frame local_authority f c =
     (case f of
        EnvelopeFrame p \<Rightarrow>
          ((case resolve_inbound_envelope p c of Inl e \<Rightarrow> Inl e | Inr p' \<Rightarrow> Inr (Forward (EnvelopeFrame p'))), c)
      | ControlFrame (CompressionAdvertisement _ k gen es) \<Rightarrow>
          (case apply_advertisement gen es (inbound_table k c) of
             (Inl e, t) \<Rightarrow> (Inl e, set_inbound k t c)
           | (Inr _, t) \<Rightarrow> (Inr (Reply (CompressionAck local_authority k gen)), set_inbound k t c))
      | ControlFrame (CompressionAck _ k gen) \<Rightarrow>
          (Inr Consumed, set_outbound k (snd (acknowledge gen (outbound_table k c))) c)
      | _ \<Rightarrow> (Inr (Forward f), c))"

definition advertise :: "table_kind \<Rightarrow> string \<Rightarrow> tcp_tables \<Rightarrow> wire_frame option \<times> tcp_tables" where
  "advertise k local_authority c =
     (case create_advertisement k (outbound_table k c) of
        (None, t) \<Rightarrow> (None, set_outbound k t c)
      | (Some ad, t) \<Rightarrow>
          (Some (ControlFrame (CompressionAdvertisement local_authority (ad_table_kind ad) (ad_generation ad) (ad_entries ad))),
           set_outbound k t c))"

section \<open>The connection\<close>

text \<open>
  Each end frames its side of the socket with a codec of its own frame size limit. \<open>framed_send\<close> is
  the error with which the encoder refuses a frame, if it does. A frame that was encoded is decoded to
  itself unless it exceeds the limit of the receiver, which \<open>framed_next\<close> reports; the lemma
  \<open>framed_next_decodes\<close> shows that this is what the decoder does with the encoded bytes. The socket
  may fail, and the receiver of the forwarded frames may be dropped, at any time. A run follows the connection until the first of its ends stops.
\<close>

record tcp_side =
  side_authority :: string
  side_limit :: nat

definition framed_send :: "buf_ops \<Rightarrow> nat \<Rightarrow> wire_frame \<Rightarrow> wire_error option" where
  "framed_send B limit f = (case fst (frame_encode B limit f []) of Inl e \<Rightarrow> Some e | Inr _ \<Rightarrow> None)"

definition framed_next :: "buf_ops \<Rightarrow> nat \<Rightarrow> wire_frame \<Rightarrow> wire_error option" where
  "framed_next B limit f = (if framed_send B limit f = Some FrameTooLarge then Some FrameTooLarge else None)"

lemma framed_next_decodes:
  assumes B: "buf_laws B" and f: "wire_frame_ok f" and n: "n \<le> usize_u32_max" and m: "m \<le> usize_u32_max" and s: "framed_send B n f = None"
  shows "fst (frame_decode B m (snd (frame_encode B n f []))) =
    (case framed_next B m f of None \<Rightarrow> Inr (Some f) | Some e \<Rightarrow> Inl (Wire e))"
proof -
  have e: "framed_send B k f = (if sendable k f then None else Some FrameTooLarge)" if "k \<le> usize_u32_max" for k
    using frame_encode_ok [OF B f that, of "[]"] by (simp add: framed_send_def)
  have enc: "frame_encode B n f [] = (Inr (), fmt_wire_frame f)" "sendable n f"
    using frame_encode_ok [OF B f n, of "[]"] e [OF n] s by (auto split: if_splits)
  show ?thesis
  proof (cases "sendable m f")
    case True
    with frame_decode_complete [OF B True m, of "[]"] enc e [OF m] show ?thesis by (simp add: framed_next_def)
  next
    case False
    have "2 + length (frame_body f) \<le> usize_u32_max" using enc(2) n by (simp add: sendable_def)
    with declared_fmt [OF this, of "[]"] False f enc e [OF m] show ?thesis
      by (simp add: framed_next_def frame_decode_def sendable_def fmt_wire_frame_def MIN_FRAME_LENGTH_def FRAME_HEADER_LEN_def)
  qed
qed

datatype link_stop = CompressionRefused wire_error | SendRefused wire_error | DecodeRefused wire_error | SocketFailed

record link =
  lk_client :: tcp_tables
  lk_server :: tcp_tables
  lk_up :: "wire_frame list"
  lk_down :: "wire_frame list"
  lk_sent :: "wire_frame list"
  lk_received :: "wire_frame list"
  lk_returned :: "wire_frame list"
  lk_stop :: "link_stop option"

datatype link_action = Send wire_frame | Tick table_kind | ServerReceive | ClientReceive | Disconnect

definition link_new :: "compression_config \<Rightarrow> compression_config \<Rightarrow> link" where
  "link_new cc sc = \<lparr>lk_client = tcp_tables_new cc, lk_server = tcp_tables_new sc, lk_up = [], lk_down = [],
     lk_sent = [], lk_received = [], lk_returned = [], lk_stop = None\<rparr>"

definition send_outbound_tcp_frame :: "buf_ops \<Rightarrow> tcp_side \<Rightarrow> wire_frame \<Rightarrow> link \<Rightarrow> link" where
  "send_outbound_tcp_frame B side f l =
     (let (f', c) = apply_outbound_frame f (lk_client l) in
      case framed_send B (side_limit side) f' of
        Some e \<Rightarrow> l\<lparr>lk_client := c, lk_stop := Some (SendRefused e)\<rparr>
      | None \<Rightarrow> l\<lparr>lk_client := c, lk_up := lk_up l @ [f'], lk_sent := lk_sent l @ [f]\<rparr>)"

definition send_tcp_compression_advertisement :: "buf_ops \<Rightarrow> tcp_side \<Rightarrow> table_kind \<Rightarrow> link \<Rightarrow> link" where
  "send_tcp_compression_advertisement B side k l =
     (case advertise k (side_authority side) (lk_client l) of
        (None, c) \<Rightarrow> l\<lparr>lk_client := c\<rparr>
      | (Some f, c) \<Rightarrow>
          (case framed_send B (side_limit side) f of
             Some e \<Rightarrow> l\<lparr>lk_client := c, lk_stop := Some (SendRefused e)\<rparr>
           | None \<Rightarrow> l\<lparr>lk_client := c, lk_up := lk_up l @ [f]\<rparr>))"

definition server_receive :: "buf_ops \<Rightarrow> tcp_side \<Rightarrow> link \<Rightarrow> link" where
  "server_receive B side l =
     (case lk_up l of
        [] \<Rightarrow> l
      | f # fs \<Rightarrow>
          (case framed_next B (side_limit side) f of
             Some e \<Rightarrow> l\<lparr>lk_up := fs, lk_stop := Some (DecodeRefused e)\<rparr>
           | None \<Rightarrow>
               (case handle_inbound_frame (side_authority side) f (lk_server l) of
                  (Inl e, s) \<Rightarrow> l\<lparr>lk_server := s, lk_up := fs, lk_stop := Some (CompressionRefused e)\<rparr>
                | (Inr (Forward g), s) \<Rightarrow> l\<lparr>lk_server := s, lk_up := fs, lk_received := lk_received l @ [g]\<rparr>
                | (Inr (Reply pdu), s) \<Rightarrow>
                    (case framed_send B (side_limit side) (ControlFrame pdu) of
                       Some e \<Rightarrow> l\<lparr>lk_server := s, lk_up := fs, lk_stop := Some (SendRefused e)\<rparr>
                     | None \<Rightarrow> l\<lparr>lk_server := s, lk_up := fs, lk_down := lk_down l @ [ControlFrame pdu]\<rparr>)
                | (Inr Consumed, s) \<Rightarrow> l\<lparr>lk_server := s, lk_up := fs\<rparr>)))"

definition handle_inbound_tcp_frame :: "buf_ops \<Rightarrow> tcp_side \<Rightarrow> link \<Rightarrow> link" where
  "handle_inbound_tcp_frame B side l =
     (case lk_down l of
        [] \<Rightarrow> l
      | f # fs \<Rightarrow>
          (case framed_next B (side_limit side) f of
             Some e \<Rightarrow> l\<lparr>lk_down := fs, lk_stop := Some (DecodeRefused e)\<rparr>
           | None \<Rightarrow>
               (case handle_inbound_frame (side_authority side) f (lk_client l) of
                  (Inl e, c) \<Rightarrow> l\<lparr>lk_client := c, lk_down := fs, lk_stop := Some (CompressionRefused e)\<rparr>
                | (Inr (Forward g), c) \<Rightarrow> l\<lparr>lk_client := c, lk_down := fs, lk_returned := lk_returned l @ [g]\<rparr>
                | (Inr (Reply pdu), c) \<Rightarrow>
                    (case framed_send B (side_limit side) (ControlFrame pdu) of
                       Some e \<Rightarrow> l\<lparr>lk_client := c, lk_down := fs, lk_stop := Some (SendRefused e)\<rparr>
                     | None \<Rightarrow> l\<lparr>lk_client := c, lk_down := fs, lk_up := lk_up l @ [ControlFrame pdu]\<rparr>)
                | (Inr Consumed, c) \<Rightarrow> l\<lparr>lk_client := c, lk_down := fs\<rparr>)))"

definition link_step :: "buf_ops \<Rightarrow> tcp_side \<Rightarrow> tcp_side \<Rightarrow> link_action \<Rightarrow> link \<Rightarrow> link" where
  "link_step B client server a l =
     (if lk_stop l \<noteq> None then l
      else case a of
        Send f \<Rightarrow> send_outbound_tcp_frame B client f l
      | Tick k \<Rightarrow> send_tcp_compression_advertisement B client k l
      | ServerReceive \<Rightarrow> server_receive B server l
      | ClientReceive \<Rightarrow> handle_inbound_tcp_frame B client l
      | Disconnect \<Rightarrow> l\<lparr>lk_stop := Some SocketFailed\<rparr>)"

definition link_run :: "buf_ops \<Rightarrow> tcp_side \<Rightarrow> tcp_side \<Rightarrow> link_action list \<Rightarrow> link \<Rightarrow> link" where
  "link_run B client server acts l = fold (link_step B client server) acts l"

section \<open>One kind of table\<close>

text \<open>
  The invariant of one kind, between the outbound table \<open>t\<close> of the client, the inbound table \<open>r\<close> of the
  server, the advertisements \<open>A\<close> on their way to the server and the acknowledgements \<open>K\<close> on their way
  back. \<open>settled\<close> are the numbered literals that resolve now and after every advertisement in flight.
\<close>

type_synonym advertisements = "(u64 \<times> table_entry list) list"

definition settled :: "compression_table \<Rightarrow> compression_table \<Rightarrow> advertisements \<Rightarrow> (wire_u32 \<times> string) set" where
  "settled t r A = {p \<in> pairs_of t. p \<in> pairs_of r \<and> (\<forall>a\<in>set A. p \<in> entry_pairs (snd a))}"

definition max_compatible :: "nat option \<Rightarrow> nat option \<Rightarrow> bool" where
  "max_compatible c s \<longleftrightarrow>
     (case c of None \<Rightarrow> True | Some m \<Rightarrow> m < 2 ^ 32 \<and> (case s of None \<Rightarrow> False | Some n \<Rightarrow> m \<le> n))"

definition in_flight_ok :: "u64 \<Rightarrow> compression_table \<Rightarrow> compression_table \<Rightarrow> advertisements \<Rightarrow> u64 list \<Rightarrow> bool" where
  "in_flight_ok g t r A K \<longleftrightarrow>
     list_ex (\<lambda>e. es_advertised_generation e = Some g) (ct_entries t)
     \<and> ((\<exists>es. A = [(g, es)] \<and> K = [] \<and> offered_pairs t \<subseteq> entry_pairs es \<and> \<not> has_duplicate_entry_id es
            \<and> (\<exists>m. ct_max t = Some m \<and> length es \<le> m))
        \<or> (A = [] \<and> K = [g] \<and> offered_pairs t \<subseteq> pairs_of r))"

definition kind_inv :: "compression_table \<Rightarrow> compression_table \<Rightarrow> advertisements \<Rightarrow> u64 list \<Rightarrow> bool" where
  "kind_inv t r A K \<longleftrightarrow>
     outbound_ok t \<and> inbound_ok r \<and> max_compatible (ct_max t) (ct_max r) \<and> acked_pairs t \<subseteq> settled t r A
     \<and> (case ct_latest_pending_generation t of None \<Rightarrow> A = [] \<and> K = [] | Some g \<Rightarrow> in_flight_ok g t r A K)"

lemma kind_inv_new: "max_compatible c s \<Longrightarrow> kind_inv (table_new c) (table_new s) [] []"
  using table_new_ok [of c] table_new_ok(2) [of s]
  by (auto simp: kind_inv_def max_compatible_def) (auto simp: table_new_def split: option.splits)

lemma offered_in_pairs: "offered_pairs t \<subseteq> pairs_of t"
  by (auto simp: offered_pairs_def pairs_of_def)

lemma kind_inv_observe:
  assumes "kind_inv t r A K"
  shows "kind_inv (observe literal t) r A K" and "settled t r A \<subseteq> settled (observe literal t) r A"
proof -
  show s: "settled t r A \<subseteq> settled (observe literal t) r A" using observe_grows by (auto simp: settled_def)
  show "kind_inv (observe literal t) r A K"
    using assms s observe_ok [of t literal] observe_advertised [of _ t literal]
    by (auto simp: kind_inv_def in_flight_ok_def split: option.splits)
qed

lemma kind_inv_advertise:
  assumes k: "kind_inv t r A K" and c: "create_advertisement kind t = (Some ad, t')"
  shows "kind_inv t' r (A @ [(ad_generation ad, ad_entries ad)]) K"
    and "settled t r A \<subseteq> settled t' r (A @ [(ad_generation ad, ad_entries ad)])"
proof -
  have t: "outbound_ok t" using k by (simp add: kind_inv_def)
  note ad = create_advertisement_spec [OF t c]
  have e: "A = []" "K = []" using k ad(7) by (simp_all add: kind_inv_def)
  show s: "settled t r A \<subseteq> settled t' r (A @ [(ad_generation ad, ad_entries ad)])" using ad by (auto simp: settled_def)
  show "kind_inv t' r (A @ [(ad_generation ad, ad_entries ad)]) K"
    using k s ad e by (auto simp: kind_inv_def in_flight_ok_def)
qed

lemma kind_inv_apply:
  assumes k: "kind_inv t r ((g, es) # A) K"
  shows "fst (apply_advertisement g es r) = Inr ()" and "kind_inv t (snd (apply_advertisement g es r)) A (K @ [g])"
    and "settled t r ((g, es) # A) \<subseteq> settled t (snd (apply_advertisement g es r)) A"
proof -
  obtain m where pending: "ct_latest_pending_generation t = Some g" and e: "A = []" "K = []" and es: "offered_pairs t \<subseteq> entry_pairs es"
    "\<not> has_duplicate_entry_id es" "ct_max t = Some m" "length es \<le> m"
    using k by (auto simp: kind_inv_def in_flight_ok_def split: option.splits)
  obtain n where n: "ct_max r = Some n" "m \<le> n" using k es(3) by (auto simp: kind_inv_def max_compatible_def split: option.splits)
  have l: "length es \<le> n" using es(4) n(2) by simp
  note r = apply_advertisement_spec [OF n(1) l es(2), of g]
  show "fst (apply_advertisement g es r) = Inr ()" by (rule r)
  show s: "settled t r ((g, es) # A) \<subseteq> settled t (snd (apply_advertisement g es r)) A" using r by (auto simp: settled_def)
  show "kind_inv t (snd (apply_advertisement g es r)) A (K @ [g])"
    using k s r es e pending n by (auto simp: kind_inv_def in_flight_ok_def)
qed

lemma kind_inv_ack:
  assumes k: "kind_inv t r A (g # K)"
  shows "kind_inv (snd (acknowledge g t)) r A K" and "settled t r A \<subseteq> settled (snd (acknowledge g t)) r A"
proof -
  have t: "outbound_ok t" using k by (simp add: kind_inv_def)
  have pending: "ct_latest_pending_generation t = Some g" and e: "A = []" "K = []" and o: "offered_pairs t \<subseteq> pairs_of r"
    and x: "list_ex (\<lambda>e. es_advertised_generation e = Some g) (ct_entries t)"
    using k by (auto simp: kind_inv_def in_flight_ok_def split: option.splits)
  note a = acknowledge_spec [OF t, of g]
  show s: "settled t r A \<subseteq> settled (snd (acknowledge g t)) r A" using a(2) by (auto simp: settled_def)
  have "acked_pairs (snd (acknowledge g t)) \<subseteq> settled (snd (acknowledge g t)) r A"
    using a(2) a(5) [OF pending] o offered_in_pairs [of t] e by (auto simp: settled_def)
  then show "kind_inv (snd (acknowledge g t)) r A K"
    using k a(1,4) a(6) [OF pending x] e by (simp add: kind_inv_def)
qed

text \<open>A settled number resolves at the server, and the client uses no other.\<close>

lemma resolve_settled:
  assumes k: "kind_inv t r A K" and p: "(i, literal) \<in> settled t r A"
  shows "table_resolve i r = Some literal"
proof -
  have "ct_entries t \<noteq> []" using p by (auto simp: settled_def pairs_of_def)
  then have "is_enabled r" using k by (auto simp: kind_inv_def outbound_ok_def max_compatible_def is_enabled_def split: option.splits)
  then show ?thesis using k p by (intro resolve_pair) (auto simp: kind_inv_def settled_def)
qed

section \<open>Frames in flight\<close>

definition text_rel :: "(wire_u32 \<times> string) set \<Rightarrow> compressed_text \<Rightarrow> compressed_text \<Rightarrow> bool" where
  "text_rel G c c0 \<longleftrightarrow> (\<exists>s. c0 = Literal s \<and> (c = Literal s \<or> (\<exists>i. c = TableRef i \<and> (i, s) \<in> G)))"

definition frame_rel :: "(table_kind \<Rightarrow> (wire_u32 \<times> string) set) \<Rightarrow> wire_frame \<Rightarrow> wire_frame \<Rightarrow> bool" where
  "frame_rel G f f0 \<longleftrightarrow>
     (case f0 of
        EnvelopeFrame q \<Rightarrow>
          \<exists>recipient sender manifest. f = EnvelopeFrame (q\<lparr>ep_recipient_path := recipient, ep_sender_path := sender, ep_manifest := manifest\<rparr>)
            \<and> text_rel (G ActorRefTable) recipient (ep_recipient_path q)
            \<and> rel_option (text_rel (G ActorRefTable)) sender (ep_sender_path q)
            \<and> rel_option (text_rel (G ManifestTable)) manifest (ep_manifest q)
      | ControlFrame (CompressionAdvertisement _ _ _ _) \<Rightarrow> False
      | ControlFrame (CompressionAck _ _ _) \<Rightarrow> False
      | _ \<Rightarrow> f = f0)"

text \<open>What the remoting core hands to the client: resolved envelopes, and no compression control.\<close>

definition plain_text :: "compressed_text \<Rightarrow> bool" where
  "plain_text c \<longleftrightarrow> as_literal c \<noteq> None"

definition plain_frame :: "wire_frame \<Rightarrow> bool" where
  "plain_frame f \<longleftrightarrow>
     (case f of
        EnvelopeFrame p \<Rightarrow> plain_text (ep_recipient_path p) \<and> pred_option plain_text (ep_sender_path p) \<and> pred_option plain_text (ep_manifest p)
      | ControlFrame (CompressionAdvertisement _ _ _ _) \<Rightarrow> False
      | ControlFrame (CompressionAck _ _ _) \<Rightarrow> False
      | _ \<Rightarrow> True)"

lemma text_rel_mono: "text_rel G c c0 \<Longrightarrow> G \<subseteq> H \<Longrightarrow> text_rel H c c0"
  by (auto simp: text_rel_def)

lemma frame_rel_mono:
  assumes "frame_rel G f f0" and "\<And>k. G k \<subseteq> H k"
  shows "frame_rel H f f0"
proof (cases f0)
  case (EnvelopeFrame q)
  then obtain recipient sender manifest
    where f: "f = EnvelopeFrame (q\<lparr>ep_recipient_path := recipient, ep_sender_path := sender, ep_manifest := manifest\<rparr>)"
      and r: "text_rel (G ActorRefTable) recipient (ep_recipient_path q)"
        "rel_option (text_rel (G ActorRefTable)) sender (ep_sender_path q)"
        "rel_option (text_rel (G ManifestTable)) manifest (ep_manifest q)"
    using assms(1) by (auto simp: frame_rel_def)
  have m: "rel_option (text_rel (G k)) x y \<Longrightarrow> rel_option (text_rel (H k)) x y" for k x y
    using option.rel_mono_strong [of "text_rel (G k)" x y "text_rel (H k)"] text_rel_mono assms(2) by blast
  show ?thesis unfolding frame_rel_def EnvelopeFrame using f m [OF r(2)] m [OF r(3)] text_rel_mono [OF r(1) assms(2)] by auto
qed (use assms(1) in \<open>simp_all add: frame_rel_def split: control_pdu.splits\<close>)

lemma observe_and_encode_rel:
  assumes k: "kind_inv t r A K" and c: "plain_text c" and e: "observe_and_encode c t = (c', t')"
  shows "kind_inv t' r A K" "settled t r A \<subseteq> settled t' r A" "text_rel (settled t' r A) c' c"
proof -
  obtain s where s: "c = Literal s" using c by (cases c) (simp_all add: plain_text_def as_literal_def)
  then have t': "t' = observe s t" and c': "c' = table_encode s t'" using e by (auto simp: observe_and_encode_def as_literal_def Let_def)
  show k': "kind_inv t' r A K" "settled t r A \<subseteq> settled t' r A" using kind_inv_observe [OF k] t' by simp_all
  show "text_rel (settled t' r A) c' c"
    using table_encode_cases [of s t'] k'(1) unfolding c' s
    by (auto simp: text_rel_def kind_inv_def)
qed

lemma observe_option_rel:
  assumes k: "kind_inv t r A K" and c: "pred_option plain_text c" and e: "observe_option c t = (c', t')"
  shows "kind_inv t' r A K" "settled t r A \<subseteq> settled t' r A" "rel_option (text_rel (settled t' r A)) c' c"
proof -
  have "kind_inv t' r A K \<and> settled t r A \<subseteq> settled t' r A \<and> rel_option (text_rel (settled t' r A)) c' c"
  proof (cases c)
    case None
    with e k show ?thesis by (simp add: observe_option_def)
  next
    case (Some x)
    then obtain x' where "observe_and_encode x t = (x', t')" "c' = Some x'" using e by (auto simp: observe_option_def split: prod.splits)
    with observe_and_encode_rel [OF k] c Some show ?thesis by (simp add: Some)
  qed
  then show "kind_inv t' r A K" "settled t r A \<subseteq> settled t' r A" "rel_option (text_rel (settled t' r A)) c' c" by simp_all
qed

lemma resolve_text_rel:
  assumes "kind_inv t r A K" and "text_rel (settled t r A) c c0"
  obtains s where "c0 = Literal s" and "resolve_text c r = Inr s"
  using assms resolve_settled [OF assms(1)] by (auto simp: text_rel_def resolve_text_def)

lemma resolve_option_rel:
  assumes "kind_inv t r A K" and "rel_option (text_rel (settled t r A)) c c0"
  obtains s where "c0 = map_option Literal s" and "resolve_option c r = Inr s"
proof (cases c0)
  case None
  with assms(2) show ?thesis by (intro that [of None]) (simp_all add: resolve_option_def)
next
  case (Some x0)
  then obtain x where "c = Some x" "text_rel (settled t r A) x x0" using assms(2) by (auto simp: option_rel_Some2)
  with Some resolve_text_rel [OF assms(1)] show ?thesis by (metis (no_types, lifting) option.simps(5,9) resolve_option_def sum.simps(6) that)
qed

lemma table_access [simp]:
  "outbound_table k (set_outbound j t c) = (if k = j then t else outbound_table k c)"
  "inbound_table k (set_outbound j t c) = inbound_table k c"
  "inbound_table k (set_inbound j t c) = (if k = j then t else inbound_table k c)"
  "outbound_table k (set_inbound j t c) = outbound_table k c"
  by (cases k; cases j; simp add: outbound_table_def inbound_table_def set_outbound_def set_inbound_def)+

lemma apply_outbound_frame_rel:
  assumes inv: "\<And>k. kind_inv (outbound_table k c) (R k) (A k) (K k)" and f: "plain_frame f" and e: "apply_outbound_frame f c = (f', c')"
  shows "kind_inv (outbound_table k c') (R k) (A k) (K k)"
    and "settled (outbound_table k c) (R k) (A k) \<subseteq> settled (outbound_table k c') (R k) (A k)"
    and "frame_rel (\<lambda>k. settled (outbound_table k c') (R k) (A k)) f' f"
proof -
  have "(\<forall>k. kind_inv (outbound_table k c') (R k) (A k) (K k) \<and> settled (outbound_table k c) (R k) (A k) \<subseteq> settled (outbound_table k c') (R k) (A k))
      \<and> frame_rel (\<lambda>k. settled (outbound_table k c') (R k) (A k)) f' f"
  proof (cases f)
    case (EnvelopeFrame p)
    obtain recipient a1 sender a2 manifest m1
      where o: "observe_and_encode (ep_recipient_path p) (outbound_actor_refs c) = (recipient, a1)"
        "observe_option (ep_sender_path p) a1 = (sender, a2)" "observe_option (ep_manifest p) (outbound_manifests c) = (manifest, m1)"
      by (metis surj_pair)
    let ?p = "p\<lparr>ep_recipient_path := recipient, ep_sender_path := sender, ep_manifest := manifest\<rparr>"
    have r: "f' = EnvelopeFrame ?p" "c' = c\<lparr>outbound_actor_refs := a2, outbound_manifests := m1\<rparr>"
      using e EnvelopeFrame o by (auto simp: apply_outbound_frame_def apply_outbound_envelope_def with_redelivery_sequence_def
          envelope_new_with_metadata_def payload_new_def option.case_eq_if)
    have pl: "plain_text (ep_recipient_path p)" "pred_option plain_text (ep_sender_path p)" "pred_option plain_text (ep_manifest p)"
      using f EnvelopeFrame by (simp_all add: plain_frame_def)
    note i1 = observe_and_encode_rel [OF inv [of ActorRefTable, unfolded outbound_table_def, simplified] pl(1) o(1)]
    note i2 = observe_option_rel [OF i1(1) pl(2) o(2)]
    note i3 = observe_option_rel [OF inv [of ManifestTable, unfolded outbound_table_def, simplified] pl(3) o(3)]
    have "frame_rel (\<lambda>k. settled (outbound_table k c') (R k) (A k)) f' f"
      using i2 i3 text_rel_mono [OF i1(3) i2(2)] unfolding frame_rel_def EnvelopeFrame r by (auto simp: outbound_table_def)
    moreover have "kind_inv (outbound_table k c') (R k) (A k) (K k) \<and> settled (outbound_table k c) (R k) (A k) \<subseteq> settled (outbound_table k c') (R k) (A k)" for k
      using i1 i2 i3 by (cases k) (auto simp: outbound_table_def r)
    ultimately show ?thesis by blast
  qed (use assms in \<open>auto simp: apply_outbound_frame_def frame_rel_def plain_frame_def split: control_pdu.splits\<close>)
  then show "kind_inv (outbound_table k c') (R k) (A k) (K k)"
    and "settled (outbound_table k c) (R k) (A k) \<subseteq> settled (outbound_table k c') (R k) (A k)"
    and "frame_rel (\<lambda>k. settled (outbound_table k c') (R k) (A k)) f' f" by blast+
qed

text \<open>The server restores a frame in flight.\<close>

lemma handle_inbound_restores:
  assumes inv: "\<And>k. kind_inv (T k) (inbound_table k c) (A k) (K k)" and f: "frame_rel (\<lambda>k. settled (T k) (inbound_table k c) (A k)) f f0"
  shows "handle_inbound_frame authority f c = (Inr (Forward f0), c)"
proof (cases f0)
  case (EnvelopeFrame q)
  obtain recipient sender manifest
    where fe: "f = EnvelopeFrame (q\<lparr>ep_recipient_path := recipient, ep_sender_path := sender, ep_manifest := manifest\<rparr>)"
      and r: "text_rel (settled (T ActorRefTable) (inbound_table ActorRefTable c) (A ActorRefTable)) recipient (ep_recipient_path q)"
        "rel_option (text_rel (settled (T ActorRefTable) (inbound_table ActorRefTable c) (A ActorRefTable))) sender (ep_sender_path q)"
        "rel_option (text_rel (settled (T ManifestTable) (inbound_table ManifestTable c) (A ManifestTable))) manifest (ep_manifest q)"
    using f EnvelopeFrame by (auto simp: frame_rel_def)
  obtain s1 where s1: "ep_recipient_path q = Literal s1" "resolve_text recipient (inbound_table ActorRefTable c) = Inr s1"
    by (rule resolve_text_rel [OF inv r(1)])
  obtain s2 where s2: "ep_sender_path q = map_option Literal s2" "resolve_option sender (inbound_table ActorRefTable c) = Inr s2"
    by (rule resolve_option_rel [OF inv r(2)])
  obtain s3 where s3: "ep_manifest q = map_option Literal s3" "resolve_option manifest (inbound_table ManifestTable c) = Inr s3"
    by (rule resolve_option_rel [OF inv r(3)])
  have "with_redelivery_sequence (ep_redelivery_sequence q) (envelope_new_with_metadata (Literal s1) (map_option Literal s2)
      (ep_correlation_hi q) (ep_correlation_lo q) (ep_priority q) (payload_new (ep_serializer_id q) None (ep_payload q))
      (map_option Literal s3)) = q"
    unfolding s1(1) [symmetric] s2(1) [symmetric] s3(1) [symmetric] by (rule envelope_fields)
  with s1(2) s2(2) s3(2) show ?thesis
    by (simp add: EnvelopeFrame fe handle_inbound_frame_def resolve_inbound_envelope_def inbound_table_def)
next
  case (ControlFrame p)
  with f show ?thesis by (cases p) (auto simp: frame_rel_def handle_inbound_frame_def)
qed (use f in \<open>simp_all add: frame_rel_def handle_inbound_frame_def\<close>)

section \<open>The connection is transparent\<close>

fun ads :: "table_kind \<Rightarrow> wire_frame list \<Rightarrow> advertisements" where
  "ads k [] = []"
| "ads k (f # fs) =
     (case f of ControlFrame (CompressionAdvertisement _ k' gen es) \<Rightarrow> if k' = k then (gen, es) # ads k fs else ads k fs | _ \<Rightarrow> ads k fs)"

fun acks :: "table_kind \<Rightarrow> wire_frame list \<Rightarrow> u64 list" where
  "acks k [] = []"
| "acks k (f # fs) = (case f of ControlFrame (CompressionAck _ k' gen) \<Rightarrow> if k' = k then gen # acks k fs else acks k fs | _ \<Rightarrow> acks k fs)"

definition is_ad :: "wire_frame \<Rightarrow> bool" where
  "is_ad f \<longleftrightarrow> (case f of ControlFrame (CompressionAdvertisement _ _ _ _) \<Rightarrow> True | _ \<Rightarrow> False)"

definition is_ack :: "wire_frame \<Rightarrow> bool" where
  "is_ack f \<longleftrightarrow> (case f of ControlFrame (CompressionAck _ _ _) \<Rightarrow> True | _ \<Rightarrow> False)"

lemma ads_append [simp]: "ads k (fs @ gs) = ads k fs @ ads k gs"
  by (induction fs) (auto split: wire_frame.split control_pdu.split)

lemma acks_append [simp]: "acks k (fs @ gs) = acks k fs @ acks k gs"
  by (induction fs) (auto split: wire_frame.split control_pdu.split)

lemma ads_other: "\<not> is_ad f \<Longrightarrow> ads k (f # fs) = ads k fs"
  by (auto simp: is_ad_def split: wire_frame.splits control_pdu.splits)

lemma frame_rel_not_ad: "frame_rel G f f0 \<Longrightarrow> \<not> is_ad f"
  by (auto simp: frame_rel_def is_ad_def split: wire_frame.splits control_pdu.splits)

definition link_kind :: "table_kind \<Rightarrow> link \<Rightarrow> bool" where
  "link_kind k l \<longleftrightarrow> kind_inv (outbound_table k (lk_client l)) (inbound_table k (lk_server l)) (ads k (lk_up l)) (acks k (lk_down l))"

definition link_settled :: "link \<Rightarrow> table_kind \<Rightarrow> (wire_u32 \<times> string) set" where
  "link_settled l k = settled (outbound_table k (lk_client l)) (inbound_table k (lk_server l)) (ads k (lk_up l))"

definition carries :: "(table_kind \<Rightarrow> (wire_u32 \<times> string) set) \<Rightarrow> wire_frame list \<Rightarrow> wire_frame list \<Rightarrow> bool" where
  "carries G up rest \<longleftrightarrow> list_all2 (frame_rel G) (filter (\<lambda>f. \<not> is_ad f) up) rest"

definition link_inv :: "link \<Rightarrow> bool" where
  "link_inv l \<longleftrightarrow> lk_stop l = None \<and> (\<forall>k. link_kind k l) \<and> list_all is_ack (lk_down l)
     \<and> (\<exists>rest. lk_sent l = lk_received l @ rest \<and> carries (link_settled l) (lk_up l) rest)"

text \<open>What is in flight was accepted by the codec of its sender; a stopped connection has a cause outside the tables.\<close>

definition link_fits :: "buf_ops \<Rightarrow> tcp_side \<Rightarrow> tcp_side \<Rightarrow> link \<Rightarrow> bool" where
  "link_fits B client server l \<longleftrightarrow>
     (\<forall>f \<in> set (lk_up l). framed_send B (side_limit client) f = None) \<and> (\<forall>f \<in> set (lk_down l). framed_send B (side_limit server) f = None)"

definition stopped_outside :: "tcp_side \<Rightarrow> tcp_side \<Rightarrow> link \<Rightarrow> bool" where
  "stopped_outside client server l \<longleftrightarrow> prefix (lk_received l) (lk_sent l)
     \<and> (case lk_stop l of
          Some (SendRefused _) \<Rightarrow> True
        | Some (DecodeRefused _) \<Rightarrow> side_limit client \<noteq> side_limit server
        | Some SocketFailed \<Rightarrow> True
        | _ \<Rightarrow> False)"

lemma link_inv_prefix: "link_inv l \<Longrightarrow> prefix (lk_received l) (lk_sent l)"
  by (auto simp: link_inv_def)

lemma carries_mono: "carries G up rest \<Longrightarrow> (\<And>k. G k \<subseteq> H k) \<Longrightarrow> carries H up rest"
  unfolding carries_def using frame_rel_mono by (metis (mono_tags, lifting) list.rel_mono_strong)

lemma link_inv_send:
  assumes l: "link_inv l" and f: "plain_frame f" and s: "lk_stop (send_outbound_tcp_frame B side f l) = None"
  shows "link_inv (send_outbound_tcp_frame B side f l)"
proof -
  obtain f' c where e: "apply_outbound_frame f (lk_client l) = (f', c)" by fastforce
  let ?l = "send_outbound_tcp_frame B side f l"
  have l': "?l = l\<lparr>lk_client := c, lk_up := lk_up l @ [f'], lk_sent := lk_sent l @ [f]\<rparr>"
    using e s by (simp add: send_outbound_tcp_frame_def split: option.splits)
  have inv: "\<And>k. kind_inv (outbound_table k (lk_client l)) (inbound_table k (lk_server l)) (ads k (lk_up l)) (acks k (lk_down l))"
    using l by (simp add: link_inv_def link_kind_def)
  note a = apply_outbound_frame_rel [OF inv f e]
  have na: "\<not> is_ad f'" by (rule frame_rel_not_ad [OF a(3)])
  then have ads: "ads k (lk_up l @ [f']) = ads k (lk_up l)" for k using ads_other [of f' k "[]"] by simp
  obtain rest where rest: "lk_sent l = lk_received l @ rest" "carries (link_settled l) (lk_up l) rest" using l by (auto simp: link_inv_def)
  have G: "link_settled ?l = (\<lambda>k. settled (outbound_table k c) (inbound_table k (lk_server l)) (ads k (lk_up l)))"
    by (simp add: fun_eq_iff link_settled_def l' ads del: ads_append ads.simps)
  have "carries (link_settled ?l) (lk_up l) rest"
    unfolding G by (rule carries_mono [OF rest(2)]) (use a(2) in \<open>simp add: link_settled_def\<close>)
  moreover have "frame_rel (link_settled ?l) f' f" unfolding G by (rule a(3))
  ultimately have "carries (link_settled ?l) (lk_up ?l) (rest @ [f])" using na by (simp add: carries_def l' list_all2_appendI)
  then show ?thesis using l a(1) ads rest(1) unfolding link_inv_def link_kind_def by (auto simp: l')
qed

lemma link_inv_tick:
  assumes l: "link_inv l" and s: "lk_stop (send_tcp_compression_advertisement B side k l) = None"
  shows "link_inv (send_tcp_compression_advertisement B side k l)"
proof (cases "create_advertisement k (outbound_table k (lk_client l))")
  case (Pair ad t)
  let ?l = "send_tcp_compression_advertisement B side k l"
  show ?thesis
  proof (cases ad)
    case None
    then have "t = outbound_table k (lk_client l)"
      using Pair by (cases rule: create_advertisement_cases [of k "outbound_table k (lk_client l)"]) auto
    moreover have "set_outbound k (outbound_table k c) c = c" for c by (cases k) (simp_all add: set_outbound_def outbound_table_def)
    ultimately have "?l = l" using Pair None by (simp add: send_tcp_compression_advertisement_def advertise_def)
    then show ?thesis using l by simp
  next
    case (Some a)
    let ?f = "ControlFrame (CompressionAdvertisement (side_authority side) (ad_table_kind a) (ad_generation a) (ad_entries a))"
    have inv: "\<And>k. kind_inv (outbound_table k (lk_client l)) (inbound_table k (lk_server l)) (ads k (lk_up l)) (acks k (lk_down l))"
      using l by (simp add: link_inv_def link_kind_def)
    have c: "create_advertisement k (outbound_table k (lk_client l)) = (Some a, t)" using Pair Some by simp
    have k: "ad_table_kind a = k" using create_advertisement_spec(11) [OF _ c] inv by (simp add: kind_inv_def)
    have l': "?l = l\<lparr>lk_client := set_outbound k t (lk_client l), lk_up := lk_up l @ [?f]\<rparr>"
      using c s by (simp add: send_tcp_compression_advertisement_def advertise_def split: option.splits)
    note a = kind_inv_advertise [OF inv c]
    have ks: "link_kind j ?l" "link_settled l j \<subseteq> link_settled ?l j" for j
      using a inv by (cases "j = k"; simp add: link_kind_def link_settled_def l' k)+
    obtain rest where rest: "lk_sent l = lk_received l @ rest" "carries (link_settled l) (lk_up l) rest" using l by (auto simp: link_inv_def)
    have "carries (link_settled ?l) (lk_up l) rest" by (rule carries_mono [OF rest(2) ks(2)])
    then have "carries (link_settled ?l) (lk_up ?l) rest" by (simp add: carries_def l' is_ad_def)
    then show ?thesis using l ks(1) rest(1) unfolding link_inv_def by (auto simp: l')
  qed
qed

lemma link_inv_server:
  assumes l: "link_inv l" and s: "framed_next B (side_limit side) (hd (lk_up l)) = None"
    "\<forall>e. lk_stop (server_receive B side l) \<noteq> Some (SendRefused e)"
  shows "link_inv (server_receive B side l)"
proof (cases "lk_up l")
  case Nil
  then show ?thesis using l by (simp add: server_receive_def)
next
  case (Cons f fs)
  let ?l = "server_receive B side l"
  have inv: "\<And>k. kind_inv (outbound_table k (lk_client l)) (inbound_table k (lk_server l)) (ads k (lk_up l)) (acks k (lk_down l))"
    using l by (simp add: link_inv_def link_kind_def)
  obtain rest where rest: "lk_sent l = lk_received l @ rest" "carries (link_settled l) (lk_up l) rest" using l by (auto simp: link_inv_def)
  show ?thesis
  proof (cases "is_ad f")
    case True
    then obtain a k gen es where f: "f = ControlFrame (CompressionAdvertisement a k gen es)"
      by (auto simp: is_ad_def split: wire_frame.splits control_pdu.splits)
    have k: "kind_inv (outbound_table k (lk_client l)) (inbound_table k (lk_server l)) ((gen, es) # ads k fs) (acks k (lk_down l))"
      using inv [of k] Cons f by simp
    note ap = kind_inv_apply [OF k]
    let ?r = "snd (apply_advertisement gen es (inbound_table k (lk_server l)))"
    have l': "?l = l\<lparr>lk_server := set_inbound k ?r (lk_server l), lk_up := fs,
        lk_down := lk_down l @ [ControlFrame (CompressionAck (side_authority side) k gen)]\<rparr>"
      using ap(1) Cons f s by (auto simp: server_receive_def handle_inbound_frame_def split: prod.splits sum.splits option.splits)
    have ks: "link_kind j ?l" "link_settled l j \<subseteq> link_settled ?l j" for j
      using ap inv [of j] Cons f by (cases "j = k"; simp add: link_kind_def link_settled_def l')+
    have "carries (link_settled ?l) (lk_up l) rest" by (rule carries_mono [OF rest(2) ks(2)])
    then have "carries (link_settled ?l) (lk_up ?l) rest" using True Cons by (simp add: carries_def l')
    then show ?thesis using l ks(1) rest(1) unfolding link_inv_def by (auto simp: l' is_ack_def)
  next
    case False
    then obtain f0 rest' where r: "rest = f0 # rest'" "frame_rel (link_settled l) f f0" "carries (link_settled l) fs rest'"
      using rest(2) Cons by (auto simp: carries_def list_all2_Cons1)
    have "handle_inbound_frame (side_authority side) f (lk_server l) = (Inr (Forward f0), lk_server l)"
      by (rule handle_inbound_restores [OF inv]) (use r(2) in \<open>simp add: link_settled_def [abs_def]\<close>)
    then have l': "?l = l\<lparr>lk_up := fs, lk_received := lk_received l @ [f0]\<rparr>" using Cons s(1) by (simp add: server_receive_def)
    have "ads k fs = ads k (lk_up l)" for k using ads_other [OF False, of k fs] Cons by simp
    then have "link_settled ?l = link_settled l" "link_kind k ?l = link_kind k l" for k
      by (simp_all add: fun_eq_iff link_settled_def link_kind_def l')
    then show ?thesis using l r rest(1) unfolding link_inv_def by (auto simp: l')
  qed
qed

lemma link_inv_client:
  assumes l: "link_inv l" and s: "framed_next B (side_limit side) (hd (lk_down l)) = None"
  shows "link_inv (handle_inbound_tcp_frame B side l)"
proof (cases "lk_down l")
  case Nil
  then show ?thesis using l by (simp add: handle_inbound_tcp_frame_def)
next
  case (Cons f fs)
  let ?l = "handle_inbound_tcp_frame B side l"
  have inv: "\<And>k. kind_inv (outbound_table k (lk_client l)) (inbound_table k (lk_server l)) (ads k (lk_up l)) (acks k (lk_down l))"
    using l by (simp add: link_inv_def link_kind_def)
  obtain rest where rest: "lk_sent l = lk_received l @ rest" "carries (link_settled l) (lk_up l) rest" using l by (auto simp: link_inv_def)
  have "is_ack f" using l Cons by (simp add: link_inv_def)
  then obtain a k gen where f: "f = ControlFrame (CompressionAck a k gen)"
    by (auto simp: is_ack_def split: wire_frame.splits control_pdu.splits)
  have k: "kind_inv (outbound_table k (lk_client l)) (inbound_table k (lk_server l)) (ads k (lk_up l)) (gen # acks k fs)"
    using inv [of k] Cons f by simp
  note ak = kind_inv_ack [OF k]
  have l': "?l = l\<lparr>lk_client := set_outbound k (snd (acknowledge gen (outbound_table k (lk_client l)))) (lk_client l), lk_down := fs\<rparr>"
    using Cons f s by (simp add: handle_inbound_tcp_frame_def handle_inbound_frame_def)
  have ks: "link_kind j ?l" "link_settled l j \<subseteq> link_settled ?l j" for j
    using ak inv [of j] Cons f by (cases "j = k"; simp add: link_kind_def link_settled_def l')+
  have "carries (link_settled ?l) (lk_up ?l) rest" using carries_mono [OF rest(2) ks(2)] by (simp add: l')
  then show ?thesis using l ks(1) rest(1) Cons unfolding link_inv_def by (auto simp: l')
qed

definition link_compatible :: "compression_config \<Rightarrow> compression_config \<Rightarrow> bool" where
  "link_compatible cc sc \<longleftrightarrow> max_compatible (cc_actor_ref_max cc) (cc_actor_ref_max sc)
     \<and> max_compatible (cc_manifest_max cc) (cc_manifest_max sc)"

lemma link_inv_new: "link_compatible cc sc \<Longrightarrow> link_inv (link_new cc sc)"
proof -
  assume "link_compatible cc sc"
  then have "link_kind k (link_new cc sc)" for k
    by (cases k) (simp_all add: link_kind_def link_compatible_def link_new_def tcp_tables_new_def outbound_table_def inbound_table_def kind_inv_new)
  then show ?thesis by (simp add: link_inv_def link_new_def carries_def)
qed

definition plain_action :: "link_action \<Rightarrow> bool" where
  "plain_action a \<longleftrightarrow> (case a of Send f \<Rightarrow> plain_frame f | _ \<Rightarrow> True)"

lemma refused_limits:
  assumes "framed_send B n f = None" "framed_next B m f \<noteq> None"
  shows "n \<noteq> m"
  using assms by (auto simp: framed_next_def)

lemma link_step_ok:
  assumes l: "link_inv l" "link_fits B client server l" and a: "plain_action a"
  shows "link_inv (link_step B client server a l) \<and> link_fits B client server (link_step B client server a l)
    \<or> stopped_outside client server (link_step B client server a l)"
proof -
  have up: "lk_stop l = None" using l(1) by (simp add: link_inv_def)
  note p = link_inv_prefix [OF l(1)]
  show ?thesis
  proof (cases a)
    case (Send f)
    then have "link_inv (send_outbound_tcp_frame B client f l)" if "lk_stop (send_outbound_tcp_frame B client f l) = None"
      using that a by (intro link_inv_send [OF l(1)]) (simp_all add: plain_action_def)
    then show ?thesis
      using l(2) up p Send by (auto simp: link_step_def send_outbound_tcp_frame_def link_fits_def stopped_outside_def Let_def
          split: option.splits prod.splits)
  next
    case (Tick k)
    then show ?thesis
      using l(2) up p link_inv_tick [OF l(1), of B client k]
      by (auto simp: link_step_def send_tcp_compression_advertisement_def link_fits_def stopped_outside_def
          split: option.splits prod.splits)
  next
    case ServerReceive
    show ?thesis
    proof (cases "lk_up l")
      case Nil
      with l ServerReceive up show ?thesis by (simp add: link_step_def server_receive_def)
    next
      case (Cons f fs)
      have r: "link_step B client server a l = server_receive B server l" using ServerReceive up by (simp add: link_step_def)
      show ?thesis
      proof (cases "framed_next B (side_limit server) f")
        case None
        show ?thesis
        proof (cases "\<exists>e. lk_stop (server_receive B server l) = Some (SendRefused e)")
          case True
          then show ?thesis
            using p up Cons None unfolding r by (auto simp: server_receive_def stopped_outside_def split: option.splits prod.splits sum.splits inbound_action.splits)
        next
          case False
          then have i: "link_inv (server_receive B server l)" using link_inv_server [OF l(1), of B server] Cons None by simp
          then have "link_fits B client server (server_receive B server l)"
            using l(2) Cons None by (auto simp: server_receive_def link_fits_def link_inv_def split: option.splits prod.splits sum.splits inbound_action.splits)
          with i show ?thesis unfolding r by simp
        qed
      next
        case (Some e)
        have "side_limit client \<noteq> side_limit server"
          using l(2) Cons Some refused_limits [of B "side_limit client" f] by (simp add: link_fits_def)
        then show ?thesis using p Cons Some unfolding r by (simp add: server_receive_def stopped_outside_def)
      qed
    qed
  next
    case ClientReceive
    show ?thesis
    proof (cases "lk_down l")
      case Nil
      with l ClientReceive up show ?thesis by (simp add: link_step_def handle_inbound_tcp_frame_def)
    next
      case (Cons f fs)
      have r: "link_step B client server a l = handle_inbound_tcp_frame B client l" using ClientReceive up by (simp add: link_step_def)
      show ?thesis
      proof (cases "framed_next B (side_limit client) f")
        case None
        then have i: "link_inv (handle_inbound_tcp_frame B client l)" using link_inv_client [OF l(1), of B client] Cons by simp
        then have "link_fits B client server (handle_inbound_tcp_frame B client l)"
          using l(2) Cons None by (auto simp: handle_inbound_tcp_frame_def link_fits_def link_inv_def split: option.splits prod.splits sum.splits inbound_action.splits)
        with i show ?thesis unfolding r by simp
      next
        case (Some e)
        have "side_limit client \<noteq> side_limit server"
          using l(2) Cons Some refused_limits [of B "side_limit server" f "side_limit client"] by (simp add: link_fits_def)
        then show ?thesis using p Cons Some unfolding r by (simp add: handle_inbound_tcp_frame_def stopped_outside_def)
      qed
    qed
  qed (use p up in \<open>simp add: link_step_def stopped_outside_def\<close>)
qed

lemma link_run_stopped: "lk_stop l \<noteq> None \<Longrightarrow> link_run B client server acts l = l"
  by (induction acts) (auto simp: link_run_def link_step_def)

lemma link_run_ok:
  "link_inv l \<Longrightarrow> link_fits B client server l \<Longrightarrow> list_all plain_action acts \<Longrightarrow>
   link_inv (link_run B client server acts l) \<or> stopped_outside client server (link_run B client server acts l)"
proof (induction acts arbitrary: l)
  case (Cons a acts)
  let ?l = "link_step B client server a l"
  have r: "link_run B client server (a # acts) l = link_run B client server acts ?l" by (simp add: link_run_def)
  consider "link_inv ?l" "link_fits B client server ?l" | "stopped_outside client server ?l"
    using link_step_ok [of l B client server a] Cons.prems by auto
  then show ?case
  proof cases
    case 1
    with Cons show ?thesis unfolding r by simp
  next
    case 2
    then have "lk_stop ?l \<noteq> None" by (cases "lk_stop ?l") (auto simp: stopped_outside_def)
    with 2 show ?thesis unfolding r by (simp add: link_run_stopped)
  qed
qed (simp add: link_run_def)

section \<open>A server without a table\<close>

definition refs_ok :: "nat option \<Rightarrow> link \<Rightarrow> bool" where
  "refs_ok m l \<longleftrightarrow> outbound_ok (outbound_actor_refs (lk_client l)) \<and> ct_max (outbound_actor_refs (lk_client l)) = m
     \<and> ct_max (inbound_actor_refs (lk_server l)) = None"

lemma observe_and_encode_ok:
  "outbound_ok t \<Longrightarrow> outbound_ok (snd (observe_and_encode c t)) \<and> ct_max (snd (observe_and_encode c t)) = ct_max t"
  by (simp add: observe_and_encode_def Let_def observe_ok split: option.split)

lemma observe_option_ok:
  "outbound_ok t \<Longrightarrow> outbound_ok (snd (observe_option c t)) \<and> ct_max (snd (observe_option c t)) = ct_max t"
  using observe_and_encode_ok by (auto simp: observe_option_def split: option.split prod.split) (metis snd_conv)+

lemma apply_outbound_frame_refs:
  assumes "outbound_ok (outbound_actor_refs c)"
  shows "outbound_ok (outbound_actor_refs (snd (apply_outbound_frame f c)))
    \<and> ct_max (outbound_actor_refs (snd (apply_outbound_frame f c))) = ct_max (outbound_actor_refs c)"
proof (cases f)
  case (EnvelopeFrame p)
  obtain recipient a1 where o: "observe_and_encode (ep_recipient_path p) (outbound_actor_refs c) = (recipient, a1)" by fastforce
  obtain sender a2 where s: "observe_option (ep_sender_path p) a1 = (sender, a2)" by fastforce
  show ?thesis
    using observe_and_encode_ok [OF assms, of "ep_recipient_path p"] observe_option_ok [of a1 "ep_sender_path p"] EnvelopeFrame o s
    by (simp add: apply_outbound_frame_def apply_outbound_envelope_def Let_def split: prod.split)
qed (use assms in \<open>simp_all add: apply_outbound_frame_def\<close>)

lemma advertise_refs:
  assumes "outbound_ok (outbound_actor_refs c)"
  shows "outbound_ok (outbound_actor_refs (snd (advertise k a c))) \<and> ct_max (outbound_actor_refs (snd (advertise k a c))) = ct_max (outbound_actor_refs c)"
proof (cases "create_advertisement k (outbound_table k c)")
  case (Pair ad t)
  have "outbound_ok t \<and> ct_max t = ct_max (outbound_actor_refs c)" if "k = ActorRefTable"
  proof (cases ad)
    case None
    then have "t = outbound_actor_refs c"
      using Pair that by (cases rule: create_advertisement_cases [of k "outbound_actor_refs c"]) (simp_all add: outbound_table_def)
    with assms show ?thesis by simp
  next
    case (Some ad')
    with create_advertisement_spec(1,9) [OF assms, of k ad' t] Pair that show ?thesis by (simp add: outbound_table_def)
  qed
  with Pair assms show ?thesis by (cases k; cases ad) (simp_all add: advertise_def set_outbound_def)
qed

lemma handle_inbound_refs:
  shows "outbound_ok (outbound_actor_refs c) \<Longrightarrow> outbound_ok (outbound_actor_refs (snd (handle_inbound_frame a f c)))
      \<and> ct_max (outbound_actor_refs (snd (handle_inbound_frame a f c))) = ct_max (outbound_actor_refs c)"
    and "ct_max (inbound_actor_refs (snd (handle_inbound_frame a f c))) = ct_max (inbound_actor_refs c)"
proof -
  have "snd (handle_inbound_frame a f c) = c
      \<or> (\<exists>k gen es. snd (handle_inbound_frame a f c) = set_inbound k (snd (apply_advertisement gen es (inbound_table k c))) c)
      \<or> (\<exists>k gen. snd (handle_inbound_frame a f c) = set_outbound k (snd (acknowledge gen (outbound_table k c))) c)"
    by (auto simp: handle_inbound_frame_def split: wire_frame.split control_pdu.split prod.split sum.split) (metis snd_conv)+
  then show "outbound_ok (outbound_actor_refs c) \<Longrightarrow> outbound_ok (outbound_actor_refs (snd (handle_inbound_frame a f c)))
      \<and> ct_max (outbound_actor_refs (snd (handle_inbound_frame a f c))) = ct_max (outbound_actor_refs c)"
    and "ct_max (inbound_actor_refs (snd (handle_inbound_frame a f c))) = ct_max (inbound_actor_refs c)"
    using acknowledge_spec(1,4) [of "outbound_actor_refs c"]
    by (auto simp: set_inbound_def set_outbound_def outbound_table_def inbound_table_def apply_advertisement_def
        split: table_kind.split option.split)
qed

lemma sent_tables:
  "lk_client (send_outbound_tcp_frame B side f l) = snd (apply_outbound_frame f (lk_client l))"
  "lk_server (send_outbound_tcp_frame B side f l) = lk_server l"
  "lk_client (send_tcp_compression_advertisement B side k l) = snd (advertise k (side_authority side) (lk_client l))"
  "lk_server (send_tcp_compression_advertisement B side k l) = lk_server l"
  by (simp_all add: send_outbound_tcp_frame_def send_tcp_compression_advertisement_def Let_def split: option.split prod.split)

lemma received_tables:
  "lk_client (server_receive B side l) = lk_client l" "lk_server (handle_inbound_tcp_frame B side l) = lk_server l"
  "\<exists>f. lk_server (server_receive B side l) \<in> {lk_server l, snd (handle_inbound_frame (side_authority side) f (lk_server l))}"
  "\<exists>f. lk_client (handle_inbound_tcp_frame B side l) \<in> {lk_client l, snd (handle_inbound_frame (side_authority side) f (lk_client l))}"
proof -
  have r: "lk_client (server_receive B side l) = lk_client l \<and> lk_server (server_receive B side l) = lk_server l" if "lk_up l = []"
    using that by (simp add: server_receive_def)
  have c: "lk_client (handle_inbound_tcp_frame B side l) = lk_client l \<and> lk_server (handle_inbound_tcp_frame B side l) = lk_server l" if "lk_down l = []"
    using that by (simp add: handle_inbound_tcp_frame_def)
  have r': "lk_client (server_receive B side l) = lk_client l
      \<and> lk_server (server_receive B side l) \<in> {lk_server l, snd (handle_inbound_frame (side_authority side) f (lk_server l))}"
    if "lk_up l = f # fs" for f fs
    using that by (cases "handle_inbound_frame (side_authority side) f (lk_server l)")
      (simp add: server_receive_def split: option.split sum.split inbound_action.split)
  have c': "lk_client (handle_inbound_tcp_frame B side l) \<in> {lk_client l, snd (handle_inbound_frame (side_authority side) f (lk_client l))}
      \<and> lk_server (handle_inbound_tcp_frame B side l) = lk_server l"
    if "lk_down l = f # fs" for f fs
    using that by (cases "handle_inbound_frame (side_authority side) f (lk_client l)")
      (simp add: handle_inbound_tcp_frame_def split: option.split sum.split inbound_action.split)
  show "lk_client (server_receive B side l) = lk_client l" using r r' by (cases "lk_up l") blast+
  show "lk_server (handle_inbound_tcp_frame B side l) = lk_server l" using c c' by (cases "lk_down l") blast+
  show "\<exists>f. lk_server (server_receive B side l) \<in> {lk_server l, snd (handle_inbound_frame (side_authority side) f (lk_server l))}"
    using r r' by (cases "lk_up l") blast+
  show "\<exists>f. lk_client (handle_inbound_tcp_frame B side l) \<in> {lk_client l, snd (handle_inbound_frame (side_authority side) f (lk_client l))}"
    using c c' by (cases "lk_down l") blast+
qed

lemma link_step_refs:
  assumes "refs_ok m l"
  shows "refs_ok m (link_step B client server a l)"
proof -
  have ok: "outbound_ok (outbound_actor_refs (lk_client l))" using assms by (simp add: refs_ok_def)
  show ?thesis
  proof (cases a)
    case (Send f)
    then show ?thesis using assms apply_outbound_frame_refs [OF ok, of f] by (simp add: link_step_def refs_ok_def sent_tables)
  next
    case (Tick k)
    then show ?thesis using assms advertise_refs [OF ok, of k "side_authority client"] by (simp add: link_step_def refs_ok_def sent_tables)
  next
    case ServerReceive
    obtain f where "lk_server (server_receive B server l) \<in> {lk_server l, snd (handle_inbound_frame (side_authority server) f (lk_server l))}"
      using received_tables(3) by blast
    then show ?thesis
      using ServerReceive assms handle_inbound_refs(2) [of "side_authority server" f "lk_server l"]
      by (auto simp: link_step_def refs_ok_def received_tables(1))
  next
    case ClientReceive
    obtain f where "lk_client (handle_inbound_tcp_frame B client l) \<in> {lk_client l, snd (handle_inbound_frame (side_authority client) f (lk_client l))}"
      using received_tables(4) by blast
    then show ?thesis
      using ClientReceive assms handle_inbound_refs(1) [OF ok, of "side_authority client" f]
      by (auto simp: link_step_def refs_ok_def received_tables(2))
  qed (use assms in \<open>simp add: link_step_def refs_ok_def\<close>)
qed

lemma link_run_refs: "refs_ok m l \<Longrightarrow> refs_ok m (link_run B client server acts l)"
  by (induction acts arbitrary: l) (simp_all add: link_run_def link_step_refs)

lemma refs_ok_new: "cc_actor_ref_max cc = Some m \<Longrightarrow> m < 2 ^ 32 \<Longrightarrow> cc_actor_ref_max sc = None \<Longrightarrow> refs_ok (Some m) (link_new cc sc)"
  using table_new_ok(1) [of "Some m"] by (simp add: refs_ok_def link_new_def tcp_tables_new_def) (simp add: table_new_def)

text \<open>
  The round in which the client learns a reference: it advertises its table, the server acknowledges
  and the client uses the reference in the next envelope.
\<close>

definition learn_run :: "envelope_pdu \<Rightarrow> link_action list" where
  "learn_run p = [Tick ActorRefTable, ServerReceive, ClientReceive, Send (EnvelopeFrame p), ServerReceive]"

lemma outbound_recipient:
  assumes "ep_recipient_path p = Literal s"
  obtains p' c' where "apply_outbound_frame (EnvelopeFrame p) c = (EnvelopeFrame p', c')"
    and "ep_recipient_path p' = table_encode s (observe s (outbound_actor_refs c))"
proof -
  have "\<exists>p' c'. apply_outbound_frame (EnvelopeFrame p) c = (EnvelopeFrame p', c') \<and> ep_recipient_path p' = table_encode s (observe s (outbound_actor_refs c))"
    using assms by (simp add: apply_outbound_frame_def apply_outbound_envelope_def observe_and_encode_def as_literal_def Let_def
        with_redelivery_sequence_def envelope_new_with_metadata_def split: prod.split)
  then show ?thesis using that by blast
qed

lemma framed_send_ok:
  "buf_laws B \<Longrightarrow> wire_frame_ok f \<Longrightarrow> limit \<le> usize_u32_max \<Longrightarrow>
   framed_send B limit f = (if 2 + length (frame_body f) \<le> limit then None else Some FrameTooLarge)"
  by (simp add: framed_send_def frame_encode_ok sendable_def)

lemma sample_framed:
  shows "framed_send plain_bufs 32768 (ControlFrame (CompressionAck ''s'' k g)) = None"
    "framed_send plain_bufs 32768 (ControlFrame (CompressionAdvertisement ''c'' k g [\<lparr>te_id = i, te_literal = ''/user/a''\<rparr>])) = None"
    "wire_text r \<Longrightarrow> length (fmt_text r) \<le> 100 \<Longrightarrow>
     framed_send plain_bufs 32768 (EnvelopeFrame \<lparr>ep_recipient_path = r, ep_sender_path = None, ep_correlation_hi = h, ep_correlation_lo = lo,
       ep_priority = 1, ep_redelivery_sequence = None, ep_serializer_id = z, ep_manifest = Some (Literal ''m''), ep_payload = [7]\<rparr>) = None"
proof -
  have n: "(32768 :: nat) \<le> usize_u32_max" by (simp add: usize_u32_max_def)
  show "framed_send plain_bufs 32768 (ControlFrame (CompressionAck ''s'' k g)) = None"
    by (subst framed_send_ok [OF plain_bufs_laws _ n])
      (simp_all add: wire_frame_ok_def wire_control_def wire_string_def as_bytes_def usize_u32_max_def frame_body_def fmt_control_def
        fmt_authority_def fmt_string_def fmt_bytes_def fmt_option_def)
  show "framed_send plain_bufs 32768 (ControlFrame (CompressionAdvertisement ''c'' k g [\<lparr>te_id = i, te_literal = ''/user/a''\<rparr>])) = None"
    by (subst framed_send_ok [OF plain_bufs_laws _ n])
      (simp_all add: wire_frame_ok_def wire_control_def wire_string_def as_bytes_def usize_u32_max_def frame_body_def fmt_control_def
        fmt_authority_def fmt_string_def fmt_bytes_def fmt_option_def fmt_entries_def fmt_entry_def)
  show "framed_send plain_bufs 32768 (EnvelopeFrame \<lparr>ep_recipient_path = r, ep_sender_path = None, ep_correlation_hi = h, ep_correlation_lo = lo,
       ep_priority = 1, ep_redelivery_sequence = None, ep_serializer_id = z, ep_manifest = Some (Literal ''m''), ep_payload = [7]\<rparr>) = None"
    if "wire_text r" "length (fmt_text r) \<le> 100"
    using that by (subst framed_send_ok [OF plain_bufs_laws _ n])
      (simp_all add: wire_frame_ok_def wire_envelope_def wire_text_def wire_string_def as_bytes_def usize_u32_max_def frame_body_def fmt_envelope_def
        sequence_matches_def fmt_text_def fmt_string_def fmt_bytes_def fmt_option_def fmt_sequence_def)
qed

lemmas run_simps = link_run_def link_step_def send_outbound_tcp_frame_def apply_outbound_frame_def apply_outbound_envelope_def
  link_new_def tcp_tables_new_def observe_and_encode_def observe_option_def as_literal_def envelope_new_def payload_new_def
  observe_def table_new_def table_encode_def is_enabled_def entry_state_new_def Let_def envelope_new_with_metadata_def
  with_redelivery_sequence_def sample_framed wire_text_def wire_string_def as_bytes_def usize_u32_max_def
  fmt_text_def fmt_string_def fmt_bytes_def framed_next_def server_receive_def handle_inbound_frame_def resolve_inbound_envelope_def
  resolve_text_def resolve_option_def send_tcp_compression_advertisement_def advertise_def outbound_table_def inbound_table_def
  set_outbound_def set_inbound_def create_advertisement_def advertised_indexes_def apply_advertisement_def handle_inbound_tcp_frame_def
  acknowledge_def table_resolve_def

section \<open>Properties\<close>

definition hello_pdu :: envelope_pdu where
  "hello_pdu = envelope_new ''/user/a'' None 1 2 1 (payload_new 3 (Some ''m'') [7])"

definition hello :: wire_frame where
  "hello = EnvelopeFrame hello_pdu"

definition small_config :: compression_config where
  "small_config = \<lparr>cc_actor_ref_max = Some 2, cc_actor_ref_interval = 1, cc_manifest_max = Some 2, cc_manifest_interval = 1\<rparr>"

definition handshake_run :: "link_action list" where
  "handshake_run = [Send hello, Tick ActorRefTable, ServerReceive, ServerReceive, ClientReceive, Send hello, ServerReceive]"

definition small_side :: "string \<Rightarrow> tcp_side" where
  "small_side authority = \<lparr>side_authority = authority, side_limit = 32768\<rparr>"

text \<open>
  Claim C13. Compression is transparent. On a connection whose server accepts at least as many table
  entries as its client may create, whatever frames the client sends and however sends, advertisement
  ticks and deliveries interleave, no side ever refuses a frame because of its compression tables. The
  connection ends only when the codec of an end refuses a frame it is to send, when a frame exceeds
  the limit of a receiver whose limit differs from the sender's, or when the socket fails. At every
  moment the server has received a prefix of the frames the client sent, restored to the form they
  were sent in, and as long as the connection is up and nothing is in flight it has received all.
\<close>

theorem compression_transparent:
  assumes "link_compatible cc sc" and "list_all plain_action acts" and "l = link_run B client server acts (link_new cc sc)"
  shows "(\<forall>e. lk_stop l \<noteq> Some (CompressionRefused e)) \<and> (side_limit client = side_limit server \<longrightarrow> (\<forall>e. lk_stop l \<noteq> Some (DecodeRefused e)))
    \<and> prefix (lk_received l) (lk_sent l) \<and> (lk_stop l = None \<and> lk_up l = [] \<longrightarrow> lk_received l = lk_sent l)"
proof -
  have "link_fits B client server (link_new cc sc)" by (simp add: link_fits_def link_new_def)
  then have "link_inv l \<or> stopped_outside client server l"
    unfolding assms(3) by (rule link_run_ok [OF link_inv_new [OF assms(1)] _ assms(2)])
  then show ?thesis
    using link_inv_prefix [of l] by (auto simp: stopped_outside_def link_inv_def carries_def split: option.splits link_stop.splits)
qed

theorem compression_transparent_witness:
  "\<exists>l. l = link_run plain_bufs (small_side ''c'') (small_side ''s'') handshake_run (link_new small_config small_config)
     \<and> lk_stop l = None \<and> lk_received l = lk_sent l \<and> lk_sent l = [hello, hello]"
proof (intro exI conjI)
  define l where "l = link_run plain_bufs (small_side ''c'') (small_side ''s'') handshake_run (link_new small_config small_config)"
  show "l = link_run plain_bufs (small_side ''c'') (small_side ''s'') handshake_run (link_new small_config small_config)" by (fact l_def)
  have "link_compatible small_config small_config" "list_all plain_action handshake_run"
    by (simp_all add: link_compatible_def max_compatible_def small_config_def handshake_run_def plain_action_def plain_frame_def hello_def hello_pdu_def
        plain_text_def as_literal_def envelope_new_def payload_new_def)
  note t = compression_transparent [OF this l_def]
  have l: "lk_stop l = None \<and> lk_up l = [] \<and> lk_sent l = [hello, hello]"
    by (simp add: l_def run_simps hello_def hello_pdu_def small_config_def small_side_def handshake_run_def from_advertisement_def)
  with t show "lk_stop l = None" "lk_received l = lk_sent l" "lk_sent l = [hello, hello]" by simp_all
qed

text \<open>
  Claim C34. The condition on the configurations is needed. Take any run of a connection whose client
  compresses actor references and whose server has that table disabled, at a moment when nothing is in
  flight, no advertisement is outstanding and the client has observed the path of some recipient. The
  server accepts the next advertisement with an acknowledgement but stores nothing, so the client sends
  the next envelope to that recipient with a reference the server cannot resolve: unless the codec of
  an end refuses one of these frames for its size, the server refuses the envelope and the connection
  ends.
\<close>

theorem compression_disabled_server_breaks:
  assumes "cc_actor_ref_max cc = Some m" and "m < 2 ^ 32" and "cc_actor_ref_max sc = None"
    and "l = link_run B client server acts (link_new cc sc)" and "lk_stop l = None" and "lk_up l = []" and "lk_down l = []"
    and "ct_latest_pending_generation (outbound_actor_refs (lk_client l)) = None"
    and "(i, s) \<in> pairs_of (outbound_actor_refs (lk_client l))" and "ep_recipient_path p = Literal s"
    and "l' = link_run B client server (learn_run p) l"
    and "\<forall>e. lk_stop l' \<noteq> Some (SendRefused e) \<and> lk_stop l' \<noteq> Some (DecodeRefused e)"
  shows "lk_stop l' = Some (CompressionRefused InvalidFormat) \<and> lk_received l' = lk_received l"
proof -
  let ?t = "outbound_actor_refs (lk_client l)"
  have ok: "outbound_ok ?t" "ct_max ?t = Some m" "ct_max (inbound_actor_refs (lk_server l)) = None"
    using link_run_refs [OF refs_ok_new [OF assms(1-3)], of B client server acts] by (simp_all add: assms(4) refs_ok_def)
  have "ct_entries ?t \<noteq> []" using assms(9) by (auto simp: pairs_of_def)
  then obtain ad t' where c: "create_advertisement ActorRefTable ?t = (Some ad, t')"
    using ok(2) assms(8) by (auto simp: create_advertisement_def Let_def)
  note ad = create_advertisement_spec [OF ok(1) c]
  let ?ack = "snd (acknowledge (ad_generation ad) t')"
  have acked: "(i, s) \<in> acked_pairs (observe s ?ack)" using acknowledged_all [OF ok(1) c] assms(9) by simp
  have "is_enabled (observe s ?ack)" using acknowledge_spec(4) [OF ad(1), of "ad_generation ad"] ad(9) ok(2) by (simp add: is_enabled_def)
  with acked have enc: "table_encode s (observe s ?ack) = TableRef i"
    by (intro encode_acked observe_ok acknowledge_spec(1) ad(1))
  define l1 where "l1 = link_step B client server (Tick ActorRefTable) l"
  define l2 where "l2 = link_step B client server ServerReceive l1"
  define l3 where "l3 = link_step B client server ClientReceive l2"
  define l4 where "l4 = link_step B client server (Send (EnvelopeFrame p)) l3"
  have l': "l' = link_step B client server ServerReceive l4"
    by (simp add: assms(11) learn_run_def link_run_def l1_def l2_def l3_def l4_def)
  have up: "lk_stop x = None \<or> (\<forall>e. lk_stop x \<noteq> Some (SendRefused e) \<and> lk_stop x \<noteq> Some (DecodeRefused e))"
    if "x \<in> {l1, l2, l3, l4}" for x
    using that assms(12) by (cases "lk_stop x") (auto simp: l' l4_def l3_def l2_def link_step_def split: if_splits)
  let ?c1 = "(lk_client l)\<lparr>outbound_actor_refs := t'\<rparr>"
  let ?ad = "ControlFrame (CompressionAdvertisement (side_authority client) ActorRefTable (ad_generation ad) (ad_entries ad))"
  have l1: "l1 = l\<lparr>lk_client := ?c1, lk_up := [?ad]\<rparr>"
    using up [of l1] assms(5,6) c ad(11)
    by (auto simp: l1_def link_step_def send_tcp_compression_advertisement_def advertise_def outbound_table_def set_outbound_def split: option.splits)
  obtain r where r: "apply_advertisement (ad_generation ad) (ad_entries ad) (inbound_actor_refs (lk_server l)) = (Inr (), r)" "ct_max r = None"
    using ok(3) by (simp add: apply_advertisement_def)
  let ?a = "ControlFrame (CompressionAck (side_authority server) ActorRefTable (ad_generation ad))"
  have l2: "l2 = l1\<lparr>lk_server := (lk_server l)\<lparr>inbound_actor_refs := r\<rparr>, lk_up := [], lk_down := [?a]\<rparr>"
    using up [of l2] assms(5,7) r(1) l1
    by (auto simp: l2_def l1 link_step_def server_receive_def handle_inbound_frame_def inbound_table_def set_inbound_def split: option.splits)
  have l3: "l3 = l2\<lparr>lk_client := ?c1\<lparr>outbound_actor_refs := ?ack\<rparr>, lk_down := []\<rparr>"
    using up [of l3] assms(5)
    by (auto simp: l3_def l2 l1 link_step_def handle_inbound_tcp_frame_def handle_inbound_frame_def outbound_table_def set_outbound_def split: option.splits)
  obtain p' c' where p': "apply_outbound_frame (EnvelopeFrame p) (lk_client l3) = (EnvelopeFrame p', c')" "ep_recipient_path p' = TableRef i"
    by (rule outbound_recipient [OF assms(10), of "lk_client l3"]) (use enc in \<open>simp add: l3\<close>)
  have l4: "l4 = l3\<lparr>lk_client := c', lk_up := [EnvelopeFrame p'], lk_sent := lk_sent l @ [EnvelopeFrame p]\<rparr>"
    using up [of l4] assms(5) p'(1) by (auto simp: l4_def link_step_def send_outbound_tcp_frame_def l3 l2 l1 split: option.splits)
  have "handle_inbound_frame (side_authority server) (EnvelopeFrame p') (lk_server l4) = (Inl InvalidFormat, lk_server l4)"
    using p'(2) r(2) by (simp add: l4 l3 l2 handle_inbound_frame_def resolve_inbound_envelope_def resolve_text_def table_resolve_def is_enabled_def)
  then show ?thesis
    using assms(5,12) by (auto simp: l' link_step_def server_receive_def l4 l3 l2 l1 split: option.splits)
qed

lemma disabled_run:
  defines "sc \<equiv> with_actor_ref_max None small_config"
  defines "l \<equiv> link_run plain_bufs (small_side ''c'') (small_side ''s'') [Send (EnvelopeFrame hello_pdu), ServerReceive] (link_new small_config sc)"
  shows "lk_stop l = None \<and> lk_up l = [] \<and> lk_down l = [] \<and> ct_latest_pending_generation (outbound_actor_refs (lk_client l)) = None
      \<and> (1, ''/user/a'') \<in> pairs_of (outbound_actor_refs (lk_client l))"
    "lk_stop (link_run plain_bufs (small_side ''c'') (small_side ''s'') (learn_run hello_pdu) l) = Some (CompressionRefused InvalidFormat)"
proof -
  show "lk_stop l = None \<and> lk_up l = [] \<and> lk_down l = [] \<and> ct_latest_pending_generation (outbound_actor_refs (lk_client l)) = None
      \<and> (1, ''/user/a'') \<in> pairs_of (outbound_actor_refs (lk_client l))"
    by (simp add: l_def run_simps hello_pdu_def small_config_def with_actor_ref_max_def small_side_def sc_def pairs_of_def pair_of_def)
  show "lk_stop (link_run plain_bufs (small_side ''c'') (small_side ''s'') (learn_run hello_pdu) l) = Some (CompressionRefused InvalidFormat)"
    by (simp add: l_def run_simps hello_pdu_def small_config_def with_actor_ref_max_def small_side_def sc_def learn_run_def)
qed

theorem compression_disabled_server_breaks_witness:
  "lk_stop (link_run plain_bufs (small_side ''c'') (small_side ''s'') (learn_run hello_pdu)
     (link_run plain_bufs (small_side ''c'') (small_side ''s'') [Send (EnvelopeFrame hello_pdu), ServerReceive]
       (link_new small_config (with_actor_ref_max None small_config)))) = Some (CompressionRefused InvalidFormat)"
  by (rule compression_disabled_server_breaks [where m = 2 and cc = small_config and sc = "with_actor_ref_max None small_config" and i = 1
        and s = "''/user/a''", OF _ _ _ refl _ _ _ _ _ _ refl, THEN conjunct1])
    (use disabled_run in \<open>simp_all add: small_config_def with_actor_ref_max_def hello_pdu_def envelope_new_def payload_new_def\<close>)

end
