(* ===== verification/Path_Pattern.thy ===== *)
theory Path_Pattern
  imports Fraktor_Prelude
begin

text \<open>
  \<open>remote-core/src/config/large_message_destination_pattern.rs\<close> and
  \<open>large_message_destinations.rs\<close>: actor path patterns with \<open>**\<close> for any number of segments and \<open>*\<close>
  inside a segment. The matcher of one segment is a loop with a single backtracking point; it is
  proved to return, and to return what the declarative matching \<open>glob\<close> says.
\<close>

section \<open>The matcher\<close>

datatype pattern_segment = LiteralSegment string | MultiSegmentWildcard

definition star :: char where
  "star = CHR ''*''"

definition slash :: char where
  "slash = CHR ''/''"

fun skip_stars :: "string \<Rightarrow> string" where
  "skip_stars [] = []"
| "skip_stars (c # p) = (if c = star then skip_stars p else c # p)"

text \<open>The loop of \<open>segment_matches\<close>: \<open>None\<close> would be a run that does not end.\<close>

partial_function (option) segment_loop :: "string \<Rightarrow> string \<Rightarrow> nat \<Rightarrow> nat \<Rightarrow> nat option \<Rightarrow> nat \<Rightarrow> bool option" where
  "segment_loop p s pattern_index segment_index last_star retry =
     (if segment_index < length s then
        if pattern_index < length p \<and> p ! pattern_index = star then
          segment_loop p s (pattern_index + 1) segment_index (Some pattern_index) segment_index
        else if pattern_index < length p \<and> p ! pattern_index = s ! segment_index then
          segment_loop p s (pattern_index + 1) (segment_index + 1) last_star retry
        else
          (case last_star of
             Some star_index \<Rightarrow> segment_loop p s (star_index + 1) (retry + 1) last_star (retry + 1)
           | None \<Rightarrow> Some False)
      else Some (skip_stars (drop pattern_index p) = []))"

definition segment_matches :: "string \<Rightarrow> string \<Rightarrow> bool option" where
  "segment_matches p s = segment_loop p s 0 0 None 0"

fun split_on :: "char \<Rightarrow> string \<Rightarrow> string list" where
  "split_on c [] = [[]]"
| "split_on c (x # xs) =
     (if x = c then [] # split_on c xs
      else case split_on c xs of [] \<Rightarrow> [[x]] | y # ys \<Rightarrow> (x # y) # ys)"

definition trim_end_matches :: "char \<Rightarrow> string \<Rightarrow> string" where
  "trim_end_matches c s = rev (dropWhile (\<lambda>x. x = c) (rev s))"

text \<open>\<open>None\<close> is a failed assertion.\<close>

definition parse_absolute_segments :: "string \<Rightarrow> string list option" where
  "parse_absolute_segments path =
     (if path = [] \<or> hd path \<noteq> slash then None
      else if path = [slash] then None
      else
        let segments = drop 1 (split_on slash (trim_end_matches slash path)) in
        if segments \<noteq> [] \<and> list_all (\<lambda>s. s \<noteq> []) segments then Some segments else None)"

definition parse_pattern_segments :: "string \<Rightarrow> pattern_segment list option" where
  "parse_pattern_segments pattern =
     map_option (map (\<lambda>s. if s = [star, star] then MultiSegmentWildcard else LiteralSegment s)) (parse_absolute_segments pattern)"

record destination_pattern =
  dp_pattern :: string
  dp_segments :: "pattern_segment list"

definition destination_pattern_new :: "string \<Rightarrow> destination_pattern option" where
  "destination_pattern_new pattern =
     map_option (\<lambda>segments. \<lparr>dp_pattern = pattern, dp_segments = segments\<rparr>) (parse_pattern_segments pattern)"

fun matches_segments :: "pattern_segment list \<Rightarrow> string list \<Rightarrow> bool" where
  "matches_segments [] path \<longleftrightarrow> path = []"
| "matches_segments (MultiSegmentWildcard # tail) path \<longleftrightarrow>
     (if tail = [] then True else list_ex (\<lambda>skip. matches_segments tail (drop skip path)) [0..<Suc (length path)])"
| "matches_segments (LiteralSegment pat # tail) path \<longleftrightarrow>
     (case path of
        [] \<Rightarrow> False
      | segment # path_tail \<Rightarrow> segment_matches pat segment = Some True \<and> matches_segments tail path_tail)"

definition pattern_matches :: "destination_pattern \<Rightarrow> string \<Rightarrow> bool option" where
  "pattern_matches d path = map_option (matches_segments (dp_segments d)) (parse_absolute_segments path)"

type_synonym destinations = "destination_pattern list"

text \<open>\<open>any\<close> over the patterns: it parses the path for each pattern until one matches.\<close>

fun destinations_match :: "destinations \<Rightarrow> string \<Rightarrow> bool option" where
  "destinations_match [] path = Some False"
| "destinations_match (d # ds) path =
     (case pattern_matches d path of None \<Rightarrow> None | Some True \<Rightarrow> Some True | Some False \<Rightarrow> destinations_match ds path)"

section \<open>What a segment pattern means\<close>

primrec glob :: "string \<Rightarrow> string \<Rightarrow> bool" where
  "glob [] s \<longleftrightarrow> s = []"
| "glob (c # p) s \<longleftrightarrow> (if c = star then \<exists>k\<le>length s. glob p (drop k s) else s \<noteq> [] \<and> hd s = c \<and> glob p (tl s))"

lemma skip_stars_glob: "skip_stars p = [] \<longleftrightarrow> glob p []"
  by (induction p) auto

lemma glob_literal: "star \<notin> set q \<Longrightarrow> glob (q @ p) s \<longleftrightarrow> take (length q) s = q \<and> glob p (drop (length q) s)"
proof (induction q arbitrary: s)
  case (Cons c q)
  then show ?case by (cases s) auto
qed simp

lemma glob_star_absorbs: "glob (star # p) (drop j s) \<Longrightarrow> i \<le> j \<Longrightarrow> j \<le> length s \<Longrightarrow> glob (star # p) (drop i s)"
proof -
  assume "glob (star # p) (drop j s)" and ij: "i \<le> j" "j \<le> length s"
  then obtain k where k: "k \<le> length s - j" "glob p (drop (k + j) s)" by (auto simp: add.commute)
  have "drop (j + k - i) (drop i s) = drop (k + j) s" using ij by (simp add: add.commute)
  then show ?thesis using k ij by (auto intro!: exI [of _ "j + k - i"])
qed

text \<open>
  The state of the loop: the literals between the last star and the pattern index are exactly the
  characters between the retry position and the segment index.
\<close>

definition loop_ok :: "string \<Rightarrow> string \<Rightarrow> nat \<Rightarrow> nat \<Rightarrow> nat option \<Rightarrow> nat \<Rightarrow> bool" where
  "loop_ok p s i j ls r \<longleftrightarrow> i \<le> length p \<and> j \<le> length s \<and>
     (case ls of
        None \<Rightarrow> True
      | Some k \<Rightarrow> k < i \<and> r \<le> j \<and> i - Suc k = j - r \<and> take (i - Suc k) (drop (Suc k) p) = take (j - r) (drop r s)
          \<and> star \<notin> set (take (i - Suc k) (drop (Suc k) p)))"

definition loop_result :: "string \<Rightarrow> string \<Rightarrow> nat \<Rightarrow> nat \<Rightarrow> nat option \<Rightarrow> nat \<Rightarrow> bool" where
  "loop_result p s i j ls r \<longleftrightarrow> glob (drop i p) (drop j s)
     \<or> (\<exists>k. ls = Some k \<and> (\<exists>l. r < l \<and> l \<le> length s \<and> glob (drop (Suc k) p) (drop l s)))"

lemma split_pattern:
  assumes "k < i" "i \<le> length p"
  shows "drop (Suc k) p = take (i - Suc k) (drop (Suc k) p) @ drop i p"
  using assms by (metis Suc_leI append_take_drop_id drop_drop le_add_diff_inverse2)

lemma later_match:
  assumes "loop_ok p s i j (Some k) r" and "l \<le> length s" and "glob (drop (Suc k) p) (drop l s)"
  shows "l + (j - r) \<le> length s" and "glob (drop i p) (drop (l + (j - r)) s)"
proof -
  let ?q = "take (i - Suc k) (drop (Suc k) p)"
  have ok: "k < i" "i \<le> length p" "i - Suc k = j - r" "star \<notin> set ?q"
    using assms(1) unfolding loop_ok_def by auto
  have q: "length ?q = j - r" using ok by simp
  have "glob (?q @ drop i p) (drop l s)" using assms(3) split_pattern [OF ok(1,2)] by simp
  then have g: "take (j - r) (drop l s) = ?q" "glob (drop i p) (drop (j - r) (drop l s))"
    using glob_literal [OF ok(4)] q by simp_all
  have "length (take (j - r) (drop l s)) = j - r" using g(1) q by simp
  then show "l + (j - r) \<le> length s" using assms(2) by simp
  show "glob (drop i p) (drop (l + (j - r)) s)" using g(2) by (simp add: add.commute)
qed

lemma glob_step:
  assumes "j < length s"
  shows "i < length p \<Longrightarrow> p ! i = star \<Longrightarrow> glob (drop i p) (drop j s) \<longleftrightarrow> (\<exists>l\<ge>j. l \<le> length s \<and> glob (drop (Suc i) p) (drop l s))"
    and "i < length p \<Longrightarrow> p ! i \<noteq> star \<Longrightarrow> glob (drop i p) (drop j s) \<longleftrightarrow> s ! j = p ! i \<and> glob (drop (Suc i) p) (drop (Suc j) s)"
    and "length p \<le> i \<Longrightarrow> \<not> glob (drop i p) (drop j s)"
proof -
  assume i: "i < length p"
  then have d: "drop i p = p ! i # drop (Suc i) p" by (simp add: Cons_nth_drop_Suc)
  show "p ! i = star \<Longrightarrow> glob (drop i p) (drop j s) \<longleftrightarrow> (\<exists>l\<ge>j. l \<le> length s \<and> glob (drop (Suc i) p) (drop l s))"
  proof -
    assume "p ! i = star"
    then have "glob (drop i p) (drop j s) \<longleftrightarrow> (\<exists>k\<le>length s - j. glob (drop (Suc i) p) (drop (k + j) s))" unfolding d by simp
    also have "\<dots> \<longleftrightarrow> (\<exists>l\<ge>j. l \<le> length s \<and> glob (drop (Suc i) p) (drop l s))"
      using assms by (metis (no_types, opaque_lifting) add.commute add_le_cancel_left le_add1 le_add_diff_inverse less_imp_le)
    finally show ?thesis .
  qed
  show "p ! i \<noteq> star \<Longrightarrow> glob (drop i p) (drop j s) \<longleftrightarrow> s ! j = p ! i \<and> glob (drop (Suc i) p) (drop (Suc j) s)"
    unfolding d using assms by (simp add: hd_drop_conv_nth drop_Suc tl_drop)
next
  show "length p \<le> i \<Longrightarrow> \<not> glob (drop i p) (drop j s)" using assms by simp
qed

text \<open>One step of the loop keeps the state and the result.\<close>

lemma loop_star:
  assumes ok: "loop_ok p s i j ls r" and j: "j < length s" and c: "i < length p" "p ! i = star"
  shows "loop_ok p s (i + 1) j (Some i) j" and "loop_result p s i j ls r = loop_result p s (i + 1) j (Some i) j"
proof -
  show "loop_ok p s (i + 1) j (Some i) j" using ok c by (simp add: loop_ok_def)
  have g: "glob (drop i p) (drop j s) \<longleftrightarrow> loop_result p s (i + 1) j (Some i) j"
    unfolding glob_step(1) [OF j c] loop_result_def using j by (auto simp: le_less)
  have "glob (drop i p) (drop j s)" if l: "ls = Some k" "r < l" "l \<le> length s" "glob (drop (Suc k) p) (drop l s)" for k l
  proof -
    have "loop_ok p s i j (Some k) r" using ok l(1) by simp
    note m = later_match [OF this l(3,4)]
    have "r \<le> j" using ok l(1) by (simp add: loop_ok_def)
    then have "j \<le> l + (j - r)" using l(2) by simp
    moreover have d: "drop i p = star # drop (Suc i) p" using c by (simp add: Cons_nth_drop_Suc [symmetric])
    ultimately show ?thesis using glob_star_absorbs [of "drop (Suc i) p" "l + (j - r)" s j] m unfolding d by simp
  qed
  then show "loop_result p s i j ls r = loop_result p s (i + 1) j (Some i) j"
    using g unfolding loop_result_def [of p s i j ls r] by blast
qed

lemma loop_literal:
  assumes ok: "loop_ok p s i j ls r" and j: "j < length s" and c: "i < length p" "p ! i \<noteq> star" "p ! i = s ! j"
  shows "loop_ok p s (i + 1) (j + 1) ls r" and "loop_result p s i j ls r = loop_result p s (i + 1) (j + 1) ls r"
proof -
  show "loop_ok p s (i + 1) (j + 1) ls r"
  proof (cases ls)
    case None
    then show ?thesis using j c by (simp add: loop_ok_def)
  next
    case (Some k)
    let ?n = "i - Suc k"
    have k: "k < i" "r \<le> j" "?n = j - r" "take ?n (drop (Suc k) p) = take (j - r) (drop r s)" "star \<notin> set (take ?n (drop (Suc k) p))"
      using ok Some unfolding loop_ok_def by auto
    have n: "i + 1 - Suc k = Suc ?n" "j + 1 - r = Suc (j - r)" using k by simp_all
    have "take (Suc ?n) (drop (Suc k) p) = take ?n (drop (Suc k) p) @ [p ! i]"
    proof -
      have "Suc k + ?n = i" using k(1) by simp
      then show ?thesis using c(1) by (simp add: take_Suc_conv_app_nth del: diff_Suc_Suc)
    qed
    moreover have "take (Suc (j - r)) (drop r s) = take (j - r) (drop r s) @ [s ! j]"
      using k j by (simp add: take_Suc_conv_app_nth)
    moreover have "i - k = Suc (j - r)" using k(1,3) by simp
    ultimately show ?thesis using k c j unfolding loop_ok_def Some n by auto
  qed
  show "loop_result p s i j ls r = loop_result p s (i + 1) (j + 1) ls r"
    using glob_step(2) [OF j c(1,2)] c(3) by (simp add: loop_result_def)
qed

lemma loop_retry:
  assumes ok: "loop_ok p s i j (Some k) r" and j: "j < length s"
    and c: "\<not> (i < length p \<and> p ! i = star)" "\<not> (i < length p \<and> p ! i = s ! j)"
  shows "loop_ok p s (k + 1) (r + 1) (Some k) (r + 1)"
    and "loop_result p s i j (Some k) r = loop_result p s (k + 1) (r + 1) (Some k) (r + 1)"
proof -
  have r: "r < length s" "k < length p" using ok j by (auto simp: loop_ok_def)
  then show "loop_ok p s (k + 1) (r + 1) (Some k) (r + 1)" by (simp add: loop_ok_def)
  have "\<not> glob (drop i p) (drop j s)"
    using glob_step(2,3) [OF j, where i = i and p = p] c by (cases "i < length p") auto
  moreover have "(\<exists>l>r. l \<le> length s \<and> P l) \<longleftrightarrow> P (r + 1) \<or> (\<exists>l>r + 1. l \<le> length s \<and> P l)" for P
    using r by (metis Suc_eq_plus1 Suc_leI Suc_lessD lessI less_Suc_eq nat_less_le)
  ultimately show "loop_result p s i j (Some k) r = loop_result p s (k + 1) (r + 1) (Some k) (r + 1)"
    by (simp add: loop_result_def)
qed

lemma loop_end:
  assumes ok: "loop_ok p s i j ls r" and j: "\<not> j < length s"
  shows "skip_stars (drop i p) = [] \<longleftrightarrow> loop_result p s i j ls r"
proof -
  have "\<not> glob (drop (Suc k) p) (drop l s)" if l: "ls = Some k" "r < l" "l \<le> length s" for k l
  proof
    assume "glob (drop (Suc k) p) (drop l s)"
    then have "l + (j - r) \<le> length s" using later_match(1) [of p s i j k r l] ok l by simp
    then show False using l ok j by (auto simp: loop_ok_def)
  qed
  then show ?thesis using j by (auto simp: loop_result_def skip_stars_glob)
qed

lemma segment_loop_returns:
  "loop_ok p s i j ls r \<Longrightarrow> segment_loop p s i j ls r = Some (loop_result p s i j ls r)"
proof (induction "((i, j), ls, r)" arbitrary: i j ls r
    rule: wf_induct_rule [OF wf_measures [of "[\<lambda>((i, j), ls, r). length p - (case ls of None \<Rightarrow> 0 | Some k \<Rightarrow> Suc k),
      \<lambda>((i, j), ls, r). length s - r, \<lambda>((i, j), ls, r). length s - j]"]])
  case (1 i j ls r)
  note ok = 1(2)
  have IH: "segment_loop p s i' j' ls' r' = Some (loop_result p s i' j' ls' r')"
    if "loop_ok p s i' j' ls' r'" "(((i', j'), ls', r'), ((i, j), ls, r)) \<in> measures [\<lambda>((i, j), ls, r). length p - (case ls of None \<Rightarrow> 0 | Some k \<Rightarrow> Suc k),
      \<lambda>((i, j), ls, r). length s - r, \<lambda>((i, j), ls, r). length s - j]" for i' j' ls' r'
    using 1(1) that by blast
  consider (stop) "\<not> j < length s" | (star) "j < length s" "i < length p" "p ! i = star"
    | (lit) "j < length s" "i < length p" "p ! i \<noteq> star" "p ! i = s ! j"
    | (retry) k where "j < length s" "\<not> (i < length p \<and> p ! i = star)" "\<not> (i < length p \<and> p ! i = s ! j)" "ls = Some k"
    | (fail) "j < length s" "\<not> (i < length p \<and> p ! i = star)" "\<not> (i < length p \<and> p ! i = s ! j)" "ls = None"
    by (cases ls) blast+
  then show ?case
  proof cases
    case stop
    then show ?thesis using loop_end [OF ok] by (simp add: segment_loop.simps [of p s i j])
  next
    case star
    have "segment_loop p s (i + 1) j (Some i) j = Some (loop_result p s (i + 1) j (Some i) j)"
      by (rule IH [OF loop_star(1) [OF ok star]]) (use ok star in \<open>auto simp: loop_ok_def split: option.split\<close>)
    then show ?thesis using star loop_star(2) [OF ok star] by (simp add: segment_loop.simps [of p s i j])
  next
    case lit
    have "segment_loop p s (i + 1) (j + 1) ls r = Some (loop_result p s (i + 1) (j + 1) ls r)"
      by (rule IH [OF loop_literal(1) [OF ok lit]]) (use lit in auto)
    then show ?thesis using lit loop_literal(2) [OF ok lit] by (simp add: segment_loop.simps [of p s i j])
  next
    case retry
    have ok': "loop_ok p s i j (Some k) r" using ok retry(4) by simp
    have "segment_loop p s (k + 1) (r + 1) (Some k) (r + 1) = Some (loop_result p s (k + 1) (r + 1) (Some k) (r + 1))"
      by (rule IH [OF loop_retry(1) [OF ok' retry(1-3)]]) (use ok' retry in \<open>auto simp: loop_ok_def\<close>)
    then show ?thesis using retry loop_retry(2) [OF ok' retry(1-3)] by (auto simp: segment_loop.simps [of p s i j])
  next
    case fail
    have "\<not> glob (drop i p) (drop j s)"
      using glob_step(2,3) [OF fail(1), where i = i and p = p] fail(2,3) by (cases "i < length p") auto
    then show ?thesis using fail by (auto simp: segment_loop.simps [of p s i j] loop_result_def)
  qed
qed

lemma segment_matches_glob: "segment_matches p s = Some (glob p s)"
  unfolding segment_matches_def
  by (subst segment_loop_returns) (simp_all add: loop_ok_def loop_result_def)

section \<open>What a path pattern means\<close>

inductive path_match :: "pattern_segment list \<Rightarrow> string list \<Rightarrow> bool" where
  match_nil: "path_match [] []"
| match_literal: "glob pat segment \<Longrightarrow> path_match ps path \<Longrightarrow> path_match (LiteralSegment pat # ps) (segment # path)"
| match_none: "path_match ps path \<Longrightarrow> path_match (MultiSegmentWildcard # ps) path"
| match_more: "path_match (MultiSegmentWildcard # ps) path \<Longrightarrow> path_match (MultiSegmentWildcard # ps) (segment # path)"

inductive_cases path_match_nilE [elim!]: "path_match [] path"
inductive_cases path_match_literalE [elim!]: "path_match (LiteralSegment pat # ps) path"

lemma path_match_wildcard: "path_match (MultiSegmentWildcard # ps) path \<longleftrightarrow> (\<exists>k\<le>length path. path_match ps (drop k path))"
proof
  show "path_match (MultiSegmentWildcard # ps) path \<Longrightarrow> \<exists>k\<le>length path. path_match ps (drop k path)"
  proof (induction path)
    case Nil
    then show ?case by (auto elim: path_match.cases)
  next
    case (Cons x xs)
    from Cons.prems show ?case
    proof cases
      case match_none
      then show ?thesis by (intro exI [of _ 0]) simp
    next
      case match_more
      then obtain k where "k \<le> length xs" "path_match ps (drop k xs)" using Cons.IH by blast
      then show ?thesis by (intro exI [of _ "Suc k"]) simp
    qed
  qed
  have "path_match ps (drop k path) \<Longrightarrow> k \<le> length path \<Longrightarrow> path_match (MultiSegmentWildcard # ps) path" for k
  proof (induction k arbitrary: path)
    case (Suc k)
    then obtain x xs where "path = x # xs" by (cases path) auto
    with Suc show ?case by (auto intro: match_more)
  qed (simp add: match_none)
  then show "\<exists>k\<le>length path. path_match ps (drop k path) \<Longrightarrow> path_match (MultiSegmentWildcard # ps) path" by blast
qed

lemma path_match_all: "path_match [MultiSegmentWildcard] path"
  by (induction path) (auto intro: path_match.intros)

lemma matches_segments_iff: "matches_segments ps path \<longleftrightarrow> path_match ps path"
proof (induction ps path rule: matches_segments.induct)
  case (1 path)
  then show ?case by (auto intro: match_nil)
next
  case (2 tail path)
  show ?case
  proof (cases "tail = []")
    case True
    then show ?thesis by (simp add: path_match_all)
  next
    case False
    then have "matches_segments (MultiSegmentWildcard # tail) path \<longleftrightarrow> (\<exists>k\<le>length path. path_match tail (drop k path))"
      using 2 [OF False] by (auto simp: list_ex_iff less_Suc_eq_le simp del: upt_Suc)
    then show ?thesis by (simp add: path_match_wildcard)
  qed
next
  case (3 pat tail path)
  then show ?case by (cases path) (auto simp: segment_matches_glob intro: match_literal)
qed

section \<open>Properties\<close>

text \<open>
  Claim C33. The segment matcher, a loop that remembers only the last star and retries from there,
  returns on every pattern and every segment, and its answer is the declarative one: a star matches
  any run of characters, every other character itself.
\<close>

theorem segment_matches_correct: "segment_matches p s = Some (glob p s)"
  by (rule segment_matches_glob)

text \<open>
  A destination pattern matches a path exactly when the path can be read off the pattern: a literal
  segment consumes one segment that its glob accepts, a double star any number of segments.
\<close>

theorem destination_pattern_correct:
  "pattern_matches d path = map_option (path_match (dp_segments d)) (parse_absolute_segments path)"
  by (auto simp: pattern_matches_def matches_segments_iff map_option_case split: option.split)

end
