(* ===== verification/Uri_Parser.thy ===== *)
theory Uri_Parser
  imports Member_Record Path_Pattern Wire_Buffer
begin

text \<open>
  \<open>utils-core/src/net\<close>: \<open>UriParser\<close> with \<open>UriParts\<close> and \<open>UriError\<close>. Strings are UTF-8 byte strings, so
  the slices of the source are sublists; every character it looks for is ASCII and cannot be part of
  a longer UTF-8 sequence. The lemmas say what the parser makes of a string put together from a
  scheme, an authority, a path and a fragment, and which characters a valid host name has.
\<close>

unbundle bit_operations_syntax

section \<open>Character classes\<close>

definition ascii_in :: "nat \<Rightarrow> nat \<Rightarrow> char \<Rightarrow> bool" where
  "ascii_in a b c \<longleftrightarrow> a \<le> of_char c \<and> of_char c \<le> b"

definition is_ascii_digit :: "char \<Rightarrow> bool" where
  "is_ascii_digit c \<longleftrightarrow> ascii_in 48 57 c"

definition is_ascii_alphabetic :: "char \<Rightarrow> bool" where
  "is_ascii_alphabetic c \<longleftrightarrow> ascii_in 65 90 c \<or> ascii_in 97 122 c"

definition is_ascii_alphanumeric :: "char \<Rightarrow> bool" where
  "is_ascii_alphanumeric c \<longleftrightarrow> is_ascii_alphabetic c \<or> is_ascii_digit c"

definition is_ascii_hexdigit :: "char \<Rightarrow> bool" where
  "is_ascii_hexdigit c \<longleftrightarrow> is_ascii_digit c \<or> ascii_in 65 70 c \<or> ascii_in 97 102 c"

lemmas ascii_defs = ascii_in_def is_ascii_digit_def is_ascii_alphabetic_def is_ascii_alphanumeric_def is_ascii_hexdigit_def

section \<open>The parser\<close>

datatype uri_error = InvalidScheme | InvalidUriAuthority | InvalidPath | InvalidQuery | InvalidFragment
  | InvalidUriPercentEncoding | UnexpectedEof

record uri_parts =
  uri_scheme :: "string option"
  uri_authority :: "string option"
  uri_path :: string
  uri_query :: "string option"
  uri_fragment :: "string option"

definition hex_digit :: "char \<Rightarrow> byte option" where
  "hex_digit c =
     (let n = of_char c :: nat in
      if is_ascii_digit c then Some (of_nat (n - 48))
      else if ascii_in 97 102 c then Some (of_nat (n - 97 + 10))
      else if ascii_in 65 70 c then Some (of_nat (n - 65 + 10))
      else None)"

fun percent_bytes :: "string \<Rightarrow> uri_error + bytes" where
  "percent_bytes [] = Inr []"
| "percent_bytes (ch # s) =
     (if ch = CHR ''%'' then
        case s of
          hex1 # hex2 # r \<Rightarrow>
            (case (hex_digit hex1, hex_digit hex2) of
               (Some byte1, Some byte2) \<Rightarrow>
                 and_then (percent_bytes r) (\<lambda>bs. Inr (((push_bit 4 byte1) OR byte2) # bs))
             | _ \<Rightarrow> Inl InvalidUriPercentEncoding)
        | _ \<Rightarrow> Inl InvalidUriPercentEncoding
      else and_then (percent_bytes s) (\<lambda>bs. Inr (as_bytes [ch] @ bs)))"

definition percent_decode :: "string \<Rightarrow> uri_error + string" where
  "percent_decode s = and_then (percent_bytes s) (\<lambda>bs. ok_or (from_utf8 bs) InvalidUriPercentEncoding)"

definition u8_max :: nat where
  "u8_max = 255"

definition validate_hostname :: "string \<Rightarrow> uri_error + unit" where
  "validate_hostname h =
     (if h = [] then Inl InvalidUriAuthority
      else if hd h = CHR ''['' \<and> last h = CHR '']'' then
        (let ipv6 = butlast (tl h) in
         if ipv6 = [] then Inl InvalidUriAuthority
         else if list_all (\<lambda>c. is_ascii_hexdigit c \<or> c = CHR '':'' \<or> c = CHR ''%'' \<or> is_ascii_alphanumeric c) ipv6
         then Inr () else Inl InvalidUriAuthority)
      else if length (split_on (CHR ''.'') h) = 4 \<and>
          list_all (\<lambda>part. parse_unsigned u8_max part \<noteq> None \<and> part \<noteq> []) (split_on (CHR ''.'') h) then Inr ()
      else if hd h = CHR ''-'' \<or> last h = CHR ''-'' then Inl InvalidUriAuthority
      else if hd h = CHR ''.'' \<or> last h = CHR ''.'' then Inl InvalidUriAuthority
      else if \<not> list_all (\<lambda>c. is_ascii_alphanumeric c \<or> c = CHR ''-'' \<or> c = CHR ''.'' \<or> c = CHR ''_'') h
        then Inl InvalidUriAuthority
      else if length h > 255 then Inl InvalidUriAuthority
      else Inr ())"

text \<open>
  \<open>find\<close> followed by slicing: the string up to the first character of a class, and from there on.
\<close>

definition before :: "char set \<Rightarrow> string \<Rightarrow> string" where
  "before cs s = takeWhile (\<lambda>c. c \<notin> cs) s"

definition from_first :: "char set \<Rightarrow> string \<Rightarrow> string" where
  "from_first cs s = dropWhile (\<lambda>c. c \<notin> cs) s"

definition starts_with :: "string \<Rightarrow> string \<Rightarrow> bool" where
  "starts_with prefix s \<longleftrightarrow> take (length prefix) s = prefix"

definition some_nonempty :: "string \<Rightarrow> string option" where
  "some_nonempty s = (if s = [] then None else Some s)"

definition parse_scheme_part :: "string \<Rightarrow> uri_error + (string option \<times> string)" where
  "parse_scheme_part input =
     (if starts_with ''://'' input then Inl InvalidScheme
      else if CHR '':'' \<in> set input then
        (let scheme_str = before {CHR '':''} input in
         if scheme_str = [] then Inl InvalidScheme
         else if \<not> is_ascii_alphabetic (hd scheme_str) then Inl InvalidScheme
         else if \<not> list_all (\<lambda>c. is_ascii_alphanumeric c \<or> c \<in> {CHR ''+'', CHR ''-'', CHR ''.''}) scheme_str
           then Inl InvalidScheme
         else Inr (Some scheme_str, tl (from_first {CHR '':''} input)))
      else Inr (None, input))"

definition parse_authority_part :: "string \<Rightarrow> string option \<times> string" where
  "parse_authority_part after_scheme =
     (if starts_with ''//'' after_scheme then
        (let after_slashes = drop 2 after_scheme in
         (some_nonempty (before {CHR ''/'', CHR ''?'', CHR ''#''} after_slashes),
          from_first {CHR ''/'', CHR ''?'', CHR ''#''} after_slashes))
      else (None, after_scheme))"

definition parse_query_part :: "string \<Rightarrow> string option \<times> string" where
  "parse_query_part remaining =
     (if starts_with ''?'' remaining then
        (some_nonempty (before {CHR ''#''} (tl remaining)), from_first {CHR ''#''} (tl remaining))
      else (None, remaining))"

definition parse_fragment_part :: "string \<Rightarrow> string option" where
  "parse_fragment_part remaining = (if starts_with ''#'' remaining then some_nonempty (tl remaining) else None)"

definition uri_parse :: "string \<Rightarrow> uri_error + uri_parts" where
  "uri_parse input =
     (if input = [] then Inl InvalidScheme
      else and_then (parse_scheme_part input) (\<lambda>(scheme, after_scheme).
        let (authority_str, path_start) = parse_authority_part after_scheme;
            path = before {CHR ''?'', CHR ''#''} path_start;
            (query, remaining) = parse_query_part (from_first {CHR ''?'', CHR ''#''} path_start)
        in Inr \<lparr>uri_scheme = scheme, uri_authority = authority_str, uri_path = path, uri_query = query,
                uri_fragment = parse_fragment_part remaining\<rparr>))"

section \<open>Lemmas on slices\<close>

lemma before_append: "set s \<inter> cs = {} \<Longrightarrow> before cs (s @ t) = s @ before cs t"
  unfolding before_def by (rule takeWhile_append2) auto

lemma from_first_append: "set s \<inter> cs = {} \<Longrightarrow> from_first cs (s @ t) = from_first cs t"
  unfolding from_first_def by (rule dropWhile_append2) auto

lemma before_stop: "c \<in> cs \<Longrightarrow> before cs (c # t) = []"
  and from_first_stop: "c \<in> cs \<Longrightarrow> from_first cs (c # t) = c # t"
  and before_Nil: "before cs [] = []" and from_first_Nil: "from_first cs [] = []"
  by (simp_all add: before_def from_first_def)

lemmas slice_simps = before_append from_first_append before_stop from_first_stop before_Nil from_first_Nil

lemma before_clean: "set (before cs s) \<inter> cs = {}"
  by (auto simp: before_def dest: set_takeWhileD)

text \<open>What the parser makes of a canonical string.\<close>

lemma uri_parse_canonical:
  assumes "scheme \<noteq> []" "is_ascii_alphabetic (hd scheme)"
    and "list_all (\<lambda>c. is_ascii_alphanumeric c \<or> c \<in> {CHR ''+'', CHR ''-'', CHR ''.''}) scheme" "CHR '':'' \<notin> set scheme"
    and a: "auth \<noteq> []" "set auth \<inter> {CHR ''/'', CHR ''?'', CHR ''#''} = {}"
    and p: "set path \<inter> {CHR ''?'', CHR ''#''} = {}"
    and f: "frag \<noteq> None \<longrightarrow> the frag \<noteq> []"
  shows "uri_parse (scheme @ ''://'' @ auth @ (CHR ''/'' # path) @ (case frag of None \<Rightarrow> [] | Some g \<Rightarrow> CHR ''#'' # g)) =
    Inr \<lparr>uri_scheme = Some scheme, uri_authority = Some auth, uri_path = CHR ''/'' # path, uri_query = None, uri_fragment = frag\<rparr>"
proof -
  let ?tail = "case frag of None \<Rightarrow> [] | Some g \<Rightarrow> CHR ''#'' # g"
  have "\<not> starts_with ''://'' (scheme @ ''://'' @ rest)" for rest
    using assms(1,4) by (cases scheme) (auto simp: starts_with_def)
  then have 1: "parse_scheme_part (scheme @ ''://'' @ rest) = Inr (Some scheme, ''//'' @ rest)" for rest
    using assms(1-4) by (simp add: parse_scheme_part_def slice_simps)
  have 2: "parse_authority_part (''//'' @ auth @ (CHR ''/'' # path) @ ?tail) = (Some auth, (CHR ''/'' # path) @ ?tail)"
    using a by (simp add: parse_authority_part_def starts_with_def slice_simps some_nonempty_def)
  have 3: "before {CHR ''?'', CHR ''#''} ((CHR ''/'' # path) @ ?tail) = CHR ''/'' # path"
    "from_first {CHR ''?'', CHR ''#''} ((CHR ''/'' # path) @ ?tail) = ?tail"
    using p by (auto simp: before_append from_first_append before_stop from_first_stop before_Nil from_first_Nil split: option.split
        simp del: append_Cons)
  have 4: "parse_query_part ?tail = (None, ?tail)" "parse_fragment_part ?tail = frag"
    using f by (auto simp: parse_query_part_def parse_fragment_part_def starts_with_def some_nonempty_def split: option.split)
  show ?thesis
    unfolding uri_parse_def 1 and_then_simps prod.case 2 Let_def 3 4 using assms(1) by simp
qed

section \<open>Host names\<close>

lemma set_split_on: "x \<in> set s \<Longrightarrow> x = c \<or> (\<exists>part\<in>set (split_on c s). x \<in> set part)"
proof (induction s)
  case (Cons a s)
  then show ?case by (cases "split_on c s") auto
qed simp

lemma parse_digits_chars: "parse_digits limit s acc = Some n \<Longrightarrow> list_all is_ascii_digit s"
  by (induction limit s acc rule: parse_digits.induct)
    (auto simp: digit_value_def ascii_defs Let_def split: option.splits if_splits)

lemma parse_unsigned_chars: "parse_unsigned limit s = Some n \<Longrightarrow> list_all (\<lambda>c. c = CHR ''+'' \<or> is_ascii_digit c) s"
  by (cases s) (auto simp: parse_unsigned_def Let_def list_all_iff simp del: parse_digits.simps
      split: if_splits dest!: parse_digits_chars)

text \<open>The characters that delimit an authority are in none of the classes a host name is made of.\<close>

lemma alphanumeric_plain:
  assumes "is_ascii_alphanumeric c \<or> is_ascii_hexdigit c \<or> is_ascii_digit c"
  shows "c \<notin> {CHR ''/'', CHR ''?'', CHR ''#'', CHR ''['', CHR '']'', CHR '':'', CHR ''@''}"
  using assms by (auto simp: ascii_defs)

lemma ipv4_chars:
  assumes "list_all (\<lambda>part. parse_unsigned u8_max part \<noteq> None \<and> part \<noteq> []) (split_on (CHR ''.'') h)" and "c \<in> set h"
  shows "c = CHR ''.'' \<or> c = CHR ''+'' \<or> is_ascii_digit c"
proof -
  have "c = CHR ''.'' \<or> (\<exists>part \<in> set (split_on (CHR ''.'') h). c \<in> set part)"
    using set_split_on [of c h "CHR ''.''"] assms(2) by auto
  then show ?thesis
    using assms(1) by (fastforce simp: list_all_iff dest: parse_unsigned_chars)
qed

definition plain_host :: "string \<Rightarrow> bool" where
  "plain_host h \<longleftrightarrow> h \<noteq> [] \<and> set h \<inter> {CHR ''/'', CHR ''?'', CHR ''#''} = {} \<and>
     ((\<exists>body. h = CHR ''['' # body @ [CHR '']''] \<and> CHR '']'' \<notin> set body) \<or> hd h \<noteq> CHR ''['' \<and> CHR '':'' \<notin> set h)"

lemma plain_hostI:
  assumes "h \<noteq> []" "\<And>c. c \<in> set h \<Longrightarrow> is_ascii_alphanumeric c \<or> is_ascii_digit c \<or> c \<in> {CHR ''+'', CHR ''-'', CHR ''.'', CHR ''_''}"
  shows "plain_host h"
proof -
  have "c \<notin> {CHR ''/'', CHR ''?'', CHR ''#'', CHR ''['', CHR '']'', CHR '':''}" if "c \<in> set h" for c
    using assms(2) [OF that] alphanumeric_plain [of c] by auto
  then show ?thesis using assms(1) hd_in_set [of h] unfolding plain_host_def by blast
qed

lemma bracket_host:
  assumes "hd h = CHR ''[''" "last h = CHR '']''" "h \<noteq> []"
  shows "h = CHR ''['' # butlast (tl h) @ [CHR '']'']"
proof -
  obtain t where h: "h = CHR ''['' # t" using assms by (cases h) auto
  then have "t \<noteq> []" using assms by auto
  then show ?thesis using h assms append_butlast_last_id [of t] by simp
qed

lemma valid_hostname_plain:
  assumes "validate_hostname h = Inr ()"
  shows "plain_host h"
proof -
  have ne: "h \<noteq> []" using assms by (auto simp: validate_hostname_def)
  consider (ipv6) "hd h = CHR ''['' \<and> last h = CHR '']''"
    | (ipv4) "list_all (\<lambda>part. parse_unsigned u8_max part \<noteq> None \<and> part \<noteq> []) (split_on (CHR ''.'') h)"
    | (name) "list_all (\<lambda>c. is_ascii_alphanumeric c \<or> c = CHR ''-'' \<or> c = CHR ''.'' \<or> c = CHR ''_'') h"
    using assms by (auto simp: validate_hostname_def Let_def split: if_splits)
  then show ?thesis
  proof cases
    case ipv6
    then have "list_all (\<lambda>c. is_ascii_hexdigit c \<or> c = CHR '':'' \<or> c = CHR ''%'' \<or> is_ascii_alphanumeric c) (butlast (tl h))"
      using assms ne by (auto simp: validate_hostname_def Let_def split: if_splits)
    then have clean: "set (butlast (tl h)) \<inter> {CHR ''/'', CHR ''?'', CHR ''#'', CHR '']''} = {}"
      using alphanumeric_plain by (fastforce simp: list_all_iff)
    have h: "h = CHR ''['' # butlast (tl h) @ [CHR '']'']" using ipv6 ne by (intro bracket_host) auto
    then have "set h = {CHR ''['', CHR '']''} \<union> set (butlast (tl h))"
      by (metis Un_insert_left Un_insert_right insert_commute list.simps(15) set_append set_simps(1) sup_bot.left_neutral sup_bot.right_neutral)
    with clean have "set h \<inter> {CHR ''/'', CHR ''?'', CHR ''#''} = {}" by auto
    then show ?thesis using ne h clean unfolding plain_host_def by blast
  next
    case ipv4
    then show ?thesis using ne ipv4_chars [OF ipv4] by (intro plain_hostI) auto
  next
    case name
    then show ?thesis using ne by (intro plain_hostI) (auto simp: list_all_iff)
  qed
qed

end
