(* ===== verification/Actor_Path.thy ===== *)
theory Actor_Path
  imports Uri_Parser
begin

text \<open>
  \<open>actor-core-kernel/src/actor/actor_path\<close>: canonical actor paths with their segments, parts, parser
  and formatter. A parsed path is well formed, and a well formed path is read back from its canonical
  URI. \<open>RootActorPath\<close> and \<open>ChildActorPath\<close> are paths with a checked number of segments.
\<close>

section \<open>Data\<close>

datatype actor_path_error =
    EmptySegment | ReservedSegment | InvalidSegmentChar string nat | InvalidPercentEncoding | RelativeEscape
  | InvalidUri | UnsupportedScheme | MissingSystemName | InvalidAuthority | NotRootPath | NotChildPath

datatype path_scheme = Fraktor | FraktorTcp

definition scheme_as_str :: "path_scheme \<Rightarrow> string" where
  "scheme_as_str s = (case s of Fraktor \<Rightarrow> ''fraktor'' | FraktorTcp \<Rightarrow> ''fraktor.tcp'')"

datatype guardian_kind = SystemGuardian | UserGuardian

definition guardian_segment :: "guardian_kind \<Rightarrow> string" where
  "guardian_segment g = (case g of SystemGuardian \<Rightarrow> ''system'' | UserGuardian \<Rightarrow> ''user'')"

record path_authority =
  pa_host :: string
  pa_port :: "u16 option"

definition pa_endpoint :: "path_authority \<Rightarrow> string" where
  "pa_endpoint a = (case pa_port a of Some p \<Rightarrow> pa_host a @ '':'' @ decimal (unat p) | None \<Rightarrow> pa_host a)"

record path_parts =
  pp_scheme :: path_scheme
  pp_system :: string
  pp_authority :: "path_authority option"
  pp_guardian :: guardian_kind

definition parts_local :: "string \<Rightarrow> path_parts" where
  "parts_local s = \<lparr>pp_scheme = Fraktor, pp_system = s, pp_authority = None, pp_guardian = UserGuardian\<rparr>"

definition parts_with_authority :: "string \<Rightarrow> (string \<times> u16) option \<Rightarrow> path_parts" where
  "parts_with_authority s a =
     \<lparr>pp_scheme = FraktorTcp, pp_system = s,
      pp_authority = map_option (\<lambda>(h, p). \<lparr>pa_host = h, pa_port = Some p\<rparr>) a, pp_guardian = UserGuardian\<rparr>"

definition with_authority_host :: "string \<Rightarrow> path_parts \<Rightarrow> path_parts" where
  "with_authority_host h p =
     p\<lparr>pp_authority := Some (case pp_authority p of Some a \<Rightarrow> a\<lparr>pa_host := h\<rparr> | None \<Rightarrow> \<lparr>pa_host = h, pa_port = None\<rparr>)\<rparr>"

definition with_authority_port :: "u16 \<Rightarrow> path_parts \<Rightarrow> path_parts" where
  "with_authority_port n p =
     p\<lparr>pp_authority := Some (case pp_authority p of Some a \<Rightarrow> a\<lparr>pa_port := Some n\<rparr> | None \<Rightarrow> \<lparr>pa_host = [], pa_port = Some n\<rparr>)\<rparr>"

definition authority_endpoint_of :: "path_parts \<Rightarrow> string option" where
  "authority_endpoint_of p = map_option pa_endpoint (pp_authority p)"

record path_segment =
  seg_raw :: string
  seg_decoded :: string

record actor_path =
  ap_parts :: path_parts
  ap_segments :: "path_segment list"
  ap_uid :: "u64 option"

section \<open>Segments\<close>

definition ALLOWED_PUNCTUATION :: "char set" where
  "ALLOWED_PUNCTUATION = set ''-_.*+:@&=,!~;'' \<union> {CHR 0x27}"

text \<open>The UTF-8 bytes of the first character of a string.\<close>

definition first_char :: "string \<Rightarrow> string" where
  "first_char s = hd s # takeWhile (\<lambda>c. continuation (of_nat (of_char c))) (tl s)"

fun validate_chars :: "nat \<Rightarrow> string \<Rightarrow> actor_path_error + unit" where
  "validate_chars idx [] = Inr ()"
| "validate_chars idx (ch # s) =
     (if ch = CHR ''%'' then
        case s of
          hi # lo # r \<Rightarrow>
            if \<not> is_ascii_hexdigit hi \<or> \<not> is_ascii_hexdigit lo then Inl InvalidPercentEncoding
            else validate_chars (idx + 3) r
        | _ \<Rightarrow> Inl InvalidPercentEncoding
      else if is_ascii_alphanumeric ch \<or> ch \<in> ALLOWED_PUNCTUATION then validate_chars (idx + 1) s
      else Inl (InvalidSegmentChar (first_char (ch # s)) idx))"

definition validate_segment :: "string \<Rightarrow> actor_path_error + unit" where
  "validate_segment s =
     (if s = [] then Inl EmptySegment
      else if starts_with ''$'' s then Inl ReservedSegment
      else validate_chars 0 s)"

definition decode_segment :: "string \<Rightarrow> actor_path_error + string" where
  "decode_segment s =
     (if CHR ''%'' \<in> set s then
        case percent_decode s of Inl _ \<Rightarrow> Inl InvalidPercentEncoding | Inr d \<Rightarrow> Inr d
      else Inr s)"

definition segment_new :: "string \<Rightarrow> actor_path_error + path_segment" where
  "segment_new s =
     and_then (validate_segment s) (\<lambda>_.
     and_then (decode_segment s) (\<lambda>d. Inr \<lparr>seg_raw = s, seg_decoded = d\<rparr>))"

fun segments_new :: "string list \<Rightarrow> actor_path_error + path_segment list" where
  "segments_new [] = Inr []"
| "segments_new (s # ss) = and_then (segment_new s) (\<lambda>x. and_then (segments_new ss) (\<lambda>xs. Inr (x # xs)))"

section \<open>Paths\<close>

text \<open>A guardian segment is valid; the source expects it.\<close>

definition guardian_path_segment :: "guardian_kind \<Rightarrow> path_segment" where
  "guardian_path_segment g = \<lparr>seg_raw = guardian_segment g, seg_decoded = guardian_segment g\<rparr>"

definition ensure_guardian_prefix :: "path_parts \<Rightarrow> path_segment list \<Rightarrow> path_segment list" where
  "ensure_guardian_prefix parts segments =
     (let guardian = guardian_segment (pp_guardian parts) in
      if segments \<noteq> [] \<and> seg_raw (hd segments) = guardian then segments
      else guardian_path_segment (pp_guardian parts) # segments)"

definition from_parts_and_segments :: "path_parts \<Rightarrow> path_segment list \<Rightarrow> u64 option \<Rightarrow> actor_path" where
  "from_parts_and_segments parts segments uid_opt =
     \<lparr>ap_parts = parts, ap_segments = ensure_guardian_prefix parts segments, ap_uid = uid_opt\<rparr>"

definition path_from_parts :: "path_parts \<Rightarrow> actor_path" where
  "path_from_parts parts = from_parts_and_segments parts [] None"

definition root_with_guardian :: "guardian_kind \<Rightarrow> actor_path" where
  "root_with_guardian g = path_from_parts ((parts_local ''cellactor'')\<lparr>pp_guardian := g\<rparr>)"

definition try_from_segments :: "string list \<Rightarrow> actor_path_error + actor_path" where
  "try_from_segments ss =
     and_then (segments_new ss) (\<lambda>segments. Inr (from_parts_and_segments (parts_local ''cellactor'') segments None))"

definition path_with_uid :: "u64 \<Rightarrow> actor_path \<Rightarrow> actor_path" where
  "path_with_uid u p = p\<lparr>ap_uid := Some u\<rparr>"

definition try_child :: "string \<Rightarrow> actor_path \<Rightarrow> actor_path_error + actor_path" where
  "try_child name p = and_then (segment_new name) (\<lambda>s. Inr (p\<lparr>ap_segments := ap_segments p @ [s]\<rparr>))"

definition to_relative_string :: "actor_path \<Rightarrow> string" where
  "to_relative_string p =
     (if ap_segments p = [] then ''/'' else concat (map (\<lambda>s. CHR ''/'' # seg_raw s) (ap_segments p)))"

definition root_try_from_path :: "actor_path \<Rightarrow> actor_path_error + actor_path" where
  "root_try_from_path p = (if length (ap_segments p) = 1 then Inr p else Inl NotRootPath)"

definition child_try_from_path :: "actor_path \<Rightarrow> actor_path_error + actor_path" where
  "child_try_from_path p = (if length (ap_segments p) \<ge> 2 then Inr p else Inl NotChildPath)"

definition child_from_parent :: "actor_path \<Rightarrow> string \<Rightarrow> actor_path_error + actor_path" where
  "child_from_parent parent name = try_child name parent"

definition child_name :: "actor_path \<Rightarrow> string option" where
  "child_name p = (if ap_segments p = [] then None else Some (seg_raw (last (ap_segments p))))"

text \<open>\<open>ActorPathComparator::eq\<close> ignores the uid.\<close>

definition comparator_eq :: "actor_path \<Rightarrow> actor_path \<Rightarrow> bool" where
  "comparator_eq p q \<longleftrightarrow> ap_parts p = ap_parts q \<and> ap_segments p = ap_segments q"

section \<open>Formatter\<close>

definition format_authority :: "path_parts \<Rightarrow> string" where
  "format_authority parts =
     (case pp_authority parts of
        Some a \<Rightarrow>
          if pa_host a \<noteq> [] then
            ''@'' @ pa_host a @ (case pa_port a of Some n \<Rightarrow> '':'' @ decimal (unat n) | None \<Rightarrow> [])
          else []
      | None \<Rightarrow> [])"

definition to_canonical_uri :: "actor_path \<Rightarrow> string" where
  "to_canonical_uri p =
     scheme_as_str (pp_scheme (ap_parts p)) @ ''://'' @ pp_system (ap_parts p) @ format_authority (ap_parts p) @
     (let relative = to_relative_string p in if relative = [] then ''/'' else relative) @
     (case ap_uid p of Some u \<Rightarrow> ''#'' @ decimal (unat u) | None \<Rightarrow> [])"

section \<open>Parser\<close>

definition u64_max :: nat where
  "u64_max = 2 ^ 64 - 1"

definition parse_scheme :: "string option \<Rightarrow> actor_path_error + path_scheme" where
  "parse_scheme raw =
     (if raw = Some ''fraktor'' \<or> raw = None then Inr Fraktor
      else if raw = Some ''fraktor.tcp'' then Inr FraktorTcp
      else Inl UnsupportedScheme)"

definition parse_port :: "string \<Rightarrow> actor_path_error + u16" where
  "parse_port s = (case parse_unsigned u16_max s of Some n \<Rightarrow> Inr (of_nat n) | None \<Rightarrow> Inl InvalidAuthority)"

definition check_hostname :: "string \<Rightarrow> actor_path_error + unit" where
  "check_hostname h = (case validate_hostname h of Inl _ \<Rightarrow> Inl InvalidAuthority | Inr u \<Rightarrow> Inr u)"

definition parse_host_and_port :: "string \<Rightarrow> actor_path_error + (string \<times> u16 option)" where
  "parse_host_and_port s =
     (if s = [] then Inl InvalidAuthority
      else if hd s = CHR ''['' then
        if CHR '']'' \<notin> set s then Inl InvalidAuthority
        else
          let h = before {CHR '']''} s @ '']''; remainder = tl (from_first {CHR '']''} s) in
          and_then (check_hostname h) (\<lambda>_.
            if remainder = [] then Inr (h, None)
            else if hd remainder \<noteq> CHR '':'' then Inl InvalidAuthority
            else and_then (parse_port (tl remainder)) (\<lambda>n. Inr (h, Some n)))
      else case rsplit_once (CHR '':'') s of
        Some (h, port_text) \<Rightarrow>
          if h = [] then Inl InvalidAuthority
          else and_then (check_hostname h) (\<lambda>_. and_then (parse_port port_text) (\<lambda>n. Inr (h, Some n)))
      | None \<Rightarrow> and_then (check_hostname s) (\<lambda>_. Inr (s, None)))"

definition split_authority :: "string \<Rightarrow> actor_path_error + (string \<times> (string \<times> u16 option) option)" where
  "split_authority s =
     (if s = [] then Inl MissingSystemName
      else
        let system_name = before {CHR ''@''} s in
        if system_name = [] then Inl MissingSystemName
        else case from_first {CHR ''@''} s of
          [] \<Rightarrow> Inr (system_name, None)
        | _ # authority_host \<Rightarrow> and_then (parse_host_and_port authority_host) (\<lambda>hp. Inr (system_name, Some hp)))"

definition parse_segments :: "string \<Rightarrow> actor_path_error + path_segment list" where
  "parse_segments path =
     (if path = [] then Inr [] else segments_new (filter (\<lambda>s. s \<noteq> []) (split_on slash path)))"

definition parts_of_uri :: "path_scheme \<Rightarrow> string \<Rightarrow> (string \<times> u16 option) option \<Rightarrow> string \<Rightarrow> path_parts" where
  "parts_of_uri scheme system_name host_info path =
     (let parts = (parts_local system_name)\<lparr>pp_scheme := scheme\<rparr>;
          parts = (case host_info of
              None \<Rightarrow> parts
            | Some (h, None) \<Rightarrow> with_authority_host h parts
            | Some (h, Some n) \<Rightarrow> with_authority_port n (with_authority_host h parts))
      in if starts_with ''/system'' path then parts\<lparr>pp_guardian := SystemGuardian\<rparr> else parts)"

definition actor_path_parse :: "string \<Rightarrow> actor_path_error + actor_path" where
  "actor_path_parse input =
     (case uri_parse input of
        Inl _ \<Rightarrow> Inl InvalidUri
      | Inr uri \<Rightarrow>
          and_then (parse_scheme (uri_scheme uri)) (\<lambda>scheme.
          and_then (ok_or (uri_authority uri) MissingSystemName) (\<lambda>auth.
          and_then (split_authority auth) (\<lambda>(system_name, host_info).
          and_then (parse_segments (uri_path uri)) (\<lambda>segments.
            Inr (from_parts_and_segments (parts_of_uri scheme system_name host_info (uri_path uri)) segments
              (Option.bind (uri_fragment uri) (\<lambda>raw. map_option of_nat (parse_unsigned u64_max raw)))))))))"

section \<open>Well-formed paths\<close>

definition wf_parts :: "path_parts \<Rightarrow> bool" where
  "wf_parts parts \<longleftrightarrow> pp_system parts \<noteq> [] \<and> set (pp_system parts) \<inter> {CHR ''@'', CHR ''/'', CHR ''?'', CHR ''#''} = {}
     \<and> (case pp_authority parts of None \<Rightarrow> True | Some a \<Rightarrow> validate_hostname (pa_host a) = Inr ())"

definition wf_path :: "actor_path \<Rightarrow> bool" where
  "wf_path p \<longleftrightarrow> wf_parts (ap_parts p) \<and> ap_segments p \<noteq> []
     \<and> seg_raw (hd (ap_segments p)) = guardian_segment (pp_guardian (ap_parts p))
     \<and> list_all (\<lambda>s. segment_new (seg_raw s) = Inr s) (ap_segments p)"

lemma guardian_segment_valid: "segment_new (guardian_segment g) = Inr (guardian_path_segment g)"
  by (cases g; simp add: guardian_segment_def guardian_path_segment_def; code_simp)

lemma hexdigit_plain: "is_ascii_hexdigit c \<Longrightarrow> c \<notin> {CHR ''/'', CHR ''?'', CHR ''#''}"
  using alphanumeric_plain [of c] by simp

lemma segment_char_plain:
  "is_ascii_alphanumeric c \<or> c \<in> ALLOWED_PUNCTUATION \<Longrightarrow> c \<notin> {CHR ''/'', CHR ''?'', CHR ''#''}"
  using alphanumeric_plain [of c] by (auto simp: ALLOWED_PUNCTUATION_def)

lemma validate_chars_Cons:
  assumes "validate_chars i (ch # s) = Inr ()"
  obtains hi lo r where "ch = CHR ''%''" "s = hi # lo # r" "is_ascii_hexdigit hi" "is_ascii_hexdigit lo" "validate_chars (i + 3) r = Inr ()"
  | "ch \<noteq> CHR ''%''" "is_ascii_alphanumeric ch \<or> ch \<in> ALLOWED_PUNCTUATION" "validate_chars (i + 1) s = Inr ()"
  using assms unfolding validate_chars.simps(2) by (cases s; cases "tl s") (simp_all split: if_splits)

lemma validate_chars_plain: "validate_chars i s = Inr () \<Longrightarrow> set s \<inter> {CHR ''/'', CHR ''?'', CHR ''#''} = {}"
proof (induction s arbitrary: i rule: length_induct)
  case (1 s)
  show ?case
  proof (cases s)
    case (Cons ch t)
    from 1(2) [unfolded Cons] show ?thesis
    proof (cases rule: validate_chars_Cons)
      case (1 hi lo r)
      then have "set r \<inter> {CHR ''/'', CHR ''?'', CHR ''#''} = {}"
        using Cons \<open>\<forall>ys. length ys < length s \<longrightarrow> _\<close> by (metis Suc_lessD length_Cons lessI)
      then show ?thesis using 1 Cons hexdigit_plain [of hi] hexdigit_plain [of lo] by simp
    next
      case 2
      then have "set t \<inter> {CHR ''/'', CHR ''?'', CHR ''#''} = {}"
        using Cons \<open>\<forall>ys. length ys < length s \<longrightarrow> _\<close> by (metis length_Cons lessI)
      then show ?thesis using 2 Cons segment_char_plain [of ch] by simp
    qed
  qed simp
qed

lemma segment_new_Inr:
  assumes "segment_new r = Inr s"
  shows "seg_raw s = r \<and> r \<noteq> [] \<and> set r \<inter> {CHR ''/'', CHR ''?'', CHR ''#''} = {}"
proof -
  obtain u d where "validate_segment r = Inr u" and s: "s = \<lparr>seg_raw = r, seg_decoded = d\<rparr>"
    using assms unfolding segment_new_def and_then_eq_Inr by blast
  then have "r \<noteq> []" "validate_chars 0 r = Inr ()" by (auto simp: validate_segment_def split: if_splits)
  with s show ?thesis using validate_chars_plain by simp
qed

lemma segments_new_Inr: "segments_new rs = Inr ss \<Longrightarrow> list_all (\<lambda>s. segment_new (seg_raw s) = Inr s) ss"
  using segment_new_Inr by (induction rs arbitrary: ss) (fastforce simp: and_then_eq_Inr)+

lemma segments_new_raw: "list_all (\<lambda>s. segment_new (seg_raw s) = Inr s) ss \<Longrightarrow> segments_new (map seg_raw ss) = Inr ss"
  by (induction ss) auto

lemma split_on_plain: "c \<notin> set s \<Longrightarrow> split_on c s = [s]"
  by (induction s) auto

lemma split_on_append: "c \<notin> set s \<Longrightarrow> split_on c (s @ c # r) = s # split_on c r"
  by (induction s) auto

lemma split_on_join:
  "c \<notin> set s \<Longrightarrow> list_all (\<lambda>s. c \<notin> set s) ss \<Longrightarrow> split_on c (s @ concat (map ((#) c) ss)) = s # ss"
  by (induction ss arbitrary: s) (simp_all add: split_on_plain split_on_append)

lemma relative_split:
  assumes "wf_path p"
  shows "split_on slash (to_relative_string p) = [] # map seg_raw (ap_segments p)"
    and "set (to_relative_string p) \<inter> {CHR ''?'', CHR ''#''} = {}"
proof -
  let ?rs = "map seg_raw (ap_segments p)"
  have plain: "seg_raw s \<noteq> [] \<and> set (seg_raw s) \<inter> {CHR ''/'', CHR ''?'', CHR ''#''} = {}" if "s \<in> set (ap_segments p)" for s
    using assms that segment_new_Inr [of "seg_raw s" s] by (auto simp: wf_path_def list_all_iff)
  have rel: "to_relative_string p = concat (map ((#) (CHR ''/'')) ?rs)"
    using assms by (simp add: to_relative_string_def wf_path_def comp_def)
  have "list_all (\<lambda>s. slash \<notin> set s) ?rs" using plain by (auto simp: list_all_iff slash_def)
  then show "split_on slash (to_relative_string p) = [] # ?rs"
    using split_on_join [of slash "[]" ?rs] rel by (simp add: slash_def)
  show "set (to_relative_string p) \<inter> {CHR ''?'', CHR ''#''} = {}"
    unfolding rel using plain by auto
qed

text \<open>
  The relative string of a well-formed path is an absolute path for \<open>Path_Pattern\<close>: matching a
  recipient against the large-message destinations never runs into an assertion.
\<close>

lemma last_concat_segments: "ss \<noteq> [] \<Longrightarrow> last ss \<noteq> [] \<Longrightarrow> last (concat (map ((#) c) ss)) = last (last ss)"
  by (induction ss) auto

lemma relative_absolute:
  assumes "wf_path p"
  shows "parse_absolute_segments (to_relative_string p) = Some (map seg_raw (ap_segments p))"
proof -
  let ?rs = "map seg_raw (ap_segments p)"
  have ne: "?rs \<noteq> []" using assms by (simp add: wf_path_def)
  have plain: "seg_raw s \<noteq> [] \<and> slash \<notin> set (seg_raw s)" if "s \<in> set (ap_segments p)" for s
    using assms that segment_new_Inr [of "seg_raw s" s] by (auto simp: wf_path_def list_all_iff slash_def)
  have rel: "to_relative_string p = concat (map ((#) slash) ?rs)"
    using assms by (simp add: to_relative_string_def wf_path_def comp_def slash_def)
  have l: "last ?rs \<noteq> [] \<and> slash \<notin> set (last ?rs)"
    using plain last_in_set [OF ne] by (metis imageE list.set_map)
  then have "last (to_relative_string p) \<noteq> slash"
    unfolding rel using ne last_concat_segments [OF ne] by (metis last_in_set)
  moreover have r: "to_relative_string p \<noteq> []" "hd (to_relative_string p) = slash"
    unfolding rel using ne by (cases ?rs; simp)+
  ultimately have "to_relative_string p \<noteq> [slash]" "trim_end_matches slash (to_relative_string p) = to_relative_string p"
    by (auto simp: trim_end_matches_def hd_rev dropWhile_eq_self_iff [THEN iffD2])
  then show ?thesis
    using r relative_split(1) [OF assms] ne plain by (auto simp: parse_absolute_segments_def list_all_iff)
qed

section \<open>Reading a canonical URI\<close>

lemma decimal_delims: "set (decimal n) \<inter> {CHR ''/'', CHR ''?'', CHR ''#'', CHR '']'', CHR '':''} = {}"
proof -
  have "digit_value c = None" if "c \<in> {CHR ''/'', CHR ''?'', CHR ''#'', CHR '']'', CHR '':''}" for c
    using that by (elim insertE emptyE; simp add: digit_value_def)
  moreover have "digit_value c \<noteq> None" if "c \<in> set (decimal n)" for c
    using subsetD [OF set_decimal that] by (elim imageE) (simp add: digit_value_digit)
  ultimately show ?thesis by blast
qed

lemma colon_free_decimal: "CHR '':'' \<notin> set (decimal n)"
  using decimal_delims [of n] by blast

lemma parse_port_decimal: "parse_port (decimal (unat n)) = Inr n"
  using unsigned_less [of n, where ?'a = nat] by (simp add: parse_port_def parse_unsigned_decimal u16_max_def)

definition print_host_port :: "string \<Rightarrow> u16 option \<Rightarrow> string" where
  "print_host_port h n = h @ (case n of Some k \<Rightarrow> '':'' @ decimal (unat k) | None \<Rightarrow> [])"

lemma parse_printed_host:
  assumes "validate_hostname h = Inr ()"
  shows "parse_host_and_port (print_host_port h n) = Inr (h, n)"
proof -
  have ok: "check_hostname h = Inr ()" using assms by (simp add: check_hostname_def)
  have "plain_host h" by (rule valid_hostname_plain [OF assms])
  then consider (ipv6) body where "h = CHR ''['' # body @ [CHR '']'']" "CHR '']'' \<notin> set body"
    | (name) "h \<noteq> []" "hd h \<noteq> CHR ''[''" "CHR '':'' \<notin> set h"
    unfolding plain_host_def by blast
  then show ?thesis
  proof cases
    case ipv6
    have s: "print_host_port h n = (CHR ''['' # body) @ CHR '']'' # (case n of Some k \<Rightarrow> '':'' @ decimal (unat k) | None \<Rightarrow> [])"
      by (simp add: print_host_port_def ipv6)
    have "before {CHR '']''} (print_host_port h n) = CHR ''['' # body"
      "from_first {CHR '']''} (print_host_port h n) = CHR '']'' # (case n of Some k \<Rightarrow> '':'' @ decimal (unat k) | None \<Rightarrow> [])"
      unfolding s using ipv6(2) by (subst before_append from_first_append; simp add: slice_simps)+
    then show ?thesis
      using ok ipv6 by (cases n) (simp_all add: parse_host_and_port_def print_host_port_def parse_port_decimal Let_def)
  next
    case name
    then show ?thesis
      using ok by (cases n) (simp_all add: parse_host_and_port_def print_host_port_def parse_port_decimal
          rsplit_once_absent rsplit_once_last colon_free_decimal)
  qed
qed

lemma split_printed_authority:
  assumes "wf_parts parts"
  shows "split_authority (pp_system parts @ format_authority parts) =
    Inr (pp_system parts, map_option (\<lambda>a. (pa_host a, pa_port a)) (pp_authority parts))"
    and "set (pp_system parts @ format_authority parts) \<inter> {CHR ''/'', CHR ''?'', CHR ''#''} = {}"
proof -
  have sys: "pp_system parts \<noteq> []" "set (pp_system parts) \<inter> {CHR ''@''} = {}" using assms by (auto simp: wf_parts_def)
  have fmt: "format_authority parts = (case pp_authority parts of None \<Rightarrow> [] | Some a \<Rightarrow> CHR ''@'' # print_host_port (pa_host a) (pa_port a))"
    using assms by (auto simp: format_authority_def wf_parts_def print_host_port_def validate_hostname_def split: option.splits)
  show "split_authority (pp_system parts @ format_authority parts) =
      Inr (pp_system parts, map_option (\<lambda>a. (pa_host a, pa_port a)) (pp_authority parts))"
  proof (cases "pp_authority parts")
    case None
    then show ?thesis using sys by (simp add: split_authority_def fmt slice_simps before_append [of _ _ "[]", simplified] from_first_append [of _ _ "[]", simplified])
  next
    case (Some a)
    then have "validate_hostname (pa_host a) = Inr ()" using assms by (simp add: wf_parts_def)
    with Some show ?thesis using sys by (simp add: split_authority_def fmt slice_simps parse_printed_host)
  qed
  have "set (print_host_port (pa_host a) (pa_port a)) \<inter> {CHR ''/'', CHR ''?'', CHR ''#''} = {}" if "pp_authority parts = Some a" for a
  proof -
    have "set (pa_host a) \<inter> {CHR ''/'', CHR ''?'', CHR ''#''} = {}"
      using that assms valid_hostname_plain [of "pa_host a"] by (simp add: wf_parts_def plain_host_def)
    moreover have "set (case pa_port a of Some k \<Rightarrow> '':'' @ decimal (unat k) | None \<Rightarrow> []) \<inter> {CHR ''/'', CHR ''?'', CHR ''#''} = {}"
      using decimal_delims by (cases "pa_port a") simp_all
    ultimately show ?thesis by (simp add: print_host_port_def)
  qed
  then show "set (pp_system parts @ format_authority parts) \<inter> {CHR ''/'', CHR ''?'', CHR ''#''} = {}"
    using assms by (cases "pp_authority parts") (simp_all add: wf_parts_def fmt)
qed

lemma relative_guardian:
  assumes "wf_path p"
  shows "starts_with ''/system'' (to_relative_string p) \<longleftrightarrow> pp_guardian (ap_parts p) = SystemGuardian"
proof -
  obtain s ss where "ap_segments p = s # ss" "seg_raw s = guardian_segment (pp_guardian (ap_parts p))"
    using assms by (cases "ap_segments p") (auto simp: wf_path_def)
  then show ?thesis
    by (cases "pp_guardian (ap_parts p)") (simp_all add: to_relative_string_def guardian_segment_def starts_with_def)
qed

lemma parts_of_printed:
  "parts_of_uri (pp_scheme parts) (pp_system parts) (map_option (\<lambda>a. (pa_host a, pa_port a)) (pp_authority parts)) path =
    parts\<lparr>pp_guardian := if starts_with ''/system'' path then SystemGuardian else UserGuardian\<rparr>"
proof (cases parts)
  case (fields sc sys auth g)
  show ?thesis
  proof (cases auth)
    case (Some a)
    then show ?thesis using fields
      by (cases a; cases "pa_port a") (simp_all add: parts_of_uri_def parts_local_def with_authority_host_def with_authority_port_def Let_def)
  qed (simp add: fields parts_of_uri_def parts_local_def Let_def)
qed

lemma parse_canonical:
  assumes "wf_path p"
  shows "actor_path_parse (to_canonical_uri p) = Inr p"
proof -
  let ?rel = "to_relative_string p" and ?parts = "ap_parts p"
  let ?frag = "map_option (\<lambda>u. decimal (unat u)) (ap_uid p)"
  have wf: "wf_parts ?parts" using assms by (simp add: wf_path_def)
  have "\<exists>path. ?rel = CHR ''/'' # path" using assms by (cases "ap_segments p") (auto simp: wf_path_def to_relative_string_def)
  then obtain path where rel: "?rel = CHR ''/'' # path" by blast
  have form: "to_canonical_uri p = scheme_as_str (pp_scheme ?parts) @ ''://'' @ (pp_system ?parts @ format_authority ?parts) @
      (CHR ''/'' # path) @ (case ?frag of None \<Rightarrow> [] | Some g \<Rightarrow> CHR ''#'' # g)"
    by (simp add: to_canonical_uri_def rel split: option.split)
  have uri: "uri_parse (to_canonical_uri p) = Inr \<lparr>uri_scheme = Some (scheme_as_str (pp_scheme ?parts)),
      uri_authority = Some (pp_system ?parts @ format_authority ?parts), uri_path = ?rel, uri_query = None, uri_fragment = ?frag\<rparr>"
    unfolding form rel
  proof (rule uri_parse_canonical)
    show "set path \<inter> {CHR ''?'', CHR ''#''} = {}" using relative_split(2) [OF assms] rel by simp
    show "set (pp_system ?parts @ format_authority ?parts) \<inter> {CHR ''/'', CHR ''?'', CHR ''#''} = {}"
      by (rule split_printed_authority(2) [OF wf])
    show "pp_system ?parts @ format_authority ?parts \<noteq> []" using wf by (simp add: wf_parts_def)
    show "?frag \<noteq> None \<longrightarrow> the ?frag \<noteq> []" using decimal_not_Nil by (cases "ap_uid p") simp_all
  qed (cases "pp_scheme ?parts"; simp add: scheme_as_str_def ascii_defs)+
  have scheme: "parse_scheme (Some (scheme_as_str (pp_scheme ?parts))) = Inr (pp_scheme ?parts)"
    by (cases "pp_scheme ?parts") (simp_all add: scheme_as_str_def parse_scheme_def)
  have valid: "list_all (\<lambda>s. segment_new (seg_raw s) = Inr s) (ap_segments p)" using assms by (simp add: wf_path_def)
  then have "filter (\<lambda>s. s \<noteq> []) (map seg_raw (ap_segments p)) = map seg_raw (ap_segments p)"
    by (intro filter_True) (auto simp: list_all_iff dest: segment_new_Inr)
  then have segs: "parse_segments ?rel = Inr (ap_segments p)"
    using relative_split(1) [OF assms] segments_new_raw [OF valid] rel by (simp add: parse_segments_def)
  have uid: "Option.bind ?frag (\<lambda>raw. map_option of_nat (parse_unsigned u64_max raw)) = ap_uid p"
  proof (cases "ap_uid p")
    case (Some u)
    have "unat u \<le> u64_max" using unat_u64 [of u] by (simp add: u64_max_def)
    from parse_unsigned_decimal [OF this] show ?thesis using Some by simp
  qed simp
  have g: "?parts\<lparr>pp_guardian := if starts_with ''/system'' ?rel then SystemGuardian else UserGuardian\<rparr> = ?parts"
    unfolding relative_guardian [OF assms] by (cases "pp_guardian ?parts") simp_all
  have "from_parts_and_segments (parts_of_uri (pp_scheme ?parts) (pp_system ?parts)
      (map_option (\<lambda>a. (pa_host a, pa_port a)) (pp_authority ?parts)) ?rel) (ap_segments p) (ap_uid p) = p"
    unfolding parts_of_printed g using assms by (simp add: from_parts_and_segments_def ensure_guardian_prefix_def wf_path_def)
  then show ?thesis
    by (simp only: actor_path_parse_def uri sum.case uri_parts.simps scheme and_then_simps ok_or_simps
        split_printed_authority(1) [OF wf] prod.case segs uid)
qed

section \<open>What the parser returns\<close>

lemma wf_ensure_guardian:
  assumes "list_all (\<lambda>s. segment_new (seg_raw s) = Inr s) ss" and "wf_parts parts"
  shows "wf_path (from_parts_and_segments parts ss u)"
  using assms guardian_segment_valid [of "pp_guardian parts"]
  by (auto simp: wf_path_def from_parts_and_segments_def ensure_guardian_prefix_def guardian_path_segment_def Let_def)

lemma parse_host_valid: "parse_host_and_port s = Inr (h, n) \<Longrightarrow> validate_hostname h = Inr ()"
  by (auto simp: parse_host_and_port_def check_hostname_def and_then_eq_Inr Let_def split: if_splits option.splits sum.splits)

lemma split_authority_valid:
  assumes "split_authority auth = Inr (sys, hp)" and "set auth \<inter> {CHR ''/'', CHR ''?'', CHR ''#''} = {}"
  shows "wf_parts (parts_of_uri scheme sys hp path)"
proof -
  have sys: "sys = before {CHR ''@''} auth" "sys \<noteq> []"
    using assms(1) by (auto simp: split_authority_def and_then_eq_Inr Let_def split: if_splits list.splits)
  have "c \<in> set auth \<and> c \<noteq> CHR ''@''" if "c \<in> set sys" for c
    using that by (auto simp: sys(1) before_def dest: set_takeWhileD)
  with assms(2) have clean: "set sys \<inter> {CHR ''@'', CHR ''/'', CHR ''?'', CHR ''#''} = {}" by blast
  have "validate_hostname h = Inr ()" if "hp = Some (h, n)" for h n
    using assms(1) that by (auto simp: split_authority_def and_then_eq_Inr Let_def split: if_splits list.splits dest: parse_host_valid)
  then show ?thesis
    using sys(2) clean by (auto simp: wf_parts_def parts_of_uri_def parts_local_def with_authority_host_def with_authority_port_def Let_def
        split: option.splits)
qed

lemma uri_authority_clean: "uri_parse s = Inr uri \<Longrightarrow> uri_authority uri = Some auth \<Longrightarrow> set auth \<inter> {CHR ''/'', CHR ''?'', CHR ''#''} = {}"
  using before_clean [of "{CHR ''/'', CHR ''?'', CHR ''#''}"]
  by (cases "parse_scheme_part s") (auto simp: uri_parse_def parse_authority_part_def some_nonempty_def Let_def
      split: if_splits prod.splits)

lemma parse_wf:
  assumes "actor_path_parse s = Inr p"
  shows "wf_path p"
proof -
  obtain uri where u: "uri_parse s = Inr uri" using assms by (auto simp: actor_path_parse_def split: sum.splits)
  obtain scheme auth sys hp segs uid_opt where *: "uri_authority uri = Some auth" "split_authority auth = Inr (sys, hp)"
    "parse_segments (uri_path uri) = Inr segs" "p = from_parts_and_segments (parts_of_uri scheme sys hp (uri_path uri)) segs uid_opt"
    using assms by (auto simp: actor_path_parse_def u and_then_eq_Inr ok_or_eq_Inr)
  have "list_all (\<lambda>s. segment_new (seg_raw s) = Inr s) segs"
    using *(3) by (auto simp: parse_segments_def dest: segments_new_Inr split: if_splits)
  then show ?thesis
    unfolding *(4) using split_authority_valid [OF *(2) uri_authority_clean [OF u *(1)]] by (rule wf_ensure_guardian)
qed

lemma builders_wf:
  "try_from_segments ss = Inr p \<Longrightarrow> wf_path p"
  "wf_parts parts \<Longrightarrow> wf_path (path_from_parts parts)"
  "wf_path p \<Longrightarrow> try_child name p = Inr q \<Longrightarrow> wf_path q \<and> child_try_from_path q = Inr q \<and> child_name q = Some name"
  "wf_path p \<Longrightarrow> wf_path (path_with_uid u p) \<and> comparator_eq (path_with_uid u p) p"
proof -
  show "try_from_segments ss = Inr p \<Longrightarrow> wf_path p"
    by (auto simp: try_from_segments_def and_then_eq_Inr wf_parts_def parts_local_def intro!: wf_ensure_guardian dest: segments_new_Inr)
  show "wf_parts parts \<Longrightarrow> wf_path (path_from_parts parts)"
    by (simp add: path_from_parts_def wf_ensure_guardian)
  show "wf_path (path_with_uid u p) \<and> comparator_eq (path_with_uid u p) p" if "wf_path p"
    using that by (simp add: wf_path_def path_with_uid_def comparator_eq_def)
  show "wf_path q \<and> child_try_from_path q = Inr q \<and> child_name q = Some name" if "wf_path p" "try_child name p = Inr q"
    using that segment_new_Inr [of name] by (cases "ap_segments p")
      (auto simp: try_child_def and_then_eq_Inr wf_path_def child_try_from_path_def child_name_def)
qed

section \<open>Properties\<close>

text \<open>
  Claim C27. The canonical URI of a well-formed path parses back to that path: scheme, system, host
  (names, IPv4, bracketed IPv6) and port, guardian, every segment with its percent-decoded form, and
  the uid.
\<close>

theorem actor_path_round_trip:
  assumes "wf_path p"
  shows "actor_path_parse (to_canonical_uri p) = Inr p"
  by (rule parse_canonical [OF assms])

definition sample_path :: actor_path where
  "sample_path = path_with_uid 42 (from_parts_and_segments (parts_with_authority ''sys'' (Some (''[::1]'', 2552)))
     [\<lparr>seg_raw = ''a%20b'', seg_decoded = ''a b''\<rparr>] None)"

lemma sample_path_wf: "wf_path sample_path"
  by code_simp

theorem actor_path_round_trip_witness: "actor_path_parse (to_canonical_uri sample_path) = Inr sample_path"
  by (rule actor_path_round_trip) (rule sample_path_wf)

text \<open>
  Claim C28. Whatever string is parsed, the path that comes out is well formed: the guardian is its
  first segment, every segment is valid and decoded, and the host is valid. So the path parses back
  from its canonical URI, and its relative form is an absolute path with the same segments, which the
  matcher of large-message destinations accepts.
\<close>

theorem parsed_paths_well_formed:
  assumes "actor_path_parse s = Inr p"
  shows "wf_path p \<and> actor_path_parse (to_canonical_uri p) = Inr p
    \<and> parse_absolute_segments (to_relative_string p) = Some (map seg_raw (ap_segments p))"
  using parse_wf [OF assms] parse_canonical relative_absolute by blast

theorem parsed_paths_well_formed_witness:
  "wf_path sample_path \<and> actor_path_parse (to_canonical_uri sample_path) = Inr sample_path
    \<and> parse_absolute_segments (to_relative_string sample_path) = Some (map seg_raw (ap_segments sample_path))"
  by (rule parsed_paths_well_formed [OF parse_canonical]) (rule sample_path_wf)

text \<open>
  A path whose first segment only begins with the name of the system guardian is put under the
  system guardian, while every other path without a guardian is put under the user guardian.
\<close>

theorem system_prefix_misread:
  "map_sum id to_relative_string (actor_path_parse ''fraktor://s/systems/a'') = Inr ''/system/systems/a''
    \<and> map_sum id to_relative_string (actor_path_parse ''fraktor://s/service/a'') = Inr ''/user/service/a''"
  by code_simp

end
