(* ===== verification/Send_Queue.thy ===== *)
theory Send_Queue
  imports Actor_Path Wire_Codec
begin

text \<open>
  The outbound envelope (\<open>remote-core/src/envelope/outbound_envelope.rs\<close>) and the queue an association
  keeps its envelopes in (\<open>association/send_queue.rs\<close>): a system lane, a user lane and a lane for large
  user messages, each with its limit. The queue keeps within its limits, never loses an envelope it
  accepted, and hands out each lane in order with the system lane first; user lanes can be paused.
\<close>

section \<open>Envelopes\<close>

record remote_node_id =
  rn_system :: string
  rn_host :: string
  rn_port :: "u16 option"
  rn_uid :: u64

record correlation_id =
  ci_hi :: u64
  ci_lo :: wire_u32

definition correlation_nil :: correlation_id where
  "correlation_nil = \<lparr>ci_hi = 0, ci_lo = 0\<rparr>"

text \<open>The message is erased (\<open>AnyMessage\<close>) and never looked at, so its type is a parameter.\<close>

record 'm outbound_envelope =
  oe_recipient :: actor_path
  oe_sender :: "actor_path option"
  oe_message :: 'm
  oe_priority :: outbound_priority
  oe_remote_node :: remote_node_id
  oe_correlation :: correlation_id
  oe_sequence :: "u64 option"

definition outbound_envelope_new ::
    "actor_path \<Rightarrow> actor_path option \<Rightarrow> 'm \<Rightarrow> outbound_priority \<Rightarrow> remote_node_id \<Rightarrow> correlation_id \<Rightarrow> 'm outbound_envelope" where
  "outbound_envelope_new recipient sender message priority node corr =
     \<lparr>oe_recipient = recipient, oe_sender = sender, oe_message = message, oe_priority = priority,
      oe_remote_node = node, oe_correlation = corr, oe_sequence = None\<rparr>"

definition oe_with_sequence :: "u64 option \<Rightarrow> 'm outbound_envelope \<Rightarrow> 'm outbound_envelope" where
  "oe_with_sequence s e = e\<lparr>oe_sequence := s\<rparr>"

definition is_system_envelope :: "'m outbound_envelope \<Rightarrow> bool" where
  "is_system_envelope e \<longleftrightarrow> is_system (oe_priority e)"

section \<open>The queue\<close>

datatype 'm offer_outcome = OfferAccepted | QueueFull "'m outbound_envelope"

datatype backpressure_signal = SignalApply | SignalNotify | SignalRelease

record 'm send_queue =
  sq_system :: "'m outbound_envelope list"
  sq_user :: "'m outbound_envelope list"
  sq_large :: "'m outbound_envelope list"
  sq_system_limit :: nat
  sq_user_limit :: nat
  sq_large_limit :: nat
  sq_user_paused :: bool

definition DEFAULT_CAPACITY :: nat where
  "DEFAULT_CAPACITY = 16"

text \<open>\<open>None\<close> is the assertion on a limit of zero.\<close>

definition with_lane_limits :: "nat \<Rightarrow> nat \<Rightarrow> nat \<Rightarrow> 'm send_queue option" where
  "with_lane_limits system_limit user_limit large_message_limit =
     (if system_limit > 0 \<and> user_limit > 0 \<and> large_message_limit > 0 then
        Some \<lparr>sq_system = [], sq_user = [], sq_large = [], sq_system_limit = system_limit,
          sq_user_limit = user_limit, sq_large_limit = large_message_limit, sq_user_paused = False\<rparr>
      else None)"

definition with_limits :: "nat \<Rightarrow> nat \<Rightarrow> 'm send_queue option" where
  "with_limits system_limit user_limit = with_lane_limits system_limit user_limit user_limit"

definition send_queue_new :: "'m send_queue option" where
  "send_queue_new = with_lane_limits DEFAULT_CAPACITY DEFAULT_CAPACITY DEFAULT_CAPACITY"

definition has_system_capacity :: "'m send_queue \<Rightarrow> bool" where
  "has_system_capacity q \<longleftrightarrow> length (sq_system q) < sq_system_limit q"

definition offer :: "'m outbound_envelope \<Rightarrow> 'm send_queue \<Rightarrow> 'm offer_outcome \<times> 'm send_queue" where
  "offer e q =
     (case oe_priority e of
        SystemPriority \<Rightarrow>
          if length (sq_system q) < sq_system_limit q then (OfferAccepted, q\<lparr>sq_system := sq_system q @ [e]\<rparr>)
          else (QueueFull e, q)
      | UserPriority \<Rightarrow>
          if length (sq_user q) < sq_user_limit q then (OfferAccepted, q\<lparr>sq_user := sq_user q @ [e]\<rparr>)
          else (QueueFull e, q))"

definition offer_large_message :: "'m outbound_envelope \<Rightarrow> 'm send_queue \<Rightarrow> 'm offer_outcome \<times> 'm send_queue" where
  "offer_large_message e q =
     (if length (sq_large q) < sq_large_limit q then (OfferAccepted, q\<lparr>sq_large := sq_large q @ [e]\<rparr>)
      else (QueueFull e, q))"

definition sq_next_outbound :: "'m send_queue \<Rightarrow> 'm outbound_envelope option \<times> 'm send_queue" where
  "sq_next_outbound q =
     (case sq_system q of
        e # es \<Rightarrow> (Some e, q\<lparr>sq_system := es\<rparr>)
      | [] \<Rightarrow>
          if sq_user_paused q then (None, q)
          else case sq_user q of
            e # es \<Rightarrow> (Some e, q\<lparr>sq_user := es\<rparr>)
          | [] \<Rightarrow> (case sq_large q of e # es \<Rightarrow> (Some e, q\<lparr>sq_large := es\<rparr>) | [] \<Rightarrow> (None, q)))"

definition sq_apply_backpressure :: "backpressure_signal \<Rightarrow> 'm send_queue \<Rightarrow> 'm send_queue" where
  "sq_apply_backpressure sig q =
     (case sig of
        SignalApply \<Rightarrow> q\<lparr>sq_user_paused := True\<rparr>
      | SignalNotify \<Rightarrow> q
      | SignalRelease \<Rightarrow> q\<lparr>sq_user_paused := False\<rparr>)"

definition sq_len :: "'m send_queue \<Rightarrow> nat" where
  "sq_len q = length (sq_system q) + length (sq_user q) + length (sq_large q)"

definition sq_is_empty :: "'m send_queue \<Rightarrow> bool" where
  "sq_is_empty q \<longleftrightarrow> sq_system q = [] \<and> sq_user q = [] \<and> sq_large q = []"

definition drain_all :: "'m send_queue \<Rightarrow> 'm outbound_envelope list \<times> 'm send_queue" where
  "drain_all q = (sq_system q @ sq_user q @ sq_large q, q\<lparr>sq_system := [], sq_user := [], sq_large := []\<rparr>)"

section \<open>Lemmas\<close>

definition sq_held :: "'m send_queue \<Rightarrow> 'm outbound_envelope multiset" where
  "sq_held q = mset (sq_system q) + mset (sq_user q) + mset (sq_large q)"

definition sq_bounded :: "'m send_queue \<Rightarrow> bool" where
  "sq_bounded q \<longleftrightarrow> length (sq_system q) \<le> sq_system_limit q \<and> length (sq_user q) \<le> sq_user_limit q
     \<and> length (sq_large q) \<le> sq_large_limit q"

definition sq_limits :: "'m send_queue \<Rightarrow> nat \<times> nat \<times> nat" where
  "sq_limits q = (sq_system_limit q, sq_user_limit q, sq_large_limit q)"

text \<open>Each operation keeps the limits, stays within them, and accounts for every envelope.\<close>

lemma offer_cases:
  assumes "offer e q = (r, q')"
  shows "sq_limits q' = sq_limits q \<and> (sq_bounded q \<longrightarrow> sq_bounded q')
    \<and> (r = OfferAccepted \<and> sq_held q' = add_mset e (sq_held q) \<or> r = QueueFull e \<and> q' = q)"
  using assms by (auto simp: offer_def sq_limits_def sq_bounded_def sq_held_def split: outbound_priority.splits if_splits)

lemma offer_large_cases:
  assumes "offer_large_message e q = (r, q')"
  shows "sq_limits q' = sq_limits q \<and> (sq_bounded q \<longrightarrow> sq_bounded q') \<and> sq_system q' = sq_system q
    \<and> (r = OfferAccepted \<and> sq_held q' = add_mset e (sq_held q) \<or> r = QueueFull e \<and> q' = q)"
  using assms by (auto simp: offer_large_message_def sq_limits_def sq_bounded_def sq_held_def split: if_splits)

lemma next_cases:
  assumes "sq_next_outbound q = (r, q')"
  shows "sq_limits q' = sq_limits q \<and> (sq_bounded q \<longrightarrow> sq_bounded q')
    \<and> sq_held q = (case r of None \<Rightarrow> {#} | Some e \<Rightarrow> {#e#}) + sq_held q'"
  using assms by (auto simp: sq_next_outbound_def sq_limits_def sq_bounded_def sq_held_def split: list.splits if_splits)

lemma backpressure_cases:
  "sq_limits (sq_apply_backpressure sig q) = sq_limits q" "sq_held (sq_apply_backpressure sig q) = sq_held q"
  "sq_bounded (sq_apply_backpressure sig q) = sq_bounded q" "sq_system (sq_apply_backpressure sig q) = sq_system q"
  by (cases sig; simp add: sq_apply_backpressure_def sq_limits_def sq_held_def sq_bounded_def)+

lemma drain_cases:
  assumes "drain_all q = (es, q')"
  shows "sq_limits q' = sq_limits q \<and> sq_bounded q' \<and> mset es = sq_held q \<and> sq_held q' = {#} \<and> sq_is_empty q'"
  using assms by (auto simp: drain_all_def sq_limits_def sq_bounded_def sq_held_def sq_is_empty_def)

lemma sq_is_empty_iff: "sq_is_empty q \<longleftrightarrow> sq_held q = {#}" "sq_is_empty q \<longleftrightarrow> sq_len q = 0"
  by (auto simp: sq_is_empty_def sq_held_def sq_len_def)

text \<open>System envelopes are handed out first, in the order they were offered, also while users are paused.\<close>

lemma next_system_first: "sq_system q = e # es \<Longrightarrow> sq_next_outbound q = (Some e, q\<lparr>sq_system := es\<rparr>)"
  by (simp add: sq_next_outbound_def)

end
