(* ===== verification/Association.thy ===== *)
theory Association
  imports Send_Queue
begin

text \<open>
  \<open>remote-core/src/association/base.rs\<close> with \<open>association_state.rs\<close>, \<open>association_effect.rs\<close>,
  \<open>handshake_validation_error.rs\<close> and \<open>handshake_rejected_state.rs\<close>: the state machine of one remote
  peer. An operation returns its effects together with the association it leaves. The calls to the
  \<open>RemoteInstrument\<close>, which only observes, are left out. Times are 64-bit milliseconds, durations are
  natural numbers of nanoseconds; the sequence numbers of system envelopes saturate, handshake
  generations and flush identifiers wrap.
\<close>

unbundle bit_operations_syntax

section \<open>Data\<close>

datatype transport_endpoint = TransportEndpoint string

datatype association_state =
    Idle
  | Handshaking (hs_endpoint: transport_endpoint) (hs_started_at: u64)
  | Active (active_node: remote_node_id) (established_at: u64) (active_last_used_at: u64)
  | Gated (gated_resume_at: "u64 option")
  | Quarantined (quarantine_reason: string) (quarantine_resume_at: "u64 option")

definition state_is_active :: "association_state \<Rightarrow> bool" where
  "state_is_active s \<longleftrightarrow> (case s of Active _ _ _ \<Rightarrow> True | _ \<Rightarrow> False)"

definition state_is_connected :: "association_state \<Rightarrow> bool" where
  "state_is_connected s \<longleftrightarrow> (case s of Handshaking _ _ \<Rightarrow> True | Active _ _ _ \<Rightarrow> True | _ \<Rightarrow> False)"

definition state_is_quarantined :: "association_state \<Rightarrow> bool" where
  "state_is_quarantined s \<longleftrightarrow> (case s of Quarantined _ _ \<Rightarrow> True | _ \<Rightarrow> False)"

definition state_is_gated :: "association_state \<Rightarrow> bool" where
  "state_is_gated s \<longleftrightarrow> (case s of Gated _ \<Rightarrow> True | _ \<Rightarrow> False)"

definition state_is_idle :: "association_state \<Rightarrow> bool" where
  "state_is_idle s \<longleftrightarrow> s = Idle"

datatype lifecycle_event =
    LifecycleStarting
  | LifecycleStarted
  | LifecycleListenStarted string correlation_id
  | LifecycleConnected string string u64 correlation_id
  | LifecycleQuarantined string string correlation_id
  | LifecycleGated string correlation_id
  | LifecycleShutdown
  | LifecycleError string

datatype 'm association_effect =
    StartHandshake transport_endpoint nat u64
  | SendEnvelopes "'m outbound_envelope list"
  | SendAck ack_pdu
  | ScheduleFlushTimeout transport_endpoint u64 flush_scope u64
  | SendFlushRequest transport_endpoint u64 flush_scope wire_u32 wire_u32
  | FlushCompleted transport_endpoint u64 flush_scope
  | FlushTimedOut transport_endpoint u64 flush_scope "wire_u32 list"
  | FlushFailed transport_endpoint u64 flush_scope "wire_u32 list" string
  | ResendEnvelopes "'m outbound_envelope list"
  | DiscardEnvelopes string "'m outbound_envelope list"
  | PublishLifecycle lifecycle_event

datatype handshake_rejected_state = RejectedIdle | RejectedGated | RejectedQuarantined

definition rejected_as_str :: "handshake_rejected_state \<Rightarrow> string" where
  "rejected_as_str s = (case s of RejectedIdle \<Rightarrow> ''Idle'' | RejectedGated \<Rightarrow> ''Gated'' | RejectedQuarantined \<Rightarrow> ''Quarantined'')"

datatype handshake_validation_error =
    UnexpectedDestination address address
  | UnexpectedRemote address address
  | RejectedInState handshake_rejected_state

record 'm pending_system_envelope =
  pe_sequence :: u64
  pe_envelope :: "'m outbound_envelope"
  pe_last_sent_at :: "u64 option"

record flush_session =
  fs_flush_id :: u64
  fs_scope :: flush_scope
  fs_expected_acks :: wire_u32
  fs_deadline :: u64
  fs_lanes :: "wire_u32 list"
  fs_acked :: "wire_u32 list"

record sequence_tracker =
  st_cumulative_ack :: u64
  st_highest_seen :: u64
  st_receive_window :: wire_u32

record queue_limits =
  ql_control :: nat
  ql_message :: nat
  ql_large :: nat
  ql_ack_send_window :: wire_u32
  ql_ack_receive_window :: wire_u32
  ql_destinations :: destinations

record 'm association =
  as_state :: association_state
  as_queue :: "'m send_queue"
  as_deferred :: "'m outbound_envelope list"
  as_deferred_system :: nat
  as_deferred_user :: nat
  as_control_size :: nat
  as_message_size :: nat
  as_ack_send_window :: wire_u32
  as_destinations :: destinations
  as_remove_quarantined_after :: nat
  as_handshake_timeout :: nat
  as_generation :: u64
  as_local :: unique_address
  as_remote :: address
  as_next_sequence :: u64
  as_pending :: "'m pending_system_envelope list"
  as_tracker :: sequence_tracker
  as_next_flush_id :: u64
  as_flushes :: "flush_session list"

section \<open>Flush sessions and the sequence tracker\<close>

definition flush_session_new :: "u64 \<Rightarrow> flush_scope \<Rightarrow> wire_u32 list \<Rightarrow> u64 \<Rightarrow> flush_session" where
  "flush_session_new flush_id scope lanes deadline =
     \<lparr>fs_flush_id = flush_id, fs_scope = scope, fs_expected_acks = of_nat (length lanes), fs_deadline = deadline,
      fs_lanes = lanes, fs_acked = []\<rparr>"

definition fs_observe_ack :: "wire_u32 \<Rightarrow> flush_session \<Rightarrow> bool \<times> flush_session" where
  "fs_observe_ack lane s =
     (if lane \<notin> set (fs_lanes s) \<or> lane \<in> set (fs_acked s) then (False, s)
      else (True, s\<lparr>fs_acked := fs_acked s @ [lane]\<rparr>))"

definition fs_is_complete :: "flush_session \<Rightarrow> bool" where
  "fs_is_complete s \<longleftrightarrow> length (fs_acked s) \<ge> unat (fs_expected_acks s)"

definition fs_pending_lanes :: "flush_session \<Rightarrow> wire_u32 list" where
  "fs_pending_lanes s = filter (\<lambda>l. l \<notin> set (fs_acked s)) (fs_lanes s)"

definition FLUSH_TIMER_NEAR_MISS_TOLERANCE_MS :: u64 where
  "FLUSH_TIMER_NEAR_MISS_TOLERANCE_MS = 1"

definition tracker_new :: "wire_u32 \<Rightarrow> sequence_tracker" where
  "tracker_new w = \<lparr>st_cumulative_ack = 0, st_highest_seen = 0, st_receive_window = w\<rparr>"

definition mark_received :: "u64 \<Rightarrow> sequence_tracker \<Rightarrow> bool \<times> sequence_tracker" where
  "mark_received sequence t =
     (if sequence \<le> st_cumulative_ack t then (False, t)
      else if sequence = saturating_add (st_cumulative_ack t) 1 then
        (True, t\<lparr>st_cumulative_ack := sequence, st_highest_seen := max (st_highest_seen t) sequence\<rparr>)
      else (False, t\<lparr>st_highest_seen := max (st_highest_seen t) sequence\<rparr>))"

text \<open>The loop over the receive window, at most 64 sequences, which stops past the highest one seen.\<close>

definition nack_bitmap_of :: "sequence_tracker \<Rightarrow> u64" where
  "nack_bitmap_of t =
     (let window = min (unat (st_receive_window t)) 64;
          offsets = takeWhile (\<lambda>offset. \<not> saturating_add (st_cumulative_ack t) (of_nat offset) > st_highest_seen t) [1..<Suc window]
      in fold (\<lambda>offset bitmap. bitmap OR push_bit (offset - 1) 1) offsets 0)"

definition tracker_observe :: "u64 \<Rightarrow> sequence_tracker \<Rightarrow> (bool \<times> ack_pdu) \<times> sequence_tracker" where
  "tracker_observe sequence t =
     (let (should_deliver, t') = mark_received sequence t
      in ((should_deliver, ack_new sequence (st_cumulative_ack t') (nack_bitmap_of t')), t'))"

definition tracker_reset :: "sequence_tracker \<Rightarrow> sequence_tracker" where
  "tracker_reset t = t\<lparr>st_cumulative_ack := 0, st_highest_seen := 0\<rparr>"

section \<open>Helpers\<close>

definition u64_saturating_sub :: "u64 \<Rightarrow> u64 \<Rightarrow> u64" where
  "u64_saturating_sub a b = (if b \<le> a then a - b else 0)"

definition as_millis :: "nat \<Rightarrow> nat" where
  "as_millis d = d div 1000000"

definition duration_to_millis_saturating :: "nat \<Rightarrow> u64" where
  "duration_to_millis_saturating d = (if as_millis d > u64_max then of_nat u64_max else of_nat (as_millis d))"

definition duration_to_non_zero_millis :: "nat \<Rightarrow> u64" where
  "duration_to_non_zero_millis d =
     (if as_millis d = 0 then 1 else if as_millis d > u64_max then of_nat u64_max else of_nat (as_millis d))"

fun dedup_from :: "wire_u32 list \<Rightarrow> wire_u32 list \<Rightarrow> wire_u32 list" where
  "dedup_from lanes [] = lanes"
| "dedup_from lanes (l # ls) = dedup_from (if l \<in> set lanes then lanes else lanes @ [l]) ls"

definition dedup_lane_ids :: "wire_u32 list \<Rightarrow> wire_u32 list" where
  "dedup_lane_ids ls = dedup_from [] ls"

definition remote_node_id_from :: "unique_address \<Rightarrow> remote_node_id" where
  "remote_node_id_from u =
     \<lparr>rn_system = system (address_of u), rn_host = host (address_of u), rn_port = Some (port (address_of u)), rn_uid = uid u\<rparr>"

definition authority_string :: "'m association \<Rightarrow> string" where
  "authority_string a = address_to_string (as_remote a)"

definition as_authority_endpoint :: "'m association \<Rightarrow> transport_endpoint" where
  "as_authority_endpoint a = TransportEndpoint (authority_string a)"

definition ensure_local_destination :: "address \<Rightarrow> 'm association \<Rightarrow> handshake_validation_error + unit" where
  "ensure_local_destination actual a =
     (if address_of (as_local a) = actual then Inr () else Inl (UnexpectedDestination (address_of (as_local a)) actual))"

definition ensure_remote_origin :: "address \<Rightarrow> 'm association \<Rightarrow> handshake_validation_error + unit" where
  "ensure_remote_origin actual a =
     (if as_remote a = actual then Inr () else Inl (UnexpectedRemote (as_remote a) actual))"

definition association_with_limits ::
    "unique_address \<Rightarrow> address \<Rightarrow> queue_limits \<Rightarrow> nat \<Rightarrow> nat \<Rightarrow> 'm association option" where
  "association_with_limits loc rem lim remove_after timeout =
     map_option (\<lambda>q.
       \<lparr>as_state = Idle, as_queue = q, as_deferred = [], as_deferred_system = 0, as_deferred_user = 0,
        as_control_size = ql_control lim, as_message_size = ql_message lim, as_ack_send_window = ql_ack_send_window lim,
        as_destinations = ql_destinations lim, as_remove_quarantined_after = remove_after, as_handshake_timeout = timeout,
        as_generation = 0, as_local = loc, as_remote = rem, as_next_sequence = 1, as_pending = [],
        as_tracker = tracker_new (ql_ack_receive_window lim), as_next_flush_id = 1, as_flushes = []\<rparr>)
      (with_lane_limits (ql_control lim) (ql_message lim) (ql_large lim))"

definition association_new :: "unique_address \<Rightarrow> address \<Rightarrow> 'm association option" where
  "association_new loc rem =
     association_with_limits loc rem
       \<lparr>ql_control = 20000, ql_message = 3072, ql_large = 256, ql_ack_send_window = 1024, ql_ack_receive_window = 1024,
        ql_destinations = []\<rparr>
       (3600 * 1000000000) (20 * 1000000000)"

definition advance_generation :: "'m association \<Rightarrow> u64 \<times> 'm association" where
  "advance_generation a = (as_generation a + 1, a\<lparr>as_generation := as_generation a + 1\<rparr>)"

definition take_flush_id :: "'m association \<Rightarrow> u64 \<times> 'm association" where
  "take_flush_id a = (as_next_flush_id a, a\<lparr>as_next_flush_id := as_next_flush_id a + 1\<rparr>)"

definition clear_deferred_counts :: "'m association \<Rightarrow> 'm association" where
  "clear_deferred_counts a = a\<lparr>as_deferred_system := 0, as_deferred_user := 0\<rparr>"

definition reset_redelivery_state :: "'m association \<Rightarrow> 'm association" where
  "reset_redelivery_state a =
     a\<lparr>as_next_sequence := 1, as_pending := [], as_tracker := tracker_reset (as_tracker a)\<rparr>"

definition quarantine_removal_deadline :: "u64 \<Rightarrow> 'm association \<Rightarrow> u64" where
  "quarantine_removal_deadline now a = saturating_add now (duration_to_non_zero_millis (as_remove_quarantined_after a))"

definition record_handshake_activity :: "u64 \<Rightarrow> 'm association \<Rightarrow> 'm association" where
  "record_handshake_activity now a =
     (case as_state a of Active node est last_used \<Rightarrow> a\<lparr>as_state := Active node est now\<rparr> | _ \<Rightarrow> a)"

definition last_used_at :: "'m association \<Rightarrow> u64 option" where
  "last_used_at a = (case as_state a of Active _ _ t \<Rightarrow> Some t | _ \<Rightarrow> None)"

definition active_remote_node :: "'m association \<Rightarrow> remote_node_id option" where
  "active_remote_node a = (case as_state a of Active node _ _ \<Rightarrow> Some node | _ \<Rightarrow> None)"

definition is_liveness_probe_due :: "u64 \<Rightarrow> u64 \<Rightarrow> 'm association \<Rightarrow> bool" where
  "is_liveness_probe_due now interval a =
     (case as_state a of Active _ _ t \<Rightarrow> u64_saturating_sub now t \<ge> interval | _ \<Rightarrow> False)"

definition is_quarantine_removal_due :: "u64 \<Rightarrow> 'm association \<Rightarrow> bool" where
  "is_quarantine_removal_due now a =
     (case as_state a of Quarantined _ (Some resume_at) \<Rightarrow> now \<ge> resume_at | _ \<Rightarrow> False)"

section \<open>State transitions\<close>

definition as_associate :: "transport_endpoint \<Rightarrow> u64 \<Rightarrow> 'm association \<Rightarrow> 'm association_effect list \<times> 'm association" where
  "as_associate endpoint now a =
     (case as_state a of
        Idle \<Rightarrow>
          (let (gen, a') = advance_generation a in
           ([StartHandshake endpoint (as_handshake_timeout a) gen], a'\<lparr>as_state := Handshaking endpoint now\<rparr>))
      | _ \<Rightarrow> ([], a))"

definition connected_event :: "remote_node_id \<Rightarrow> 'm association \<Rightarrow> 'm association_effect" where
  "connected_event node a =
     PublishLifecycle (LifecycleConnected (authority_string a) (rn_system node) (rn_uid node) correlation_nil)"

definition handshake_accepted ::
    "remote_node_id \<Rightarrow> u64 \<Rightarrow> 'm association \<Rightarrow> (handshake_validation_error + 'm association_effect list) \<times> 'm association" where
  "handshake_accepted node now a =
     (case as_state a of
        Active current est last_used \<Rightarrow>
          if current = node then (Inr [], a\<lparr>as_state := Active current est now\<rparr>)
          else (Inr [connected_event node a], a\<lparr>as_state := Active node now now\<rparr>)
      | Handshaking _ _ \<Rightarrow>
          (let deferred = as_deferred a;
               a' = clear_deferred_counts (a\<lparr>as_deferred := []\<rparr>)
           in (Inr ([connected_event node a'] @ (if deferred \<noteq> [] then [SendEnvelopes deferred] else [])),
               a'\<lparr>as_state := Active node now now\<rparr>))
      | Idle \<Rightarrow> (Inl (RejectedInState RejectedIdle), a)
      | Gated _ \<Rightarrow> (Inl (RejectedInState RejectedGated), a)
      | Quarantined _ _ \<Rightarrow> (Inl (RejectedInState RejectedQuarantined), a))"

definition accept_handshake_request ::
    "handshake_req \<Rightarrow> u64 \<Rightarrow> 'm association \<Rightarrow> (handshake_validation_error + 'm association_effect list) \<times> 'm association" where
  "accept_handshake_request r now a =
     (case and_then (ensure_local_destination (hq_to r) a) (\<lambda>_. ensure_remote_origin (address_of (hq_from r)) a) of
        Inl e \<Rightarrow> (Inl e, a)
      | Inr _ \<Rightarrow> handshake_accepted (remote_node_id_from (hq_from r)) now a)"

definition accept_handshake_response ::
    "handshake_rsp \<Rightarrow> u64 \<Rightarrow> 'm association \<Rightarrow> (handshake_validation_error + 'm association_effect list) \<times> 'm association" where
  "accept_handshake_response r now a =
     (case ensure_remote_origin (address_of (hs_from r)) a of
        Inl e \<Rightarrow> (Inl e, a)
      | Inr _ \<Rightarrow> handshake_accepted (remote_node_id_from (hs_from r)) now a)"

definition gated_event :: "'m association \<Rightarrow> 'm association_effect" where
  "gated_event a = PublishLifecycle (LifecycleGated (authority_string a) correlation_nil)"

definition handshake_timed_out :: "u64 \<Rightarrow> u64 option \<Rightarrow> 'm association \<Rightarrow> 'm association_effect list \<times> 'm association" where
  "handshake_timed_out now resume_at a =
     (case as_state a of
        Handshaking _ _ \<Rightarrow>
          (let deferred = as_deferred a;
               a' = reset_redelivery_state (clear_deferred_counts (a\<lparr>as_deferred := []\<rparr>))
           in ([gated_event a'] @ (if deferred \<noteq> [] then [DiscardEnvelopes ''handshake timed out'' deferred] else []),
               a'\<lparr>as_state := Gated resume_at\<rparr>))
      | _ \<Rightarrow> ([], a))"

definition flush_failed :: "'m association \<Rightarrow> string \<Rightarrow> flush_session \<Rightarrow> 'm association_effect" where
  "flush_failed a reason s =
     FlushFailed (as_authority_endpoint a) (fs_flush_id s) (fs_scope s) (fs_pending_lanes s) reason"

definition fail_pending_flushes :: "string \<Rightarrow> 'm association \<Rightarrow> 'm association_effect list \<times> 'm association" where
  "fail_pending_flushes reason a = (map (flush_failed a reason) (as_flushes a), a\<lparr>as_flushes := []\<rparr>)"

definition as_quarantine :: "string \<Rightarrow> u64 \<Rightarrow> 'm association \<Rightarrow> 'm association_effect list \<times> 'm association" where
  "as_quarantine reason now a =
     (if state_is_quarantined (as_state a) then ([], a)
      else
        let (drained, q) = drain_all (as_queue a);
            discarded = as_deferred a @ drained;
            a' = reset_redelivery_state ((clear_deferred_counts (a\<lparr>as_deferred := []\<rparr>))\<lparr>as_queue := q\<rparr>);
            (failed, a'') = fail_pending_flushes ''association quarantined'' a'
        in ([PublishLifecycle (LifecycleQuarantined (authority_string a') reason correlation_nil)] @
              (if discarded \<noteq> [] then [DiscardEnvelopes reason discarded] else []) @ failed,
            a''\<lparr>as_state := Quarantined reason (Some (quarantine_removal_deadline now a''))\<rparr>))"

definition as_gate :: "u64 option \<Rightarrow> 'm association \<Rightarrow> 'm association_effect list \<times> 'm association" where
  "as_gate resume_at a =
     (case as_state a of
        Active _ _ _ \<Rightarrow>
          (let (failed, a') = fail_pending_flushes ''association gated'' (a\<lparr>as_state := Gated resume_at\<rparr>)
           in (gated_event a # failed, a'))
      | _ \<Rightarrow> ([], a))"

definition as_recover :: "transport_endpoint option \<Rightarrow> u64 \<Rightarrow> 'm association \<Rightarrow> 'm association_effect list \<times> 'm association" where
  "as_recover endpoint now a =
     (if state_is_gated (as_state a) \<or> state_is_quarantined (as_state a) then
        case endpoint of
          Some ep \<Rightarrow>
            (let (gen, a') = advance_generation a in
             ([StartHandshake ep (as_handshake_timeout a) gen], a'\<lparr>as_state := Handshaking ep now\<rparr>))
        | None \<Rightarrow> ([], a\<lparr>as_state := Idle\<rparr>)
      else ([], a))"

section \<open>Send path\<close>

definition queue_full_discard_effect :: "'m outbound_envelope \<Rightarrow> 'm association_effect list" where
  "queue_full_discard_effect e = [DiscardEnvelopes ''outbound queue overflow'' [e]]"

fun append_discarded_envelope ::
    "string \<Rightarrow> 'm outbound_envelope \<Rightarrow> 'm association_effect list \<Rightarrow> 'm association_effect list" where
  "append_discarded_envelope reason e [] = [DiscardEnvelopes reason [e]]"
| "append_discarded_envelope reason e (x # xs) =
     (case x of
        DiscardEnvelopes r es \<Rightarrow> DiscardEnvelopes r (es @ [e]) # xs
      | _ \<Rightarrow> x # append_discarded_envelope reason e xs)"

definition overflow_reason :: "'m association \<Rightarrow> string" where
  "overflow_reason a = ''Due to overflow of control queue, size ['' @ decimal (as_control_size a) @ '']''"

definition control_queue_overflow_effects ::
    "'m outbound_envelope \<Rightarrow> u64 \<Rightarrow> 'm association \<Rightarrow> 'm association_effect list \<times> 'm association" where
  "control_queue_overflow_effects e now a =
     (let (effects, a') = as_quarantine (overflow_reason a) now a
      in (append_discarded_envelope (overflow_reason a) e effects, a'))"

definition redelivery_window_has_capacity_for :: "'m outbound_envelope \<Rightarrow> 'm association \<Rightarrow> bool" where
  "redelivery_window_has_capacity_for e a \<longleftrightarrow>
     \<not> is_system_envelope e \<or> oe_sequence e \<noteq> None \<or> length (as_pending a) < unat (as_ack_send_window a)"

definition assign_redelivery_sequence ::
    "'m outbound_envelope \<Rightarrow> 'm association \<Rightarrow> ('m outbound_envelope \<times> u64 option) \<times> 'm association" where
  "assign_redelivery_sequence e a =
     (if \<not> is_system_envelope e then ((oe_with_sequence None e, None), a)
      else case oe_sequence e of
        Some sequence \<Rightarrow> ((e, Some sequence), a)
      | None \<Rightarrow>
          let sequence = as_next_sequence a in
          ((oe_with_sequence (Some sequence) e, Some sequence), a\<lparr>as_next_sequence := saturating_add sequence 1\<rparr>))"

definition track_pending_system_envelope_for :: "u64 option \<Rightarrow> 'm outbound_envelope \<Rightarrow> 'm association \<Rightarrow> 'm association" where
  "track_pending_system_envelope_for sequence e a =
     (case sequence of
        None \<Rightarrow> a
      | Some s \<Rightarrow>
          if list_ex (\<lambda>p. pe_sequence p = s) (as_pending a) then a
          else a\<lparr>as_pending := as_pending a @ [\<lparr>pe_sequence = s, pe_envelope = e, pe_last_sent_at = None\<rparr>]\<rparr>)"

text \<open>\<open>None\<close> is the assertion of the path matcher on a recipient that is not an absolute path.\<close>

definition should_use_large_message_queue :: "'m outbound_envelope \<Rightarrow> 'm association \<Rightarrow> bool option" where
  "should_use_large_message_queue e a =
     (if oe_priority e = UserPriority then destinations_match (as_destinations a) (to_relative_string (oe_recipient e))
      else Some False)"

definition enqueue_active ::
    "'m outbound_envelope \<Rightarrow> u64 \<Rightarrow> 'm association \<Rightarrow> ('m association_effect list \<times> 'm association) option" where
  "enqueue_active e now a =
     (if is_system_envelope e \<and> \<not> has_system_capacity (as_queue a) then Some (control_queue_overflow_effects e now a)
      else if \<not> redelivery_window_has_capacity_for e a then Some (control_queue_overflow_effects e now a)
      else
        let ((e', sequence), a') = assign_redelivery_sequence e a in
        map_option (\<lambda>large.
          case (if large then offer_large_message e' (as_queue a') else offer e' (as_queue a')) of
            (OfferAccepted, q) \<Rightarrow> ([], track_pending_system_envelope_for sequence e' (a'\<lparr>as_queue := q\<rparr>))
          | (QueueFull full, q) \<Rightarrow>
              if is_system_envelope full then control_queue_overflow_effects full now (a'\<lparr>as_queue := q\<rparr>)
              else (queue_full_discard_effect full, a'\<lparr>as_queue := q\<rparr>))
          (should_use_large_message_queue e' a'))"

definition deferred_has_capacity_for :: "'m outbound_envelope \<Rightarrow> 'm association \<Rightarrow> bool" where
  "deferred_has_capacity_for e a \<longleftrightarrow>
     (if is_system_envelope e then as_deferred_system a < as_control_size a else as_deferred_user a < as_message_size a)"

definition increment_deferred_count :: "'m outbound_envelope \<Rightarrow> 'm association \<Rightarrow> 'm association" where
  "increment_deferred_count e a =
     (if is_system_envelope e then a\<lparr>as_deferred_system := as_deferred_system a + 1\<rparr>
      else a\<lparr>as_deferred_user := as_deferred_user a + 1\<rparr>)"

definition enqueue_deferred :: "'m outbound_envelope \<Rightarrow> 'm association \<Rightarrow> 'm association_effect list \<times> 'm association" where
  "enqueue_deferred e a =
     (if deferred_has_capacity_for e a then
        (let a' = increment_deferred_count e a in ([], a'\<lparr>as_deferred := as_deferred a' @ [e]\<rparr>))
      else (queue_full_discard_effect e, a))"

definition as_enqueue ::
    "'m outbound_envelope \<Rightarrow> u64 \<Rightarrow> 'm association \<Rightarrow> ('m association_effect list \<times> 'm association) option" where
  "as_enqueue e now a =
     (case as_state a of
        Active _ _ _ \<Rightarrow> enqueue_active e now a
      | Quarantined reason _ \<Rightarrow> Some ([DiscardEnvelopes reason [e]], a)
      | _ \<Rightarrow> Some (enqueue_deferred e a))"

text \<open>Marks the first pending envelope with the sequence as sent.\<close>

fun mark_sent :: "u64 \<Rightarrow> u64 \<Rightarrow> 'm pending_system_envelope list \<Rightarrow> 'm pending_system_envelope list" where
  "mark_sent sequence now [] = []"
| "mark_sent sequence now (p # ps) =
     (if pe_sequence p = sequence then p\<lparr>pe_last_sent_at := Some now\<rparr> # ps else p # mark_sent sequence now ps)"

definition mark_system_envelope_sent :: "'m outbound_envelope \<Rightarrow> u64 \<Rightarrow> 'm association \<Rightarrow> 'm association" where
  "mark_system_envelope_sent e now a =
     (case oe_sequence e of
        None \<Rightarrow> a
      | Some sequence \<Rightarrow> a\<lparr>as_pending := mark_sent sequence now (as_pending a)\<rparr>)"

definition as_next_outbound :: "u64 \<Rightarrow> 'm association \<Rightarrow> 'm outbound_envelope option \<times> 'm association" where
  "as_next_outbound now a =
     (let (r, q) = sq_next_outbound (as_queue a); a' = a\<lparr>as_queue := q\<rparr>
      in (r, case r of None \<Rightarrow> a' | Some e \<Rightarrow> mark_system_envelope_sent e now a'))"

definition nack_step ::
    "ack_pdu \<Rightarrow> u64 \<Rightarrow> nat \<Rightarrow> 'm outbound_envelope list \<times> 'm pending_system_envelope list \<Rightarrow>
     'm outbound_envelope list \<times> 'm pending_system_envelope list" where
  "nack_step pdu now i s =
     (if \<not> bit (ap_nack_bitmap pdu) i then s
      else
        let sequence = saturating_add (ap_cumulative_ack pdu) (of_nat i + 1) in
        case find (\<lambda>p. pe_sequence p = sequence) (snd s) of
          None \<Rightarrow> s
        | Some p \<Rightarrow> (fst s @ [pe_envelope p], mark_sent sequence now (snd s)))"

definition nacked_pending_envelopes :: "ack_pdu \<Rightarrow> u64 \<Rightarrow> 'm association \<Rightarrow> 'm outbound_envelope list \<times> 'm association" where
  "nacked_pending_envelopes pdu now a =
     (let (es, ps) = fold (nack_step pdu now) [0..<64] ([], as_pending a) in (es, a\<lparr>as_pending := ps\<rparr>))"

definition resend_effect :: "'m outbound_envelope list \<Rightarrow> 'm association_effect list" where
  "resend_effect es = (if es = [] then [] else [ResendEnvelopes es])"

definition as_apply_ack :: "ack_pdu \<Rightarrow> u64 \<Rightarrow> 'm association \<Rightarrow> 'm association_effect list \<times> 'm association" where
  "as_apply_ack pdu now a =
     (let a' = record_handshake_activity now a;
          a' = a'\<lparr>as_pending := filter (\<lambda>p. pe_sequence p > ap_cumulative_ack pdu) (as_pending a')\<rparr>;
          (es, a'') = nacked_pending_envelopes pdu now a'
      in (resend_effect es, a''))"

definition observe_inbound_system_envelope ::
    "u64 \<Rightarrow> u64 \<Rightarrow> 'm association \<Rightarrow> (bool \<times> 'm association_effect list) \<times> 'm association" where
  "observe_inbound_system_envelope sequence now a =
     (let a' = record_handshake_activity now a;
          ((should_deliver, pdu), t) = tracker_observe sequence (as_tracker a')
      in ((should_deliver, [SendAck pdu]), a'\<lparr>as_tracker := t\<rparr>))"

definition resend_is_due :: "u64 \<Rightarrow> u64 \<Rightarrow> 'm pending_system_envelope \<Rightarrow> bool" where
  "resend_is_due now after p =
     (case pe_last_sent_at p of None \<Rightarrow> False | Some t \<Rightarrow> u64_saturating_sub now t \<ge> after)"

definition as_resend_due :: "u64 \<Rightarrow> u64 \<Rightarrow> 'm association \<Rightarrow> 'm association_effect list \<times> 'm association" where
  "as_resend_due now after a =
     (resend_effect (map pe_envelope (filter (resend_is_due now after) (as_pending a))),
      a\<lparr>as_pending := map (\<lambda>p. if resend_is_due now after p then p\<lparr>pe_last_sent_at := Some now\<rparr> else p) (as_pending a)\<rparr>)"

definition as_apply_backpressure :: "backpressure_signal \<Rightarrow> 'm association \<Rightarrow> 'm association" where
  "as_apply_backpressure sig a = a\<lparr>as_queue := sq_apply_backpressure sig (as_queue a)\<rparr>"

section \<open>Flush protocol\<close>

definition start_flush ::
    "flush_scope \<Rightarrow> wire_u32 list \<Rightarrow> nat \<Rightarrow> u64 \<Rightarrow> 'm association \<Rightarrow> 'm association_effect list \<times> 'm association" where
  "start_flush scope lane_ids timeout now a =
     (let (flush_id, a) = take_flush_id a; auth = as_authority_endpoint a; lanes = dedup_lane_ids lane_ids in
      if \<not> state_is_active (as_state a) then
        ([FlushFailed auth flush_id scope lanes ''association is not active''], a)
      else if \<not> sq_is_empty (as_queue a) then
        ([FlushFailed auth flush_id scope lanes ''prior outbound queue is still pending''], a)
      else if lanes = [] then ([FlushCompleted auth flush_id scope], a)
      else
        let deadline = saturating_add now (duration_to_millis_saturating timeout);
            session = flush_session_new flush_id scope lanes deadline
        in (ScheduleFlushTimeout auth flush_id scope deadline #
              map (\<lambda>lane. SendFlushRequest auth flush_id scope lane (fs_expected_acks session)) lanes,
            a\<lparr>as_flushes := as_flushes a @ [session]\<rparr>))"

text \<open>\<open>position\<close>: the index of the first session with the identifier.\<close>

definition flush_position :: "u64 \<Rightarrow> flush_session list \<Rightarrow> nat option" where
  "flush_position flush_id ss =
     (let i = length (takeWhile (\<lambda>s. fs_flush_id s \<noteq> flush_id) ss) in if i < length ss then Some i else None)"

definition remove_at :: "nat \<Rightarrow> 'a list \<Rightarrow> 'a list" where
  "remove_at i xs = take i xs @ drop (Suc i) xs"

definition apply_flush_ack :: "u64 \<Rightarrow> wire_u32 \<Rightarrow> 'm association \<Rightarrow> 'm association_effect list \<times> 'm association" where
  "apply_flush_ack flush_id lane a =
     (case flush_position flush_id (as_flushes a) of
        None \<Rightarrow> ([], a)
      | Some i \<Rightarrow>
          let (fresh, session) = fs_observe_ack lane (as_flushes a ! i);
              a' = a\<lparr>as_flushes := (as_flushes a)[i := session]\<rparr>
          in if \<not> fresh then ([], a')
             else if \<not> fs_is_complete session then ([], a')
             else ([FlushCompleted (as_authority_endpoint a) (fs_flush_id session) (fs_scope session)],
                   a'\<lparr>as_flushes := remove_at i (as_flushes a')\<rparr>))"

definition flush_timed_out :: "u64 \<Rightarrow> u64 \<Rightarrow> 'm association \<Rightarrow> 'm association_effect list \<times> 'm association" where
  "flush_timed_out flush_id now a =
     (case flush_position flush_id (as_flushes a) of
        None \<Rightarrow> ([], a)
      | Some i \<Rightarrow>
          let session = as_flushes a ! i in
          if saturating_add now FLUSH_TIMER_NEAR_MISS_TOLERANCE_MS < fs_deadline session then ([], a)
          else ([FlushTimedOut (as_authority_endpoint a) (fs_flush_id session) (fs_scope session) (fs_pending_lanes session)],
                a\<lparr>as_flushes := remove_at i (as_flushes a)\<rparr>))"

definition fail_flush :: "u64 \<Rightarrow> string \<Rightarrow> 'm association \<Rightarrow> 'm association_effect list \<times> 'm association" where
  "fail_flush flush_id reason a =
     (case flush_position flush_id (as_flushes a) of
        None \<Rightarrow> ([], a)
      | Some i \<Rightarrow> ([flush_failed a reason (as_flushes a ! i)], a\<lparr>as_flushes := remove_at i (as_flushes a)\<rparr>))"

end
