(* ===== verification/Association_Queues.thy ===== *)
theory Association_Queues
  imports Association
begin

text \<open>
  What an association does with envelopes. Every operation accounts for all of them: an envelope that
  comes in is held in the deferred buffer or the send queue, handed out, or named in an effect. The
  buffers stay within their limits, a quarantined association holds nothing, and flush sessions exist
  only while the association is active.
\<close>

section \<open>Operations as inputs\<close>

datatype 'm as_op =
    OpAssociate transport_endpoint u64
  | OpRequest handshake_req u64
  | OpResponse handshake_rsp u64
  | OpTimedOut u64 "u64 option"
  | OpQuarantine string u64
  | OpGate "u64 option"
  | OpRecover "transport_endpoint option" u64
  | OpEnqueue "'m outbound_envelope" u64
  | OpNext u64
  | OpAck ack_pdu u64
  | OpObserve u64 u64
  | OpResend u64 u64
  | OpSignal backpressure_signal
  | OpStartFlush flush_scope "wire_u32 list" nat u64
  | OpFlushAck u64 wire_u32
  | OpFlushTimeout u64 u64
  | OpFailFlush u64 string

text \<open>The effects of an operation, the envelope it hands out, and the association it leaves.\<close>

type_synonym 'm as_result = "'m association_effect list \<times> 'm outbound_envelope option \<times> 'm association"

definition of_result :: "(handshake_validation_error + 'm association_effect list) \<times> 'm association \<Rightarrow> 'm as_result" where
  "of_result r = (case fst r of Inl _ \<Rightarrow> [] | Inr es \<Rightarrow> es, None, snd r)"

definition of_effects :: "'m association_effect list \<times> 'm association \<Rightarrow> 'm as_result" where
  "of_effects r = (fst r, None, snd r)"

definition as_step :: "'m as_op \<Rightarrow> 'm association \<Rightarrow> 'm as_result option" where
  "as_step op a =
     (case op of
        OpAssociate ep now \<Rightarrow> Some (of_effects (as_associate ep now a))
      | OpRequest r now \<Rightarrow> Some (of_result (accept_handshake_request r now a))
      | OpResponse r now \<Rightarrow> Some (of_result (accept_handshake_response r now a))
      | OpTimedOut now resume \<Rightarrow> Some (of_effects (handshake_timed_out now resume a))
      | OpQuarantine reason now \<Rightarrow> Some (of_effects (as_quarantine reason now a))
      | OpGate resume \<Rightarrow> Some (of_effects (as_gate resume a))
      | OpRecover ep now \<Rightarrow> Some (of_effects (as_recover ep now a))
      | OpEnqueue e now \<Rightarrow> map_option of_effects (as_enqueue e now a)
      | OpNext now \<Rightarrow> (let (r, a') = as_next_outbound now a in Some ([], r, a'))
      | OpAck pdu now \<Rightarrow> Some (of_effects (as_apply_ack pdu now a))
      | OpObserve s now \<Rightarrow> (let ((_, es), a') = observe_inbound_system_envelope s now a in Some (es, None, a'))
      | OpResend now after \<Rightarrow> Some (of_effects (as_resend_due now after a))
      | OpSignal sig \<Rightarrow> Some ([], None, as_apply_backpressure sig a)
      | OpStartFlush scope lanes timeout now \<Rightarrow> Some (of_effects (start_flush scope lanes timeout now a))
      | OpFlushAck i lane \<Rightarrow> Some (of_effects (apply_flush_ack i lane a))
      | OpFlushTimeout i now \<Rightarrow> Some (of_effects (flush_timed_out i now a))
      | OpFailFlush i reason \<Rightarrow> Some (of_effects (fail_flush i reason a)))"

fun as_run :: "'m as_op list \<Rightarrow> 'm association \<Rightarrow> 'm association option" where
  "as_run [] a = Some a"
| "as_run (op # ops) a = (case as_step op a of None \<Rightarrow> None | Some (_, _, a') \<Rightarrow> as_run ops a')"

section \<open>Accounting\<close>

text \<open>Envelopes are compared without the sequence number, which the association assigns.\<close>

definition bare :: "'m outbound_envelope \<Rightarrow> 'm outbound_envelope" where
  "bare e = e\<lparr>oe_sequence := None\<rparr>"

definition held :: "'m association \<Rightarrow> 'm outbound_envelope multiset" where
  "held a = image_mset bare (mset (as_deferred a) + sq_held (as_queue a))"

definition named_in :: "'m association_effect \<Rightarrow> 'm outbound_envelope multiset" where
  "named_in x = (case x of SendEnvelopes es \<Rightarrow> mset es | DiscardEnvelopes _ es \<Rightarrow> mset es | _ \<Rightarrow> {#})"

definition released :: "'m association_effect list \<Rightarrow> 'm outbound_envelope option \<Rightarrow> 'm outbound_envelope multiset" where
  "released es r = image_mset bare (sum_list (map named_in es) + (case r of None \<Rightarrow> {#} | Some e \<Rightarrow> {#e#}))"

definition received :: "'m as_op \<Rightarrow> 'm outbound_envelope multiset" where
  "received op = (case op of OpEnqueue e _ \<Rightarrow> {#bare e#} | _ \<Rightarrow> {#})"

lemma bare_with_sequence [simp]: "bare (oe_with_sequence s e) = bare e" "bare (bare e) = bare e"
  by (simp_all add: bare_def oe_with_sequence_def)

lemma released_simps [simp]:
  "released [] None = {#}" "released [] (Some e) = {#bare e#}"
  "released (x # xs) r = image_mset bare (named_in x) + released xs r"
  "released (xs @ ys) None = released xs None + released ys None"
  by (simp_all add: released_def)

lemma named_in_simps [simp]:
  "named_in (SendEnvelopes es) = mset es" "named_in (DiscardEnvelopes r es) = mset es"
  "named_in (PublishLifecycle ev) = {#}" "named_in (StartHandshake ep n g) = {#}" "named_in (SendAck p) = {#}"
  "named_in (ResendEnvelopes es) = {#}" "named_in (FlushFailed u i s ls t) = {#}" "named_in (FlushCompleted u i s) = {#}"
  "named_in (FlushTimedOut u i s ls) = {#}" "named_in (ScheduleFlushTimeout u i s d) = {#}"
  "named_in (SendFlushRequest u i s ln k) = {#}"
  by (simp_all add: named_in_def)

lemma released_map_nothing: "(\<And>x. named_in (f x) = {#}) \<Longrightarrow> released (map f xs) None = {#}"
  by (induction xs) simp_all

lemma released_append_discarded: "released (append_discarded_envelope r e es) None = add_mset (bare e) (released es None)"
  by (induction es) (auto split: association_effect.split)

text \<open>Fields an operation does not touch.\<close>

definition sizes :: "'m association \<Rightarrow> nat \<times> nat \<times> nat \<times> nat \<times> nat" where
  "sizes a = (as_control_size a, as_message_size a, sq_limits (as_queue a))"

definition lanes_sorted :: "'m send_queue \<Rightarrow> bool" where
  "lanes_sorted q \<longleftrightarrow> list_all is_system_envelope (sq_system q) \<and> list_all (\<lambda>e. oe_sequence e \<noteq> None) (sq_system q)
     \<and> list_all (\<lambda>e. \<not> is_system_envelope e) (sq_user q @ sq_large q)"

definition counted_deferred :: "'m association \<Rightarrow> bool" where
  "counted_deferred a \<longleftrightarrow>
     as_deferred_system a = length (filter is_system_envelope (as_deferred a)) \<and>
     as_deferred_user a = length (filter (\<lambda>e. \<not> is_system_envelope e) (as_deferred a)) \<and>
     as_deferred_system a \<le> as_control_size a \<and> as_deferred_user a \<le> as_message_size a"

definition as_wf :: "'m association \<Rightarrow> bool" where
  "as_wf a \<longleftrightarrow> counted_deferred a \<and> sq_bounded (as_queue a) \<and> lanes_sorted (as_queue a)
     \<and> (state_is_quarantined (as_state a) \<longrightarrow> held a = {#})
     \<and> (\<not> state_is_active (as_state a) \<longrightarrow> as_flushes a = [])"

text \<open>What every operation promises: no envelope appears or disappears, sizes stay, well-formedness is kept.\<close>

definition accounts :: "'m outbound_envelope multiset \<Rightarrow> 'm association \<Rightarrow> 'm as_result \<Rightarrow> bool" where
  "accounts inp a res \<longleftrightarrow>
     (case res of (es, r, a') \<Rightarrow>
        held a' + released es r = held a + inp \<and> sizes a' = sizes a \<and> (as_wf a \<longrightarrow> as_wf a'))"

lemmas wf_defs = Let_def as_wf_def counted_deferred_def held_def sizes_def state_is_quarantined_def state_is_active_def

lemma accounts_same: "accounts {#} a ([], None, a)"
  by (simp add: accounts_def)

lemma accounts_associate: "accounts {#} a (of_effects (as_associate ep now a))"
  by (cases "as_state a") (simp_all add: as_associate_def advance_generation_def of_effects_def accounts_def wf_defs)

lemma accounts_recover: "accounts {#} a (of_effects (as_recover ep now a))"
  by (cases "as_state a"; cases ep)
    (simp_all add: as_recover_def advance_generation_def of_effects_def accounts_def wf_defs state_is_gated_def)

lemma accounts_accepted: "accounts {#} a (of_result (handshake_accepted node now a))"
  by (cases "as_state a")
    (simp_all add: handshake_accepted_def of_result_def accounts_def wf_defs clear_deferred_counts_def connected_event_def)

lemma accounts_timed_out: "accounts {#} a (of_effects (handshake_timed_out now resume a))"
  by (cases "as_state a")
    (simp_all add: handshake_timed_out_def of_effects_def accounts_def wf_defs clear_deferred_counts_def gated_event_def
      reset_redelivery_state_def)

lemma accounts_gate: "accounts {#} a (of_effects (as_gate resume a))"
  by (cases "as_state a")
    (simp_all add: as_gate_def of_effects_def accounts_def wf_defs gated_event_def fail_pending_flushes_def
      flush_failed_def released_map_nothing)

lemma quarantine_effects:
  assumes "as_quarantine reason now a = (es, a')" "\<not> state_is_quarantined (as_state a)"
  shows "released es None = held a \<and> held a' = {#} \<and> sizes a' = sizes a \<and> as_flushes a' = []
    \<and> state_is_quarantined (as_state a') \<and> as_deferred a' = [] \<and> sq_is_empty (as_queue a')
    \<and> as_deferred_system a' = 0 \<and> as_deferred_user a' = 0 \<and> as_pending a' = []"
  using assms by (auto simp: as_quarantine_def Let_def fail_pending_flushes_def flush_failed_def released_map_nothing
      clear_deferred_counts_def reset_redelivery_state_def held_def sizes_def state_is_quarantined_def drain_all_def
      sq_held_def sq_limits_def sq_is_empty_def)

lemma empty_queue_ok: "sq_is_empty q \<Longrightarrow> sq_bounded q \<and> lanes_sorted q"
  by (simp add: sq_is_empty_def sq_bounded_def lanes_sorted_def)

lemma accounts_quarantine: "accounts {#} a (of_effects (as_quarantine reason now a))"
proof (cases "state_is_quarantined (as_state a)")
  case True
  then show ?thesis by (simp add: as_quarantine_def of_effects_def accounts_same)
next
  case False
  obtain es a' where q: "as_quarantine reason now a = (es, a')" by fastforce
  from quarantine_effects [OF q False] empty_queue_ok [of "as_queue a'"] show ?thesis
    by (simp add: q of_effects_def accounts_def as_wf_def counted_deferred_def)
qed

lemma accounts_overflow:
  assumes "\<not> state_is_quarantined (as_state a)"
  shows "accounts {#bare e#} a (of_effects (control_queue_overflow_effects e now a))"
proof -
  obtain es a' where q: "as_quarantine (overflow_reason a) now a = (es, a')" by fastforce
  from accounts_quarantine [of a "overflow_reason a" now] quarantine_effects [OF q assms] show ?thesis
    by (simp add: control_queue_overflow_effects_def q of_effects_def accounts_def released_append_discarded)
qed

lemma accounts_deferred:
  "\<not> state_is_quarantined (as_state a) \<Longrightarrow> accounts {#bare e#} a (of_effects (enqueue_deferred e a))"
  by (auto simp: enqueue_deferred_def of_effects_def accounts_def wf_defs increment_deferred_count_def
      deferred_has_capacity_for_def queue_full_discard_effect_def Let_def)

lemma accounts_frame:
  assumes "as_deferred a' = as_deferred a" "as_deferred_system a' = as_deferred_system a" "as_deferred_user a' = as_deferred_user a"
    and "as_queue a' = as_queue a" "as_control_size a' = as_control_size a" "as_message_size a' = as_message_size a"
    and "state_is_quarantined (as_state a') = state_is_quarantined (as_state a)" "state_is_active (as_state a') = state_is_active (as_state a)"
    and "\<not> state_is_active (as_state a) \<longrightarrow> as_flushes a = [] \<longrightarrow> as_flushes a' = []" and "released es None = {#}"
  shows "accounts {#} a (es, None, a')"
  using assms by (auto simp: accounts_def as_wf_def counted_deferred_def held_def sizes_def)

lemma activity_frame:
  "as_deferred (record_handshake_activity now a) = as_deferred a" "as_queue (record_handshake_activity now a) = as_queue a"
  "as_deferred_system (record_handshake_activity now a) = as_deferred_system a"
  "as_deferred_user (record_handshake_activity now a) = as_deferred_user a"
  "as_control_size (record_handshake_activity now a) = as_control_size a"
  "as_message_size (record_handshake_activity now a) = as_message_size a"
  "as_flushes (record_handshake_activity now a) = as_flushes a" "as_pending (record_handshake_activity now a) = as_pending a"
  "as_tracker (record_handshake_activity now a) = as_tracker a" "as_next_sequence (record_handshake_activity now a) = as_next_sequence a"
  "state_is_active (as_state (record_handshake_activity now a)) = state_is_active (as_state a)"
  "state_is_quarantined (as_state (record_handshake_activity now a)) = state_is_quarantined (as_state a)"
  by (cases "as_state a"; simp add: record_handshake_activity_def state_is_active_def state_is_quarantined_def)+

lemma released_resend [simp]: "released (resend_effect es) None = {#}"
  by (simp add: resend_effect_def)

lemma accounts_ack: "accounts {#} a (of_effects (as_apply_ack pdu now a))"
  unfolding as_apply_ack_def of_effects_def nacked_pending_envelopes_def Let_def case_prod_beta fst_conv snd_conv
  by (rule accounts_frame) (simp_all add: activity_frame)

lemma accounts_observe: "observe_inbound_system_envelope s now a = ((d, es), a') \<Longrightarrow> accounts {#} a (es, None, a')"
  by (rule accounts_frame) (auto simp: observe_inbound_system_envelope_def activity_frame Let_def split: prod.splits)

lemma accounts_resend: "accounts {#} a (of_effects (as_resend_due now after a))"
  unfolding as_resend_due_def of_effects_def fst_conv snd_conv by (rule accounts_frame) simp_all

lemma accounts_signal: "accounts {#} a ([], None, as_apply_backpressure sig a)"
proof -
  have "lanes_sorted (sq_apply_backpressure sig (as_queue a)) = lanes_sorted (as_queue a)"
    by (cases sig) (simp_all add: sq_apply_backpressure_def lanes_sorted_def)
  then show ?thesis by (simp add: accounts_def as_apply_backpressure_def wf_defs backpressure_cases)
qed

lemma accounts_flush:
  "accounts {#} a (of_effects (start_flush scope lanes timeout now a))"
  "accounts {#} a (of_effects (apply_flush_ack i lane a))"
  "accounts {#} a (of_effects (flush_timed_out i now a))"
  "accounts {#} a (of_effects (fail_flush i reason a))"
proof -
  show "accounts {#} a (of_effects (start_flush scope lanes timeout now a))"
    by (auto simp: start_flush_def take_flush_id_def of_effects_def Let_def released_map_nothing intro!: accounts_frame)
  have none: "flush_position i [] = None" for i by (simp add: flush_position_def)
  show "accounts {#} a (of_effects (apply_flush_ack i lane a))" "accounts {#} a (of_effects (flush_timed_out i now a))"
    "accounts {#} a (of_effects (fail_flush i reason a))"
    by (auto simp: apply_flush_ack_def flush_timed_out_def fail_flush_def flush_failed_def of_effects_def Let_def none remove_at_def
        split: option.splits prod.splits intro!: accounts_frame)
qed

lemma mark_sent_frame: "accounts inp a (es, r, mark_system_envelope_sent e now a') = accounts inp a (es, r, a')"
  by (simp add: mark_system_envelope_sent_def accounts_def wf_defs split: option.split)

lemma accounts_next:
  assumes "as_next_outbound now a = (r, a')"
  shows "accounts {#} a ([], r, a')"
proof -
  obtain q where q: "sq_next_outbound (as_queue a) = (r, q)" using assms by (auto simp: as_next_outbound_def Let_def split: prod.splits)
  have "lanes_sorted (as_queue a) \<longrightarrow> lanes_sorted q"
    using q by (auto simp: sq_next_outbound_def lanes_sorted_def split: list.splits if_splits)
  moreover have "sq_held (as_queue a) = {#} \<longrightarrow> sq_held q = {#}" using next_cases [OF q] by auto
  ultimately have "accounts {#} a ([], r, a\<lparr>as_queue := q\<rparr>)"
    using next_cases [OF q] by (cases r) (auto simp: accounts_def wf_defs)
  moreover have "a' = (case r of None \<Rightarrow> a\<lparr>as_queue := q\<rparr> | Some e \<Rightarrow> mark_system_envelope_sent e now (a\<lparr>as_queue := q\<rparr>))"
    using assms q by (simp add: as_next_outbound_def Let_def)
  ultimately show ?thesis by (cases r) (simp_all add: mark_sent_frame)
qed

section \<open>Enqueueing\<close>

lemma track_frame: "accounts inp a (es, r, track_pending_system_envelope_for sq e a') = accounts inp a (es, r, a')"
  by (simp add: track_pending_system_envelope_for_def accounts_def wf_defs split: option.split)

lemma assign_cases:
  assumes "assign_redelivery_sequence e a = ((e', sq), a')"
  shows "bare e' = bare e \<and> is_system_envelope e' = is_system_envelope e \<and> oe_priority e' = oe_priority e \<and> oe_recipient e' = oe_recipient e
    \<and> (is_system_envelope e' \<longrightarrow> oe_sequence e' \<noteq> None) \<and> as_queue a' = as_queue a \<and> as_destinations a' = as_destinations a
    \<and> as_state a' = as_state a \<and> as_wf a' = as_wf a \<and> sizes a' = sizes a \<and> held a' = held a"
  using assms by (cases "oe_sequence e") (auto simp: assign_redelivery_sequence_def oe_with_sequence_def bare_def is_system_envelope_def wf_defs
      split: if_splits dest: sym)

lemma accounts_trans:
  assumes "held b = held a" "sizes b = sizes a" "as_wf b = as_wf a" and "accounts inp b res"
  shows "accounts inp a res"
  using assms by (simp add: accounts_def split: prod.splits)

lemma accounts_accept:
  assumes "state_is_active (as_state a)" and "sq_held q = add_mset e (sq_held (as_queue a))" "sq_limits q = sq_limits (as_queue a)"
    and "sq_bounded (as_queue a) \<longrightarrow> sq_bounded q" "lanes_sorted (as_queue a) \<longrightarrow> lanes_sorted q"
  shows "accounts {#bare e#} a ([], None, a\<lparr>as_queue := q\<rparr>)"
  using assms by (cases "as_state a") (auto simp: accounts_def wf_defs)

lemma active_not_quarantined: "state_is_active s \<Longrightarrow> \<not> state_is_quarantined s"
  by (cases s) (simp_all add: state_is_active_def state_is_quarantined_def)

lemma offer_lanes_sorted:
  assumes "(if large then offer_large_message e q else offer e q) = (r, q')" and "large \<longrightarrow> \<not> is_system_envelope e"
    and "is_system_envelope e \<longrightarrow> oe_sequence e \<noteq> None" and "lanes_sorted q"
  shows "lanes_sorted q'"
  using assms by (auto simp: offer_large_message_def offer_def lanes_sorted_def is_system_envelope_def is_system_def
      split: if_splits outbound_priority.splits)

lemma large_is_user: "should_use_large_message_queue e a = Some True \<Longrightarrow> \<not> is_system_envelope e"
  by (auto simp: should_use_large_message_queue_def is_system_envelope_def is_system_def split: if_splits)

lemma accounts_discard: "accounts {#bare e#} a (of_effects (queue_full_discard_effect e, a))"
  by (simp add: queue_full_discard_effect_def of_effects_def accounts_def)

lemma enqueue_active_cases:
  assumes "enqueue_active e now a = Some res" "assign_redelivery_sequence e a = ((e', sq), a1)"
  obtains (full) "res = control_queue_overflow_effects e now a"
    | (offered) large r q where "should_use_large_message_queue e' a1 = Some large"
      "(if large then offer_large_message e' (as_queue a1) else offer e' (as_queue a1)) = (r, q)"
      "res = (case r of OfferAccepted \<Rightarrow> ([], track_pending_system_envelope_for sq e' (a1\<lparr>as_queue := q\<rparr>))
        | QueueFull f \<Rightarrow> if is_system_envelope f then control_queue_overflow_effects f now (a1\<lparr>as_queue := q\<rparr>)
            else (queue_full_discard_effect f, a1\<lparr>as_queue := q\<rparr>))"
  using assms by (fastforce simp: enqueue_active_def Let_def split: if_splits prod.splits offer_outcome.splits)

lemma accounts_enqueue_active:
  assumes act: "state_is_active (as_state a)" and "enqueue_active e now a = Some res"
  shows "accounts {#bare e#} a (of_effects res)"
proof -
  obtain e' sq a1 where as: "assign_redelivery_sequence e a = ((e', sq), a1)" by (metis prod.exhaust)
  note a1 = assign_cases [OF as]
  from assms(2) as show ?thesis
  proof (cases rule: enqueue_active_cases)
    case full
    then show ?thesis using accounts_overflow [OF active_not_quarantined [OF act]] by simp
  next
    case (offered large r q)
    have limits: "sq_limits q = sq_limits (as_queue a1) \<and> (sq_bounded (as_queue a1) \<longrightarrow> sq_bounded q)
        \<and> (r = OfferAccepted \<and> sq_held q = add_mset e' (sq_held (as_queue a1)) \<or> r = QueueFull e' \<and> q = as_queue a1)"
      using offered(2) offer_cases [of e' "as_queue a1" r q] offer_large_cases [of e' "as_queue a1" r q] by (cases large) simp_all
    have sorted: "lanes_sorted (as_queue a1) \<longrightarrow> lanes_sorted q"
      using offer_lanes_sorted [OF offered(2)] large_is_user [of e' a1] offered(1) a1 by (cases large) auto
    have "accounts {#bare e'#} a1 (of_effects res)"
    proof (cases "r = OfferAccepted")
      case True
      then have "res = ([], track_pending_system_envelope_for sq e' (a1\<lparr>as_queue := q\<rparr>))" using offered(3) by simp
      moreover have "accounts {#bare e'#} a1 ([], None, a1\<lparr>as_queue := q\<rparr>)"
        by (rule accounts_accept) (use True limits sorted act a1 in auto)
      ultimately show ?thesis by (simp add: of_effects_def track_frame)
    next
      case False
      then have *: "r = QueueFull e'" "a1\<lparr>as_queue := q\<rparr> = a1" using limits by auto
      then show ?thesis
        using offered(3) a1 accounts_overflow [of a1 e' now] accounts_discard [of e' a1] active_not_quarantined [OF act] by simp
    qed
    then show ?thesis using a1 by (metis accounts_trans)
  qed
qed

lemma accounts_enqueue: "as_enqueue e now a = Some res \<Longrightarrow> accounts {#bare e#} a (of_effects res)"
  using accounts_enqueue_active [of a e now res] accounts_deferred [of a e]
  by (cases "as_state a") (auto simp: as_enqueue_def state_is_active_def state_is_quarantined_def of_effects_def accounts_def)

lemma of_result_error: "of_result (Inl err, a) = ([], None, a)"
  by (simp add: of_result_def)

lemma accounts_handshake:
  "accounts {#} a (of_result (accept_handshake_request q now a))" "accounts {#} a (of_result (accept_handshake_response p now a))"
  by (simp_all add: accept_handshake_request_def accept_handshake_response_def accounts_accepted accounts_same of_result_error split: sum.split)

lemma accounts_eq: "accounts inp a res \<Longrightarrow> res = out \<Longrightarrow> accounts inp a out"
  by simp

lemma step_accounts:
  assumes "as_step op a = Some (es, r, a')"
  shows "accounts (received op) a (es, r, a')"
proof (cases op)
  case (OpRequest q now)
  then show ?thesis using assms accounts_handshake(1) [of a q now] by (simp add: as_step_def received_def)
next
  case (OpResponse q now)
  then show ?thesis using assms accounts_handshake(2) [of a q now] by (simp add: as_step_def received_def)
next
  case (OpEnqueue e now)
  then show ?thesis using assms accounts_enqueue [of e now a] by (auto simp: as_step_def received_def)
next
  case (OpNext now)
  then show ?thesis using assms accounts_next [of now a] by (auto simp: as_step_def received_def split: prod.splits)
next
  case (OpObserve sq now)
  then show ?thesis using assms accounts_observe [of sq now a] by (auto simp: as_step_def received_def split: prod.splits)
qed (use assms in \<open>auto simp: as_step_def received_def intro: accounts_eq [OF accounts_associate] accounts_eq [OF accounts_timed_out]
    accounts_eq [OF accounts_quarantine] accounts_eq [OF accounts_gate] accounts_eq [OF accounts_recover] accounts_eq [OF accounts_ack]
    accounts_eq [OF accounts_resend] accounts_signal accounts_eq [OF accounts_flush(1)] accounts_eq [OF accounts_flush(2)]
    accounts_eq [OF accounts_flush(3)] accounts_eq [OF accounts_flush(4)]\<close>)

text \<open>A step fails only by the assertion of the path matcher, which a well-formed recipient never meets.\<close>

lemma destinations_total: "parse_absolute_segments path = Some segs \<Longrightarrow> destinations_match ds path \<noteq> None"
  by (induction ds) (auto simp: pattern_matches_def split: bool.split)

lemma enqueue_total:
  assumes "wf_path (oe_recipient e)"
  shows "as_enqueue e now a \<noteq> None"
proof -
  obtain e' sq a1 where as: "assign_redelivery_sequence e a = ((e', sq), a1)" by (metis prod.exhaust)
  have "should_use_large_message_queue e' a1 \<noteq> None"
    using assign_cases [OF as] destinations_total [OF relative_absolute [OF assms]] by (auto simp: should_use_large_message_queue_def)
  then show ?thesis
    by (cases "as_state a") (simp_all add: as_enqueue_def enqueue_active_def as del: not_None_eq)
qed

section \<open>Properties\<close>

definition recipients_ok :: "'m as_op \<Rightarrow> bool" where
  "recipients_ok op \<longleftrightarrow> (case op of OpEnqueue e _ \<Rightarrow> wf_path (oe_recipient e) | _ \<Rightarrow> True)"

lemma step_total: "recipients_ok op \<Longrightarrow> as_step op a \<noteq> None"
  using enqueue_total by (cases op) (auto simp: as_step_def recipients_ok_def Let_def split: prod.splits)

lemma run_wf: "as_run ops a = Some b \<Longrightarrow> as_wf a \<Longrightarrow> as_wf b \<and> sizes b = sizes a"
proof (induction ops arbitrary: a)
  case (Cons op ops)
  then obtain es r a' where st: "as_step op a = Some (es, r, a')" and "as_run ops a' = Some b" by (auto split: option.splits)
  then show ?case using Cons step_accounts [OF st] by (auto simp: accounts_def)
qed simp

lemma run_total: "list_all recipients_ok ops \<Longrightarrow> as_run ops a \<noteq> None"
  using step_total by (induction ops arbitrary: a) (fastforce split: option.splits)+

lemma with_limits_wf:
  assumes "association_with_limits loc rem lim remove_after timeout = Some a"
  shows "as_wf a \<and> sizes a = (ql_control lim, ql_message lim, ql_control lim, ql_message lim, ql_large lim)"
  using assms by (auto simp: association_with_limits_def with_lane_limits_def wf_defs sq_held_def sq_bounded_def lanes_sorted_def
      sq_limits_def split: if_splits)

definition sample_limits :: queue_limits where
  "sample_limits = \<lparr>ql_control = 2, ql_message = 1, ql_large = 1, ql_ack_send_window = 8, ql_ack_receive_window = 8, ql_destinations = []\<rparr>"

definition sample_assoc :: "nat association" where
  "sample_assoc = the (association_with_limits node_a (address_of node_b) sample_limits 2 2)"

definition sample_envelope :: "outbound_priority \<Rightarrow> nat \<Rightarrow> nat outbound_envelope" where
  "sample_envelope prio n = outbound_envelope_new (root_with_guardian UserGuardian) None n prio (remote_node_id_from node_b) correlation_nil"

lemma sample_assoc_new: "association_with_limits node_a (address_of node_b) sample_limits 2 2 = Some sample_assoc"
  by (simp add: sample_assoc_def association_with_limits_def with_lane_limits_def sample_limits_def)

lemma sample_envelope_recipient: "wf_path (oe_recipient (sample_envelope prio n))"
proof -
  have "wf_parts ((parts_local ''cellactor'')\<lparr>pp_guardian := UserGuardian\<rparr>)" by code_simp
  then show ?thesis
    by (simp add: sample_envelope_def outbound_envelope_new_def root_with_guardian_def builders_wf(2))
qed

text \<open>
  Claim C15. No operation of an association loses an envelope silently. What it held and what came in
  is afterwards held in the deferred buffer or the send queue, handed out to the transport, or named
  in an effect that sends or discards it, with multiplicities: full buffers, timeouts, gating,
  quarantine and handshakes included.
\<close>

theorem association_conserves_envelopes:
  assumes "as_step op a = Some (effects, outbound, a')"
  shows "held a' + released effects outbound = held a + received op"
  using step_accounts [OF assms] by (simp add: accounts_def)

theorem association_conserves_envelopes_witness:
  "held (snd (enqueue_deferred (sample_envelope UserPriority 7) sample_assoc)) + released [] None
    = held sample_assoc + received (OpEnqueue (sample_envelope UserPriority 7) 0)"
proof (rule association_conserves_envelopes)
  show "as_step (OpEnqueue (sample_envelope UserPriority 7) 0) sample_assoc =
      Some ([], None, snd (enqueue_deferred (sample_envelope UserPriority 7) sample_assoc))"
    by (simp add: as_step_def as_enqueue_def sample_assoc_def association_with_limits_def with_lane_limits_def sample_limits_def
        enqueue_deferred_def deferred_has_capacity_for_def sample_envelope_def outbound_envelope_new_def is_system_envelope_def
        is_system_def of_effects_def Let_def)
qed

text \<open>
  Claim C22. In every run of operations, whatever their order, an association stays within its limits:
  each lane of the send queue and the two kinds of deferred envelopes. The deferred counters are
  exact, the system lane holds only system envelopes with a sequence number, a quarantined
  association holds nothing and flush sessions exist only while it is active. The run never panics
  when the recipients are well-formed paths.
\<close>

theorem association_run_invariants:
  assumes "association_with_limits loc rem lim remove_after timeout = Some a" and "list_all recipients_ok ops"
  shows "\<exists>b. as_run ops a = Some b
    \<and> length (sq_system (as_queue b)) \<le> ql_control lim \<and> length (sq_user (as_queue b)) \<le> ql_message lim
    \<and> length (sq_large (as_queue b)) \<le> ql_large lim
    \<and> length (filter is_system_envelope (as_deferred b)) \<le> ql_control lim
    \<and> length (filter (\<lambda>e. \<not> is_system_envelope e) (as_deferred b)) \<le> ql_message lim
    \<and> list_all (\<lambda>e. is_system_envelope e \<and> oe_sequence e \<noteq> None) (sq_system (as_queue b))
    \<and> (state_is_quarantined (as_state b) \<longrightarrow> as_deferred b = [] \<and> sq_is_empty (as_queue b))
    \<and> (\<not> state_is_active (as_state b) \<longrightarrow> as_flushes b = [])"
proof -
  obtain b where b: "as_run ops a = Some b" using run_total [OF assms(2), of a] by blast
  from run_wf [OF b] with_limits_wf [OF assms(1)] have "as_wf b" and
    s: "sizes b = (ql_control lim, ql_message lim, ql_control lim, ql_message lim, ql_large lim)" by auto
  then show ?thesis using b
    by (auto simp: as_wf_def counted_deferred_def sizes_def sq_limits_def sq_bounded_def lanes_sorted_def held_def list_all_iff
        sq_is_empty_iff)
qed

theorem association_run_invariants_witness:
  "\<exists>b. as_run [OpAssociate (TransportEndpoint ''b'') 0, OpEnqueue (sample_envelope SystemPriority 1) 1, OpQuarantine ''x'' 2] sample_assoc = Some b
    \<and> length (sq_system (as_queue b)) \<le> ql_control sample_limits \<and> length (sq_user (as_queue b)) \<le> ql_message sample_limits
    \<and> length (sq_large (as_queue b)) \<le> ql_large sample_limits
    \<and> length (filter is_system_envelope (as_deferred b)) \<le> ql_control sample_limits
    \<and> length (filter (\<lambda>e. \<not> is_system_envelope e) (as_deferred b)) \<le> ql_message sample_limits
    \<and> list_all (\<lambda>e. is_system_envelope e \<and> oe_sequence e \<noteq> None) (sq_system (as_queue b))
    \<and> (state_is_quarantined (as_state b) \<longrightarrow> as_deferred b = [] \<and> sq_is_empty (as_queue b))
    \<and> (\<not> state_is_active (as_state b) \<longrightarrow> as_flushes b = [])"
  by (rule association_run_invariants [OF sample_assoc_new]) (simp add: recipients_ok_def sample_envelope_recipient)

end
