(* ===== verification/Association_Delivery.thy ===== *)
theory Association_Delivery
  imports Association_Queues
begin

text \<open>
  Two associations joined by a network that loses, duplicates and reorders. System envelopes are
  numbered, kept until they are acknowledged, resent by timer and on negative acknowledgement, and
  delivered only in sequence. The invariant below is the go-back-N argument for the code of
  \<open>association/base.rs\<close>: what is delivered is a prefix of what was accepted, and what is not yet
  delivered is still retained by the sender.
\<close>

section \<open>Two peers and a network\<close>

text \<open>
  The two sides are the truth values. Everything a side ever put on the wire stays available, so a
  packet can arrive late, twice, or never; \<open>dx_accepted\<close> and \<open>dx_delivered\<close> record history only.
\<close>

record 'm duplex =
  dx_assoc :: "bool \<Rightarrow> 'm association"
  dx_packets :: "bool \<Rightarrow> 'm outbound_envelope list"
  dx_acks :: "bool \<Rightarrow> ack_pdu list"
  dx_accepted :: "bool \<Rightarrow> 'm outbound_envelope list"
  dx_delivered :: "bool \<Rightarrow> 'm outbound_envelope list"

datatype 'm dx_action =
    DEnqueue bool "'m outbound_envelope" u64
  | DRetry bool nat u64
  | DNext bool u64
  | DResend bool u64 u64
  | DDeliver bool nat u64
  | DAck bool nat u64
  | DSignal bool backpressure_signal

fun resent :: "'m association_effect list \<Rightarrow> 'm outbound_envelope list" where
  "resent [] = []"
| "resent (x # xs) = (case x of ResendEnvelopes es \<Rightarrow> es @ resent xs | _ \<Rightarrow> resent xs)"

fun sent_acks :: "'m association_effect list \<Rightarrow> ack_pdu list" where
  "sent_acks [] = []"
| "sent_acks (x # xs) = (case x of SendAck p \<Rightarrow> p # sent_acks xs | _ \<Rightarrow> sent_acks xs)"

definition put_side :: "bool \<Rightarrow> 'm association \<Rightarrow> 'm outbound_envelope list \<Rightarrow> 'm duplex \<Rightarrow> 'm duplex" where
  "put_side s a es d = d\<lparr>dx_assoc := (dx_assoc d)(s := a), dx_packets := (dx_packets d)(s := dx_packets d s @ es)\<rparr>"

text \<open>
  An envelope is accepted when it is a new system envelope and enqueueing it has no effect to report.
  A retry gives an envelope the transport refused back to the association. The receiver treats a
  system envelope as \<open>handle_inbound_envelope\<close> does; user envelopes are not numbered and not tracked.
\<close>

definition dx_step :: "'m dx_action \<Rightarrow> 'm duplex \<Rightarrow> 'm duplex" where
  "dx_step act d =
     (case act of
        DEnqueue s e now \<Rightarrow>
          (case as_enqueue e now (dx_assoc d s) of
             None \<Rightarrow> d
           | Some (es, a) \<Rightarrow>
               (put_side s a [] d)\<lparr>dx_accepted := (dx_accepted d)(s := dx_accepted d s @
                  (if is_system_envelope e \<and> es = [] then [bare e] else []))\<rparr>)
      | DRetry s i now \<Rightarrow>
          if i < length (dx_packets d s) then
            (case as_enqueue (dx_packets d s ! i) now (dx_assoc d s) of None \<Rightarrow> d | Some (es, a) \<Rightarrow> put_side s a [] d)
          else d
      | DNext s now \<Rightarrow>
          (let (r, a) = as_next_outbound now (dx_assoc d s) in put_side s a (case r of None \<Rightarrow> [] | Some e \<Rightarrow> [e]) d)
      | DResend s now after \<Rightarrow>
          (let (es, a) = as_resend_due now after (dx_assoc d s) in put_side s a (resent es) d)
      | DDeliver s i now \<Rightarrow>
          if i < length (dx_packets d (\<not> s)) then
            (let e = dx_packets d (\<not> s) ! i in
             case oe_sequence e of
               None \<Rightarrow> d
             | Some q \<Rightarrow>
                 (let ((deliver, es), a) = observe_inbound_system_envelope q now (dx_assoc d s) in
                  (put_side s a [] d)\<lparr>dx_acks := (dx_acks d)(s := dx_acks d s @ sent_acks es),
                    dx_delivered := (dx_delivered d)(s := dx_delivered d s @ (if deliver then [bare e] else []))\<rparr>))
          else d
      | DAck s i now \<Rightarrow>
          if i < length (dx_acks d (\<not> s)) then
            (let (es, a) = as_apply_ack (dx_acks d (\<not> s) ! i) now (dx_assoc d s) in put_side s a (resent es) d)
          else d
      | DSignal s sig \<Rightarrow> put_side s (as_apply_backpressure sig (dx_assoc d s)) [] d)"

fun dx_run :: "'m dx_action list \<Rightarrow> 'm duplex \<Rightarrow> 'm duplex" where
  "dx_run [] d = d"
| "dx_run (x # xs) d = dx_run xs (dx_step x d)"

text \<open>New envelopes carry no sequence number, as \<open>OutboundEnvelope::new\<close> builds them.\<close>

definition fresh_action :: "'m dx_action \<Rightarrow> bool" where
  "fresh_action act \<longleftrightarrow> (case act of DEnqueue s e now \<Rightarrow> oe_sequence e = None | _ \<Rightarrow> True)"

definition dx_new :: "'m association \<Rightarrow> 'm association \<Rightarrow> 'm duplex" where
  "dx_new a b = \<lparr>dx_assoc = (\<lambda>s. if s then a else b), dx_packets = (\<lambda>_. []), dx_acks = (\<lambda>_. []),
     dx_accepted = (\<lambda>_. []), dx_delivered = (\<lambda>_. [])\<rparr>"

definition dx_active :: "'m duplex \<Rightarrow> bool" where
  "dx_active d \<longleftrightarrow> state_is_active (as_state (dx_assoc d True)) \<and> state_is_active (as_state (dx_assoc d False))"

text \<open>An association that has just become active and has exchanged nothing yet.\<close>

definition just_connected :: "'m association \<Rightarrow> bool" where
  "just_connected a \<longleftrightarrow> state_is_active (as_state a) \<and> as_next_sequence a = 1 \<and> as_pending a = [] \<and> sq_is_empty (as_queue a)
     \<and> st_cumulative_ack (as_tracker a) = 0"

section \<open>The sender's side of the invariant\<close>

definition numbered :: "'m outbound_envelope list \<Rightarrow> 'm outbound_envelope \<Rightarrow> bool" where
  "numbered acc e \<longleftrightarrow>
     (case oe_sequence e of
        None \<Rightarrow> \<not> is_system_envelope e
      | Some q \<Rightarrow> 1 \<le> unat q \<and> unat q \<le> length acc \<and> bare e = acc ! (unat q - 1) \<and> is_system_envelope e)"

definition sender_ok ::
    "'m outbound_envelope list \<Rightarrow> 'm outbound_envelope list \<Rightarrow> nat \<Rightarrow> 'm association \<Rightarrow> bool" where
  "sender_ok acc pk c a \<longleftrightarrow>
     unat (as_next_sequence a) = length acc + 1
     \<and> (\<forall>e \<in> set pk \<union> set_mset (sq_held (as_queue a)). numbered acc e)
     \<and> (\<forall>p \<in> set (as_pending a). oe_sequence (pe_envelope p) = Some (pe_sequence p) \<and> numbered acc (pe_envelope p))
     \<and> distinct (map pe_sequence (as_pending a))
     \<and> (\<forall>i. c \<le> i \<and> i < length acc \<longrightarrow> (\<exists>p \<in> set (as_pending a). unat (pe_sequence p) = i + 1))
     \<and> (\<forall>p \<in> set (as_pending a). pe_last_sent_at p = None \<longrightarrow> pe_envelope p \<in> set (sq_system (as_queue a)))"

definition tracker_ok ::
    "'m outbound_envelope list \<Rightarrow> ack_pdu list \<Rightarrow> 'm outbound_envelope list \<Rightarrow> sequence_tracker \<Rightarrow> bool" where
  "tracker_ok acc ak dl t \<longleftrightarrow>
     unat (st_cumulative_ack t) \<le> length acc \<and> dl = take (unat (st_cumulative_ack t)) acc
     \<and> (\<forall>p \<in> set ak. ap_cumulative_ack p \<le> st_cumulative_ack t)"

definition stream_ok :: "'m duplex \<Rightarrow> bool \<Rightarrow> bool" where
  "stream_ok d s \<longleftrightarrow>
     sender_ok (dx_accepted d s) (dx_packets d s) (unat (st_cumulative_ack (as_tracker (dx_assoc d (\<not> s))))) (dx_assoc d s)
     \<and> tracker_ok (dx_accepted d s) (dx_acks d (\<not> s)) (dx_delivered d (\<not> s)) (as_tracker (dx_assoc d (\<not> s)))"

text \<open>The sequence and envelope of the pending entries; only new envelopes and acknowledgements change them.\<close>

definition pending_pairs :: "'m pending_system_envelope list \<Rightarrow> (u64 \<times> 'm outbound_envelope) list" where
  "pending_pairs ps = map (\<lambda>p. (pe_sequence p, pe_envelope p)) ps"

lemma pending_pairs_all:
  "(\<forall>p \<in> set ps. P (pe_sequence p) (pe_envelope p)) \<longleftrightarrow> (\<forall>x \<in> set (pending_pairs ps). P (fst x) (snd x))"
  "(\<exists>p \<in> set ps. Q (pe_sequence p)) \<longleftrightarrow> (\<exists>x \<in> set (pending_pairs ps). Q (fst x))"
  "map pe_sequence ps = map fst (pending_pairs ps)"
  by (auto simp: pending_pairs_def)

lemma sender_ok_pairs:
  "sender_ok acc pk c a \<longleftrightarrow>
     unat (as_next_sequence a) = length acc + 1
     \<and> (\<forall>e \<in> set pk \<union> set_mset (sq_held (as_queue a)). numbered acc e)
     \<and> (\<forall>x \<in> set (pending_pairs (as_pending a)). oe_sequence (snd x) = Some (fst x) \<and> numbered acc (snd x))
     \<and> distinct (map fst (pending_pairs (as_pending a)))
     \<and> (\<forall>i. c \<le> i \<and> i < length acc \<longrightarrow> (\<exists>x \<in> set (pending_pairs (as_pending a)). unat (fst x) = i + 1))
     \<and> (\<forall>p \<in> set (as_pending a). pe_last_sent_at p = None \<longrightarrow> pe_envelope p \<in> set (sq_system (as_queue a)))"
  unfolding sender_ok_def pending_pairs_all(1) [where P = "\<lambda>q e. oe_sequence e = Some q \<and> numbered acc e"]
    pending_pairs_all(2) [where Q = "\<lambda>q. unat q = _ + 1"] pending_pairs_all(3) ..

lemma sender_ok_update:
  assumes "sender_ok acc pk c a" and "as_next_sequence a' = as_next_sequence a"
    and "pending_pairs (as_pending a') = pending_pairs (as_pending a)"
    and "\<forall>e \<in> set pk' \<union> set_mset (sq_held (as_queue a')). numbered acc e"
    and "\<forall>p \<in> set (as_pending a'). pe_last_sent_at p = None \<longrightarrow> pe_envelope p \<in> set (sq_system (as_queue a'))"
  shows "sender_ok acc pk' c a'"
  using assms unfolding sender_ok_pairs by simp

lemma sender_ok_same:
  assumes "sender_ok acc pk c a" "as_next_sequence a' = as_next_sequence a" "as_pending a' = as_pending a" "as_queue a' = as_queue a"
  shows "sender_ok acc pk c a'"
  using assms by (simp add: sender_ok_def)

lemma sender_ok_later: "sender_ok acc pk c a \<Longrightarrow> c \<le> c' \<Longrightarrow> sender_ok acc pk c' a"
  by (auto simp: sender_ok_def)

lemma pending_pairs_simps [simp]:
  "pending_pairs (mark_sent q now ps) = pending_pairs ps"
  "pending_pairs (ps @ ps') = pending_pairs ps @ pending_pairs ps'"
  "pending_pairs (map (\<lambda>p. if P p then p\<lparr>pe_last_sent_at := t\<rparr> else p) ps) = pending_pairs ps"
  "pending_pairs (filter (\<lambda>p. Q (pe_sequence p)) ps) = filter (\<lambda>x. Q (fst x)) (pending_pairs ps)"
  by (induction ps) (simp_all add: pending_pairs_def)

lemma pending_pairs_list [simp]:
  "pending_pairs [] = []" "pending_pairs (p # ps) = (pe_sequence p, pe_envelope p) # pending_pairs ps"
  by (simp_all add: pending_pairs_def)

lemma mark_sent_waiting:
  "p \<in> set (mark_sent q now ps) \<Longrightarrow> pe_last_sent_at p = None \<Longrightarrow> p \<in> set ps"
  by (induction ps) (auto split: if_splits)

lemma mark_sent_marks:
  "p \<in> set (mark_sent q now ps) \<Longrightarrow> pe_last_sent_at p = None \<Longrightarrow> distinct (map pe_sequence ps) \<Longrightarrow> pe_sequence p \<noteq> q"
  by (induction ps) (auto split: if_splits dest: mark_sent_waiting, metis image_eqI)

lemma resent_resend [simp]: "resent (resend_effect es) = es"
  by (simp add: resend_effect_def)

text \<open>Handing an envelope to the transport.\<close>

lemma sender_next:
  assumes ok: "sender_ok acc pk c a" and "as_next_outbound now a = (r, a')"
  shows "sender_ok acc (pk @ (case r of None \<Rightarrow> [] | Some e \<Rightarrow> [e])) c a'"
proof -
  obtain q where q: "sq_next_outbound (as_queue a) = (r, q)" using assms by (auto simp: as_next_outbound_def Let_def split: prod.splits)
  note held = next_cases [OF q]
  have a': "as_queue a' = q" "as_next_sequence a' = as_next_sequence a"
    "as_pending a' = (case r of Some e \<Rightarrow> (case oe_sequence e of Some n \<Rightarrow> mark_sent n now (as_pending a) | None \<Rightarrow> as_pending a) | None \<Rightarrow> as_pending a)"
    using assms(2) q by (auto simp: as_next_outbound_def mark_system_envelope_sent_def Let_def split: option.splits)
  have lane: "sq_system (as_queue a) = (case r of Some e \<Rightarrow> if sq_system (as_queue a) = [] then [] else e # sq_system q | None \<Rightarrow> sq_system q)"
    "sq_system (as_queue a) = [] \<longrightarrow> sq_system q = []"
    using q by (auto simp: sq_next_outbound_def split: list.splits if_splits)
  show ?thesis
  proof (rule sender_ok_update [OF ok])
    show "\<forall>e \<in> set (pk @ (case r of None \<Rightarrow> [] | Some e \<Rightarrow> [e])) \<union> set_mset (sq_held (as_queue a')). numbered acc e"
      using ok held unfolding sender_ok_def a'(1) by (cases r) auto
    show "\<forall>p \<in> set (as_pending a'). pe_last_sent_at p = None \<longrightarrow> pe_envelope p \<in> set (sq_system (as_queue a'))"
    proof (intro ballI impI)
      fix p assume p: "p \<in> set (as_pending a')" "pe_last_sent_at p = None"
      have in_old: "p \<in> set (as_pending a)" using p mark_sent_waiting unfolding a'(3) by (auto split: option.splits)
      with p ok have "pe_envelope p \<in> set (sq_system (as_queue a))" "oe_sequence (pe_envelope p) = Some (pe_sequence p)"
        by (auto simp: sender_ok_def)
      moreover have "r \<noteq> Some (pe_envelope p)"
      proof
        assume "r = Some (pe_envelope p)"
        then have "p \<in> set (mark_sent (pe_sequence p) now (as_pending a))"
          using p(1) \<open>oe_sequence (pe_envelope p) = _\<close> unfolding a'(3) by simp
        then show False using mark_sent_marks [OF _ p(2)] ok by (auto simp: sender_ok_def)
      qed
      ultimately show "pe_envelope p \<in> set (sq_system (as_queue a'))"
        using lane unfolding a'(1) by (cases r) (auto split: if_splits)
    qed
  qed (simp_all add: a' split: option.split)
qed

lemma sender_resend:
  assumes ok: "sender_ok acc pk c a" and "as_resend_due now after a = (es, a')"
  shows "sender_ok acc (pk @ resent es) c a' \<and> as_tracker a' = as_tracker a \<and> as_state a' = as_state a"
proof -
  have a': "as_pending a' = map (\<lambda>p. if resend_is_due now after p then p\<lparr>pe_last_sent_at := Some now\<rparr> else p) (as_pending a)"
    "as_queue a' = as_queue a" "as_next_sequence a' = as_next_sequence a" "as_tracker a' = as_tracker a" "as_state a' = as_state a"
    "resent es = map pe_envelope (filter (resend_is_due now after) (as_pending a))"
    using assms(2) by (auto simp: as_resend_due_def)
  have "sender_ok acc (pk @ resent es) c a'"
    by (rule sender_ok_update [OF ok]) (use ok in \<open>auto simp: a' sender_ok_def split: if_splits\<close>)
  with a' show ?thesis by simp
qed

text \<open>The loop over the bits of a negative acknowledgement marks entries and collects their envelopes.\<close>

lemma nack_fold:
  assumes "fold (nack_step pdu now) is s0 = (es, ps)"
  shows "pending_pairs ps = pending_pairs (snd s0) \<and> set es \<subseteq> set (fst s0) \<union> pe_envelope ` set (snd s0)
    \<and> (\<forall>p \<in> set ps. pe_last_sent_at p = None \<longrightarrow> p \<in> set (snd s0))"
  using assms
proof (induction "is" arbitrary: s0)
  case (Cons i "is")
  let ?s = "nack_step pdu now i s0"
  have pairs: "pending_pairs (snd ?s) = pending_pairs (snd s0)"
    by (simp add: nack_step_def Let_def split: option.split)
  moreover have "set (fst ?s) \<subseteq> set (fst s0) \<union> pe_envelope ` set (snd s0)"
    by (auto simp: nack_step_def Let_def find_Some_iff split: option.splits)
  moreover have "\<forall>p \<in> set (snd ?s). pe_last_sent_at p = None \<longrightarrow> p \<in> set (snd s0)"
    by (auto simp: nack_step_def Let_def split: option.splits if_splits dest: mark_sent_waiting)
  moreover have "pe_envelope ` set (snd ?s) = pe_envelope ` set (snd s0)"
  proof -
    have "pe_envelope ` set xs = snd ` set (pending_pairs xs)" for xs :: "'a pending_system_envelope list"
      by (simp add: pending_pairs_def image_image)
    then show ?thesis by (simp add: pairs)
  qed
  moreover note Cons.IH [of ?s] Cons.prems
  ultimately show ?case by auto
qed auto

lemma sender_ack:
  assumes ok: "sender_ok acc pk c a" and "as_apply_ack pdu now a = (es, a')" and "unat (ap_cumulative_ack pdu) \<le> c"
  shows "sender_ok acc (pk @ resent es) c a' \<and> as_tracker a' = as_tracker a \<and> state_is_active (as_state a') = state_is_active (as_state a)"
proof -
  let ?kept = "filter (\<lambda>p. pe_sequence p > ap_cumulative_ack pdu) (as_pending a)"
  obtain rs ps where f: "fold (nack_step pdu now) [0..<64] ([], ?kept) = (rs, ps)" by fastforce
  have a': "as_pending a' = ps" "resent es = rs" "as_queue a' = as_queue a" "as_next_sequence a' = as_next_sequence a"
    "as_tracker a' = as_tracker a" "state_is_active (as_state a') = state_is_active (as_state a)"
    using assms(2) by (auto simp: as_apply_ack_def nacked_pending_envelopes_def Let_def activity_frame f)
  note n = nack_fold [OF f, simplified]
  have pairs: "pending_pairs ps = filter (\<lambda>x. fst x > ap_cumulative_ack pdu) (pending_pairs (as_pending a))"
    using n by simp
  have cover: "\<exists>x \<in> set (pending_pairs ps). unat (fst x) = i + 1" if i: "c \<le> i" "i < length acc" for i
  proof -
    obtain x where "x \<in> set (pending_pairs (as_pending a))" "unat (fst x) = i + 1"
      using ok i unfolding sender_ok_pairs by blast
    moreover have "ap_cumulative_ack pdu < fst x" using assms(3) i calculation(2) by (simp add: word_less_nat_alt)
    ultimately show ?thesis unfolding pairs set_filter by blast
  qed
  have wait: "\<forall>p \<in> set ps. pe_last_sent_at p = None \<longrightarrow> pe_envelope p \<in> set (sq_system (as_queue a))"
    using n ok by (auto simp: sender_ok_def)
  have "numbered acc e" if "e \<in> set rs" for e
    using that n ok by (auto simp: sender_ok_def)
  moreover have "distinct (map fst (pending_pairs ps))"
    unfolding pairs using ok unfolding sender_ok_pairs by (metis distinct_map_filter)
  ultimately have "sender_ok acc (pk @ resent es) c a'"
    using ok cover wait unfolding sender_ok_pairs a' pairs by auto
  with a' show ?thesis by simp
qed

text \<open>What enqueueing in the active state does when it does not quarantine.\<close>

lemma overflow_not_active: "\<not> state_is_active (as_state a') "
  if "control_queue_overflow_effects e now a = (es, a')" for e now a es a'
proof -
  obtain xs b where q: "as_quarantine (overflow_reason a) now a = (xs, b)" by fastforce
  then have "state_is_quarantined (as_state b)"
    using quarantine_effects [OF q] by (cases "state_is_quarantined (as_state a)") (auto simp: as_quarantine_def)
  moreover have "a' = b" using that q by (simp add: control_queue_overflow_effects_def)
  ultimately show ?thesis using active_not_quarantined by blast
qed

lemma offer_held:
  assumes "(if large then offer_large_message e q else offer e q) = (r, q')"
  shows "set_mset (sq_held q') \<subseteq> insert e (set_mset (sq_held q)) \<and> set (sq_system q) \<subseteq> set (sq_system q')
    \<and> (is_system_envelope e \<and> \<not> large \<and> r = OfferAccepted \<longrightarrow> e \<in> set (sq_system q')) \<and> (r \<noteq> OfferAccepted \<longrightarrow> r = QueueFull e)"
  using assms by (auto simp: offer_large_message_def offer_def sq_held_def is_system_envelope_def is_system_def
      split: if_splits outbound_priority.splits)

lemma enqueue_active_result:
  assumes "state_is_active (as_state a)" "as_enqueue e now a = Some (es, a')" "state_is_active (as_state a')"
  obtains e' sq a1 q where "assign_redelivery_sequence e a = ((e', sq), a1)" "set_mset (sq_held q) \<subseteq> insert e' (set_mset (sq_held (as_queue a)))"
    "set (sq_system (as_queue a)) \<subseteq> set (sq_system q)"
    "is_system_envelope e' \<longrightarrow> e' \<in> set (sq_system q) \<and> es = [] \<and> a' = track_pending_system_envelope_for sq e' (a1\<lparr>as_queue := q\<rparr>)"
    "\<not> is_system_envelope e' \<longrightarrow> a' = a1\<lparr>as_queue := q\<rparr>"
proof -
  obtain e' sq a1 where as: "assign_redelivery_sequence e a = ((e', sq), a1)" by (metis prod.exhaust)
  note a1 = assign_cases [OF as]
  have no_overflow: "(es, a') \<noteq> control_queue_overflow_effects f now b" for f b
    using overflow_not_active [of f now b es a'] assms(3) by auto
  have "enqueue_active e now a = Some (es, a')"
    using assms(1,2) by (cases "as_state a") (simp_all add: as_enqueue_def state_is_active_def)
  from this as show thesis
  proof (cases rule: enqueue_active_cases)
    case full
    then show ?thesis using no_overflow by simp
  next
    case (offered large r q)
    note h = offer_held [OF offered(2)]
    have user: "large \<longrightarrow> \<not> is_system_envelope e'" using large_is_user offered(1) by (cases large) auto
    have acc: "r = OfferAccepted" if "is_system_envelope e'"
      using that h offered(3) no_overflow by (cases r) (auto split: if_splits)
    have "sq = None" if "\<not> is_system_envelope e'"
      using that as by (auto simp: assign_redelivery_sequence_def is_system_envelope_def oe_with_sequence_def Let_def split: if_splits option.splits)
    then have "a' = a1\<lparr>as_queue := q\<rparr>" if "\<not> is_system_envelope e'"
      using that offered(3) h by (cases r) (auto simp: track_pending_system_envelope_for_def)
    moreover have "e' \<in> set (sq_system q) \<and> es = [] \<and> a' = track_pending_system_envelope_for sq e' (a1\<lparr>as_queue := q\<rparr>)" if "is_system_envelope e'"
      using acc [OF that] that user h offered(3) by simp
    ultimately show ?thesis using that [OF as, of q] h a1 by simp
  qed
qed

lemma saturating_succ:
  assumes "unat (x :: u64) + 1 < 2 ^ 64"
  shows "unat (saturating_add x 1) = unat x + 1"
proof -
  have s: "checked_add x 1 = Some (x + 1)" using assms by (simp add: checked_add_def)
  then have "saturating_add x 1 = x + 1" by (simp add: saturating_add_def)
  with s show ?thesis by (simp add: checked_add_Some_iff)
qed

lemma numbered_append: "numbered acc e \<Longrightarrow> numbered (acc @ xs) e"
  by (auto simp: numbered_def nth_append split: option.splits)

lemma track_frames:
  "as_tracker (track_pending_system_envelope_for sq e a) = as_tracker a" "as_queue (track_pending_system_envelope_for sq e a) = as_queue a"
  "as_next_sequence (track_pending_system_envelope_for sq e a) = as_next_sequence a"
  by (simp_all add: track_pending_system_envelope_for_def split: option.split)

lemma sender_enqueue_new:
  assumes ok: "sender_ok acc pk c a" and "state_is_active (as_state a)" "as_enqueue e now a = Some (es, a')" "state_is_active (as_state a')"
    and e: "is_system_envelope e" "oe_sequence e = None" and bound: "length acc + 2 < 2 ^ 64"
  shows "es = [] \<and> sender_ok (acc @ [bare e]) pk c a' \<and> as_tracker a' = as_tracker a"
proof -
  obtain e' sq a1 q where r: "assign_redelivery_sequence e a = ((e', sq), a1)" "set_mset (sq_held q) \<subseteq> insert e' (set_mset (sq_held (as_queue a)))"
    "set (sq_system (as_queue a)) \<subseteq> set (sq_system q)"
    "is_system_envelope e' \<longrightarrow> e' \<in> set (sq_system q) \<and> es = [] \<and> a' = track_pending_system_envelope_for sq e' (a1\<lparr>as_queue := q\<rparr>)"
    using enqueue_active_result [OF assms(2-4)] by metis
  let ?n = "as_next_sequence a"
  have n: "unat ?n = length acc + 1" using ok by (simp add: sender_ok_def)
  have new: "e' = oe_with_sequence (Some ?n) e" "sq = Some ?n" "a1 = a\<lparr>as_next_sequence := saturating_add ?n 1\<rparr>"
    using r(1) e by (auto simp: assign_redelivery_sequence_def Let_def)
  have sys: "is_system_envelope e'" using e by (simp add: new is_system_envelope_def oe_with_sequence_def)
  have in_lane: "e' \<in> set (sq_system q)" using r(4) sys by blast
  have seq: "oe_sequence e' = Some ?n" and bare: "bare e' = bare e" by (simp_all add: new oe_with_sequence_def bare_def)
  have num: "numbered (acc @ [bare e]) e'" using n sys by (simp add: numbered_def seq bare nth_append)
  have "\<not> list_ex (\<lambda>p. pe_sequence p = ?n) (as_pending a)"
    using ok n by (auto simp: list_ex_iff sender_ok_def numbered_def)
  then have a': "a' = a\<lparr>as_next_sequence := saturating_add ?n 1, as_queue := q,
      as_pending := as_pending a @ [\<lparr>pe_sequence = ?n, pe_envelope = e', pe_last_sent_at = None\<rparr>]\<rparr>"
    using r(4) sys by (simp add: new track_pending_system_envelope_for_def)
  have distinct: "?n \<notin> fst ` set (pending_pairs (as_pending a))"
    using ok n unfolding sender_ok_pairs numbered_def by fastforce
  have "unat (saturating_add ?n 1) = length acc + 2" using saturating_succ [of ?n] n bound by simp
  moreover have "\<exists>x \<in> set (pending_pairs (as_pending a')). unat (fst x) = i + 1" if "c \<le> i" "i < length acc + 1" for i
    using that ok n unfolding sender_ok_pairs a' by (cases "i = length acc") (auto simp: pending_pairs_def)
  moreover have "\<forall>x \<in> set (pending_pairs (as_pending a')). oe_sequence (snd x) = Some (fst x) \<and> numbered (acc @ [bare e]) (snd x)"
    using ok num seq unfolding sender_ok_pairs a' by (auto simp: pending_pairs_def intro: numbered_append)
  moreover have "\<forall>x \<in> set pk \<union> set_mset (sq_held (as_queue a')). numbered (acc @ [bare e]) x"
    using ok num r(2) unfolding sender_ok_pairs a' by (auto intro: numbered_append)
  moreover have "\<forall>p \<in> set (as_pending a'). pe_last_sent_at p = None \<longrightarrow> pe_envelope p \<in> set (sq_system (as_queue a'))"
    using ok r(3) in_lane unfolding sender_ok_pairs a' by auto
  moreover have "distinct (map fst (pending_pairs (as_pending a')))"
    using ok distinct unfolding sender_ok_pairs a' by simp
  ultimately have "sender_ok (acc @ [bare e]) pk c a'" unfolding sender_ok_pairs by (simp add: a')
  moreover have "es = []" using r(4) sys by blast
  moreover have "as_tracker a' = as_tracker a" by (simp add: a')
  ultimately show ?thesis by blast
qed

lemma sender_enqueue_old:
  assumes ok: "sender_ok acc pk c a" and "state_is_active (as_state a)" "as_enqueue e now a = Some (es, a')" "state_is_active (as_state a')"
    and e: "numbered acc e" "is_system_envelope e \<longrightarrow> oe_sequence e \<noteq> None"
  shows "sender_ok acc pk c a' \<and> as_tracker a' = as_tracker a"
proof -
  obtain e' sq a1 q where r: "assign_redelivery_sequence e a = ((e', sq), a1)" "set_mset (sq_held q) \<subseteq> insert e' (set_mset (sq_held (as_queue a)))"
    "set (sq_system (as_queue a)) \<subseteq> set (sq_system q)"
    "is_system_envelope e' \<longrightarrow> e' \<in> set (sq_system q) \<and> es = [] \<and> a' = track_pending_system_envelope_for sq e' (a1\<lparr>as_queue := q\<rparr>)"
    "\<not> is_system_envelope e' \<longrightarrow> a' = a1\<lparr>as_queue := q\<rparr>"
    using enqueue_active_result [OF assms(2-4)] by metis
  have a1: "a1 = a" and kind: "is_system_envelope e' = is_system_envelope e"
    and sq: "is_system_envelope e' \<longrightarrow> e' = e \<and> sq = oe_sequence e" "\<not> is_system_envelope e' \<longrightarrow> oe_sequence e' = None"
    using r(1) e(2) by (auto simp: assign_redelivery_sequence_def is_system_envelope_def oe_with_sequence_def Let_def split: if_splits option.splits)
  have num: "numbered acc e'" using sq e(1) by (cases "is_system_envelope e'") (auto simp: numbered_def)
  have q: "\<forall>x \<in> set pk \<union> set_mset (sq_held q). numbered acc x" using ok num r(2) unfolding sender_ok_def by blast
  have wait: "\<forall>p \<in> set (as_pending a). pe_last_sent_at p = None \<longrightarrow> pe_envelope p \<in> set (sq_system q)"
    using ok r(3) unfolding sender_ok_def by blast
  have base: "sender_ok acc pk c (a\<lparr>as_queue := q\<rparr>)"
    by (rule sender_ok_update [OF ok]) (use q wait in simp_all)
  show ?thesis
  proof (cases "is_system_envelope e' \<and> \<not> list_ex (\<lambda>p. pe_sequence p = the (oe_sequence e)) (as_pending a)")
    case True
    then obtain n where "oe_sequence e = Some n" using e(2) kind by blast
    moreover have "e' = e" using True sq by blast
    ultimately have n: "oe_sequence e = Some n" "e' = e" by blast+
    have a': "a' = a\<lparr>as_queue := q, as_pending := as_pending a @ [\<lparr>pe_sequence = n, pe_envelope = e, pe_last_sent_at = None\<rparr>]\<rparr>"
    proof -
      have "a' = track_pending_system_envelope_for (Some n) e (a\<lparr>as_queue := q\<rparr>)" using r(4) True sq(1) n a1 by metis
      moreover have "\<not> list_ex (\<lambda>p. pe_sequence p = n) (as_pending a)" using True n(1) by simp
      ultimately show ?thesis by (simp add: track_pending_system_envelope_for_def)
    qed
    have "n \<notin> pe_sequence ` set (as_pending a)" using True n by (auto simp: list_ex_iff)
    then have "distinct (map fst (pending_pairs (as_pending a')))"
      using ok unfolding sender_ok_pairs a' by (simp add: pending_pairs_def image_image)
    moreover have "\<forall>x \<in> set (pending_pairs (as_pending a')). oe_sequence (snd x) = Some (fst x) \<and> numbered acc (snd x)"
      using ok e(1) n unfolding sender_ok_pairs a' by simp
    moreover have "\<forall>p \<in> set (as_pending a'). pe_last_sent_at p = None \<longrightarrow> pe_envelope p \<in> set (sq_system (as_queue a'))"
    proof -
      have "e \<in> set (sq_system q)" using r(4) True n by blast
      then show ?thesis using wait unfolding a' by auto
    qed
    moreover have "\<forall>i. c \<le> i \<and> i < length acc \<longrightarrow> (\<exists>x \<in> set (pending_pairs (as_pending a')). unat (fst x) = i + 1)"
      using ok unfolding sender_ok_pairs a' by auto
    ultimately have "sender_ok acc pk c a'" using ok q unfolding sender_ok_pairs by (simp add: a')
    then show ?thesis by (simp add: a')
  next
    case False
    have "a' = a\<lparr>as_queue := q\<rparr>"
    proof (cases "is_system_envelope e'")
      case True
      then obtain n where n: "oe_sequence e = Some n" using e(2) kind by blast
      then have "a' = track_pending_system_envelope_for (Some n) e' (a\<lparr>as_queue := q\<rparr>)" using r(4) True sq(1) a1 by metis
      moreover have "list_ex (\<lambda>p. pe_sequence p = n) (as_pending a)" using False True n by simp
      ultimately show ?thesis by (simp add: track_pending_system_envelope_for_def)
    next
      case False
      then show ?thesis using r(5) a1 by blast
    qed
    then show ?thesis using base by simp
  qed
qed

section \<open>The receiver's side\<close>

lemma tracker_ok_append: "tracker_ok acc ak dl t \<Longrightarrow> tracker_ok (acc @ xs) ak dl t"
  by (auto simp: tracker_ok_def)

lemma mark_received_cases:
  assumes "mark_received q t = (b, t')"
  shows "if b then unat q = unat (st_cumulative_ack t) + 1 \<and> st_cumulative_ack t' = q else st_cumulative_ack t' = st_cumulative_ack t"
proof -
  have "unat (saturating_add c 1) = unat c + 1" if "c < saturating_add c 1" for c :: u64
    using that by (cases "checked_add c 1")
      (auto simp: saturating_add_def checked_add_one_None dest: checked_add_Some_iff [THEN iffD1])
  then show ?thesis
    using assms by (auto simp: mark_received_def not_le split: if_splits)
qed

lemma tracker_deliver:
  assumes t: "tracker_ok acc ak dl t" and e: "numbered acc e" "oe_sequence e = Some q"
    and "tracker_observe q t = ((b, pdu), t')"
  shows "tracker_ok acc (ak @ [pdu]) (dl @ (if b then [bare e] else [])) t' \<and> st_cumulative_ack t \<le> st_cumulative_ack t'"
proof -
  have m: "mark_received q t = (b, t')" and p: "ap_cumulative_ack pdu = st_cumulative_ack t'"
    using assms(4) by (auto simp: tracker_observe_def ack_new_def split: prod.splits)
  have n: "unat q \<le> length acc" "bare e = acc ! (unat q - 1)" using e by (simp_all add: numbered_def)
  show ?thesis
  proof (cases b)
    case True
    then have q: "unat q = unat (st_cumulative_ack t) + 1" "st_cumulative_ack t' = q" using mark_received_cases [OF m] by simp_all
    then have "st_cumulative_ack t \<le> q" by (simp add: word_le_nat_alt)
    moreover have "take (unat q) acc = take (unat (st_cumulative_ack t)) acc @ [bare e]"
      using q n by (simp add: take_Suc_conv_app_nth)
    ultimately show ?thesis using t True q n p by (auto simp: tracker_ok_def intro: order_trans)
  next
    case False
    then show ?thesis using mark_received_cases [OF m] t p by (simp add: tracker_ok_def)
  qed
qed

section \<open>The invariant holds in every run\<close>

lemma stream_put:
  assumes "\<forall>s. stream_ok d s" and "as_tracker a' = as_tracker (dx_assoc d x)"
    and "sender_ok (dx_accepted d x @ ys) (dx_packets d x @ es) (unat (st_cumulative_ack (as_tracker (dx_assoc d (\<not> x))))) a'"
  shows "\<forall>s. stream_ok ((put_side x a' es d)\<lparr>dx_accepted := (dx_accepted d)(x := dx_accepted d x @ ys)\<rparr>) s"
proof
  fix s
  show "stream_ok ((put_side x a' es d)\<lparr>dx_accepted := (dx_accepted d)(x := dx_accepted d x @ ys)\<rparr>) s"
    using assms spec [OF assms(1), of s] tracker_ok_append
    by (cases "s = x"; cases x) (auto simp: stream_ok_def put_side_def)
qed

lemma stream_put_same:
  assumes "\<forall>s. stream_ok d s" and "as_tracker a' = as_tracker (dx_assoc d x)"
    and "sender_ok (dx_accepted d x) (dx_packets d x @ es) (unat (st_cumulative_ack (as_tracker (dx_assoc d (\<not> x))))) a'"
  shows "\<forall>s. stream_ok (put_side x a' es d) s"
  using stream_put [of d a' x "[]" es] assms by (simp add: put_side_def)

lemma stream_deliver:
  assumes ok: "\<forall>s. stream_ok d s" and e: "e \<in> set (dx_packets d (\<not> x))" "oe_sequence e = Some q"
    and obs: "observe_inbound_system_envelope q now (dx_assoc d x) = ((b, es), a')"
  shows "\<forall>s. stream_ok ((put_side x a' [] d)\<lparr>dx_acks := (dx_acks d)(x := dx_acks d x @ sent_acks es),
    dx_delivered := (dx_delivered d)(x := dx_delivered d x @ (if b then [bare e] else []))\<rparr>) s"
proof -
  let ?a = "dx_assoc d x" and ?acc = "dx_accepted d (\<not> x)"
  obtain pdu where obs': "tracker_observe q (as_tracker ?a) = ((b, pdu), as_tracker a')" "sent_acks es = [pdu]"
    and frame: "as_next_sequence a' = as_next_sequence ?a" "as_pending a' = as_pending ?a" "as_queue a' = as_queue ?a"
    using obs by (auto simp: observe_inbound_system_envelope_def Let_def activity_frame split: prod.splits)
  have s1: "stream_ok d (\<not> x)" and s2: "stream_ok d x" using ok by auto
  have "numbered ?acc e" using s1 e(1) by (auto simp: stream_ok_def sender_ok_def)
  then have t: "tracker_ok ?acc (dx_acks d x @ [pdu]) (dx_delivered d x @ (if b then [bare e] else [])) (as_tracker a')"
    "st_cumulative_ack (as_tracker ?a) \<le> st_cumulative_ack (as_tracker a')"
    using tracker_deliver [OF _ _ e(2) obs'(1)] s1 by (auto simp: stream_ok_def)
  have "sender_ok ?acc (dx_packets d (\<not> x)) (unat (st_cumulative_ack (as_tracker a'))) (dx_assoc d (\<not> x))"
    using s1 t(2) by (auto simp: stream_ok_def word_le_nat_alt intro: sender_ok_later)
  moreover have "sender_ok (dx_accepted d x) (dx_packets d x) (unat (st_cumulative_ack (as_tracker (dx_assoc d (\<not> x))))) a'"
    using s2 frame by (auto simp: stream_ok_def intro: sender_ok_same)
  moreover have "s = x \<or> s = (\<not> x)" for s by blast
  ultimately show ?thesis
    using s2 t(1) obs'(2) by (cases x) (auto simp: stream_ok_def put_side_def)
qed

lemma next_frame:
  "as_next_outbound now a = (r, a') \<Longrightarrow> as_tracker a' = as_tracker a \<and> as_state a' = as_state a"
  by (auto simp: as_next_outbound_def mark_system_envelope_sent_def Let_def split: option.splits prod.splits)

lemma enqueue_not_activates:
  assumes "as_enqueue e now a = Some (es, a')" "state_is_active (as_state a')"
  shows "state_is_active (as_state a)"
proof (rule ccontr)
  assume "\<not> state_is_active (as_state a)"
  then have "as_state a' = as_state a"
    using assms(1) by (cases "as_state a")
      (auto simp: as_enqueue_def state_is_active_def enqueue_deferred_def increment_deferred_count_def Let_def split: if_splits)
  with assms(2) \<open>\<not> _\<close> show False by simp
qed

lemma put_side_assoc [simp]: "dx_assoc (put_side x a es d) = (dx_assoc d)(x := a)"
  by (simp add: put_side_def)

lemma dx_active_iff: "dx_active d \<longleftrightarrow> (\<forall>s. state_is_active (as_state (dx_assoc d s)))"
  unfolding dx_active_def by (metis (full_types))

text \<open>No action makes an association active, so a run that ends active was active throughout.\<close>

lemma put_not_activates:
  assumes "dx_active (put_side x a es d)" and "state_is_active (as_state a) \<longrightarrow> state_is_active (as_state (dx_assoc d x))"
  shows "dx_active d"
  using assms unfolding dx_active_iff by (metis fun_upd_apply put_side_assoc)

lemma dx_active_record [simp]:
  "dx_active (d\<lparr>dx_accepted := f\<rparr>) = dx_active d" "dx_active (d\<lparr>dx_acks := g, dx_delivered := h\<rparr>) = dx_active d"
  by (simp_all add: dx_active_def)

lemma step_active: "dx_active (dx_step act d) \<Longrightarrow> dx_active d"
proof (cases act)
  case (DNext s now)
  obtain r a where n: "as_next_outbound now (dx_assoc d s) = (r, a)" by fastforce
  assume "dx_active (dx_step act d)"
  then show ?thesis using next_frame [OF n] by (auto simp: DNext dx_step_def n intro: put_not_activates)
next
  case (DResend s now after)
  moreover assume "dx_active (dx_step act d)"
  ultimately show ?thesis
    by (auto simp: dx_step_def as_resend_due_def Let_def split: prod.splits intro: put_not_activates)
next
  case (DDeliver s i now)
  moreover assume "dx_active (dx_step act d)"
  ultimately show ?thesis
    by (auto simp: dx_step_def observe_inbound_system_envelope_def activity_frame Let_def split: if_splits option.splits prod.splits
        intro: put_not_activates)
next
  case (DAck s i now)
  moreover assume "dx_active (dx_step act d)"
  ultimately show ?thesis
    by (auto simp: dx_step_def as_apply_ack_def nacked_pending_envelopes_def activity_frame Let_def split: if_splits prod.splits
        intro: put_not_activates)
qed (auto simp: dx_step_def as_apply_backpressure_def split: option.splits if_splits
    intro: put_not_activates dest: enqueue_not_activates)

lemma put_active: "dx_active (put_side x a es d) \<Longrightarrow> state_is_active (as_state a)"
  by (simp add: dx_active_iff) (metis fun_upd_same)

lemma stream_enqueue:
  assumes ok: "\<forall>s. stream_ok d s" and act: "state_is_active (as_state (dx_assoc d s))" "state_is_active (as_state a)"
    and r: "as_enqueue e now (dx_assoc d s) = Some (es, a)" and e: "oe_sequence e = None" and bound: "is_system_envelope e \<longrightarrow> es = [] \<longrightarrow> length (dx_accepted d s) + 2 < 2 ^ 64"
  shows "\<forall>x. stream_ok ((put_side s a [] d)\<lparr>dx_accepted := (dx_accepted d)(s := dx_accepted d s @
    (if is_system_envelope e \<and> es = [] then [bare e] else []))\<rparr>) x"
proof -
  have sender: "sender_ok (dx_accepted d s) (dx_packets d s) (unat (st_cumulative_ack (as_tracker (dx_assoc d (\<not> s))))) (dx_assoc d s)"
    using ok by (simp add: stream_ok_def)
  show ?thesis
  proof (cases "is_system_envelope e")
    case True
    obtain e' sq a1 q where as: "assign_redelivery_sequence e (dx_assoc d s) = ((e', sq), a1)" and "is_system_envelope e' \<longrightarrow> es = []"
      using enqueue_active_result [OF act(1) r act(2)] by metis
    then have "es = []" using assign_cases [OF as] True by blast
    moreover from this have "length (dx_accepted d s) + 2 < 2 ^ 64" using bound True by blast
    ultimately show ?thesis
      using stream_put [OF ok, of a s "[bare e]" "[]"] sender_enqueue_new [OF sender act(1) r act(2) True e] True by simp
  next
    case False
    then have "numbered (dx_accepted d s) e" using e by (simp add: numbered_def)
    then show ?thesis
      using stream_put [OF ok, of a s "[]" "[]"] sender_enqueue_old [OF sender act(1) r act(2)] False by simp
  qed
qed

lemma stream_retry:
  assumes ok: "\<forall>s. stream_ok d s" and act: "state_is_active (as_state (dx_assoc d s))" "state_is_active (as_state a)"
    and r: "as_enqueue e now (dx_assoc d s) = Some (es, a)" and e: "e \<in> set (dx_packets d s)"
  shows "\<forall>x. stream_ok (put_side s a [] d) x"
proof -
  have sender: "sender_ok (dx_accepted d s) (dx_packets d s) (unat (st_cumulative_ack (as_tracker (dx_assoc d (\<not> s))))) (dx_assoc d s)"
    using ok by (simp add: stream_ok_def)
  then have "numbered (dx_accepted d s) e" using e by (auto simp: sender_ok_def)
  moreover from this have "is_system_envelope e \<longrightarrow> oe_sequence e \<noteq> None" by (cases "oe_sequence e") (simp_all add: numbered_def)
  ultimately show ?thesis using stream_put_same [OF ok] sender_enqueue_old [OF sender act(1) r act(2)] by simp
qed

lemma stream_step:
  assumes ok: "\<forall>s. stream_ok d s" and act: "dx_active (dx_step act d)" and fresh: "fresh_action act"
    and bound: "\<forall>s. length (dx_accepted (dx_step act d) s) + 1 < 2 ^ 64"
  shows "\<forall>s. stream_ok (dx_step act d) s"
proof -
  have actd: "state_is_active (as_state (dx_assoc d s))" for s using step_active [OF act] by (simp add: dx_active_iff)
  have sender: "sender_ok (dx_accepted d s) (dx_packets d s) (unat (st_cumulative_ack (as_tracker (dx_assoc d (\<not> s))))) (dx_assoc d s)" for s
    using ok by (simp add: stream_ok_def)
  show ?thesis
  proof (cases act)
    case (DEnqueue s e now)
    show ?thesis
    proof (cases "as_enqueue e now (dx_assoc d s)")
      case (Some res)
      then obtain es a where r: "as_enqueue e now (dx_assoc d s) = Some (es, a)" by (cases res) auto
      have step: "dx_step act d = (put_side s a [] d)\<lparr>dx_accepted := (dx_accepted d)(s := dx_accepted d s @
          (if is_system_envelope e \<and> es = [] then [bare e] else []))\<rparr>"
        by (simp add: DEnqueue dx_step_def r)
      have "state_is_active (as_state a)" using act put_active unfolding step by simp
      moreover have "oe_sequence e = None" using fresh by (simp add: fresh_action_def DEnqueue)
      moreover have "is_system_envelope e \<longrightarrow> es = [] \<longrightarrow> length (dx_accepted d s) + 2 < 2 ^ 64"
        using spec [OF bound, of s] unfolding step by (auto split: if_splits)
      ultimately show ?thesis unfolding step using stream_enqueue [OF ok actd _ r] by blast
    qed (use ok in \<open>simp add: DEnqueue dx_step_def\<close>)
  next
    case (DRetry s i now)
    show ?thesis
    proof (cases "i < length (dx_packets d s) \<and> as_enqueue (dx_packets d s ! i) now (dx_assoc d s) \<noteq> None")
      case True
      then obtain es a where r: "as_enqueue (dx_packets d s ! i) now (dx_assoc d s) = Some (es, a)" by auto
      have step: "dx_step act d = put_side s a [] d" using True r by (simp add: DRetry dx_step_def)
      have "state_is_active (as_state a)" using act put_active unfolding step by blast
      then show ?thesis using stream_retry [OF ok actd _ r] True by (simp add: step)
    qed (use ok in \<open>auto simp: DRetry dx_step_def split: option.splits\<close>)
  next
    case (DNext s now)
    obtain r a where n: "as_next_outbound now (dx_assoc d s) = (r, a)" by fastforce
    show ?thesis using stream_put_same [OF ok _ sender_next [OF sender n]] next_frame [OF n] by (simp add: DNext dx_step_def n)
  next
    case (DResend s now after)
    obtain es a where n: "as_resend_due now after (dx_assoc d s) = (es, a)" by fastforce
    show ?thesis using stream_put_same [OF ok] sender_resend [OF sender n] by (simp add: DResend dx_step_def n)
  next
    case (DDeliver s i now)
    show ?thesis
    proof (cases "i < length (dx_packets d (\<not> s)) \<and> oe_sequence (dx_packets d (\<not> s) ! i) \<noteq> None")
      case True
      then obtain q where q: "oe_sequence (dx_packets d (\<not> s) ! i) = Some q" by auto
      obtain b es a where o: "observe_inbound_system_envelope q now (dx_assoc d s) = ((b, es), a)" by (metis prod.exhaust)
      show ?thesis using stream_deliver [OF ok _ q o] True by (simp add: DDeliver dx_step_def q o)
    qed (use ok in \<open>auto simp: DDeliver dx_step_def\<close>)
  next
    case (DAck s i now)
    show ?thesis
    proof (cases "i < length (dx_acks d (\<not> s))")
      case True
      obtain es a where n: "as_apply_ack (dx_acks d (\<not> s) ! i) now (dx_assoc d s) = (es, a)" by fastforce
      have "ap_cumulative_ack (dx_acks d (\<not> s) ! i) \<le> st_cumulative_ack (as_tracker (dx_assoc d (\<not> s)))"
        using ok True by (simp add: stream_ok_def tracker_ok_def)
      then show ?thesis
        using stream_put_same [OF ok] sender_ack [OF sender n] True by (simp add: DAck dx_step_def n word_le_nat_alt)
    qed (use ok in \<open>simp add: DAck dx_step_def\<close>)
  next
    case (DSignal s sig)
    have "sender_ok (dx_accepted d s) (dx_packets d s) (unat (st_cumulative_ack (as_tracker (dx_assoc d (\<not> s))))) (as_apply_backpressure sig (dx_assoc d s))"
      by (rule sender_ok_update [OF sender]) (use sender [of s] in \<open>auto simp: sender_ok_def as_apply_backpressure_def backpressure_cases\<close>)
    then show ?thesis using stream_put_same [OF ok, of "as_apply_backpressure sig (dx_assoc d s)" s "[]"]
      by (simp add: DSignal dx_step_def as_apply_backpressure_def)
  qed
qed

lemma stream_run:
  assumes "\<forall>s. stream_ok d s" and "dx_active (dx_run acts d)" "list_all fresh_action acts"
    and "\<forall>s. length (dx_accepted (dx_run acts d) s) + 1 < 2 ^ 64"
  shows "\<forall>s. stream_ok (dx_run acts d) s"
  using assms
proof (induction acts arbitrary: d)
  case (Cons act acts)
  have later: "dx_active (dx_run xs d) \<Longrightarrow> dx_active d" for xs :: "'a dx_action list" and d
    by (induction xs arbitrary: d) (auto dest: step_active)
  have grows: "length (dx_accepted d s) \<le> length (dx_accepted (dx_run xs d) s)" for xs :: "'a dx_action list" and d s
  proof (induction xs arbitrary: d)
    case (Cons x xs)
    have "length (dx_accepted d s) \<le> length (dx_accepted (dx_step x d) s)"
      by (auto simp: dx_step_def put_side_def Let_def split: dx_action.splits option.splits prod.splits)
    with Cons show ?case by (metis dx_run.simps(2) order_trans)
  qed simp
  have "\<forall>s. stream_ok (dx_step act d) s"
  proof (rule stream_step)
    show "dx_active (dx_step act d)" using Cons.prems(2) later by simp
    show "\<forall>s. length (dx_accepted (dx_step act d) s) + 1 < 2 ^ 64"
      using Cons.prems(4) grows [of "dx_step act d" _ acts] by (metis (no_types, lifting) add_le_mono1 dx_run.simps(2) le_less_trans)
  qed (use Cons.prems in simp_all)
  then show ?case using Cons by simp
qed simp

lemma stream_new:
  assumes "just_connected a" "just_connected b"
  shows "stream_ok (dx_new a b) s"
  using assms by (cases s)
    (auto simp: stream_ok_def dx_new_def just_connected_def sender_ok_def tracker_ok_def sq_is_empty_iff)

section \<open>Progress\<close>





section \<open>Properties\<close>

definition sample_active :: "nat association" where
  "sample_active = sample_assoc\<lparr>as_state := Active (remote_node_id_from node_b) 0 0\<rparr>"

text \<open>Two system envelopes, the second overtakes the first, the first arrives twice.\<close>

definition sample_actions :: "nat dx_action list" where
  "sample_actions =
     [DEnqueue True (sample_envelope SystemPriority 1) 1, DEnqueue True (sample_envelope SystemPriority 2) 1,
      DNext True 2, DNext True 2, DDeliver False 1 3, DDeliver False 0 3, DDeliver False 0 4, DAck True 1 5]"

lemma sample_connected: "just_connected sample_active"
  by code_simp

definition sample_duplex :: "nat duplex" where
  "sample_duplex = dx_run sample_actions (dx_new sample_active sample_active)"

lemma sample_run_result:
  "dx_active sample_duplex \<and> map oe_message (dx_accepted sample_duplex True) = [1, 2] \<and> dx_accepted sample_duplex False = []
     \<and> map oe_message (dx_delivered sample_duplex False) = [1] \<and> list_all (resend_is_due 9 4) (as_pending (dx_assoc sample_duplex True))
     \<and> list_all fresh_action sample_actions"
  by code_simp

lemma sample_bound: "length (dx_accepted sample_duplex s) + 1 < 2 ^ 64"
proof -
  have "length (map oe_message (dx_accepted sample_duplex True)) = 2" "length (dx_accepted sample_duplex False) = 0"
    using sample_run_result by simp_all
  then show ?thesis by (cases s) simp_all
qed

text \<open>
  Claim C3. System envelopes are delivered exactly once and in order, in both directions at the same
  time, over a network that loses, duplicates and reorders envelopes and acknowledgements, with
  retries of refused envelopes, resends and backpressure at any time. As long as both associations
  stay active and fewer than \<open>2^64 - 1\<close> system envelopes are accepted, what a side has delivered is
  a prefix of what the other side accepted, and every accepted envelope that is not yet delivered is
  still kept for redelivery by its sender under its own sequence number.
\<close>

theorem system_delivery_in_order:
  assumes "just_connected a" "just_connected b" "list_all fresh_action acts" "d = dx_run acts (dx_new a b)" "dx_active d"
    and "\<forall>s. length (dx_accepted d s) + 1 < 2 ^ 64"
  shows "\<forall>s. (\<exists>rest. dx_accepted d s = dx_delivered d (\<not> s) @ rest)
    \<and> (\<forall>i. length (dx_delivered d (\<not> s)) \<le> i \<and> i < length (dx_accepted d s) \<longrightarrow>
        (\<exists>p \<in> set (as_pending (dx_assoc d s)). unat (pe_sequence p) = i + 1 \<and> bare (pe_envelope p) = dx_accepted d s ! i))"
proof -
  have "\<forall>s. stream_ok d s" using stream_run [of "dx_new a b" acts] stream_new assms by blast
  then have t: "tracker_ok (dx_accepted d s) (dx_acks d (\<not> s)) (dx_delivered d (\<not> s)) (as_tracker (dx_assoc d (\<not> s)))"
    and k: "sender_ok (dx_accepted d s) (dx_packets d s) (unat (st_cumulative_ack (as_tracker (dx_assoc d (\<not> s))))) (dx_assoc d s)" for s
    by (simp_all add: stream_ok_def)
  have "\<exists>rest. dx_accepted d s = dx_delivered d (\<not> s) @ rest" for s
    using t [of s] unfolding tracker_ok_def by (metis append_take_drop_id)
  moreover have "\<exists>p \<in> set (as_pending (dx_assoc d s)). unat (pe_sequence p) = i + 1 \<and> bare (pe_envelope p) = dx_accepted d s ! i"
    if i: "length (dx_delivered d (\<not> s)) \<le> i" "i < length (dx_accepted d s)" for s i
  proof -
    have "unat (st_cumulative_ack (as_tracker (dx_assoc d (\<not> s)))) \<le> i" using t [of s] i by (auto simp: tracker_ok_def)
    then obtain p where "p \<in> set (as_pending (dx_assoc d s))" "unat (pe_sequence p) = i + 1"
      using k [of s] i unfolding sender_ok_def by blast
    moreover from this have "numbered (dx_accepted d s) (pe_envelope p)" "oe_sequence (pe_envelope p) = Some (pe_sequence p)"
      using k [of s] by (auto simp: sender_ok_def)
    ultimately show ?thesis by (auto simp: numbered_def)
  qed
  ultimately show ?thesis by blast
qed

theorem system_delivery_in_order_witness:
  "\<forall>s. (\<exists>rest. dx_accepted sample_duplex s = dx_delivered sample_duplex (\<not> s) @ rest)
    \<and> (\<forall>i. length (dx_delivered sample_duplex (\<not> s)) \<le> i \<and> i < length (dx_accepted sample_duplex s) \<longrightarrow>
        (\<exists>p \<in> set (as_pending (dx_assoc sample_duplex s)). unat (pe_sequence p) = i + 1
          \<and> bare (pe_envelope p) = dx_accepted sample_duplex s ! i))"
  by (rule system_delivery_in_order [OF sample_connected sample_connected _ sample_duplex_def])
    (use sample_run_result sample_bound in blast)+

text \<open>The network loses everything that is on its way.\<close>

definition lose_all :: "'m duplex \<Rightarrow> 'm duplex" where
  "lose_all d = d\<lparr>dx_packets := \<lambda>_. [], dx_acks := \<lambda>_. []\<rparr>"

lemma lose_all_simps [simp]:
  "dx_assoc (lose_all d) = dx_assoc d" "dx_delivered (lose_all d) = dx_delivered d" "dx_accepted (lose_all d) = dx_accepted d"
  "dx_packets (lose_all d) s = []"
  by (simp_all add: lose_all_def)



text \<open>How a new envelope is numbered and kept.\<close>

lemma enqueue_numbers:
  assumes "state_is_active (as_state a)" "as_enqueue e now a = Some ([], a')" "is_system_envelope e" "oe_sequence e = None" "as_pending a = []"
  shows "as_pending a' = [\<lparr>pe_sequence = as_next_sequence a, pe_envelope = oe_with_sequence (Some (as_next_sequence a)) e, pe_last_sent_at = None\<rparr>]"
    and "sq_system (as_queue a') = sq_system (as_queue a) @ [oe_with_sequence (Some (as_next_sequence a)) e]"
proof -
  have e: "is_system_envelope (oe_with_sequence (Some (as_next_sequence a)) e)" "oe_priority e = SystemPriority"
    using assms(3) by (cases "oe_priority e"; simp add: is_system_envelope_def oe_with_sequence_def is_system_def)+
  have "append_discarded_envelope why e' xs \<noteq> []" for why and e' :: "'a outbound_envelope" and xs
    by (cases xs) (auto split: association_effect.split)
  then have "control_queue_overflow_effects e' now x \<noteq> ([], a')" for e' x
    by (simp add: control_queue_overflow_effects_def split_beta)
  then show "as_pending a' = [\<lparr>pe_sequence = as_next_sequence a, pe_envelope = oe_with_sequence (Some (as_next_sequence a)) e, pe_last_sent_at = None\<rparr>]"
    "sq_system (as_queue a') = sq_system (as_queue a) @ [oe_with_sequence (Some (as_next_sequence a)) e]"
    using assms e
    by (auto simp: as_enqueue_def enqueue_active_def assign_redelivery_sequence_def should_use_large_message_queue_def offer_def
        track_pending_system_envelope_for_def oe_with_sequence_def queue_full_discard_effect_def state_is_active_def Let_def
        split: if_splits association_state.splits)
qed

text \<open>
  Claim C35. Numbering restarts on one side only. Whatever an association has exchanged before: after a
  handshake that timed out and a retry that was answered, the next system envelope it accepts is
  numbered one. A peer that kept its tracker, because it saw no new incarnation, and has delivered at
  least one system envelope before, takes it for a duplicate: it does not deliver it, now or on a
  later arrival, and its acknowledgement makes the sender forget the envelope.
\<close>

theorem reconnect_loses_system_envelopes:
  assumes "as_state a = Handshaking old_endpoint started"
    and "a2 = snd (as_recover (Some endpoint) now1 (snd (handshake_timed_out now resume_at a)))"
    and "accept_handshake_response rsp now2 a2 = (Inr es, a3)"
    and "as_enqueue e now3 a3 = Some ([], a4)" and "is_system_envelope e" "oe_sequence e = None"
    and "1 \<le> st_cumulative_ack (as_tracker b)"
  shows "\<exists>e' pdu b'. sq_system (as_queue a4) = sq_system (as_queue a3) @ [e'] \<and> oe_sequence e' = Some 1 \<and> bare e' = bare e
    \<and> observe_inbound_system_envelope 1 now4 b = ((False, [SendAck pdu]), b') \<and> 1 \<le> st_cumulative_ack (as_tracker b')
    \<and> as_pending (snd (as_apply_ack pdu now5 a4)) = []"
proof -
  have "state_is_active (as_state a3) \<and> as_next_sequence a3 = 1 \<and> as_pending a3 = []"
    using assms(1-3)
    by (auto simp: handshake_timed_out_def as_recover_def accept_handshake_response_def handshake_accepted_def advance_generation_def
        reset_redelivery_state_def clear_deferred_counts_def state_is_active_def state_is_gated_def Let_def split: sum.splits)
  with enqueue_numbers [OF _ assms(4-6)]
  have a4: "as_pending a4 = [\<lparr>pe_sequence = 1, pe_envelope = oe_with_sequence (Some 1) e, pe_last_sent_at = None\<rparr>]"
    "sq_system (as_queue a4) = sq_system (as_queue a3) @ [oe_with_sequence (Some 1) e]" by auto
  let ?t = "as_tracker b"
  let ?pdu = "ack_new 1 (st_cumulative_ack ?t) (nack_bitmap_of ?t)"
  have "observe_inbound_system_envelope 1 now4 b = ((False, [SendAck ?pdu]), record_handshake_activity now4 b)"
    using assms(7) by (simp add: observe_inbound_system_envelope_def tracker_observe_def mark_received_def activity_frame Let_def)
  moreover have "filter (\<lambda>p. pe_sequence p > ap_cumulative_ack ?pdu) (as_pending (record_handshake_activity now5 a4)) = []"
    using assms(7) a4(1) by (auto simp: activity_frame ack_new_def word_le_nat_alt)
  then have "as_pending (snd (as_apply_ack ?pdu now5 a4)) = []"
    using nack_fold [of ?pdu now5 "[0..<64]" "([], [])"]
    by (auto simp: as_apply_ack_def nacked_pending_envelopes_def pending_pairs_def Let_def split: prod.splits)
  ultimately show ?thesis
    using a4(2) assms(7) by (auto simp: bare_def oe_with_sequence_def activity_frame)
qed

definition handshake_from_b :: "u64 \<Rightarrow> handshake_rsp" where
  "handshake_from_b u = \<lparr>hs_from = unique_address_new (address_of node_b) u\<rparr>"

theorem reconnect_loses_system_envelopes_witness:
  "let a2 = snd (as_recover (Some (TransportEndpoint ''b'')) 30 (snd (handshake_timed_out 20 None
         (sample_active\<lparr>as_state := Handshaking (TransportEndpoint ''b'') 10, as_next_sequence := 5\<rparr>))));
       a3 = snd (accept_handshake_response (handshake_from_b (uid node_b)) 31 a2);
       b = sample_active\<lparr>as_tracker := (as_tracker sample_active)\<lparr>st_cumulative_ack := 4, st_highest_seen := 4\<rparr>\<rparr>
   in case as_enqueue (sample_envelope SystemPriority 2) 40 a3 of
        Some (_, a4) \<Rightarrow> length (as_pending a4) = 1 \<and> (\<exists>pdu b'. observe_inbound_system_envelope 1 41 b = ((False, [SendAck pdu]), b')
          \<and> as_pending (snd (as_apply_ack pdu 42 a4)) = [])
      | None \<Rightarrow> False"
proof -
  let ?a = "sample_active\<lparr>as_state := Handshaking (TransportEndpoint ''b'') 10, as_next_sequence := 5\<rparr>"
  let ?b = "sample_active\<lparr>as_tracker := (as_tracker sample_active)\<lparr>st_cumulative_ack := 4, st_highest_seen := 4\<rparr>\<rparr>"
  define a2 where "a2 = snd (as_recover (Some (TransportEndpoint ''b'')) 30 (snd (handshake_timed_out 20 None ?a)))"
  define a3 where "a3 = snd (accept_handshake_response (handshake_from_b (uid node_b)) 31 a2)"
  have "isl (fst (accept_handshake_response (handshake_from_b (uid node_b)) 31 a2)) = False"
    "case as_enqueue (sample_envelope SystemPriority 2) 40 a3 of Some (es, a4) \<Rightarrow> es = [] \<and> length (as_pending a4) = 1 | None \<Rightarrow> False"
    unfolding a3_def a2_def by code_simp+
  then obtain es a4 where r: "accept_handshake_response (handshake_from_b (uid node_b)) 31 a2 = (Inr es, a3)"
    "as_enqueue (sample_envelope SystemPriority 2) 40 a3 = Some ([], a4)" "length (as_pending a4) = 1"
    unfolding a3_def by (cases "accept_handshake_response (handshake_from_b (uid node_b)) 31 a2"; cases "fst (accept_handshake_response (handshake_from_b (uid node_b)) 31 a2)")
      (auto split: option.splits)
  have "is_system_envelope (sample_envelope SystemPriority 2)" "oe_sequence (sample_envelope SystemPriority 2) = None" by code_simp+
  from reconnect_loses_system_envelopes [OF _ a2_def r(1,2) this, of _ _ ?b 41 42]
  show ?thesis using r(2,3) unfolding a2_def [symmetric] a3_def [symmetric] Let_def by auto
qed

text \<open>
  The other way round, a handshake with a new incarnation in the active state keeps the numbering,
  although the new incarnation starts with a fresh tracker: no envelope numbered two or more is ever
  delivered by it, in whatever order they arrive.
\<close>

theorem new_incarnation_expects_one:
  assumes "as_state a = Active node est last_used" and "accept_handshake_response rsp now a = (Inr es, a')" and "\<forall>q \<in> set (q # qs). 2 \<le> q"
  shows "as_next_sequence a' = as_next_sequence a \<and> as_pending a' = as_pending a
    \<and> \<not> fst (mark_received q (fold (\<lambda>q t. snd (mark_received q t)) qs (tracker_new w)))"
proof -
  have refuse: "\<not> fst (mark_received q t) \<and> st_cumulative_ack (snd (mark_received q t)) = 0"
    if "2 \<le> q" "st_cumulative_ack t = 0" for q t
    using that mark_received_cases [of q t "fst (mark_received q t)" "snd (mark_received q t)"]
    by (auto simp: word_le_nat_alt split: if_splits)
  have "st_cumulative_ack (fold (\<lambda>q t. snd (mark_received q t)) qs t) = 0" if "\<forall>q \<in> set qs. 2 \<le> q" "st_cumulative_ack t = 0" for t
    using that refuse by (induction qs arbitrary: t) simp_all
  with refuse assms(3) have "\<not> fst (mark_received q (fold (\<lambda>q t. snd (mark_received q t)) qs (tracker_new w)))"
    by (simp add: tracker_new_def)
  then show ?thesis
    using assms(1,2) by (auto simp: accept_handshake_response_def handshake_accepted_def split: sum.splits if_splits)
qed

end
