(* ===== verification/Schedule_State.thy ===== *)
theory Schedule_State
  imports Fraktor_Prelude
begin

text \<open>
  The schedule state of a mailbox (\<open>actor-core-kernel/src/dispatch/mailbox/schedule_state.rs\<close>): five
  flags and a suspension counter packed into one atomic 32-bit word, and the flag that asks for
  another run. Every operation is a loop that loads the word, decides, and tries to exchange it; the
  decision is a function of the loaded word (the \<open>attempt\<close> functions), shared by the operation
  without interference and by the interleaving of threads in \<open>Mailbox_Threads\<close>.
\<close>

unbundle bit_operations_syntax

type_synonym u32 = "32 word"

section \<open>The packed word\<close>

definition FLAG_SCHEDULED :: u32 where "FLAG_SCHEDULED = push_bit 0 1"
definition FLAG_RUNNING :: u32 where "FLAG_RUNNING = push_bit 1 1"
definition FLAG_CLOSE_REQUESTED :: u32 where "FLAG_CLOSE_REQUESTED = push_bit 2 1"
definition FLAG_FINALIZER_OWNED :: u32 where "FLAG_FINALIZER_OWNED = push_bit 3 1"
definition FLAG_CLEANUP_DONE :: u32 where "FLAG_CLEANUP_DONE = push_bit 4 1"
definition SUSPEND_SHIFT :: nat where "SUSPEND_SHIFT = 5"
definition SUSPEND_MASK :: u32 where "SUSPEND_MASK = NOT (push_bit SUSPEND_SHIFT 1 - 1)"

datatype close_request_outcome = CallerOwnsFinalizer | RunnerOwnsFinalizer | AlreadyRequested | AlreadyCleaned

datatype run_finish_outcome = RunContinue bool | FinalizeNow | RunClosed

record schedule_hints =
  has_system_messages :: bool
  has_user_messages :: bool
  backpressure_active :: bool

record schedule_state =
  ss_state :: u32
  ss_need_reschedule :: bool

definition schedule_state_new :: schedule_state where
  "schedule_state_new = \<lparr>ss_state = 0, ss_need_reschedule = False\<rparr>"

definition current_suspend_count :: "u32 \<Rightarrow> u32" where
  "current_suspend_count s = drop_bit SUSPEND_SHIFT (s AND SUSPEND_MASK)"

definition is_suspended :: "u32 \<Rightarrow> bool" where
  "is_suspended s \<longleftrightarrow> current_suspend_count s > 0"

definition is_running :: "u32 \<Rightarrow> bool" where
  "is_running s \<longleftrightarrow> s AND FLAG_RUNNING \<noteq> 0"

definition is_close_requested :: "u32 \<Rightarrow> bool" where
  "is_close_requested s \<longleftrightarrow> s AND FLAG_CLOSE_REQUESTED \<noteq> 0"

definition is_cleanup_done :: "u32 \<Rightarrow> bool" where
  "is_cleanup_done s \<longleftrightarrow> s AND FLAG_CLEANUP_DONE \<noteq> 0"

definition state_is_closed :: "u32 \<Rightarrow> bool" where
  "state_is_closed s \<longleftrightarrow> s AND (FLAG_CLOSE_REQUESTED OR FLAG_CLEANUP_DONE) \<noteq> 0"

section \<open>One iteration of each loop\<close>

text \<open>
  An iteration either returns, or tries to exchange the loaded word by a new one and returns when
  that succeeds; otherwise the loop starts again.
\<close>

datatype 'r attempt = Return 'r | Exchange u32 'r

text \<open>\<open>request_schedule\<close> returns \<open>None\<close> where it first stores the reschedule flag.\<close>

definition request_schedule_attempt :: "u32 \<Rightarrow> bool option attempt" where
  "request_schedule_attempt state =
     (if state AND (FLAG_CLOSE_REQUESTED OR FLAG_CLEANUP_DONE) \<noteq> 0 then Return (Some False)
      else if state AND (FLAG_SCHEDULED OR FLAG_RUNNING) \<noteq> 0 then Return None
      else Exchange (state OR FLAG_SCHEDULED) (Some True))"

definition schedule_refused :: "schedule_hints \<Rightarrow> u32 \<Rightarrow> bool" where
  "schedule_refused hints state \<longleftrightarrow>
     \<not> (has_system_messages hints \<or> has_user_messages hints \<or> backpressure_active hints)
     \<or> is_suspended state \<and> \<not> has_system_messages hints"

definition set_running_attempt :: "u32 \<Rightarrow> u32" where
  "set_running_attempt state = (state AND NOT FLAG_SCHEDULED) OR FLAG_RUNNING"

definition set_idle_attempt :: "u32 \<Rightarrow> u32" where
  "set_idle_attempt state = state AND NOT (FLAG_RUNNING OR FLAG_SCHEDULED)"

definition request_close_attempt :: "u32 \<Rightarrow> close_request_outcome attempt" where
  "request_close_attempt state =
     (if state AND FLAG_CLEANUP_DONE \<noteq> 0 then Return AlreadyCleaned
      else if state AND FLAG_CLOSE_REQUESTED \<noteq> 0 then
        (if state AND FLAG_RUNNING \<noteq> 0 then Return RunnerOwnsFinalizer
         else if state AND FLAG_FINALIZER_OWNED \<noteq> 0 then Return AlreadyRequested
         else Exchange (state OR FLAG_CLOSE_REQUESTED OR FLAG_FINALIZER_OWNED) CallerOwnsFinalizer)
      else if state AND FLAG_RUNNING \<noteq> 0 then Exchange (state OR FLAG_CLOSE_REQUESTED) RunnerOwnsFinalizer
      else Exchange (state OR FLAG_CLOSE_REQUESTED OR FLAG_FINALIZER_OWNED) CallerOwnsFinalizer)"

definition finish_cleanup_attempt :: "u32 \<Rightarrow> u32" where
  "finish_cleanup_attempt state = state OR FLAG_CLEANUP_DONE"

definition finish_run_attempt :: "u32 \<Rightarrow> u32 \<times> run_finish_outcome" where
  "finish_run_attempt state =
     (let desired = state AND NOT (FLAG_RUNNING OR FLAG_SCHEDULED);
          close_requested = (state AND FLAG_CLOSE_REQUESTED \<noteq> 0);
          cleanup_done = (state AND FLAG_CLEANUP_DONE \<noteq> 0);
          finalizer_owned = (state AND FLAG_FINALIZER_OWNED \<noteq> 0)
      in if cleanup_done then (desired, RunClosed)
         else if close_requested then
           (if finalizer_owned then (desired, RunClosed) else (desired OR FLAG_FINALIZER_OWNED, FinalizeNow))
         else (desired, RunContinue False))"

text \<open>The outcome that \<open>finish_run\<close> returns after it has swapped the reschedule flag.\<close>

definition finish_run_outcome :: "run_finish_outcome \<Rightarrow> bool \<Rightarrow> run_finish_outcome" where
  "finish_run_outcome outcome pending = (case outcome of RunContinue _ \<Rightarrow> RunContinue pending | other \<Rightarrow> other)"

definition update_suspend_count :: "(u32 \<Rightarrow> u32) \<Rightarrow> u32 \<Rightarrow> u32" where
  "update_suspend_count f state =
     (let count = drop_bit SUSPEND_SHIFT (state AND SUSPEND_MASK); new_count = f count
      in (state AND NOT SUSPEND_MASK) OR push_bit SUSPEND_SHIFT new_count)"

text \<open>\<open>suspend\<close> adds one, \<open>resume\<close> subtracts one down to zero.\<close>

definition suspend_count :: "u32 \<Rightarrow> u32" where
  "suspend_count count = count + 1"

definition resume_count :: "u32 \<Rightarrow> u32" where
  "resume_count count = (if count = 0 then 0 else count - 1)"

section \<open>The operations without interference\<close>

definition request_schedule :: "schedule_hints \<Rightarrow> schedule_state \<Rightarrow> bool \<times> schedule_state" where
  "request_schedule hints st =
     (if schedule_refused hints (ss_state st) then (False, st)
      else case request_schedule_attempt (ss_state st) of
        Return (Some b) \<Rightarrow> (b, st)
      | Return None \<Rightarrow> (False, st\<lparr>ss_need_reschedule := True\<rparr>)
      | Exchange desired r \<Rightarrow> (r = Some True, st\<lparr>ss_state := desired\<rparr>))"

definition set_running :: "schedule_state \<Rightarrow> schedule_state" where
  "set_running st = st\<lparr>ss_state := set_running_attempt (ss_state st)\<rparr>"

definition set_idle :: "schedule_state \<Rightarrow> bool \<times> schedule_state" where
  "set_idle st = (ss_need_reschedule st, \<lparr>ss_state = set_idle_attempt (ss_state st), ss_need_reschedule = False\<rparr>)"

definition suspend :: "schedule_state \<Rightarrow> schedule_state" where
  "suspend st = st\<lparr>ss_state := update_suspend_count suspend_count (ss_state st)\<rparr>"

definition resume :: "schedule_state \<Rightarrow> schedule_state" where
  "resume st = st\<lparr>ss_state := update_suspend_count resume_count (ss_state st)\<rparr>"

definition request_close :: "schedule_state \<Rightarrow> close_request_outcome \<times> schedule_state" where
  "request_close st =
     (case request_close_attempt (ss_state st) of
        Return r \<Rightarrow> (r, st)
      | Exchange desired r \<Rightarrow> (r, st\<lparr>ss_state := desired\<rparr>))"

definition finish_cleanup :: "schedule_state \<Rightarrow> schedule_state" where
  "finish_cleanup st = st\<lparr>ss_state := finish_cleanup_attempt (ss_state st)\<rparr>"

definition finish_run :: "schedule_state \<Rightarrow> run_finish_outcome \<times> schedule_state" where
  "finish_run st =
     (let (desired, outcome) = finish_run_attempt (ss_state st)
      in (finish_run_outcome outcome (ss_need_reschedule st), \<lparr>ss_state = desired, ss_need_reschedule = False\<rparr>))"

section \<open>What the flags are after each exchange\<close>

text \<open>The word as the five flags and the counter it packs.\<close>

definition scheduled :: "u32 \<Rightarrow> bool" where "scheduled s \<longleftrightarrow> bit s 0"
definition running :: "u32 \<Rightarrow> bool" where "running s \<longleftrightarrow> bit s 1"
definition closing :: "u32 \<Rightarrow> bool" where "closing s \<longleftrightarrow> bit s 2"
definition finalizing :: "u32 \<Rightarrow> bool" where "finalizing s \<longleftrightarrow> bit s 3"
definition cleaned :: "u32 \<Rightarrow> bool" where "cleaned s \<longleftrightarrow> bit s 4"
definition suspensions :: "u32 \<Rightarrow> u32" where "suspensions s = drop_bit 5 s"

lemmas view_defs = scheduled_def running_def closing_def finalizing_def cleaned_def suspensions_def

lemmas flag_defs = FLAG_SCHEDULED_def FLAG_RUNNING_def FLAG_CLOSE_REQUESTED_def FLAG_FINALIZER_OWNED_def
  FLAG_CLEANUP_DONE_def

lemma flag_tests [simp]:
  "s AND FLAG_SCHEDULED = 0 \<longleftrightarrow> \<not> scheduled s"
  "s AND FLAG_RUNNING = 0 \<longleftrightarrow> \<not> running s"
  "s AND FLAG_CLOSE_REQUESTED = 0 \<longleftrightarrow> \<not> closing s"
  "s AND FLAG_FINALIZER_OWNED = 0 \<longleftrightarrow> \<not> finalizing s"
  "s AND FLAG_CLEANUP_DONE = 0 \<longleftrightarrow> \<not> cleaned s"
  using and_exp_eq_0_iff_not_bit [of s 0] and_exp_eq_0_iff_not_bit [of s 1] and_exp_eq_0_iff_not_bit [of s 2]
    and_exp_eq_0_iff_not_bit [of s 3] and_exp_eq_0_iff_not_bit [of s 4]
  by (simp_all add: flag_defs view_defs)

lemma flag_pair_tests [simp]:
  "s AND (FLAG_CLOSE_REQUESTED OR FLAG_CLEANUP_DONE) = 0 \<longleftrightarrow> \<not> closing s \<and> \<not> cleaned s"
  "s AND (FLAG_SCHEDULED OR FLAG_RUNNING) = 0 \<longleftrightarrow> \<not> scheduled s \<and> \<not> running s"
proof -
  have "x OR y = 0 \<longleftrightarrow> x = 0 \<and> y = (0 :: u32)" for x y by (auto simp: bit_eq_iff bit_simps)
  then show "s AND (FLAG_CLOSE_REQUESTED OR FLAG_CLEANUP_DONE) = 0 \<longleftrightarrow> \<not> closing s \<and> \<not> cleaned s"
    "s AND (FLAG_SCHEDULED OR FLAG_RUNNING) = 0 \<longleftrightarrow> \<not> scheduled s \<and> \<not> running s"
    by (simp_all add: bit.conj_disj_distrib)
qed

lemma bit_mask_low: "bit (push_bit SUSPEND_SHIFT 1 - 1 :: u32) k \<longleftrightarrow> k < 5"
proof -
  have "push_bit SUSPEND_SHIFT 1 - 1 = (mask 5 :: u32)" by (simp add: SUSPEND_SHIFT_def mask_eq_exp_minus_1 push_bit_eq_mult)
  then show ?thesis by (auto simp: bit_mask_iff)
qed

lemma bit_SUSPEND_MASK: "bit SUSPEND_MASK k \<longleftrightarrow> k < 32 \<and> 5 \<le> k"
  by (auto simp: SUSPEND_MASK_def bit_not_iff bit_mask_low simp del: push_bit_of_1 dest: bit_imp_le_length)

lemma bit_beyond: "bit (s :: u32) (5 + n) \<Longrightarrow> n < 27"
  by (drule bit_imp_le_length) simp

lemma count_suspensions [simp]: "current_suspend_count s = suspensions s"
  by (rule bit_eqI) (auto simp: current_suspend_count_def suspensions_def SUSPEND_SHIFT_def bit_simps bit_SUSPEND_MASK dest: bit_beyond)

lemma is_suspended_iff [simp]: "is_suspended s \<longleftrightarrow> suspensions s \<noteq> 0"
  by (simp add: is_suspended_def word_neq_0_conv)

lemma flag_queries [simp]:
  "is_running s \<longleftrightarrow> running s" "is_close_requested s \<longleftrightarrow> closing s" "is_cleanup_done s \<longleftrightarrow> cleaned s"
  "state_is_closed s \<longleftrightarrow> closing s \<or> cleaned s"
  by (simp_all add: is_running_def is_close_requested_def is_cleanup_done_def state_is_closed_def)

lemma suspensions_cong:
  assumes "\<And>k. 5 \<le> k \<Longrightarrow> k < 32 \<Longrightarrow> bit a k = bit b k"
  shows "suspensions a = suspensions b"
proof (rule bit_eqI)
  fix n
  have "bit a (5 + n) = bit b (5 + n)"
    using assms [of "5 + n"] bit_beyond [of a n] bit_beyond [of b n] by auto
  then show "bit (suspensions a) n = bit (suspensions b) n" by (simp add: suspensions_def bit_simps)
qed

text \<open>The flags of an updated word are read off its bits, the counter off the bits above them.\<close>

lemma flag_bits:
  "bit FLAG_SCHEDULED k \<longleftrightarrow> k = 0" "bit FLAG_RUNNING k \<longleftrightarrow> k = 1" "bit FLAG_CLOSE_REQUESTED k \<longleftrightarrow> k = 2"
  "bit FLAG_FINALIZER_OWNED k \<longleftrightarrow> k = 3" "bit FLAG_CLEANUP_DONE k \<longleftrightarrow> k = 4"
  by (auto simp: flag_defs bit_simps simp del: push_bit_of_1)

lemmas view_bits = scheduled_def running_def closing_def finalizing_def cleaned_def bit_simps bit_not_iff flag_bits

lemma view_request_schedule [simp]:
  "scheduled (s OR FLAG_SCHEDULED)" "running (s OR FLAG_SCHEDULED) = running s"
  "closing (s OR FLAG_SCHEDULED) = closing s" "finalizing (s OR FLAG_SCHEDULED) = finalizing s"
  "cleaned (s OR FLAG_SCHEDULED) = cleaned s" "suspensions (s OR FLAG_SCHEDULED) = suspensions s"
  by (simp_all add: view_bits) (rule suspensions_cong, simp add: bit_simps flag_bits)

lemma view_set_running [simp]:
  "\<not> scheduled (set_running_attempt s)" "running (set_running_attempt s)"
  "closing (set_running_attempt s) = closing s" "finalizing (set_running_attempt s) = finalizing s"
  "cleaned (set_running_attempt s) = cleaned s" "suspensions (set_running_attempt s) = suspensions s"
  unfolding set_running_attempt_def by (simp_all add: view_bits) (rule suspensions_cong, auto simp: bit_simps bit_not_iff flag_bits)

lemma view_set_idle [simp]:
  "\<not> scheduled (set_idle_attempt s)" "\<not> running (set_idle_attempt s)"
  "closing (set_idle_attempt s) = closing s" "finalizing (set_idle_attempt s) = finalizing s"
  "cleaned (set_idle_attempt s) = cleaned s" "suspensions (set_idle_attempt s) = suspensions s"
  unfolding set_idle_attempt_def by (simp_all add: view_bits) (rule suspensions_cong, auto simp: bit_simps bit_not_iff flag_bits)

lemma view_close [simp]:
  "scheduled (s OR FLAG_CLOSE_REQUESTED) = scheduled s" "running (s OR FLAG_CLOSE_REQUESTED) = running s"
  "closing (s OR FLAG_CLOSE_REQUESTED)" "finalizing (s OR FLAG_CLOSE_REQUESTED) = finalizing s"
  "cleaned (s OR FLAG_CLOSE_REQUESTED) = cleaned s" "suspensions (s OR FLAG_CLOSE_REQUESTED) = suspensions s"
  by (simp_all add: view_bits) (rule suspensions_cong, simp add: bit_simps flag_bits)

lemma view_finalizer [simp]:
  "scheduled (s OR FLAG_FINALIZER_OWNED) = scheduled s" "running (s OR FLAG_FINALIZER_OWNED) = running s"
  "closing (s OR FLAG_FINALIZER_OWNED) = closing s" "finalizing (s OR FLAG_FINALIZER_OWNED)"
  "cleaned (s OR FLAG_FINALIZER_OWNED) = cleaned s" "suspensions (s OR FLAG_FINALIZER_OWNED) = suspensions s"
  by (simp_all add: view_bits) (rule suspensions_cong, simp add: bit_simps flag_bits)

lemma view_close_finalizer [simp]:
  "scheduled (s OR FLAG_CLOSE_REQUESTED OR FLAG_FINALIZER_OWNED) = scheduled s"
  "running (s OR FLAG_CLOSE_REQUESTED OR FLAG_FINALIZER_OWNED) = running s"
  "closing (s OR FLAG_CLOSE_REQUESTED OR FLAG_FINALIZER_OWNED)" "finalizing (s OR FLAG_CLOSE_REQUESTED OR FLAG_FINALIZER_OWNED)"
  "cleaned (s OR FLAG_CLOSE_REQUESTED OR FLAG_FINALIZER_OWNED) = cleaned s"
  "suspensions (s OR FLAG_CLOSE_REQUESTED OR FLAG_FINALIZER_OWNED) = suspensions s"
  by (simp_all add: view_bits) (rule suspensions_cong, simp add: bit_simps flag_bits)

lemma view_finish_cleanup [simp]:
  "scheduled (finish_cleanup_attempt s) = scheduled s" "running (finish_cleanup_attempt s) = running s"
  "closing (finish_cleanup_attempt s) = closing s" "finalizing (finish_cleanup_attempt s) = finalizing s"
  "cleaned (finish_cleanup_attempt s)" "suspensions (finish_cleanup_attempt s) = suspensions s"
  unfolding finish_cleanup_attempt_def by (simp_all add: view_bits) (rule suspensions_cong, auto simp: bit_simps bit_not_iff flag_bits)

lemma finish_run_attempt_cases:
  "finish_run_attempt s =
     (if cleaned s \<or> closing s \<and> finalizing s then (set_idle_attempt s, RunClosed)
      else if closing s then (set_idle_attempt s OR FLAG_FINALIZER_OWNED, FinalizeNow)
      else (set_idle_attempt s, RunContinue False))"
  by (simp add: finish_run_attempt_def set_idle_attempt_def Let_def)

lemma view_update_count [simp]:
  "scheduled (update_suspend_count f s) = scheduled s" "running (update_suspend_count f s) = running s"
  "closing (update_suspend_count f s) = closing s" "finalizing (update_suspend_count f s) = finalizing s"
  "cleaned (update_suspend_count f s) = cleaned s"
  by (auto simp: update_suspend_count_def Let_def view_defs bit_simps bit_not_iff bit_SUSPEND_MASK SUSPEND_SHIFT_def)

lemma suspensions_update: "suspensions (update_suspend_count f s) = take_bit 27 (f (suspensions s))"
proof -
  have "update_suspend_count f s = (s AND NOT SUSPEND_MASK) OR push_bit SUSPEND_SHIFT (f (suspensions s))"
    unfolding update_suspend_count_def Let_def current_suspend_count_def [symmetric] by simp
  then show ?thesis
    by (intro bit_eqI) (auto simp: suspensions_def bit_simps bit_not_iff bit_SUSPEND_MASK SUSPEND_SHIFT_def)
qed

lemma suspensions_bound: "unat (suspensions s) < 2 ^ 27"
proof -
  have "unat s < 2 ^ 32" using unsigned_less [of s, where ?'a = nat] by simp
  then show ?thesis by (simp add: suspensions_def drop_bit_eq_div unat_div)
qed

text \<open>The counter is exact while there are fewer than \<open>2^27 - 1\<close> open suspensions.\<close>

lemma suspensions_suspend:
  assumes "unat (suspensions s) + 1 < 2 ^ 27"
  shows "unat (suspensions (update_suspend_count suspend_count s)) = unat (suspensions s) + 1"
proof -
  have "unat (suspensions s + 1) = unat (suspensions s) + 1"
    using assms by (subst unat_add_lem [THEN iffD1]) simp_all
  then show ?thesis using assms by (simp add: suspensions_update suspend_count_def unsigned_take_bit_eq take_bit_nat_eq_self)
qed

lemma suspensions_resume:
  "unat (suspensions (update_suspend_count resume_count s)) = unat (suspensions s) - 1"
proof -
  have "unat (resume_count (suspensions s)) = unat (suspensions s) - 1"
    by (auto simp: resume_count_def unat_minus_one)
  then show ?thesis using suspensions_bound [of s]
    by (simp add: suspensions_update unsigned_take_bit_eq take_bit_nat_eq_self)
qed

end
