(* ===== verification/Interleaving.thy ===== *)
theory Interleaving
  imports Main
begin

text \<open>
  Threads over shared state. A thread is its program point; a step of the pool moves one thread by
  one access to the shared state, and a schedule is the list of threads that move with what they
  choose. Invariants count the threads at groups of program points.
\<close>

definition pool_step :: "('c \<Rightarrow> 'p \<Rightarrow> 's \<Rightarrow> 'p \<times> 's) \<Rightarrow> nat \<times> 'c \<Rightarrow> 'p list \<times> 's \<Rightarrow> 'p list \<times> 's" where
  "pool_step step a w =
     (let (i, c) = a; (ps, s) = w
      in if i < length ps then (let (p, s') = step c (ps ! i) s in (ps[i := p], s')) else w)"

definition pool_run :: "('c \<Rightarrow> 'p \<Rightarrow> 's \<Rightarrow> 'p \<times> 's) \<Rightarrow> (nat \<times> 'c) list \<Rightarrow> 'p list \<times> 's \<Rightarrow> 'p list \<times> 's" where
  "pool_run step as w = fold (pool_step step) as w"

lemma pool_run_append: "pool_run step (as @ bs) w = pool_run step bs (pool_run step as w)"
  by (simp add: pool_run_def)

section \<open>Counting threads\<close>

type_synonym 'p counts = "('p \<Rightarrow> bool) \<Rightarrow> nat"

definition threads_at :: "'p list \<Rightarrow> 'p counts" where
  "threads_at ps P = length (filter P ps)"

text \<open>The counts with one thread at \<open>p\<close> and the other threads counted by \<open>r\<close>.\<close>

definition with_thread :: "'p counts \<Rightarrow> 'p \<Rightarrow> 'p counts" where
  "with_thread r p P = r P + of_bool (P p)"

definition other_threads :: "'p list \<Rightarrow> nat \<Rightarrow> 'p counts" where
  "other_threads ps i P = length (filter P (take i ps)) + length (filter P (drop (Suc i) ps))"

lemma filter_length_mono: "(\<And>p. P p \<Longrightarrow> Q p) \<Longrightarrow> length (filter P xs) \<le> length (filter Q xs)"
  by (induction xs) (auto simp: le_SucI)

lemma threads_at_other:
  assumes "i < length ps"
  shows "threads_at ps = with_thread (other_threads ps i) (ps ! i)"
    and "threads_at (ps[i := p]) = with_thread (other_threads ps i) p"
proof -
  have "ps = take i ps @ ps ! i # drop (Suc i) ps" by (rule id_take_nth_drop [OF assms])
  then have "length (filter P ps) = length (filter P (take i ps @ ps ! i # drop (Suc i) ps))" for P by presburger
  then show "threads_at ps = with_thread (other_threads ps i) (ps ! i)"
    by (simp add: threads_at_def with_thread_def other_threads_def fun_eq_iff)
  show "threads_at (ps[i := p]) = with_thread (other_threads ps i) p"
    by (simp add: threads_at_def with_thread_def other_threads_def fun_eq_iff upd_conv_take_nth_drop [OF assms])
qed

lemma other_threads_mono: "(\<And>p. P p \<Longrightarrow> Q p) \<Longrightarrow> other_threads ps i P \<le> other_threads ps i Q"
  unfolding other_threads_def by (intro add_mono filter_length_mono) blast+

lemma other_threads_less: "i < length ps \<Longrightarrow> other_threads ps i P < length ps"
  using length_filter_le [of P "take i ps"] length_filter_le [of P "drop (Suc i) ps"] by (simp add: other_threads_def)

lemma threads_at_mono: "(\<And>p. P p \<Longrightarrow> Q p) \<Longrightarrow> threads_at ps P \<le> threads_at ps Q"
  unfolding threads_at_def by (rule filter_length_mono)

lemma threads_at_disj: "threads_at ps (\<lambda>p. P p \<or> Q p) \<le> threads_at ps P + threads_at ps Q"
  unfolding threads_at_def by (induction ps) auto

lemma threads_at_none: "(\<And>p. p \<in> set ps \<Longrightarrow> \<not> P p) \<Longrightarrow> threads_at ps P = 0"
  by (simp add: threads_at_def filter_empty_conv)

section \<open>Invariants of a pool\<close>

text \<open>
  A pool whose single steps keep an invariant, with at most so many threads as a machine word
  counts, keeps it along every schedule.
\<close>

locale thread_pool =
  fixes step :: "'c \<Rightarrow> 'p \<Rightarrow> 's \<Rightarrow> 'p \<times> 's"
    and inv :: "'p list \<Rightarrow> 's \<Rightarrow> bool"
    and limit :: nat
  assumes inv_step: "inv ps s \<Longrightarrow> i < length ps \<Longrightarrow> length ps < limit \<Longrightarrow> step c (ps ! i) s = (p', s') \<Longrightarrow> inv (ps[i := p']) s'"
begin

lemma step_inv:
  assumes "inv ps s" "length ps < limit" "pool_step step a (ps, s) = (ps', s')"
  shows "inv ps' s' \<and> length ps' = length ps"
proof (cases "fst a < length ps")
  case True
  obtain p' t where "step (snd a) (ps ! fst a) s = (p', t)" by fastforce
  with inv_step [OF assms(1) True assms(2) this] assms(3) True show ?thesis by (auto simp: pool_step_def split_beta)
next
  case False
  with assms show ?thesis by (auto simp: pool_step_def split_beta)
qed

lemma run_inv:
  assumes "inv ps s" "length ps < limit" "pool_run step as (ps, s) = (ps', s')"
  shows "inv ps' s' \<and> length ps' = length ps"
  using assms
proof (induction as arbitrary: ps s)
  case (Cons a as)
  obtain ps1 s1 where w: "pool_step step a (ps, s) = (ps1, s1)" by fastforce
  with step_inv [OF Cons.prems(1,2) w] Cons.IH [of ps1 s1] Cons.prems show ?case by (simp add: pool_run_def)
qed (simp add: pool_run_def)

end

end
