(* ===== verification/Mailbox_Threads.thy ===== *)
theory Mailbox_Threads
  imports Schedule_State Interleaving
begin

text \<open>
  The mailbox of an actor under concurrent use (\<open>actor-core-kernel/src/dispatch\<close>: \<open>mailbox/base.rs\<close>,
  \<open>dispatcher/message_dispatcher_shared.rs\<close>, and the close protocol of
  \<open>mailbox/lock_free_mpsc_queue.rs\<close>). Any number of threads send messages, run the mailbox, close it
  or suspend it. Each step of a thread is one access to shared memory, so that every interleaving is
  a list of steps. The mailbox is the default one: an unbounded user queue of its own, drained to dead
  letters when it is closed, with its invoker installed.

  A push or pop of a queue is one step here, at its linearization point; the two atomic length
  counters are separate accesses, as in the code. The executor is seen through the tasks it has
  accepted. Memory is sequentially consistent.
\<close>

section \<open>Shared state\<close>

text \<open>The reason of a failure and the payload of a failure report stay abstract.\<close>

record pid =
  pid_value :: u64
  pid_generation :: u32

datatype 'x system_message =
  PoisonPill | Kill | Stop | Create | Recreate 'x | Suspend | Resume | Watch pid | Unwatch pid | StopChild pid
| DeathWatchNotification pid | Failure 'x | PipeTask u64

record 'm mailbox =
  mb_state :: u32
  mb_need_reschedule :: bool
  mb_system :: "'m system_message list"
  mb_system_len :: u64
  mb_user :: "'m list"
  mb_user_len :: u64
  mb_in_flight :: u64
  mb_user_closed :: bool
  mb_actor_alive :: bool
  mb_tasks :: nat
  \<comment> \<open>history: what was pushed, what was taken out and whether the actor got it, what was dropped\<close>
  mb_sent_system :: "'m system_message list"
  mb_sent_user :: "'m list"
  mb_out_system :: "('m system_message \<times> bool) list"
  mb_out_user :: "('m \<times> bool) list"
  mb_dropped :: "'m list"
  mb_suspends :: nat
  mb_cleanups :: nat
  mb_refused :: bool

definition mailbox_new :: "'m mailbox" where
  "mailbox_new = \<lparr>mb_state = 0, mb_need_reschedule = False, mb_system = [], mb_system_len = 0, mb_user = [],
     mb_user_len = 0, mb_in_flight = 0, mb_user_closed = False, mb_actor_alive = True, mb_tasks = 0,
     mb_sent_system = [], mb_sent_user = [], mb_out_system = [], mb_out_user = [], mb_dropped = [],
     mb_suspends = 0, mb_cleanups = 0, mb_refused = False\<rparr>"

section \<open>Where a thread is\<close>

text \<open>\<open>enqueue_envelope\<close> with the push of the lock-free queue, and \<open>enqueue_system\<close>.\<close>

datatype 'm enqueue_pc =
  CheckClosed 'm | EnterProducer 'm | TestClosed 'm | LeaveProducer | CountMessage 'm | PushMessage 'm | ExitProducer

datatype 'm system_pc = PushSystem "'m system_message" | CountSystem

text \<open>\<open>register_for_execution\<close> with \<open>request_schedule\<close> and the roll-back by \<open>set_idle\<close>.\<close>

datatype schedule_pc =
  Gate schedule_hints | LoadState | MarkPending | ExchangeScheduled u32 | Submit
| RollbackLoad | RollbackExchange u32 | RollbackSwap

text \<open>
  \<open>Mailbox::run\<close> with \<open>set_running\<close> and \<open>finish_run\<close>. The drain of the system queue remembers whether it
  is the first one of the run, and what is left of the throughput.
\<close>

datatype run_pc =
  CheckCleanup | CheckCloseRequested | CheckActor bool | LoadRunning bool | ExchangeRunning bool u32
| LoadFinish | ExchangeFinish u32 | SwapFinish run_finish_outcome | WorkUser bool | WorkSystem bool

datatype 'm drain_pc =
  SystemCheck bool nat | SystemPop bool nat | SystemPopped bool nat "'m system_message"
| SystemMatch bool nat "'m system_message" | SystemInvoke bool nat "'m system_message" | AfterDrain nat

datatype 'm process_pc =
  LoopHead nat | LoopClose nat | LoopCleanup nat | DequeueClose nat | DequeueSuspended nat | DequeuePop nat
| DequeueCount nat 'm | UserInvoke nat 'm

datatype close_pc = LoadClose | ExchangeClose u32

datatype finalize_pc =
  CloseUser | WaitUser | PopSystem | CountSystemPopped | PopUser | CountUserPopped
| CleanClose | CleanWait | CleanPop | CleanCount | LoadCleanup | ExchangeCleanup u32

text \<open>Where \<open>suspend\<close> and \<open>resume\<close> return to.\<close>

datatype 'm adjust_return =
  ReturnIdle | ReturnSystem bool nat "'m system_message" | ReturnUser nat 'm

datatype 'm pc =
  Idle | Enqueue "'m enqueue_pc" | EnqueueSystem "'m system_pc" | Schedule schedule_pc | Run run_pc
| Drain "'m drain_pc" | Process "'m process_pc" | Close close_pc | Finalize finalize_pc
| Adjust bool "'m adjust_return" | AdjustExchange bool u32 "'m adjust_return"

text \<open>
  What a thread does next where the code leaves it open: the call an idle thread makes, the answer of
  the executor, the clock at the throughput deadline, and whether the actor suspends or resumes its
  own mailbox while it is invoked.
\<close>

datatype 'm choice =
  SendUser 'm | SendSystem "'m system_message" | TakeTask | RequestClose | SuspendActor | Attach | DropActor
| Proceed | Refuse | DeadlinePassed | InvokeSuspend | InvokeResume

section \<open>Steps\<close>

text \<open>
  A program point that tries an exchange holds the word that was loaded; the decision taken on it is
  the same function of that word as at the load.
\<close>

definition user_hints :: schedule_hints where
  "user_hints = \<lparr>has_system_messages = False, has_user_messages = True, backpressure_active = False\<rparr>"

definition system_hints :: schedule_hints where
  "system_hints = \<lparr>has_system_messages = True, has_user_messages = False, backpressure_active = False\<rparr>"

definition both_hints :: schedule_hints where
  "both_hints = \<lparr>has_system_messages = True, has_user_messages = True, backpressure_active = False\<rparr>"

fun enqueue_step :: "'m enqueue_pc \<Rightarrow> 'm mailbox \<Rightarrow> 'm pc \<times> 'm mailbox" where
  "enqueue_step (CheckClosed m) mb = (if state_is_closed (mb_state mb) then Idle else Enqueue (EnterProducer m), mb)"
| "enqueue_step (EnterProducer m) mb = (Enqueue (TestClosed m), mb\<lparr>mb_in_flight := mb_in_flight mb + 1\<rparr>)"
| "enqueue_step (TestClosed m) mb = (Enqueue (if mb_user_closed mb then LeaveProducer else CountMessage m), mb)"
| "enqueue_step LeaveProducer mb = (Idle, mb\<lparr>mb_in_flight := mb_in_flight mb - 1\<rparr>)"
| "enqueue_step (CountMessage m) mb = (Enqueue (PushMessage m), mb\<lparr>mb_user_len := mb_user_len mb + 1\<rparr>)"
| "enqueue_step (PushMessage m) mb =
     (Enqueue ExitProducer, mb\<lparr>mb_user := mb_user mb @ [m], mb_sent_user := mb_sent_user mb @ [m]\<rparr>)"
| "enqueue_step ExitProducer mb = (Schedule (Gate user_hints), mb\<lparr>mb_in_flight := mb_in_flight mb - 1\<rparr>)"

fun enqueue_system_step :: "'m system_pc \<Rightarrow> 'm mailbox \<Rightarrow> 'm pc \<times> 'm mailbox" where
  "enqueue_system_step (PushSystem m) mb =
     (EnqueueSystem CountSystem, mb\<lparr>mb_system := mb_system mb @ [m], mb_sent_system := mb_sent_system mb @ [m]\<rparr>)"
| "enqueue_system_step CountSystem mb = (Schedule (Gate system_hints), mb\<lparr>mb_system_len := mb_system_len mb + 1\<rparr>)"

fun schedule_step :: "'m choice \<Rightarrow> schedule_pc \<Rightarrow> 'm mailbox \<Rightarrow> 'm pc \<times> 'm mailbox" where
  "schedule_step c (Gate hints) mb = (if schedule_refused hints (mb_state mb) then Idle else Schedule LoadState, mb)"
| "schedule_step c LoadState mb =
     (case request_schedule_attempt (mb_state mb) of
        Return None \<Rightarrow> Schedule MarkPending
      | Return (Some _) \<Rightarrow> Idle
      | Exchange _ _ \<Rightarrow> Schedule (ExchangeScheduled (mb_state mb)), mb)"
| "schedule_step c MarkPending mb = (Idle, mb\<lparr>mb_need_reschedule := True\<rparr>)"
| "schedule_step c (ExchangeScheduled s) mb =
     (if s = mb_state mb then
        (case request_schedule_attempt s of
           Return _ \<Rightarrow> (Idle, mb)
         | Exchange desired _ \<Rightarrow> (Schedule Submit, mb\<lparr>mb_state := desired\<rparr>))
      else (Schedule LoadState, mb))"
| "schedule_step c Submit mb =
     (if c = Refuse then (Schedule RollbackLoad, mb\<lparr>mb_refused := True\<rparr>) else (Idle, mb\<lparr>mb_tasks := mb_tasks mb + 1\<rparr>))"
| "schedule_step c RollbackLoad mb = (Schedule (RollbackExchange (mb_state mb)), mb)"
| "schedule_step c (RollbackExchange s) mb =
     (if s = mb_state mb then (Schedule RollbackSwap, mb\<lparr>mb_state := set_idle_attempt s\<rparr>) else (Schedule RollbackLoad, mb))"
| "schedule_step c RollbackSwap mb = (Idle, mb\<lparr>mb_need_reschedule := False\<rparr>)"

fun run_step :: "nat \<Rightarrow> run_pc \<Rightarrow> 'm mailbox \<Rightarrow> 'm pc \<times> 'm mailbox" where
  "run_step throughput CheckCleanup mb = (if is_cleanup_done (mb_state mb) then Idle else Run CheckCloseRequested, mb)"
| "run_step throughput CheckCloseRequested mb = (Run (CheckActor (is_close_requested (mb_state mb))), mb)"
| "run_step throughput (CheckActor closed_at_start) mb =
     (if \<not> mb_actor_alive mb \<and> \<not> closed_at_start then Idle else Run (LoadRunning closed_at_start), mb)"
| "run_step throughput (LoadRunning closed_at_start) mb = (Run (ExchangeRunning closed_at_start (mb_state mb)), mb)"
| "run_step throughput (ExchangeRunning closed_at_start s) mb =
     (if s = mb_state mb
      then (if closed_at_start then Run LoadFinish else Drain (SystemCheck True throughput), mb\<lparr>mb_state := set_running_attempt s\<rparr>)
      else (Run (LoadRunning closed_at_start), mb))"
| "run_step throughput LoadFinish mb = (Run (ExchangeFinish (mb_state mb)), mb)"
| "run_step throughput (ExchangeFinish s) mb =
     (if s = mb_state mb
      then (Run (SwapFinish (snd (finish_run_attempt s))), mb\<lparr>mb_state := fst (finish_run_attempt s)\<rparr>)
      else (Run LoadFinish, mb))"
| "run_step throughput (SwapFinish outcome) mb =
     (case finish_run_outcome outcome (mb_need_reschedule mb) of
        RunContinue pending_reschedule \<Rightarrow> Run (WorkUser pending_reschedule)
      | FinalizeNow \<Rightarrow> Finalize CloseUser
      | RunClosed \<Rightarrow> Idle, mb\<lparr>mb_need_reschedule := False\<rparr>)"
| "run_step throughput (WorkUser pending_reschedule) mb =
     (if mb_user_len mb > 0 then Schedule (Gate both_hints) else Run (WorkSystem pending_reschedule), mb)"
| "run_step throughput (WorkSystem pending_reschedule) mb =
     (if pending_reschedule \<or> mb_system_len mb > 0 then Schedule (Gate both_hints) else Idle, mb)"

text \<open>\<open>process_all_system_messages\<close>, and the deadline check that follows it after a user message.\<close>

definition drained :: "bool \<Rightarrow> nat \<Rightarrow> 'm pc" where
  "drained first left = (if first then Process (LoopHead left) else Drain (AfterDrain left))"

fun drain_step :: "'m choice \<Rightarrow> 'm drain_pc \<Rightarrow> 'm mailbox \<Rightarrow> 'm pc \<times> 'm mailbox" where
  "drain_step c (SystemCheck first left) mb =
     (if is_close_requested (mb_state mb) then drained first left else Drain (SystemPop first left), mb)"
| "drain_step c (SystemPop first left) mb =
     (case mb_system mb of
        [] \<Rightarrow> (drained first left, mb)
      | m # ms \<Rightarrow> (Drain (SystemPopped first left m), mb\<lparr>mb_system := ms, mb_out_system := mb_out_system mb @ [(m, True)]\<rparr>))"
| "drain_step c (SystemPopped first left m) mb = (Drain (SystemMatch first left m), mb\<lparr>mb_system_len := mb_system_len mb - 1\<rparr>)"
| "drain_step c (SystemMatch first left m) mb =
     (if m = Suspend then Adjust True (ReturnSystem first left m)
      else if m = Resume then Adjust False (ReturnSystem first left m)
      else Drain (SystemInvoke first left m), mb)"
| "drain_step c (SystemInvoke first left m) mb =
     (case c of
        InvokeSuspend \<Rightarrow> Adjust True (ReturnSystem first left m)
      | InvokeResume \<Rightarrow> Adjust False (ReturnSystem first left m)
      | _ \<Rightarrow> Drain (SystemCheck first left), mb)"
| "drain_step c (AfterDrain left) mb =
     (if left - 1 > 0 \<and> c = DeadlinePassed then Run LoadFinish else Process (LoopHead (left - 1)), mb)"

text \<open>\<open>process_mailbox\<close> with \<open>should_process_message\<close> and \<open>dequeue\<close>.\<close>

fun process_step :: "'m choice \<Rightarrow> 'm process_pc \<Rightarrow> 'm mailbox \<Rightarrow> 'm pc \<times> 'm mailbox" where
  "process_step c (LoopHead left) mb =
     (if left > 0 \<and> \<not> is_suspended (mb_state mb) then Process (LoopClose left) else Run LoadFinish, mb)"
| "process_step c (LoopClose left) mb =
     (if is_close_requested (mb_state mb) then Run LoadFinish else Process (LoopCleanup left), mb)"
| "process_step c (LoopCleanup left) mb =
     (if is_cleanup_done (mb_state mb) then Run LoadFinish else Process (DequeueClose left), mb)"
| "process_step c (DequeueClose left) mb =
     (if is_close_requested (mb_state mb) then Run LoadFinish else Process (DequeueSuspended left), mb)"
| "process_step c (DequeueSuspended left) mb =
     (if is_suspended (mb_state mb) then Run LoadFinish else Process (DequeuePop left), mb)"
| "process_step c (DequeuePop left) mb =
     (case mb_user mb of
        [] \<Rightarrow> (Run LoadFinish, mb)
      | m # ms \<Rightarrow> (Process (DequeueCount left m), mb\<lparr>mb_user := ms, mb_out_user := mb_out_user mb @ [(m, True)]\<rparr>))"
| "process_step c (DequeueCount left m) mb = (Process (UserInvoke left m), mb\<lparr>mb_user_len := mb_user_len mb - 1\<rparr>)"
| "process_step c (UserInvoke left m) mb =
     (case c of
        InvokeSuspend \<Rightarrow> Adjust True (ReturnUser left m)
      | InvokeResume \<Rightarrow> Adjust False (ReturnUser left m)
      | _ \<Rightarrow> Drain (SystemCheck False left), mb)"

fun close_step :: "close_pc \<Rightarrow> 'm mailbox \<Rightarrow> 'm pc \<times> 'm mailbox" where
  "close_step LoadClose mb =
     (case request_close_attempt (mb_state mb) of Return _ \<Rightarrow> Idle | Exchange _ _ \<Rightarrow> Close (ExchangeClose (mb_state mb)), mb)"
| "close_step (ExchangeClose s) mb =
     (if s = mb_state mb then
        (case request_close_attempt s of
           Return _ \<Rightarrow> (Idle, mb)
         | Exchange desired outcome \<Rightarrow>
             (if outcome = CallerOwnsFinalizer then Finalize CloseUser else Idle, mb\<lparr>mb_state := desired\<rparr>))
      else (Close LoadClose, mb))"

text \<open>\<open>finalize_cleanup\<close>, with \<open>clean_up\<close> of the queue and \<open>finish_cleanup\<close>.\<close>

fun finalize_step :: "finalize_pc \<Rightarrow> 'm mailbox \<Rightarrow> 'm pc \<times> 'm mailbox" where
  "finalize_step CloseUser mb = (Finalize WaitUser, mb\<lparr>mb_user_closed := True\<rparr>)"
| "finalize_step WaitUser mb = (Finalize (if mb_in_flight mb \<noteq> 0 then WaitUser else PopSystem), mb)"
| "finalize_step PopSystem mb =
     (case mb_system mb of
        [] \<Rightarrow> (Finalize PopUser, mb)
      | m # ms \<Rightarrow> (Finalize CountSystemPopped, mb\<lparr>mb_system := ms, mb_out_system := mb_out_system mb @ [(m, False)]\<rparr>))"
| "finalize_step CountSystemPopped mb = (Finalize PopSystem, mb\<lparr>mb_system_len := mb_system_len mb - 1\<rparr>)"
| "finalize_step PopUser mb =
     (case mb_user mb of
        [] \<Rightarrow> (Finalize CleanClose, mb)
      | m # ms \<Rightarrow> (Finalize CountUserPopped, mb\<lparr>mb_user := ms, mb_out_user := mb_out_user mb @ [(m, False)]\<rparr>))"
| "finalize_step CountUserPopped mb = (Finalize PopUser, mb\<lparr>mb_user_len := mb_user_len mb - 1\<rparr>)"
| "finalize_step CleanClose mb = (Finalize CleanWait, mb\<lparr>mb_user_closed := True\<rparr>)"
| "finalize_step CleanWait mb = (Finalize (if mb_in_flight mb \<noteq> 0 then CleanWait else CleanPop), mb)"
| "finalize_step CleanPop mb =
     (case mb_user mb of
        [] \<Rightarrow> (Finalize LoadCleanup, mb)
      | m # ms \<Rightarrow> (Finalize CleanCount, mb\<lparr>mb_user := ms, mb_dropped := mb_dropped mb @ [m]\<rparr>))"
| "finalize_step CleanCount mb = (Finalize CleanPop, mb\<lparr>mb_user_len := mb_user_len mb - 1\<rparr>)"
| "finalize_step LoadCleanup mb = (Finalize (ExchangeCleanup (mb_state mb)), mb)"
| "finalize_step (ExchangeCleanup s) mb =
     (if s = mb_state mb
      then (Idle, mb\<lparr>mb_state := finish_cleanup_attempt s, mb_cleanups := mb_cleanups mb + 1\<rparr>)
      else (Finalize LoadCleanup, mb))"

fun adjust_return_pc :: "'m adjust_return \<Rightarrow> 'm pc" where
  "adjust_return_pc ReturnIdle = Idle"
| "adjust_return_pc (ReturnSystem first left m) = Drain (SystemInvoke first left m)"
| "adjust_return_pc (ReturnUser left m) = Process (UserInvoke left m)"

definition adjust_step :: "bool \<Rightarrow> u32 \<Rightarrow> 'm adjust_return \<Rightarrow> 'm mailbox \<Rightarrow> 'm pc \<times> 'm mailbox" where
  "adjust_step suspending s r mb =
     (if s = mb_state mb
      then (adjust_return_pc r,
        mb\<lparr>mb_state := update_suspend_count (if suspending then suspend_count else resume_count) s,
           mb_suspends := mb_suspends mb + of_bool suspending\<rparr>)
      else (Adjust suspending r, mb))"

definition idle_step :: "'m choice \<Rightarrow> 'm mailbox \<Rightarrow> 'm pc \<times> 'm mailbox" where
  "idle_step c mb =
     (case c of
        SendUser m \<Rightarrow> (Enqueue (CheckClosed m), mb)
      | SendSystem m \<Rightarrow> (EnqueueSystem (PushSystem m), mb)
      | TakeTask \<Rightarrow> (if mb_tasks mb > 0 then (Run CheckCleanup, mb\<lparr>mb_tasks := mb_tasks mb - 1\<rparr>) else (Idle, mb))
      | RequestClose \<Rightarrow> (Close LoadClose, mb)
      | SuspendActor \<Rightarrow> (Adjust True ReturnIdle, mb)
      | Attach \<Rightarrow> (Schedule (Gate system_hints), mb)
      | DropActor \<Rightarrow> (Idle, mb\<lparr>mb_actor_alive := False\<rparr>)
      | _ \<Rightarrow> (Idle, mb))"

fun thread_step :: "nat \<Rightarrow> 'm choice \<Rightarrow> 'm pc \<Rightarrow> 'm mailbox \<Rightarrow> 'm pc \<times> 'm mailbox" where
  "thread_step t c Idle mb = idle_step c mb"
| "thread_step t c (Enqueue p) mb = enqueue_step p mb"
| "thread_step t c (EnqueueSystem p) mb = enqueue_system_step p mb"
| "thread_step t c (Schedule p) mb = schedule_step c p mb"
| "thread_step t c (Run p) mb = run_step t p mb"
| "thread_step t c (Drain p) mb = drain_step c p mb"
| "thread_step t c (Process p) mb = process_step c p mb"
| "thread_step t c (Close p) mb = close_step p mb"
| "thread_step t c (Finalize p) mb = finalize_step p mb"
| "thread_step t c (Adjust b r) mb = (AdjustExchange b (mb_state mb) r, mb)"
| "thread_step t c (AdjustExchange b s r) mb = adjust_step b s r mb"

definition mailbox_run :: "nat \<Rightarrow> (nat \<times> 'm choice) list \<Rightarrow> 'm pc list \<times> 'm mailbox \<Rightarrow> 'm pc list \<times> 'm mailbox" where
  "mailbox_run t as w = pool_run (thread_step t) as w"

definition mailbox_start :: "nat \<Rightarrow> 'm pc list \<times> 'm mailbox" where
  "mailbox_start n = (replicate n Idle, mailbox_new)"

end
