(* ===== verification/Mailbox_Invariants.thy ===== *)
theory Mailbox_Invariants
  imports Mailbox_Threads
begin

text \<open>
  Invariants of the mailbox under every interleaving. They count the threads at groups of program
  points: \<open>n P\<close> is the number of threads at a point of the group \<open>P\<close>. A step takes one thread from
  one point to another and leaves the rest, so each invariant is shown for the step functions with
  the counts of the other threads as an arbitrary function.
\<close>

section \<open>Groups of program points\<close>

text \<open>The thread holds the right to run that the scheduled flag grants, or the run itself.\<close>

fun awaits_run :: "'m pc \<Rightarrow> bool" where
  "awaits_run (Schedule Submit) = True"
| "awaits_run (Schedule RollbackLoad) = True"
| "awaits_run (Schedule (RollbackExchange _)) = True"
| "awaits_run (Run CheckCleanup) = True"
| "awaits_run (Run CheckCloseRequested) = True"
| "awaits_run (Run (CheckActor _)) = True"
| "awaits_run (Run (LoadRunning _)) = True"
| "awaits_run (Run (ExchangeRunning _ _)) = True"
| "awaits_run _ = False"

fun in_run :: "'m adjust_return \<Rightarrow> bool" where
  "in_run ReturnIdle = False"
| "in_run _ = True"

fun runs :: "'m pc \<Rightarrow> bool" where
  "runs (Drain _) = True"
| "runs (Process _) = True"
| "runs (Run LoadFinish) = True"
| "runs (Run (ExchangeFinish _)) = True"
| "runs (Adjust _ r) = in_run r"
| "runs (AdjustExchange _ _ r) = in_run r"
| "runs _ = False"

text \<open>The thread has seen that no close was requested and may take a message, or it has taken one.\<close>

fun handles_messages :: "'m pc \<Rightarrow> bool" where
  "handles_messages (Drain (SystemCheck _ _)) = False"
| "handles_messages (Drain (AfterDrain _)) = False"
| "handles_messages (Drain _) = True"
| "handles_messages (Process (DequeueSuspended _)) = True"
| "handles_messages (Process (DequeuePop _)) = True"
| "handles_messages (Process (DequeueCount _ _)) = True"
| "handles_messages (Process (UserInvoke _ _)) = True"
| "handles_messages (Adjust _ r) = in_run r"
| "handles_messages (AdjustExchange _ _ r) = in_run r"
| "handles_messages _ = False"

fun finalizes :: "'m pc \<Rightarrow> bool" where
  "finalizes (Run (SwapFinish outcome)) = (outcome = FinalizeNow)"
| "finalizes (Finalize _) = True"
| "finalizes _ = False"

text \<open>Producers inside the close protocol of the queue, and those that will still push.\<close>

fun in_flight :: "'m pc \<Rightarrow> bool" where
  "in_flight (Enqueue (CheckClosed _)) = False"
| "in_flight (Enqueue (EnterProducer _)) = False"
| "in_flight (Enqueue _) = True"
| "in_flight _ = False"

fun will_push :: "'m pc \<Rightarrow> bool" where
  "will_push (Enqueue (CountMessage _)) = True"
| "will_push (Enqueue (PushMessage _)) = True"
| "will_push _ = False"

text \<open>How far the finalizer has come.\<close>

fun has_closed :: "'m pc \<Rightarrow> bool" where
  "has_closed (Finalize CloseUser) = False"
| "has_closed (Finalize _) = True"
| "has_closed _ = False"

fun has_waited :: "'m pc \<Rightarrow> bool" where
  "has_waited (Finalize CloseUser) = False"
| "has_waited (Finalize WaitUser) = False"
| "has_waited (Finalize _) = True"
| "has_waited _ = False"

fun has_emptied :: "'m pc \<Rightarrow> bool" where
  "has_emptied (Finalize CleanClose) = True"
| "has_emptied (Finalize CleanWait) = True"
| "has_emptied (Finalize CleanPop) = True"
| "has_emptied (Finalize CleanCount) = True"
| "has_emptied (Finalize LoadCleanup) = True"
| "has_emptied (Finalize (ExchangeCleanup _)) = True"
| "has_emptied _ = False"

text \<open>A resume outside a run: there is none.\<close>

fun resumes_outside :: "'m pc \<Rightarrow> bool" where
  "resumes_outside (Adjust suspending r) = (\<not> suspending \<and> \<not> in_run r)"
| "resumes_outside (AdjustExchange suspending _ r) = (\<not> suspending \<and> \<not> in_run r)"
| "resumes_outside _ = False"

text \<open>Messages that a length counter and its queue account for at different moments.\<close>

fun counted_user :: "'m pc \<Rightarrow> bool" where
  "counted_user (Enqueue (PushMessage _)) = True"
| "counted_user (Process (DequeueCount _ _)) = True"
| "counted_user (Finalize CountUserPopped) = True"
| "counted_user (Finalize CleanCount) = True"
| "counted_user _ = False"

fun counted_system :: "'m pc \<Rightarrow> bool" where
  "counted_system (Drain (SystemPopped _ _ _)) = True"
| "counted_system (Finalize CountSystemPopped) = True"
| "counted_system _ = False"

fun uncounted_system :: "'m pc \<Rightarrow> bool" where
  "uncounted_system (EnqueueSystem CountSystem) = True"
| "uncounted_system _ = False"

text \<open>The thread will look at the schedule state, or at the queues, before it is done.\<close>

fun wakes_user :: "'m pc \<Rightarrow> bool" where
  "wakes_user (Enqueue ExitProducer) = True"
| "wakes_user (Schedule (Gate h)) = has_user_messages h"
| "wakes_user (Schedule LoadState) = True"
| "wakes_user (Schedule (ExchangeScheduled _)) = True"
| "wakes_user (Run (SwapFinish outcome)) = (case outcome of RunContinue _ \<Rightarrow> True | _ \<Rightarrow> False)"
| "wakes_user (Run (WorkUser _)) = True"
| "wakes_user _ = False"

fun wakes_system :: "'m pc \<Rightarrow> bool" where
  "wakes_system (EnqueueSystem CountSystem) = True"
| "wakes_system (Schedule (Gate h)) = has_system_messages h"
| "wakes_system (Schedule LoadState) = True"
| "wakes_system (Schedule (ExchangeScheduled _)) = True"
| "wakes_system (Run (SwapFinish outcome)) = (case outcome of RunContinue _ \<Rightarrow> True | _ \<Rightarrow> False)"
| "wakes_system (Run (WorkUser _)) = True"
| "wakes_system (Run (WorkSystem _)) = True"
| "wakes_system _ = False"

text \<open>The executor has refused the task.\<close>

fun rolls_back :: "'m pc \<Rightarrow> bool" where
  "rolls_back (Schedule RollbackLoad) = True"
| "rolls_back (Schedule (RollbackExchange _)) = True"
| "rolls_back _ = False"

section \<open>The invariants\<close>

text \<open>One right to run: the scheduled flag is the right, the running flag the run.\<close>

definition tokens_ok :: "'m pc counts \<Rightarrow> 'm mailbox \<Rightarrow> bool" where
  "tokens_ok n mb \<longleftrightarrow>
     mb_tasks mb + n awaits_run \<le> 1
     \<and> (\<not> scheduled (mb_state mb) \<longrightarrow> mb_tasks mb = 0 \<and> n awaits_run = 0)
     \<and> (scheduled (mb_state mb) \<and> mb_actor_alive mb \<and> \<not> cleaned (mb_state mb) \<longrightarrow> mb_tasks mb + n awaits_run = 1)
     \<and> (running (mb_state mb) \<longrightarrow> n runs = 1) \<and> (\<not> running (mb_state mb) \<longrightarrow> n runs = 0)
     \<and> \<not> (scheduled (mb_state mb) \<and> running (mb_state mb))"

text \<open>One finalizer; while a thread may take a message there is none.\<close>

definition closing_ok :: "'m pc counts \<Rightarrow> 'm mailbox \<Rightarrow> bool" where
  "closing_ok n mb \<longleftrightarrow>
     (finalizing (mb_state mb) \<longrightarrow> closing (mb_state mb))
     \<and> (closing (mb_state mb) \<longrightarrow> running (mb_state mb) \<or> finalizing (mb_state mb))
     \<and> (cleaned (mb_state mb) \<longrightarrow> finalizing (mb_state mb) \<and> n finalizes = 0 \<and> mb_cleanups mb = 1)
     \<and> (\<not> cleaned (mb_state mb) \<longrightarrow> mb_cleanups mb = 0)
     \<and> (finalizing (mb_state mb) \<and> \<not> cleaned (mb_state mb) \<longrightarrow> n finalizes = 1)
     \<and> (\<not> finalizing (mb_state mb) \<longrightarrow> n finalizes = 0)
     \<and> (n handles_messages > 0 \<longrightarrow> \<not> finalizing (mb_state mb))"

text \<open>Once the finalizer has waited for the producers, nothing enters the user queue any more.\<close>

definition protocol_ok :: "'m pc counts \<Rightarrow> 'm mailbox \<Rightarrow> bool" where
  "protocol_ok n mb \<longleftrightarrow>
     mb_in_flight mb = of_nat (n in_flight)
     \<and> (n has_closed > 0 \<or> cleaned (mb_state mb) \<longrightarrow> mb_user_closed mb)
     \<and> (n has_waited > 0 \<or> cleaned (mb_state mb) \<longrightarrow> n will_push = 0)
     \<and> (n has_emptied > 0 \<or> cleaned (mb_state mb) \<longrightarrow> mb_user mb = [])
     \<and> mb_dropped mb = []"

definition queues_ok :: "'m mailbox \<Rightarrow> bool" where
  "queues_ok mb \<longleftrightarrow> mb_sent_user mb = map fst (mb_out_user mb) @ mb_user mb
     \<and> mb_sent_system mb = map fst (mb_out_system mb) @ mb_system mb"

text \<open>Only a finalizer turns messages away from the actor.\<close>

definition delivered_ok :: "'m mailbox \<Rightarrow> bool" where
  "delivered_ok mb \<longleftrightarrow> finalizing (mb_state mb) \<or> list_all snd (mb_out_user mb) \<and> list_all snd (mb_out_system mb)"

definition lengths_ok :: "'m pc counts \<Rightarrow> 'm mailbox \<Rightarrow> bool" where
  "lengths_ok n mb \<longleftrightarrow>
     mb_user_len mb = of_nat (length (mb_user mb) + n counted_user)
     \<and> mb_system_len mb + of_nat (n uncounted_system) = of_nat (length (mb_system mb) + n counted_system)"

definition suspends_ok :: "'m pc counts \<Rightarrow> 'm mailbox \<Rightarrow> bool" where
  "suspends_ok n mb \<longleftrightarrow> unat (suspensions (mb_state mb)) \<le> mb_suspends mb \<and> n resumes_outside = 0"

text \<open>A message that can be processed is never left without a thread that will see it.\<close>

definition wakeup_ok :: "'m pc counts \<Rightarrow> 'm mailbox \<Rightarrow> bool" where
  "wakeup_ok n mb \<longleftrightarrow> (n rolls_back > 0 \<longrightarrow> mb_refused mb) \<and>
     (mb_actor_alive mb \<and> \<not> closing (mb_state mb) \<and> \<not> cleaned (mb_state mb) \<and> \<not> mb_refused mb \<longrightarrow>
       (mb_user mb \<noteq> [] \<and> suspensions (mb_state mb) = 0 \<longrightarrow>
          scheduled (mb_state mb) \<or> running (mb_state mb) \<or> n wakes_user > 0)
       \<and> (mb_system mb \<noteq> [] \<longrightarrow> scheduled (mb_state mb) \<or> running (mb_state mb) \<or> n wakes_system > 0))"

section \<open>Every step keeps the invariants\<close>

lemmas step_splits = if_splits list.splits option.splits attempt.splits run_finish_outcome.splits
  close_request_outcome.splits choice.splits adjust_return.splits

lemma returned_runs [simp]: "runs (adjust_return_pc r) = in_run r"
  by (cases r; simp)

lemma returned_points [simp]:
  "\<not> awaits_run (adjust_return_pc r)" "handles_messages (adjust_return_pc r) = in_run r" "\<not> finalizes (adjust_return_pc r)"
  "\<not> in_flight (adjust_return_pc r)" "\<not> will_push (adjust_return_pc r)" "\<not> has_closed (adjust_return_pc r)"
  "\<not> has_waited (adjust_return_pc r)" "\<not> has_emptied (adjust_return_pc r)" "\<not> counted_user (adjust_return_pc r)"
  "\<not> counted_system (adjust_return_pc r)" "\<not> uncounted_system (adjust_return_pc r)"
  "\<not> resumes_outside (adjust_return_pc r)" "\<not> rolls_back (adjust_return_pc r)" "\<not> wakes_user (adjust_return_pc r)" "\<not> wakes_system (adjust_return_pc r)"
  by (cases r; simp)+

lemmas step_defs = idle_step_def adjust_step_def drained_def request_schedule_attempt_def request_close_attempt_def
  finish_run_attempt_cases finish_run_outcome_def schedule_refused_def with_thread_def

text \<open>The program points one by one.\<close>

lemma point_cases:
  obtains "p = Idle" | m where "p = Enqueue (CheckClosed m)" | m where "p = Enqueue (EnterProducer m)"
    | m where "p = Enqueue (TestClosed m)" | "p = Enqueue LeaveProducer" | m where "p = Enqueue (CountMessage m)"
    | m where "p = Enqueue (PushMessage m)" | "p = Enqueue ExitProducer" | x where "p = EnqueueSystem (PushSystem x)"
    | "p = EnqueueSystem CountSystem" | h where "p = Schedule (Gate h)" | "p = Schedule LoadState"
    | "p = Schedule MarkPending" | s where "p = Schedule (ExchangeScheduled s)" | "p = Schedule Submit"
    | "p = Schedule RollbackLoad" | s where "p = Schedule (RollbackExchange s)" | "p = Schedule RollbackSwap"
    | "p = Run CheckCleanup" | "p = Run CheckCloseRequested" | b where "p = Run (CheckActor b)"
    | b where "p = Run (LoadRunning b)" | b s where "p = Run (ExchangeRunning b s)" | "p = Run LoadFinish"
    | s where "p = Run (ExchangeFinish s)" | y where "p = Run (SwapFinish y)" | b where "p = Run (WorkUser b)"
    | b where "p = Run (WorkSystem b)" | b k where "p = Drain (SystemCheck b k)" | b k where "p = Drain (SystemPop b k)"
    | b k x where "p = Drain (SystemPopped b k x)" | b k x where "p = Drain (SystemMatch b k x)"
    | b k x where "p = Drain (SystemInvoke b k x)" | k where "p = Drain (AfterDrain k)" | k where "p = Process (LoopHead k)"
    | k where "p = Process (LoopClose k)" | k where "p = Process (LoopCleanup k)" | k where "p = Process (DequeueClose k)"
    | k where "p = Process (DequeueSuspended k)" | k where "p = Process (DequeuePop k)"
    | k m where "p = Process (DequeueCount k m)" | k m where "p = Process (UserInvoke k m)" | "p = Close LoadClose"
    | s where "p = Close (ExchangeClose s)" | "p = Finalize CloseUser" | "p = Finalize WaitUser" | "p = Finalize PopSystem"
    | "p = Finalize CountSystemPopped" | "p = Finalize PopUser" | "p = Finalize CountUserPopped" | "p = Finalize CleanClose"
    | "p = Finalize CleanWait" | "p = Finalize CleanPop" | "p = Finalize CleanCount" | "p = Finalize LoadCleanup"
    | s where "p = Finalize (ExchangeCleanup s)" | b q where "p = Adjust b q" | b s q where "p = AdjustExchange b s q"
proof (cases p)
  case (Enqueue q) then show ?thesis using that by (cases q) metis+
next
  case (EnqueueSystem q) then show ?thesis using that by (cases q) metis+
next
  case (Schedule q) then show ?thesis using that by (cases q) metis+
next
  case (Run q) then show ?thesis using that by (cases q) metis+
next
  case (Drain q) then show ?thesis using that by (cases q) metis+
next
  case (Process q) then show ?thesis using that by (cases q) metis+
next
  case (Close q) then show ?thesis using that by (cases q) metis+
next
  case (Finalize q) then show ?thesis using that by (cases q) metis+
qed (use that in metis)+

lemma tokens_step:
  assumes "tokens_ok (with_thread r p) mb"
  shows "case thread_step t c p mb of (p', mb') \<Rightarrow> tokens_ok (with_thread r p') mb'"
  using assms
  by (cases p rule: point_cases; cases "scheduled (mb_state mb)"; cases "running (mb_state mb)";
      simp add: tokens_ok_def step_defs split: step_splits; clarsimp?; auto?)

lemma closing_step:
  assumes "tokens_ok (with_thread r p) mb" "closing_ok (with_thread r p) mb" "r handles_messages \<le> r runs"
  shows "case thread_step t c p mb of (p', mb') \<Rightarrow> closing_ok (with_thread r p') mb'"
  using assms
  by (cases p rule: point_cases; cases "running (mb_state mb)"; cases "cleaned (mb_state mb)"; cases "finalizing (mb_state mb)";
      simp add: closing_ok_def step_defs tokens_ok_def split: step_splits; clarsimp?; auto?)

lemma word_of_nat_zero: "k < 2 ^ 64 \<Longrightarrow> (of_nat k :: u64) = 0 \<longleftrightarrow> k = 0"
  by (auto simp: word_of_nat_eq_0_iff dest: dvd_imp_le)

lemma protocol_step:
  assumes "protocol_ok (with_thread r p) mb" "closing_ok (with_thread r p) mb" "r in_flight + 1 < 2 ^ 64" "r will_push \<le> r in_flight"
    "r has_emptied \<le> r has_waited" "r has_waited \<le> r has_closed"
  shows "case thread_step t c p mb of (p', mb') \<Rightarrow> protocol_ok (with_thread r p') mb'"
  using assms
  by (cases p rule: point_cases; cases "cleaned (mb_state mb)";
      simp add: protocol_ok_def step_defs closing_ok_def word_of_nat_zero split: step_splits; clarsimp?; auto?)

lemma queues_step:
  assumes "queues_ok mb" "protocol_ok (with_thread r p) mb"
  shows "case thread_step t c p mb of (p', mb') \<Rightarrow> queues_ok mb'"
  using assms
  by (cases p rule: point_cases;
      simp add: queues_ok_def step_defs protocol_ok_def split: step_splits; clarsimp?; auto?)

lemma delivered_step:
  assumes "delivered_ok mb" "closing_ok (with_thread r p) mb"
  shows "case thread_step t c p mb of (p', mb') \<Rightarrow> delivered_ok mb'"
  using assms
  by (cases p rule: point_cases; cases "finalizing (mb_state mb)";
      simp add: delivered_ok_def step_defs closing_ok_def split: step_splits; clarsimp?; auto?)

lemma lengths_step:
  assumes "lengths_ok (with_thread r p) mb"
  shows "case thread_step t c p mb of (p', mb') \<Rightarrow> lengths_ok (with_thread r p') mb'"
  using assms
  by (cases p rule: point_cases;
      simp add: lengths_ok_def step_defs algebra_simps split: step_splits; clarsimp?; auto?)

lemma suspend_bound: "unat (suspensions (update_suspend_count suspend_count s)) \<le> unat (suspensions s) + 1"
  using suspensions_suspend [of s] suspensions_bound [of "update_suspend_count suspend_count s"] suspensions_bound [of s]
  by (cases "unat (suspensions s) + 1 < 2 ^ 27") auto

lemma suspends_step:
  assumes "suspends_ok (with_thread r p) mb"
  shows "case thread_step t c p mb of (p', mb') \<Rightarrow> suspends_ok (with_thread r p') mb'"
  using assms suspend_bound [of "mb_state mb"]
  by (cases p rule: point_cases;
      simp add: suspends_ok_def step_defs suspensions_resume split: step_splits; clarsimp?; auto?)

text \<open>The length counters show a message unless its sender has not yet counted it.\<close>

lemma user_length_zero:
  assumes "lengths_ok (with_thread r p) mb" "\<not> counted_user p" "length (mb_user mb) + r counted_user < 2 ^ 64" "mb_user_len mb = 0"
  shows "mb_user mb = []"
  using assms word_of_nat_zero [OF assms(3)] by (simp add: lengths_ok_def with_thread_def)

lemma system_length_zero:
  assumes "lengths_ok (with_thread r p) mb" "\<not> counted_system p" "\<not> uncounted_system p"
    "length (mb_system mb) + r counted_system < 2 ^ 64" "mb_system_len mb = 0" "mb_system mb \<noteq> []"
  shows "r uncounted_system > 0"
proof (rule ccontr)
  assume "\<not> r uncounted_system > 0"
  then show False using assms word_of_nat_zero [OF assms(4)] by (simp add: lengths_ok_def with_thread_def)
qed

lemma wakeup_step:
  assumes "wakeup_ok (with_thread r p) mb" "tokens_ok (with_thread r p) mb" "lengths_ok (with_thread r p) mb"
    "suspends_ok (with_thread r p) mb" "length (mb_user mb) + r counted_user < 2 ^ 64"
    "length (mb_system mb) + r counted_system < 2 ^ 64" "mb_suspends mb + 1 < 2 ^ 27" "r uncounted_system \<le> r wakes_system"
  shows "case thread_step t c p mb of (p', mb') \<Rightarrow> wakeup_ok (with_thread r p') mb'"
proof -
  have "\<not> counted_user p \<longrightarrow> \<not> 0 < mb_user_len mb \<longrightarrow> mb_user mb = []"
    using user_length_zero [OF assms(3) _ assms(5)] by (auto simp: word_neq_0_conv [symmetric])
  moreover have "\<not> counted_system p \<and> \<not> uncounted_system p \<and> \<not> 0 < mb_system_len mb \<longrightarrow> mb_system mb = [] \<or> r wakes_system > 0"
    using system_length_zero [OF assms(3) _ _ assms(6)] assms(8) by (fastforce simp: word_neq_0_conv [symmetric])
  moreover have "suspensions (update_suspend_count suspend_count (mb_state mb)) \<noteq> 0"
    using suspensions_suspend [of "mb_state mb"] assms(4,7) by (auto simp: suspends_ok_def)
  ultimately show ?thesis using assms(1,2,4)
    by (cases p rule: point_cases; cases "scheduled (mb_state mb)"; cases "running (mb_state mb)";
        simp add: wakeup_ok_def step_defs tokens_ok_def suspends_ok_def user_hints_def system_hints_def both_hints_def
        split: step_splits; clarsimp?; auto)
qed

end
