(* ===== verification/Mailbox_Delivery.thy ===== *)
theory Mailbox_Delivery
  imports Mailbox_Invariants
begin

text \<open>
  What the mailbox guarantees under every interleaving of its threads, drawn from the invariants of
  \<open>Mailbox_Invariants\<close>.
\<close>

section \<open>Every run keeps the invariants\<close>

text \<open>
  Fewer threads and messages than a 64-bit counter can count, and fewer suspensions than the 27 bits
  of the packed counter hold.
\<close>

definition within_counters :: "nat \<Rightarrow> 'm mailbox \<Rightarrow> bool" where
  "within_counters n mb \<longleftrightarrow> length (mb_sent_user mb) + n < 2 ^ 64 \<and> length (mb_sent_system mb) + n < 2 ^ 64
     \<and> mb_suspends mb + 1 < 2 ^ 27"

definition mailbox_inv :: "'m pc list \<Rightarrow> 'm mailbox \<Rightarrow> bool" where
  "mailbox_inv ps mb \<longleftrightarrow>
     tokens_ok (threads_at ps) mb \<and> closing_ok (threads_at ps) mb \<and> protocol_ok (threads_at ps) mb
     \<and> queues_ok mb \<and> delivered_ok mb \<and> lengths_ok (threads_at ps) mb \<and> suspends_ok (threads_at ps) mb
     \<and> (within_counters (length ps) mb \<longrightarrow> wakeup_ok (threads_at ps) mb)"

lemma sent_grows:
  "case thread_step t c p mb of (p', mb') \<Rightarrow> length (mb_sent_user mb) \<le> length (mb_sent_user mb')
     \<and> length (mb_sent_system mb) \<le> length (mb_sent_system mb') \<and> mb_suspends mb \<le> mb_suspends mb'"
  by (cases p rule: point_cases) (simp_all add: step_defs split: step_splits)

lemma point_orders:
  "handles_messages p \<Longrightarrow> runs p" "will_push p \<Longrightarrow> in_flight p" "has_emptied p \<Longrightarrow> has_waited p" "has_waited p \<Longrightarrow> has_closed p"
  "uncounted_system p \<Longrightarrow> wakes_system p"
proof -
  show "handles_messages p \<Longrightarrow> runs p" by (cases p rule: handles_messages.cases) simp_all
  show "will_push p \<Longrightarrow> in_flight p" by (cases p rule: will_push.cases) simp_all
  show "has_emptied p \<Longrightarrow> has_waited p" by (cases p rule: has_emptied.cases) simp_all
  show "has_waited p \<Longrightarrow> has_closed p" by (cases p rule: has_waited.cases) simp_all
  show "uncounted_system p \<Longrightarrow> wakes_system p" by (cases p rule: uncounted_system.cases) simp_all
qed

lemma mailbox_inv_step:
  assumes "mailbox_inv ps mb" "i < length ps" "length ps < 2 ^ 64" "thread_step t c (ps ! i) mb = (p', mb')"
  shows "mailbox_inv (ps[i := p']) mb'"
proof -
  let ?r = "other_threads ps i" and ?p = "ps ! i"
  have n: "threads_at ps = with_thread ?r ?p" "threads_at (ps[i := p']) = with_thread ?r p'"
    using threads_at_other [OF assms(2)] by simp_all
  have less: "?r P + 1 \<le> length ps" for P using other_threads_less [OF assms(2), of P] by simp
  have small: "?r in_flight + 1 < 2 ^ 64" using less [of in_flight] assms(3) by linarith
  have mono: "?r handles_messages \<le> ?r runs" "?r will_push \<le> ?r in_flight" "?r has_emptied \<le> ?r has_waited"
    "?r has_waited \<le> ?r has_closed" "?r uncounted_system \<le> ?r wakes_system"
    by (intro other_threads_mono, erule point_orders)+
  have inv: "tokens_ok (with_thread ?r ?p) mb" "closing_ok (with_thread ?r ?p) mb" "protocol_ok (with_thread ?r ?p) mb"
    "queues_ok mb" "lengths_ok (with_thread ?r ?p) mb" "suspends_ok (with_thread ?r ?p) mb" "delivered_ok mb"
    "within_counters (length ps) mb \<longrightarrow> wakeup_ok (with_thread ?r ?p) mb"
    using assms(1) by (simp_all add: mailbox_inv_def n)
  have kept: "tokens_ok (with_thread ?r p') mb'" "closing_ok (with_thread ?r p') mb'" "protocol_ok (with_thread ?r p') mb'"
    "queues_ok mb'" "lengths_ok (with_thread ?r p') mb'" "suspends_ok (with_thread ?r p') mb'" "delivered_ok mb'"
    using tokens_step [OF inv(1), of t c] closing_step [OF inv(1,2) mono(1), of t c]
      protocol_step [OF inv(3,2) small mono(2,3,4), of t c] queues_step [OF inv(4,3), of t c]
      lengths_step [OF inv(5), of t c] suspends_step [OF inv(6), of t c] delivered_step [OF inv(7,2), of t c]
    by (simp_all add: assms(4))
  have "wakeup_ok (with_thread ?r p') mb'" if c: "within_counters (length ps) mb'"
  proof -
    from c sent_grows [where t = t and c = c and p = "?p" and mb = mb]
    have b: "within_counters (length ps) mb" by (simp add: assms(4) within_counters_def)
    have q: "length (mb_user mb) \<le> length (mb_sent_user mb)" "length (mb_system mb) \<le> length (mb_sent_system mb)"
      using inv(4) by (simp_all add: queues_ok_def)
    have "length (mb_user mb) + ?r counted_user < 2 ^ 64" "length (mb_system mb) + ?r counted_system < 2 ^ 64"
      "mb_suspends mb + 1 < 2 ^ 27"
      using b q less [of counted_user] less [of counted_system] by (simp_all add: within_counters_def)
    with wakeup_step [of ?r ?p mb t c] inv b mono(5) show ?thesis by (simp add: assms(4))
  qed
  with kept n(2) show ?thesis by (simp add: mailbox_inv_def)
qed

interpretation mailbox_pool: thread_pool "thread_step t" mailbox_inv "2 ^ 64"
  by unfold_locales (rule mailbox_inv_step)

lemma mailbox_inv_start: "mailbox_inv (replicate n Idle) mailbox_new"
proof -
  have none: "threads_at (replicate n Idle) P = 0" if "\<not> P Idle" for P :: "'a pc \<Rightarrow> bool"
    using that by (simp add: threads_at_def)
  have "suspensions 0 = 0" "\<not> scheduled 0" "\<not> running 0" "\<not> closing 0" "\<not> finalizing 0" "\<not> cleaned 0"
    by (simp_all add: view_defs)
  then show ?thesis
    by (simp add: mailbox_inv_def mailbox_new_def tokens_ok_def closing_ok_def protocol_ok_def queues_ok_def
        delivered_ok_def lengths_ok_def suspends_ok_def wakeup_ok_def none)
qed

lemma mailbox_reachable:
  assumes "n < 2 ^ 64" "mailbox_run t as (mailbox_start n) = (ps, mb)"
  shows "mailbox_inv ps mb \<and> length ps = n"
  using mailbox_pool.run_inv [OF mailbox_inv_start [of n], of t as] assms by (simp add: mailbox_run_def mailbox_start_def)

section \<open>Properties\<close>

fun takes_message :: "'m pc \<Rightarrow> bool" where
  "takes_message (Drain (SystemPop _ _)) = True"
| "takes_message (Process (DequeuePop _)) = True"
| "takes_message (Finalize PopSystem) = True"
| "takes_message (Finalize PopUser) = True"
| "takes_message (Finalize CleanPop) = True"
| "takes_message _ = False"

fun invokes_actor :: "'m pc \<Rightarrow> bool" where
  "invokes_actor (Drain (SystemInvoke _ _ _)) = True"
| "invokes_actor (Process (UserInvoke _ _)) = True"
| "invokes_actor _ = False"

definition quiescent :: "'m pc list \<times> 'm mailbox \<Rightarrow> bool" where
  "quiescent w \<longleftrightarrow> list_all (\<lambda>p. p = Idle) (fst w) \<and> mb_tasks (snd w) = 0"

lemma takes_message_cases: "takes_message p \<Longrightarrow> handles_messages p \<or> finalizes p"
  by (cases p rule: takes_message.cases) simp_all

lemma invokes_actor_handles: "invokes_actor p \<Longrightarrow> handles_messages p"
  by (cases p rule: invokes_actor.cases) simp_all

lemma handlers_alone:
  assumes "mailbox_inv ps mb"
  shows "threads_at ps (\<lambda>p. handles_messages p \<or> finalizes p) \<le> 1" "threads_at ps handles_messages \<le> 1"
    "cleaned (mb_state mb) \<Longrightarrow> threads_at ps (\<lambda>p. handles_messages p \<or> finalizes p) = 0"
proof -
  have inv: "tokens_ok (threads_at ps) mb" "closing_ok (threads_at ps) mb" using assms by (simp_all add: mailbox_inv_def)
  have "threads_at ps runs \<le> 1" using inv(1) by (cases "running (mb_state mb)") (simp_all add: tokens_ok_def)
  then show one: "threads_at ps handles_messages \<le> 1"
    using threads_at_mono [of handles_messages runs ps] point_orders(1) by fastforce
  have "threads_at ps handles_messages + threads_at ps finalizes \<le> 1"
    using inv(2) one by (cases "finalizing (mb_state mb)"; cases "cleaned (mb_state mb)") (simp_all add: closing_ok_def)
  then show "threads_at ps (\<lambda>p. handles_messages p \<or> finalizes p) \<le> 1"
    using threads_at_disj [of ps handles_messages finalizes] by linarith
  show "threads_at ps (\<lambda>p. handles_messages p \<or> finalizes p) = 0" if "cleaned (mb_state mb)"
    using that inv(2) threads_at_disj [of ps handles_messages finalizes] by (auto simp: closing_ok_def)
qed

lemma all_delivered: "list_all snd xs \<Longrightarrow> map ((\<lambda>m. (m, True)) \<circ> fst) xs = xs"
  by (induction xs) auto

lemma idle_threads: "list_all (\<lambda>p. p = Idle) ps \<Longrightarrow> \<not> P Idle \<Longrightarrow> threads_at ps P = 0"
  by (rule threads_at_none) (auto simp: list_all_iff)

text \<open>A close while a message waits and another sender is on its way.\<close>

definition steps :: "nat \<Rightarrow> nat \<Rightarrow> (nat \<times> nat choice) list" where
  "steps i k = replicate k (i, Proceed)"

definition closing_schedule :: "(nat \<times> nat choice) list" where
  "closing_schedule = [(0, SendUser 1)] @ steps 0 11 @ [(0, SendUser 2)] @ steps 0 3 @ [(1, RequestClose)] @ steps 1 6 @ steps 0 20
     @ steps 1 60 @ [(0, SendUser 3)] @ steps 0 9 @ [(1, TakeTask)] @ steps 1 3"

lemma closing_schedule_result:
  "(let w = mailbox_run 4 closing_schedule (mailbox_start 2); mb = snd w in
     quiescent w \<and> is_close_requested (mb_state mb) \<and> cleaned (mb_state mb) \<and> mb_sent_user mb = [1, 2])"
  by code_simp

text \<open>
  Claim C4. An actor is never run by two threads at a time. In every interleaving, at most one thread
  is at a point where it takes a message out of the mailbox, whether to process it or to clean up,
  at most one is inside the actor, the clean-up happens at most once, and once it is done no thread
  takes a message or is inside the actor.
\<close>

theorem mailbox_single_consumer:
  assumes "n < 2 ^ 64" "mailbox_run t as (mailbox_start n) = (ps, mb)"
  shows "length (filter takes_message ps) \<le> 1 \<and> length (filter invokes_actor ps) \<le> 1 \<and> mb_cleanups mb \<le> 1
    \<and> (cleaned (mb_state mb) \<longrightarrow> list_all (\<lambda>p. \<not> takes_message p \<and> \<not> invokes_actor p) ps)"
proof -
  have inv: "mailbox_inv ps mb" using mailbox_reachable [OF assms] by simp
  let ?h = "\<lambda>p. handles_messages p \<or> finalizes p"
  have t: "threads_at ps takes_message \<le> threads_at ps ?h" and i: "threads_at ps invokes_actor \<le> threads_at ps handles_messages"
    using takes_message_cases invokes_actor_handles by (blast intro: threads_at_mono)+
  have "mb_cleanups mb \<le> 1" using inv by (cases "cleaned (mb_state mb)") (simp_all add: mailbox_inv_def closing_ok_def)
  moreover have "\<not> takes_message p \<and> \<not> invokes_actor p" if "cleaned (mb_state mb)" "p \<in> set ps" for p
    using handlers_alone(3) [OF inv that(1)] that(2) takes_message_cases [of p] invokes_actor_handles [of p]
    by (auto simp: threads_at_def filter_empty_conv)
  ultimately show ?thesis
    using t i handlers_alone(1,2) [OF inv] by (auto simp: threads_at_def list_all_iff intro: le_trans)
qed

theorem mailbox_single_consumer_witness:
  "\<exists>ps mb. mailbox_run 4 closing_schedule (mailbox_start 2) = (ps, mb) \<and> cleaned (mb_state mb) \<and> length (filter takes_message ps) \<le> 1
     \<and> length (filter invokes_actor ps) \<le> 1 \<and> mb_cleanups mb \<le> 1 \<and> list_all (\<lambda>p. \<not> takes_message p \<and> \<not> invokes_actor p) ps"
proof -
  obtain ps mb where w: "mailbox_run 4 closing_schedule (mailbox_start 2) = (ps, mb)" by fastforce
  moreover have "cleaned (mb_state mb)" using closing_schedule_result w by (simp add: Let_def)
  ultimately show ?thesis using mailbox_single_consumer [OF _ w] by simp
qed

text \<open>
  Claim C5. No wake-up is lost, provided the executor has never refused a task of the mailbox. Whenever
  every thread is idle and the executor has no task left, an open mailbox whose actor is alive has
  handed every message it accepted to the actor, in the order of acceptance, unless it is suspended, in
  which case only user messages wait. After a refused task the flag is rolled back and the message waits
  for the next registration, which is outside this statement. The property holds although
  the reschedule flag may be set after a run has looked at it, and although the length counters lag
  behind the queues.
\<close>

theorem mailbox_no_lost_wakeup:
  assumes "n < 2 ^ 64" "mailbox_run t as (mailbox_start n) = (ps, mb)" "quiescent (ps, mb)" "within_counters n mb"
    and "mb_actor_alive mb" "\<not> is_close_requested (mb_state mb)" "\<not> mb_refused mb"
  shows "mb_system mb = [] \<and> mb_out_system mb = map (\<lambda>m. (m, True)) (mb_sent_system mb)
    \<and> (\<not> is_suspended (mb_state mb) \<longrightarrow> mb_user mb = [] \<and> mb_out_user mb = map (\<lambda>m. (m, True)) (mb_sent_user mb))"
proof -
  have inv: "mailbox_inv ps mb" and n: "length ps = n" using mailbox_reachable [OF assms(1,2)] by auto
  have none: "threads_at ps P = 0" if "\<not> P Idle" for P
    using assms(3) that idle_threads [of ps P] by (simp add: quiescent_def)
  have "\<not> running (mb_state mb)" "\<not> finalizing (mb_state mb)" "\<not> cleaned (mb_state mb)"
    using inv assms(3,6) by (auto simp: mailbox_inv_def tokens_ok_def closing_ok_def none)
  moreover from this have "\<not> scheduled (mb_state mb)"
    using inv assms(3,5) by (auto simp: mailbox_inv_def tokens_ok_def none quiescent_def)
  moreover have "wakeup_ok (threads_at ps) mb" "queues_ok mb" "delivered_ok mb" using inv assms(4) n by (simp_all add: mailbox_inv_def)
  ultimately show ?thesis using assms(5-7) by (auto simp: wakeup_ok_def queues_ok_def delivered_ok_def none all_delivered)
qed

definition complete_schedule :: "(nat \<times> nat choice) list" where
  "complete_schedule = [(0, SendUser 1)] @ steps 0 11 @ [(1, TakeTask)] @ steps 1 5 @ [(0, SendUser 2)] @ steps 0 11 @ steps 1 60
     @ [(1, TakeTask)] @ steps 1 30"

lemma complete_schedule_result:
  "(let w = mailbox_run 4 complete_schedule (mailbox_start 2); mb = snd w in
     quiescent w \<and> length (mb_sent_user mb) + 2 < 8 \<and> length (mb_sent_system mb) + 2 < 8 \<and> mb_suspends mb + 1 < 8
     \<and> mb_actor_alive mb \<and> \<not> is_close_requested (mb_state mb) \<and> \<not> mb_refused mb \<and> \<not> is_suspended (mb_state mb)
     \<and> mb_sent_user mb = [1, 2])"
  by code_simp

theorem mailbox_no_lost_wakeup_witness:
  "\<exists>ps mb. mailbox_run 4 complete_schedule (mailbox_start 2) = (ps, mb) \<and> quiescent (ps, mb) \<and> mb_system mb = [] \<and> mb_user mb = []
     \<and> mb_sent_user mb = [1, 2] \<and> mb_out_user mb = map (\<lambda>m. (m, True)) (mb_sent_user mb)"
proof -
  obtain ps mb where w: "mailbox_run 4 complete_schedule (mailbox_start 2) = (ps, mb)" by fastforce
  then have "quiescent (ps, mb)" "within_counters 2 mb" "mb_actor_alive mb" "\<not> is_close_requested (mb_state mb)" "\<not> mb_refused mb"
    "\<not> is_suspended (mb_state mb)" "mb_sent_user mb = [1, 2]"
    using complete_schedule_result by (simp_all add: Let_def within_counters_def)
  with mailbox_no_lost_wakeup [OF _ w] w show ?thesis by simp
qed

text \<open>
  Claim C16. Every message the mailbox accepts leaves it at most once and in order, to the actor or to
  the dead letters, and none is dropped on the way. When a close was requested and every thread is
  idle, the clean-up is complete and every accepted user message has left: a sender that entered the
  queue before it was closed is waited for, and one that comes later is refused.
\<close>

theorem mailbox_messages_once:
  assumes "n < 2 ^ 64" "mailbox_run t as (mailbox_start n) = (ps, mb)"
  shows "mb_sent_user mb = map fst (mb_out_user mb) @ mb_user mb \<and> mb_dropped mb = []
    \<and> mb_sent_system mb = map fst (mb_out_system mb) @ mb_system mb
    \<and> (quiescent (ps, mb) \<and> is_close_requested (mb_state mb) \<longrightarrow>
        is_cleanup_done (mb_state mb) \<and> mb_cleanups mb = 1 \<and> mb_sent_user mb = map fst (mb_out_user mb))"
proof -
  have inv: "mailbox_inv ps mb" using mailbox_reachable [OF assms] by simp
  then have "queues_ok mb" "mb_dropped mb = []" by (simp_all add: mailbox_inv_def protocol_ok_def)
  moreover have "cleaned (mb_state mb) \<and> mb_cleanups mb = 1 \<and> mb_user mb = []"
    if "quiescent (ps, mb)" "closing (mb_state mb)"
  proof -
    have none: "threads_at ps P = 0" if "\<not> P Idle" for P
      using \<open>quiescent (ps, mb)\<close> that idle_threads [of ps P] by (simp add: quiescent_def)
    from inv have "\<not> running (mb_state mb)" by (auto simp: mailbox_inv_def tokens_ok_def none)
    with that inv have "cleaned (mb_state mb)" by (auto simp: mailbox_inv_def closing_ok_def none)
    with inv show ?thesis by (auto simp: mailbox_inv_def closing_ok_def protocol_ok_def)
  qed
  ultimately show ?thesis by (auto simp: queues_ok_def)
qed

theorem mailbox_messages_once_witness:
  "\<exists>ps mb. mailbox_run 4 closing_schedule (mailbox_start 2) = (ps, mb) \<and> mb_dropped mb = [] \<and> is_cleanup_done (mb_state mb)
     \<and> mb_cleanups mb = 1 \<and> mb_sent_user mb = [1, 2] \<and> map fst (mb_out_user mb) = [1, 2]"
proof -
  obtain ps mb where w: "mailbox_run 4 closing_schedule (mailbox_start 2) = (ps, mb)" by fastforce
  then have "quiescent (ps, mb)" "is_close_requested (mb_state mb)" "mb_sent_user mb = [1, 2]"
    using closing_schedule_result by (simp_all add: Let_def)
  with mailbox_messages_once [OF _ w] w show ?thesis by auto
qed

section \<open>Where the mailbox does not do what it means to\<close>

lemma rescheduled_word:
  assumes "scheduled s" "\<not> running s"
  shows "set_idle_attempt (set_running_attempt s) OR FLAG_SCHEDULED = s"
proof (rule bit_eqI)
  fix n
  show "bit (set_idle_attempt (set_running_attempt s) OR FLAG_SCHEDULED) n = bit s n"
    using assms by (cases "n = 0 \<or> n = 1") (auto simp: set_idle_attempt_def set_running_attempt_def view_bits dest: bit_imp_le_length)
qed

text \<open>One task, run by one thread from its removal from the executor to its end.\<close>

definition one_task :: "'m choice list" where
  "one_task = TakeTask # replicate 16 Proceed"

definition solo :: "nat \<Rightarrow> 'm choice list \<Rightarrow> 'm pc \<times> 'm mailbox \<Rightarrow> 'm pc \<times> 'm mailbox" where
  "solo t cs w = fold (\<lambda>c (p, mb). thread_step t c p mb) cs w"

lemma solo_simps [simp]: "solo t [] w = w" "solo t (c # cs) (p, mb) = solo t cs (thread_step t c p mb)"
  by (simp_all add: solo_def)

lemma solo_append: "solo t (cs @ ds) w = solo t ds (solo t cs w)"
  by (simp add: solo_def)

lemma solo_begin:
  assumes "mb_tasks mb > 0" "\<not> closing (mb_state mb)" "\<not> cleaned (mb_state mb)" "mb_actor_alive mb"
  shows "solo t [TakeTask, Proceed, Proceed, Proceed, Proceed, Proceed] (Idle, mb) =
    (Drain (SystemCheck True t), mb\<lparr>mb_tasks := mb_tasks mb - 1, mb_state := set_running_attempt (mb_state mb)\<rparr>)"
  using assms by (simp add: idle_step_def)

lemma solo_nothing:
  assumes "\<not> closing (mb_state mb)" "suspensions (mb_state mb) \<noteq> 0" "mb_system mb = []"
  shows "solo t [Proceed, Proceed, Proceed] (Drain (SystemCheck True k), mb) = (Run LoadFinish, mb)"
  using assms by (simp add: drained_def)

lemma solo_finish:
  assumes "\<not> closing (mb_state mb)" "\<not> cleaned (mb_state mb)" "mb_user_len mb > 0"
  shows "solo t [Proceed, Proceed, Proceed, Proceed] (Run LoadFinish, mb) =
    (Schedule (Gate both_hints), mb\<lparr>mb_state := set_idle_attempt (mb_state mb), mb_need_reschedule := False\<rparr>)"
  using assms by (simp add: finish_run_attempt_cases finish_run_outcome_def)

lemma solo_register:
  assumes "\<not> closing (mb_state mb)" "\<not> cleaned (mb_state mb)" "\<not> scheduled (mb_state mb)" "\<not> running (mb_state mb)"
  shows "solo t [Proceed, Proceed, Proceed, Proceed] (Schedule (Gate both_hints), mb) =
    (Idle, mb\<lparr>mb_state := mb_state mb OR FLAG_SCHEDULED, mb_tasks := mb_tasks mb + 1\<rparr>)"
  using assms by (simp add: schedule_refused_def both_hints_def request_schedule_attempt_def)

lemma suspended_task:
  assumes "mb_tasks mb > 0" "scheduled (mb_state mb)" "\<not> running (mb_state mb)" "suspensions (mb_state mb) \<noteq> 0"
    "\<not> closing (mb_state mb)" "\<not> cleaned (mb_state mb)" "mb_actor_alive mb" "mb_system mb = []" "mb_user_len mb > 0"
  shows "solo t one_task (Idle, mb) = (Idle, mb\<lparr>mb_need_reschedule := False\<rparr>)"
proof -
  have task: "one_task = [TakeTask, Proceed, Proceed, Proceed, Proceed, Proceed] @ [Proceed, Proceed, Proceed]
      @ [Proceed, Proceed, Proceed, Proceed] @ [Proceed, Proceed, Proceed, Proceed]" by (simp add: one_task_def numeral_eq_Suc)
  have "solo t one_task (Idle, mb) = (Idle, mb\<lparr>mb_tasks := mb_tasks mb - 1 + 1,
      mb_state := set_idle_attempt (set_running_attempt (mb_state mb)) OR FLAG_SCHEDULED, mb_need_reschedule := False\<rparr>)"
    using assms unfolding task solo_append by (simp add: solo_begin solo_nothing solo_finish solo_register del: solo_simps)
  then show ?thesis using assms(1) rescheduled_word [OF assms(2,3)] by simp
qed

lemma solo_run:
  assumes "i < length ps"
  shows "mailbox_run t (map (Pair i) cs) (ps[i := p], mb) =
    (let (p', mb') = solo t cs (p, mb) in (ps[i := p'], mb'))"
proof (induction cs arbitrary: p mb)
  case (Cons c cs)
  have "pool_step (thread_step t) (i, c) (ps[i := p], mb) = (case thread_step t c p mb of (p', mb') \<Rightarrow> (ps[i := p'], mb'))"
    using assms by (simp add: pool_step_def)
  with Cons show ?case by (auto simp: mailbox_run_def pool_run_def split: prod.split)
qed (simp add: mailbox_run_def pool_run_def)

text \<open>
  Claim C36. A suspended mailbox with a waiting user message keeps its executor busy for as long as it
  is suspended. Take any reachable state in which the threads are idle, the mailbox is open and
  suspended, its actor alive, a user message waits, no system message does, and the executor holds a
  task for the mailbox. The thread that runs the task finds nothing it may process, sees that the user
  queue is not empty, and registers the mailbox again with the hint that there are system messages,
  which passes the suspension check: however often the task is run, the state it leads to is the same,
  up to the cleared reschedule flag, with the next task submitted.
\<close>

theorem mailbox_suspended_spins:
  assumes "n < 2 ^ 64" "mailbox_run t as (mailbox_start n) = (ps, mb)" "within_counters n mb"
    and "list_all (\<lambda>p. p = Idle) ps" "i < n" "mb_tasks mb > 0" "is_suspended (mb_state mb)" "\<not> state_is_closed (mb_state mb)"
    and "mb_actor_alive mb" "mb_system mb = []" "mb_user mb \<noteq> []"
  shows "mailbox_run t (concat (replicate (Suc k) (map (Pair i) one_task))) (ps, mb) = (ps, mb\<lparr>mb_need_reschedule := False\<rparr>)"
proof -
  have inv: "mailbox_inv ps mb" and n: "length ps = n" using mailbox_reachable [OF assms(1,2)] by auto
  have none: "threads_at ps P = 0" if "\<not> P Idle" for P using assms(4) that by (rule idle_threads)
  have sched: "scheduled (mb_state mb)" "\<not> running (mb_state mb)"
    using inv assms(6) by (auto simp: mailbox_inv_def tokens_ok_def)
  have q: "queues_ok mb" using inv by (simp add: mailbox_inv_def)
  then have len: "0 < length (mb_user mb)" "length (mb_user mb) < 2 ^ 64"
    using assms(3,11) by (simp_all add: queues_ok_def within_counters_def)
  have "mb_user_len mb = of_nat (length (mb_user mb))" using inv by (simp add: mailbox_inv_def lengths_ok_def none)
  then have u: "mb_user_len mb > 0" using len word_of_nat_zero [of "length (mb_user mb)"] by (simp add: word_neq_0_conv [symmetric])
  have ps: "ps[i := Idle] = ps" using assms(4,5) n list_update_id [of ps i] by (simp add: list_all_length)
  have task: "mailbox_run t (map (Pair i) one_task) (ps, mb\<lparr>mb_need_reschedule := b\<rparr>) = (ps, mb\<lparr>mb_need_reschedule := False\<rparr>)" for b
    using solo_run [of i ps t one_task Idle "mb\<lparr>mb_need_reschedule := b\<rparr>"] suspended_task [of "mb\<lparr>mb_need_reschedule := b\<rparr>" t]
      ps assms n sched u by simp
  show ?thesis
  proof (induction k)
    case 0
    show ?case using task [of "mb_need_reschedule mb"] by simp
  next
    case (Suc k)
    have "replicate (Suc (Suc k)) x = replicate (Suc k) x @ [x]" for x :: "(nat \<times> 'a choice) list"
      by (metis replicate_Suc replicate_append_same)
    with Suc task [of False] show ?case
      by (simp add: mailbox_run_def pool_run_append del: replicate.simps)
  qed
qed

definition suspended_schedule :: "(nat \<times> nat choice) list" where
  "suspended_schedule = [(0, SuspendActor)] @ steps 0 2 @ [(0, SendUser 7)] @ steps 0 7 @ [(0, Attach)] @ steps 0 4"

lemma suspended_schedule_result:
  "(let (ps, mb) = mailbox_run 4 suspended_schedule (mailbox_start 1) in
     length (mb_sent_user mb) + 1 < 8 \<and> length (mb_sent_system mb) + 1 < 8 \<and> mb_suspends mb + 1 < 8
     \<and> list_all (\<lambda>p. p = Idle) ps \<and> mb_tasks mb > 0 \<and> is_suspended (mb_state mb) \<and> \<not> state_is_closed (mb_state mb)
     \<and> mb_actor_alive mb \<and> mb_system mb = [] \<and> mb_user mb = [7] \<and> \<not> mb_need_reschedule mb)"
  by code_simp

theorem mailbox_suspended_spins_witness:
  "\<exists>ps mb. mailbox_run 4 suspended_schedule (mailbox_start 1) = (ps, mb) \<and> mb_tasks mb > 0 \<and> mb_user mb = [7]
     \<and> mailbox_run 4 (concat (replicate 1000 (map (Pair 0) one_task))) (ps, mb) = (ps, mb)"
proof -
  obtain ps mb where w: "mailbox_run 4 suspended_schedule (mailbox_start 1) = (ps, mb)" by fastforce
  then have h: "within_counters 1 mb" "list_all (\<lambda>p. p = Idle) ps" "mb_tasks mb > 0" "is_suspended (mb_state mb)"
    "\<not> state_is_closed (mb_state mb)" "mb_actor_alive mb" "mb_system mb = []" "mb_user mb = [7]" "\<not> mb_need_reschedule mb"
    using suspended_schedule_result by (simp_all add: within_counters_def)
  have "mailbox_run 4 (concat (replicate (Suc 999) (map (Pair 0) one_task))) (ps, mb) = (ps, mb\<lparr>mb_need_reschedule := False\<rparr>)"
    by (rule mailbox_suspended_spins [OF _ w]) (use h in simp_all)
  with w h show ?thesis by auto
qed

lemma cleaned_step:
  assumes "cleaned (mb_state mb)" "\<not> handles_messages p" "\<not> finalizes p"
  shows "case thread_step t c p mb of (p', mb') \<Rightarrow> cleaned (mb_state mb') \<and> mb_out_system mb' = mb_out_system mb
    \<and> (\<exists>later. mb_sent_system mb' = mb_sent_system mb @ later \<and> mb_system mb' = mb_system mb @ later)"
  using assms by (cases p rule: point_cases) (simp_all add: step_defs split: step_splits)

lemma cleaned_run:
  assumes "mailbox_inv ps mb" "length ps < 2 ^ 64" "cleaned (mb_state mb)" "mailbox_run t bs (ps, mb) = (ps', mb')"
  shows "cleaned (mb_state mb') \<and> mb_out_system mb' = mb_out_system mb
    \<and> (\<exists>later. mb_sent_system mb' = mb_sent_system mb @ later \<and> mb_system mb' = mb_system mb @ later)"
  using assms
proof (induction bs arbitrary: ps mb)
  case (Cons b bs)
  obtain ps1 mb1 where w: "pool_step (thread_step t) b (ps, mb) = (ps1, mb1)" by fastforce
  have r: "mailbox_run t bs (ps1, mb1) = (ps', mb')" using Cons.prems(4) w by (simp add: mailbox_run_def pool_run_def)
  have i: "mailbox_inv ps1 mb1" "length ps1 < 2 ^ 64" using mailbox_pool.step_inv [OF Cons.prems(1,2) w] Cons.prems(2) by simp_all
  have "cleaned (mb_state mb1) \<and> mb_out_system mb1 = mb_out_system mb
      \<and> (\<exists>later. mb_sent_system mb1 = mb_sent_system mb @ later \<and> mb_system mb1 = mb_system mb @ later)"
  proof (cases "fst b < length ps")
    case True
    have "\<not> handles_messages (ps ! fst b)" "\<not> finalizes (ps ! fst b)"
      using handlers_alone(3) [OF Cons.prems(1,3)] True by (auto simp: threads_at_def filter_empty_conv)
    with cleaned_step [OF Cons.prems(3) this, of t "snd b"] w True show ?thesis by (auto simp: pool_step_def split_beta)
  next
    case False
    with w Cons.prems(3) show ?thesis by (auto simp: pool_step_def split_beta)
  qed
  with Cons.IH [OF i _ r] show ?case by auto
qed (simp add: mailbox_run_def pool_run_def)

text \<open>
  Claim C37. A system message that arrives after the clean-up is accepted and then stays in the queue
  of the closed mailbox. From any reachable state in which the clean-up is done, a thread that sends a
  system message still appends it to the queue, and whatever the threads do afterwards no system message
  leaves the queue any more, neither to the actor nor to the dead letters: everything sent stays.
\<close>

theorem mailbox_strands_system_messages:
  assumes "n < 2 ^ 64" "mailbox_run t as (mailbox_start n) = (ps, mb)" "is_cleanup_done (mb_state mb)"
    and "mailbox_run t bs (ps, mb) = (ps', mb')" and "i < n" "ps' ! i = Idle"
  shows "mb_out_system mb' = mb_out_system mb
    \<and> (\<exists>later. mb_sent_system mb' = mb_sent_system mb @ later \<and> mb_system mb' = mb_system mb @ later)
    \<and> mb_system (snd (mailbox_run t [(i, SendSystem m), (i, Proceed)] (ps', mb'))) = mb_system mb' @ [m]"
proof -
  have inv: "mailbox_inv ps mb" and n: "length ps = n" using mailbox_reachable [OF assms(1,2)] by auto
  have "cleaned (mb_state mb)" using assms(3) by simp
  note c = cleaned_run [OF inv _ this assms(4)]
  have "length ps' = n" using mailbox_pool.run_inv [OF inv _ assms(4) [unfolded mailbox_run_def]] n assms(1) by simp
  then have "mb_system (snd (mailbox_run t [(i, SendSystem m), (i, Proceed)] (ps', mb'))) = mb_system mb' @ [m]"
    using assms(5,6) by (simp add: mailbox_run_def pool_run_def pool_step_def idle_step_def)
  then show ?thesis using c n assms(1) by simp
qed

definition cleanup_schedule :: "(nat \<times> nat choice) list" where
  "cleanup_schedule = [(0, RequestClose)] @ steps 0 11"

lemma cleanup_schedule_result:
  "(let (ps, mb) = mailbox_run 4 cleanup_schedule (mailbox_start 1); (ps', mb') = mailbox_run 4 ([(0, SendSystem (Failure 5))] @ steps 0 5) (ps, mb) in
     is_cleanup_done (mb_state mb) \<and> mb_out_system mb = [] \<and> mb_sent_system mb = [] \<and> mb_system mb = [] \<and> ps' = [Idle]
     \<and> mb_sent_system mb' = [Failure 5])"
  by code_simp

theorem mailbox_strands_system_messages_witness:
  "\<exists>ps mb ps' mb'. mailbox_run 4 cleanup_schedule (mailbox_start 1) = (ps, mb)
     \<and> mailbox_run 4 ([(0, SendSystem (Failure 5))] @ steps 0 5) (ps, mb) = (ps', mb') \<and> is_cleanup_done (mb_state mb)
     \<and> mb_system mb' = [Failure 5] \<and> mb_out_system mb' = []"
proof -
  obtain ps mb where w: "mailbox_run 4 cleanup_schedule (mailbox_start 1) = (ps, mb)" by fastforce
  obtain ps' mb' where w': "mailbox_run 4 ([(0, SendSystem (Failure 5))] @ steps 0 5) (ps, mb) = (ps', mb')" by fastforce
  have h: "is_cleanup_done (mb_state mb)" "mb_out_system mb = []" "mb_sent_system mb = []" "mb_system mb = []" "ps' = [Idle]"
    "mb_sent_system mb' = [Failure 5]"
    using cleanup_schedule_result w w' by simp_all
  from mailbox_strands_system_messages [OF _ w h(1) w', of 0] w w' h show ?thesis by auto
qed

end
