(* ===== verification/Mpsc_Queue.thy ===== *)
theory Mpsc_Queue
  imports Fraktor_Prelude Interleaving
begin

text \<open>
  The lock-free queue of the default mailbox (\<open>LockFreeMpscQueue\<close> in
  \<open>actor-core-kernel/src/dispatch/mailbox/lock_free_mpsc_queue.rs\<close>): producers push nodes on a stack by
  compare-and-swap, the consumer takes the whole stack, reverses it in place and serves it, and a
  close waits for the producers that have entered. Nodes live on a heap with explicit addresses, so
  that freeing, reuse of addresses and dangling pointers are part of the model. A step of a thread
  is one access to a shared variable, or one access to nodes that the thread owns; memory is
  sequentially consistent. Touching an address that is not allocated is recorded as a fault.
\<close>

section \<open>Shared state\<close>

type_synonym ptr = "nat option"

record 'm node =
  nd_message :: 'm
  nd_next :: ptr

record 'm mpsc =
  q_heap :: "nat \<Rightarrow> 'm node option"
  q_head :: ptr
  q_pending :: ptr
  q_len :: u64
  q_in_flight :: u64
  q_closed :: bool
  q_consumer_active :: bool
  \<comment> \<open>history: messages in the order of their publication and of their removal, whether a close has
    returned, whether the queue answered that it is empty when it was not, and memory faults\<close>
  q_pushed :: "'m list"
  q_popped :: "'m list"
  q_close_returned :: bool
  q_false_empty :: bool
  q_fault :: bool

definition mpsc_new :: "'m mpsc" where
  "mpsc_new = \<lparr>q_heap = (\<lambda>_. None), q_head = None, q_pending = None, q_len = 0, q_in_flight = 0, q_closed = False,
     q_consumer_active = False, q_pushed = [], q_popped = [], q_close_returned = False, q_false_empty = False, q_fault = False\<rparr>"

section \<open>Where a thread is\<close>

text \<open>The flag of the consumer points tells whether they belong to \<open>close_and_drain\<close>.\<close>

datatype 'm queue_pc =
  QueueIdle
| EnterPush 'm | TestPush 'm | RefusePush | AllocPush 'm | CountPush nat | LoadPush nat | LinkPush nat ptr | SwingPush nat ptr | ExitPush
| EnterPop bool | LoadPending bool | TakeNode bool nat | StoreNext bool ptr | CountPop bool
| SwapHead bool | Reverse bool ptr ptr | StorePending bool ptr | ReloadPending bool | ExitPop
| CloseQueue bool | WaitQueue bool

text \<open>The call of an idle thread, and the address that the allocator returns.\<close>

datatype 'm queue_choice = CallPush 'm | CallPop | CallClose | CallCloseAndDrain | Allocate nat | Go

section \<open>Steps\<close>

definition fault :: "'m mpsc \<Rightarrow> 'm mpsc" where
  "fault q = q\<lparr>q_fault := True\<rparr>"

fun push_step :: "'m queue_choice \<Rightarrow> 'm queue_pc \<Rightarrow> 'm mpsc \<Rightarrow> 'm queue_pc \<times> 'm mpsc" where
  "push_step c (EnterPush m) q = (TestPush m, q\<lparr>q_in_flight := q_in_flight q + 1\<rparr>)"
| "push_step c (TestPush m) q = (if q_closed q then RefusePush else AllocPush m, q)"
| "push_step c RefusePush q = (QueueIdle, q\<lparr>q_in_flight := q_in_flight q - 1\<rparr>)"
| "push_step c (AllocPush m) q =
     (case c of
        Allocate a \<Rightarrow>
          if q_heap q a = None
          then (CountPush a, q\<lparr>q_heap := (q_heap q)(a := Some \<lparr>nd_message = m, nd_next = None\<rparr>)\<rparr>)
          else (AllocPush m, q)
      | _ \<Rightarrow> (AllocPush m, q))"
| "push_step c (CountPush a) q = (LoadPush a, q\<lparr>q_len := q_len q + 1\<rparr>)"
| "push_step c (LoadPush a) q = (LinkPush a (q_head q), q)"
| "push_step c (LinkPush a current_head) q =
     (SwingPush a current_head,
      case q_heap q a of
        None \<Rightarrow> fault q
      | Some n \<Rightarrow> q\<lparr>q_heap := (q_heap q)(a := Some (n\<lparr>nd_next := current_head\<rparr>))\<rparr>)"
| "push_step c (SwingPush a current_head) q =
     (if current_head = q_head q
      then (ExitPush, q\<lparr>q_head := Some a, q_pushed := q_pushed q @ [nd_message (the (q_heap q a))]\<rparr>)
      else (LoadPush a, q))"
| "push_step c ExitPush q = (QueueIdle, q\<lparr>q_in_flight := q_in_flight q - 1\<rparr>)"
| "push_step c p q = (p, q)"

fun pop_step :: "'m queue_pc \<Rightarrow> 'm mpsc \<Rightarrow> 'm queue_pc \<times> 'm mpsc" where
  "pop_step (EnterPop d) q =
     (if q_consumer_active q then (EnterPop d, q) else (LoadPending d, q\<lparr>q_consumer_active := True\<rparr>))"
| "pop_step (LoadPending d) q = (case q_pending q of Some a \<Rightarrow> TakeNode d a | None \<Rightarrow> SwapHead d, q)"
| "pop_step (TakeNode d a) q =
     (case q_heap q a of
        None \<Rightarrow> (ExitPop, fault q)
      | Some n \<Rightarrow> (StoreNext d (nd_next n), q\<lparr>q_heap := (q_heap q)(a := None), q_popped := q_popped q @ [nd_message n]\<rparr>))"
| "pop_step (StoreNext d nxt) q = (CountPop d, q\<lparr>q_pending := nxt\<rparr>)"
| "pop_step (CountPop d) q = (if d then LoadPending d else ExitPop, q\<lparr>q_len := q_len q - 1\<rparr>)"
| "pop_step (SwapHead d) q =
     (case q_head q of
        None \<Rightarrow> (ExitPop, q\<lparr>q_head := None, q_false_empty := q_false_empty q \<or> q_popped q \<noteq> q_pushed q\<rparr>)
      | Some a \<Rightarrow> (Reverse d None (Some a), q\<lparr>q_head := None\<rparr>))"
| "pop_step (Reverse d prev head) q =
     (case head of
        None \<Rightarrow> (StorePending d prev, q)
      | Some a \<Rightarrow>
          (case q_heap q a of
             None \<Rightarrow> (ExitPop, fault q)
           | Some n \<Rightarrow> (Reverse d head (nd_next n), q\<lparr>q_heap := (q_heap q)(a := Some (n\<lparr>nd_next := prev\<rparr>))\<rparr>)))"
| "pop_step (StorePending d r) q = (ReloadPending d, q\<lparr>q_pending := r\<rparr>)"
| "pop_step (ReloadPending d) q =
     (case q_pending q of
        Some a \<Rightarrow> (TakeNode d a, q)
      | None \<Rightarrow> (ExitPop, q\<lparr>q_false_empty := q_false_empty q \<or> q_popped q \<noteq> q_pushed q\<rparr>))"
| "pop_step ExitPop q = (QueueIdle, q\<lparr>q_consumer_active := False\<rparr>)"
| "pop_step p q = (p, q)"

fun close_queue_step :: "'m queue_pc \<Rightarrow> 'm mpsc \<Rightarrow> 'm queue_pc \<times> 'm mpsc" where
  "close_queue_step (CloseQueue d) q = (WaitQueue d, q\<lparr>q_closed := True\<rparr>)"
| "close_queue_step (WaitQueue d) q =
     (if q_in_flight q \<noteq> 0 then (WaitQueue d, q)
      else (if d then EnterPop True else QueueIdle, q\<lparr>q_close_returned := True\<rparr>))"
| "close_queue_step p q = (p, q)"

fun queue_step :: "'m queue_choice \<Rightarrow> 'm queue_pc \<Rightarrow> 'm mpsc \<Rightarrow> 'm queue_pc \<times> 'm mpsc" where
  "queue_step c QueueIdle q =
     (case c of
        CallPush m \<Rightarrow> EnterPush m
      | CallPop \<Rightarrow> EnterPop False
      | CallClose \<Rightarrow> CloseQueue False
      | CallCloseAndDrain \<Rightarrow> CloseQueue True
      | _ \<Rightarrow> QueueIdle, q)"
| "queue_step c (CloseQueue d) q = close_queue_step (CloseQueue d) q"
| "queue_step c (WaitQueue d) q = close_queue_step (WaitQueue d) q"
| "queue_step c (EnterPush m) q = push_step c (EnterPush m) q"
| "queue_step c (TestPush m) q = push_step c (TestPush m) q"
| "queue_step c RefusePush q = push_step c RefusePush q"
| "queue_step c (AllocPush m) q = push_step c (AllocPush m) q"
| "queue_step c (CountPush a) q = push_step c (CountPush a) q"
| "queue_step c (LoadPush a) q = push_step c (LoadPush a) q"
| "queue_step c (LinkPush a h) q = push_step c (LinkPush a h) q"
| "queue_step c (SwingPush a h) q = push_step c (SwingPush a h) q"
| "queue_step c ExitPush q = push_step c ExitPush q"
| "queue_step c p q = pop_step p q"

text \<open>Dropping the queue, when nobody uses it: no result if a node is freed twice or a chain is cyclic.\<close>

partial_function (option) free_chain :: "(nat \<Rightarrow> 'm node option) \<Rightarrow> ptr \<Rightarrow> (nat \<Rightarrow> 'm node option) option" where
  "free_chain h head =
     (case head of
        None \<Rightarrow> Some h
      | Some a \<Rightarrow> (case h a of None \<Rightarrow> None | Some n \<Rightarrow> free_chain (h(a := None)) (nd_next n)))"

definition queue_drop :: "'m mpsc \<Rightarrow> 'm mpsc option" where
  "queue_drop q =
     (case free_chain (q_heap q) (q_head q) of
        None \<Rightarrow> None
      | Some h \<Rightarrow>
          (case free_chain h (q_pending q) of
             None \<Rightarrow> None
           | Some h' \<Rightarrow> Some (q\<lparr>q_heap := h', q_head := None, q_pending := None\<rparr>)))"

definition queue_run :: "(nat \<times> 'm queue_choice) list \<Rightarrow> 'm queue_pc list \<times> 'm mpsc \<Rightarrow> 'm queue_pc list \<times> 'm mpsc" where
  "queue_run as w = pool_run queue_step as w"

definition queue_start :: "nat \<Rightarrow> 'm queue_pc list \<times> 'm mpsc" where
  "queue_start n = (replicate n QueueIdle, mpsc_new)"

section \<open>Chains of nodes\<close>

primrec chain :: "(nat \<Rightarrow> 'm node option) \<Rightarrow> ptr \<Rightarrow> nat list \<Rightarrow> bool" where
  "chain h p [] \<longleftrightarrow> p = None"
| "chain h p (a # as) \<longleftrightarrow> p = Some a \<and> (\<exists>n. h a = Some n \<and> chain h (nd_next n) as)"

definition messages :: "(nat \<Rightarrow> 'm node option) \<Rightarrow> nat list \<Rightarrow> 'm list" where
  "messages h as = map (\<lambda>a. nd_message (the (h a))) as"

lemma chain_other [simp]: "a \<notin> set as \<Longrightarrow> chain (h(a := v)) p as = chain h p as"
  by (induction as arbitrary: p) auto

lemma chain_None [simp]: "chain h None as \<longleftrightarrow> as = []"
  by (cases as) auto

lemma chain_Some: "chain h (Some a) as \<longleftrightarrow> (\<exists>n bs. as = a # bs \<and> h a = Some n \<and> chain h (nd_next n) bs)"
  by (cases as) auto

lemma messages_simps [simp]:
  "messages h [] = []" "messages h (a # as) = nd_message (the (h a)) # messages h as"
  "messages h (as @ bs) = messages h as @ messages h bs" "length (messages h as) = length as"
  by (simp_all add: messages_def)

lemma messages_other [simp]: "a \<notin> set as \<Longrightarrow> messages (h(a := v)) as = messages h as"
  by (auto simp: messages_def)

lemma messages_relink: "h a = Some n \<Longrightarrow> messages (h(a := Some (n\<lparr>nd_next := x\<rparr>))) as = messages h as"
  by (auto simp: messages_def)

section \<open>What a thread owns\<close>

text \<open>A producer owns the node it has not yet published.\<close>

fun owned_node :: "'m queue_pc \<Rightarrow> nat list" where
  "owned_node (CountPush a) = [a]"
| "owned_node (LoadPush a) = [a]"
| "owned_node (LinkPush a _) = [a]"
| "owned_node (SwingPush a _) = [a]"
| "owned_node _ = []"

fun linked :: "(nat \<Rightarrow> 'm node option) \<Rightarrow> 'm queue_pc \<Rightarrow> bool" where
  "linked h (SwingPush a x) = (\<exists>n. h a = Some n \<and> nd_next n = x)"
| "linked h _ = True"

fun consumes :: "'m queue_pc \<Rightarrow> bool" where
  "consumes (LoadPending _) = True"
| "consumes (TakeNode _ _) = True"
| "consumes (StoreNext _ _) = True"
| "consumes (CountPop _) = True"
| "consumes (SwapHead _) = True"
| "consumes (Reverse _ _ _) = True"
| "consumes (StorePending _ _) = True"
| "consumes (ReloadPending _) = True"
| "consumes ExitPop = True"
| "consumes _ = False"

fun producing :: "'m queue_pc \<Rightarrow> bool" where
  "producing (TestPush _) = True"
| "producing RefusePush = True"
| "producing (AllocPush _) = True"
| "producing (CountPush _) = True"
| "producing (LoadPush _) = True"
| "producing (LinkPush _ _) = True"
| "producing (SwingPush _ _) = True"
| "producing ExitPush = True"
| "producing _ = False"

fun publishes :: "'m queue_pc \<Rightarrow> bool" where
  "publishes (AllocPush _) = True"
| "publishes (CountPush _) = True"
| "publishes (LoadPush _) = True"
| "publishes (LinkPush _ _) = True"
| "publishes (SwingPush _ _) = True"
| "publishes _ = False"

text \<open>Counted in the length but not in the queue: before the publication and after the removal.\<close>

fun counted_ahead :: "'m queue_pc \<Rightarrow> bool" where
  "counted_ahead (LoadPush _) = True"
| "counted_ahead (LinkPush _ _) = True"
| "counted_ahead (SwingPush _ _) = True"
| "counted_ahead (StoreNext _ _) = True"
| "counted_ahead (CountPop _) = True"
| "counted_ahead _ = False"

text \<open>
  The consumer and the detached chains: \<open>qs\<close> is what it still has to serve, \<open>es\<close> the part of the
  stack that is not yet reversed, \<open>ds\<close> the part that is.
\<close>

fun transfer :: "'m queue_pc \<Rightarrow> (nat \<Rightarrow> 'm node option) \<Rightarrow> ptr \<Rightarrow> nat list \<Rightarrow> nat list \<Rightarrow> nat list \<Rightarrow> bool" where
  "transfer (TakeNode _ a) h pending qs es ds = (pending = Some a \<and> chain h pending qs \<and> es = [] \<and> ds = [])"
| "transfer (StoreNext _ nxt) h pending qs es ds = (chain h nxt qs \<and> es = [] \<and> ds = [])"
| "transfer (SwapHead _) h pending qs es ds = (pending = None \<and> qs = [] \<and> es = [] \<and> ds = [])"
| "transfer (Reverse _ prev cur) h pending qs es ds = (pending = None \<and> qs = [] \<and> chain h prev ds \<and> chain h cur es \<and> ds @ es \<noteq> [])"
| "transfer (StorePending _ r) h pending qs es ds = (pending = None \<and> qs = [] \<and> chain h r ds \<and> es = [] \<and> ds \<noteq> [])"
| "transfer (ReloadPending _) h pending qs es ds = (chain h pending qs \<and> es = [] \<and> ds = [] \<and> qs \<noteq> [])"
| "transfer _ h pending qs es ds = (chain h pending qs \<and> es = [] \<and> ds = [])"

text \<open>
  The heap consists of the chains and of the nodes \<open>own\<close> of producers, all apart, and the chains
  hold the messages that were published and not yet removed, in order.
\<close>

definition heap_shape ::
    "nat set \<Rightarrow> 'm queue_pc \<Rightarrow> 'm mpsc \<Rightarrow> nat list \<Rightarrow> nat list \<Rightarrow> nat list \<Rightarrow> nat list \<Rightarrow> bool" where
  "heap_shape own consumer q qs es ds hs \<longleftrightarrow>
     distinct (qs @ es @ ds @ hs) \<and> dom (q_heap q) = set (qs @ es @ ds @ hs) \<union> own
     \<and> set (qs @ es @ ds @ hs) \<inter> own = {} \<and> chain (q_heap q) (q_head q) hs
     \<and> transfer consumer (q_heap q) (q_pending q) qs es ds
     \<and> q_pushed q = q_popped q @ messages (q_heap q) (qs @ rev es @ ds @ rev hs)"

definition heap_ok :: "nat set \<Rightarrow> 'm queue_pc \<Rightarrow> 'm mpsc \<Rightarrow> bool" where
  "heap_ok own consumer q \<longleftrightarrow> (\<exists>qs es ds hs. heap_shape own consumer q qs es ds hs)"

end
