(* ===== verification/Mpsc_Linear.thy ===== *)
theory Mpsc_Linear
  imports Mpsc_Queue
begin

text \<open>
  The lock-free queue is a FIFO queue under every interleaving, without memory faults: each step
  keeps the heap in the shape of \<open>heap_ok\<close>.
\<close>

section \<open>Steps that change the heap or the chains\<close>

lemma transfer_other:
  "a \<notin> set (qs @ es @ ds) \<Longrightarrow> transfer k (h(a := v)) pending qs es ds = transfer k h pending qs es ds"
  by (cases k) auto

lemma heap_alloc:
  assumes "heap_ok own k q" "q_heap q a = None"
  shows "a \<notin> own" "heap_ok (insert a own) k (q\<lparr>q_heap := (q_heap q)(a := Some n)\<rparr>)"
proof -
  obtain qs es ds hs where h: "heap_shape own k q qs es ds hs" using assms(1) by (auto simp: heap_ok_def)
  then have "dom (q_heap q) = set (qs @ es @ ds @ hs) \<union> own" by (simp only: heap_shape_def)
  moreover have "a \<notin> dom (q_heap q)" using assms(2) by (simp add: domIff)
  ultimately have a: "a \<notin> set (qs @ es @ ds @ hs)" "a \<notin> own" by blast+
  then show "a \<notin> own" by simp
  have "heap_shape (insert a own) k (q\<lparr>q_heap := (q_heap q)(a := Some n)\<rparr>) qs es ds hs"
    using h a by (simp add: heap_shape_def transfer_other)
  then show "heap_ok (insert a own) k (q\<lparr>q_heap := (q_heap q)(a := Some n)\<rparr>)" unfolding heap_ok_def by blast
qed

lemma heap_link:
  assumes "heap_ok own k q" "a \<in> own"
  shows "\<exists>n. q_heap q a = Some n" "q_heap q a = Some n \<Longrightarrow> heap_ok own k (q\<lparr>q_heap := (q_heap q)(a := Some (n\<lparr>nd_next := x\<rparr>))\<rparr>)"
proof -
  obtain qs es ds hs where h: "heap_shape own k q qs es ds hs" using assms(1) by (auto simp: heap_ok_def)
  have a: "a \<notin> set (qs @ es @ ds @ hs)" using h assms(2) by (auto simp: heap_shape_def)
  show "\<exists>n. q_heap q a = Some n" using h assms(2) by (auto simp: heap_shape_def)
  show "heap_ok own k (q\<lparr>q_heap := (q_heap q)(a := Some (n\<lparr>nd_next := x\<rparr>))\<rparr>)" if "q_heap q a = Some n"
  proof -
    have "heap_shape own k (q\<lparr>q_heap := (q_heap q)(a := Some (n\<lparr>nd_next := x\<rparr>))\<rparr>) qs es ds hs"
      using h a assms(2) by (simp add: heap_shape_def transfer_other insert_absorb)
    then show ?thesis unfolding heap_ok_def by blast
  qed
qed

lemma heap_publish:
  assumes "heap_ok (insert a own) k q" "a \<notin> own" "q_heap q a = Some n" "nd_next n = q_head q"
  shows "heap_ok own k (q\<lparr>q_head := Some a, q_pushed := q_pushed q @ [nd_message n]\<rparr>)"
proof -
  obtain qs es ds hs where h: "heap_shape (insert a own) k q qs es ds hs" using assms(1) by (auto simp: heap_ok_def)
  have "heap_shape own k (q\<lparr>q_head := Some a, q_pushed := q_pushed q @ [nd_message n]\<rparr>) qs es ds (a # hs)"
    using h assms by (auto simp: heap_shape_def)
  then show ?thesis by (auto simp: heap_ok_def)
qed

lemma heap_take:
  assumes "heap_ok own (TakeNode d a) q"
  shows "\<exists>n. q_heap q a = Some n \<and> a \<notin> own
    \<and> heap_ok own (StoreNext d (nd_next n)) (q\<lparr>q_heap := (q_heap q)(a := None), q_popped := q_popped q @ [nd_message n]\<rparr>)"
proof -
  obtain qs es ds hs where h: "heap_shape own (TakeNode d a) q qs es ds hs" using assms(1) by (auto simp: heap_ok_def)
  from h obtain n bs where n: "qs = a # bs" "q_heap q a = Some n" "chain (q_heap q) (nd_next n) bs" "es = []" "ds = []"
    by (auto simp: heap_shape_def chain_Some)
  have "heap_shape own (StoreNext d (nd_next n)) (q\<lparr>q_heap := (q_heap q)(a := None), q_popped := q_popped q @ [nd_message n]\<rparr>) bs [] [] hs"
    using h n by (auto simp: heap_shape_def)
  moreover have "a \<notin> own" using h n by (simp add: heap_shape_def)
  ultimately show ?thesis using n unfolding heap_ok_def by blast
qed

lemma heap_swap:
  assumes "heap_ok own (SwapHead d) q"
  shows "q_head q = None \<Longrightarrow> q_pushed q = q_popped q \<and> heap_ok own ExitPop (q\<lparr>q_head := None\<rparr>)"
    and "q_head q = Some a \<Longrightarrow> heap_ok own (Reverse d None (Some a)) (q\<lparr>q_head := None\<rparr>)"
proof -
  obtain qs es ds hs where h: "heap_shape own (SwapHead d) q qs es ds hs" using assms(1) by (auto simp: heap_ok_def)
  show "q_pushed q = q_popped q \<and> heap_ok own ExitPop (q\<lparr>q_head := None\<rparr>)" if "q_head q = None"
    using h that by (auto simp: heap_ok_def heap_shape_def)
  show "heap_ok own (Reverse d None (Some a)) (q\<lparr>q_head := None\<rparr>)" if "q_head q = Some a"
  proof -
    have "heap_shape own (Reverse d None (Some a)) (q\<lparr>q_head := None\<rparr>) [] hs [] []"
      using h that by (auto simp: heap_shape_def chain_Some)
    then show ?thesis unfolding heap_ok_def by blast
  qed
qed

lemma heap_reverse:
  assumes "heap_ok own (Reverse d prev (Some a)) q"
  shows "\<exists>n. q_heap q a = Some n \<and> a \<notin> own
    \<and> heap_ok own (Reverse d (Some a) (nd_next n)) (q\<lparr>q_heap := (q_heap q)(a := Some (n\<lparr>nd_next := prev\<rparr>))\<rparr>)"
proof -
  obtain qs es ds hs where h: "heap_shape own (Reverse d prev (Some a)) q qs es ds hs" using assms(1) by (auto simp: heap_ok_def)
  from h obtain n bs where n: "es = a # bs" "q_heap q a = Some n" "chain (q_heap q) (nd_next n) bs" "qs = []"
    by (auto simp: heap_shape_def chain_Some)
  have "heap_shape own (Reverse d (Some a) (nd_next n)) (q\<lparr>q_heap := (q_heap q)(a := Some (n\<lparr>nd_next := prev\<rparr>))\<rparr>) [] bs (a # ds) hs"
    using h n by (auto simp: heap_shape_def messages_relink)
  moreover have "a \<notin> own" using h n by (simp add: heap_shape_def)
  ultimately show ?thesis using n unfolding heap_ok_def by blast
qed

lemma heap_transfer_done:
  "heap_ok own (Reverse d prev None) q \<Longrightarrow> heap_ok own (StorePending d prev) q"
  "heap_ok own (StorePending d r) q \<Longrightarrow> heap_ok own (ReloadPending d) (q\<lparr>q_pending := r\<rparr>)"
  "heap_ok own (StoreNext d r) q \<Longrightarrow> heap_ok own (CountPop d) (q\<lparr>q_pending := r\<rparr>)"
  "heap_ok own (ReloadPending d) q \<Longrightarrow> q_pending q \<noteq> None"
  "heap_ok own (ReloadPending d) q \<Longrightarrow> q_pending q = Some a \<Longrightarrow> heap_ok own (TakeNode d a) q"
  "heap_ok own (LoadPending d) q \<Longrightarrow> q_pending q = Some a \<Longrightarrow> heap_ok own (TakeNode d a) q"
  "heap_ok own (LoadPending d) q \<Longrightarrow> q_pending q = None \<Longrightarrow> heap_ok own (SwapHead d) q"
proof -
  show "heap_ok own (Reverse d prev None) q \<Longrightarrow> heap_ok own (StorePending d prev) q"
    unfolding heap_ok_def heap_shape_def by auto
  show "heap_ok own (StoreNext d r) q \<Longrightarrow> heap_ok own (CountPop d) (q\<lparr>q_pending := r\<rparr>)"
    unfolding heap_ok_def heap_shape_def by simp
  show "heap_ok own (LoadPending d) q \<Longrightarrow> q_pending q = None \<Longrightarrow> heap_ok own (SwapHead d) q"
    unfolding heap_ok_def heap_shape_def by auto
  show "heap_ok own (LoadPending d) q \<Longrightarrow> q_pending q = Some a \<Longrightarrow> heap_ok own (TakeNode d a) q"
    unfolding heap_ok_def heap_shape_def by simp
  show "heap_ok own (ReloadPending d) q \<Longrightarrow> q_pending q = Some a \<Longrightarrow> heap_ok own (TakeNode d a) q"
    unfolding heap_ok_def heap_shape_def by auto
  show "heap_ok own (ReloadPending d) q \<Longrightarrow> q_pending q \<noteq> None"
    unfolding heap_ok_def heap_shape_def by auto
  show "heap_ok own (ReloadPending d) (q\<lparr>q_pending := r\<rparr>)" if "heap_ok own (StorePending d r) q"
  proof -
    from that obtain ds hs where "heap_shape own (StorePending d r) q [] [] ds hs" by (auto simp: heap_ok_def heap_shape_def)
    then have "heap_shape own (ReloadPending d) (q\<lparr>q_pending := r\<rparr>) ds [] [] hs" by (auto simp: heap_shape_def)
    then show ?thesis by (auto simp: heap_ok_def)
  qed
qed

text \<open>The other points of the consumer say the same about the heap.\<close>

fun at_rest :: "'m queue_pc \<Rightarrow> bool" where
  "at_rest (TakeNode _ _) = False"
| "at_rest (StoreNext _ _) = False"
| "at_rest (SwapHead _) = False"
| "at_rest (Reverse _ _ _) = False"
| "at_rest (StorePending _ _) = False"
| "at_rest (ReloadPending _) = False"
| "at_rest _ = True"

lemma transfer_at_rest: "at_rest k \<Longrightarrow> transfer k h pending qs es ds = transfer QueueIdle h pending qs es ds"
  by (cases k) auto

lemma heap_at_rest: "heap_ok own k q \<Longrightarrow> at_rest k \<Longrightarrow> at_rest k' \<Longrightarrow> heap_ok own k' q"
  by (simp add: heap_ok_def heap_shape_def transfer_at_rest [of k] transfer_at_rest [of k'])

lemma heap_ok_frame:
  "heap_ok own k q \<Longrightarrow> q_heap q' = q_heap q \<Longrightarrow> q_head q' = q_head q \<Longrightarrow> q_pending q' = q_pending q
    \<Longrightarrow> q_pushed q' = q_pushed q \<Longrightarrow> q_popped q' = q_popped q \<Longrightarrow> heap_ok own k q'"
  by (simp add: heap_ok_def heap_shape_def)

section \<open>Every step keeps the heap in shape\<close>

text \<open>
  What one thread at \<open>p\<close> relies on: \<open>others\<close> are the nodes owned by other threads, and \<open>k\<close> is the point
  of another thread that consumes, or the idle point.
\<close>

definition queue_local :: "nat set \<Rightarrow> 'm queue_pc \<Rightarrow> 'm queue_pc \<Rightarrow> 'm mpsc \<Rightarrow> bool" where
  "queue_local others k p q \<longleftrightarrow>
     heap_ok (others \<union> set (owned_node p)) (if consumes p then p else k) q
     \<and> others \<inter> set (owned_node p) = {} \<and> linked (q_heap q) p
     \<and> (q_consumer_active q \<longleftrightarrow> consumes k \<or> consumes p) \<and> \<not> (consumes k \<and> consumes p) \<and> (\<not> consumes k \<longrightarrow> k = QueueIdle)
     \<and> \<not> q_fault q \<and> \<not> q_false_empty q"

definition queue_step_ok :: "nat set \<Rightarrow> 'm queue_pc \<Rightarrow> 'm mpsc \<Rightarrow> 'm queue_pc \<Rightarrow> 'm mpsc \<Rightarrow> bool" where
  "queue_step_ok others k q p' q' \<longleftrightarrow> queue_local others k p' q' \<and> (\<forall>a \<in> others. q_heap q' a = q_heap q a)"

lemma heap_ok_simps [simp]:
  "heap_ok own k (q\<lparr>q_len := n\<rparr>) = heap_ok own k q" "heap_ok own k (q\<lparr>q_in_flight := n\<rparr>) = heap_ok own k q"
  "heap_ok own k (q\<lparr>q_closed := b\<rparr>) = heap_ok own k q" "heap_ok own k (q\<lparr>q_consumer_active := b\<rparr>) = heap_ok own k q"
  "heap_ok own k (q\<lparr>q_close_returned := b\<rparr>) = heap_ok own k q" "heap_ok own k (q\<lparr>q_false_empty := b\<rparr>) = heap_ok own k q"
  by (simp_all add: heap_ok_def heap_shape_def)

lemma consumer_at_rest:
  "heap_ok own (LoadPending d) q = heap_ok own QueueIdle q" "heap_ok own ExitPop q = heap_ok own QueueIdle q"
  "heap_ok own (CountPop d) q = heap_ok own QueueIdle q"
  by (simp_all add: heap_ok_def heap_shape_def)

lemmas local_defs = queue_step_ok_def queue_local_def

lemma queue_local_step_push:
  assumes "queue_local others k p q" "producing p \<or> (\<exists>m. p = EnterPush m)"
  shows "case queue_step c p q of (p', q') \<Rightarrow> queue_step_ok others k q p' q'"
proof (cases p)
  case (AllocPush m)
  show ?thesis
  proof (cases c)
    case (Allocate a)
    then show ?thesis using assms AllocPush heap_alloc [of others k q a] by (auto simp: local_defs)
  qed (use assms AllocPush in \<open>simp_all add: local_defs\<close>)
next
  case (LinkPush a x)
  then have h: "heap_ok (insert a others) k q" "a \<notin> others" using assms by (simp_all add: queue_local_def)
  with heap_link(1) [of "insert a others" k q a] obtain n where n: "q_heap q a = Some n" by blast
  with heap_link(2) [OF h(1), of a n x] h(2) LinkPush assms show ?thesis by (auto simp: local_defs)
next
  case (SwingPush a x)
  then obtain n where n: "q_heap q a = Some n" "nd_next n = x" "heap_ok (insert a others) k q" "a \<notin> others"
    using assms by (auto simp: queue_local_def)
  then show ?thesis using SwingPush assms heap_publish [of a others k q n] by (auto simp: local_defs)
qed (use assms in \<open>simp_all add: local_defs\<close>)

lemma queue_local_step_pop:
  assumes "queue_local others k p q" "consumes p"
  shows "case queue_step c p q of (p', q') \<Rightarrow> queue_step_ok others k q p' q'"
proof -
  have k: "k = QueueIdle" "q_consumer_active q" and h: "heap_ok others p q" and f: "\<not> q_fault q" "\<not> q_false_empty q"
    using assms by (auto simp: queue_local_def elim: consumes.elims)
  show ?thesis
  proof (cases p)
    case (LoadPending d)
    then show ?thesis using k h f heap_transfer_done(6,7) [of others d q] by (auto simp: local_defs split: option.splits)
  next
    case (TakeNode d a)
    with heap_take [of others d a q] h show ?thesis using k f by (auto simp: local_defs)
  next
    case (StoreNext d r)
    then show ?thesis using k h f heap_transfer_done(3) by (auto simp: local_defs)
  next
    case (SwapHead d)
    then show ?thesis using k h f heap_swap [of others d q] by (auto simp: local_defs split: option.splits)
  next
    case (Reverse d prev cur)
    then show ?thesis
    proof (cases cur)
      case None
      then show ?thesis using Reverse k h f heap_transfer_done(1) by (auto simp: local_defs)
    next
      case (Some a)
      then show ?thesis using Reverse k h f heap_reverse [of others d prev a q] by (auto simp: local_defs)
    qed
  next
    case (StorePending d r)
    then show ?thesis using k h f heap_transfer_done(2) by (auto simp: local_defs)
  next
    case (ReloadPending d)
    then show ?thesis using k h f heap_transfer_done(4,5) [of others d q] by (auto simp: local_defs split: option.splits)
  qed (use assms k h f in \<open>simp_all add: local_defs consumer_at_rest\<close>)
qed

lemma queue_local_step:
  assumes "queue_local others k p q"
  shows "case queue_step c p q of (p', q') \<Rightarrow> queue_step_ok others k q p' q'"
proof (cases "producing p \<or> (\<exists>m. p = EnterPush m) \<or> consumes p")
  case True
  then show ?thesis using queue_local_step_push [OF assms, of c] queue_local_step_pop [OF assms, of c] by argo
next
  case False
  then show ?thesis using assms
    by (cases p) (auto simp: local_defs consumer_at_rest split: queue_choice.splits)
qed

section \<open>Every run keeps the heap in shape\<close>

definition owned_nodes :: "'m queue_pc list \<Rightarrow> nat list" where
  "owned_nodes ps = concat (map owned_node ps)"

definition the_consumer :: "'m queue_pc list \<Rightarrow> 'm queue_pc" where
  "the_consumer ps = (case filter consumes ps of [] \<Rightarrow> QueueIdle | p # _ \<Rightarrow> p)"

definition heap_inv :: "'m queue_pc list \<Rightarrow> 'm mpsc \<Rightarrow> bool" where
  "heap_inv ps q \<longleftrightarrow> distinct (owned_nodes ps) \<and> (\<forall>p \<in> set ps. linked (q_heap q) p)
     \<and> threads_at ps consumes = of_bool (q_consumer_active q) \<and> heap_ok (set (owned_nodes ps)) (the_consumer ps) q
     \<and> \<not> q_fault q \<and> \<not> q_false_empty q"

lemma owned_nodes_simps [simp]:
  "owned_nodes [] = []" "owned_nodes (p # ps) = owned_node p @ owned_nodes ps" "owned_nodes (as @ bs) = owned_nodes as @ owned_nodes bs"
  by (simp_all add: owned_nodes_def)

lemma distinct_owned [simp]: "distinct (owned_node p)"
  by (cases p) simp_all

lemma no_consumer: "threads_at ps consumes = 0 \<Longrightarrow> filter consumes ps = []" "filter consumes ps = [] \<Longrightarrow> the_consumer ps = QueueIdle"
  by (simp_all add: threads_at_def the_consumer_def)

lemma the_consumer_consumes: "consumes (the_consumer ps) \<longleftrightarrow> threads_at ps consumes > 0" "\<not> consumes (the_consumer ps) \<Longrightarrow> the_consumer ps = QueueIdle"
proof -
  have "consumes (the_consumer ps)" if f: "filter consumes ps \<noteq> []"
  proof -
    obtain p xs where eq: "filter consumes ps = p # xs" using f by (cases "filter consumes ps") simp_all
    have "\<forall>x \<in> set (filter consumes ps). consumes x" by simp
    then have "consumes p" unfolding eq by simp
    with eq show ?thesis by (simp add: the_consumer_def)
  qed
  moreover have "the_consumer ps = QueueIdle" if "filter consumes ps = []" using that by (simp add: the_consumer_def)
  ultimately show "consumes (the_consumer ps) \<longleftrightarrow> threads_at ps consumes > 0" "\<not> consumes (the_consumer ps) \<Longrightarrow> the_consumer ps = QueueIdle"
    unfolding threads_at_def length_greater_0_conv by fastforce+
qed

lemma the_consumer_split:
  "threads_at (as @ p # bs) consumes \<le> 1 \<Longrightarrow> the_consumer (as @ p # bs) = (if consumes p then p else the_consumer (as @ bs))"
  by (auto simp: the_consumer_def threads_at_def split: list.splits)

lemma heap_inv_split:
  "heap_inv (as @ p # bs) q \<longleftrightarrow> distinct (owned_nodes (as @ bs)) \<and> (\<forall>x \<in> set (as @ bs). linked (q_heap q) x)
     \<and> threads_at (as @ bs) consumes \<le> 1 \<and> queue_local (set (owned_nodes (as @ bs))) (the_consumer (as @ bs)) p q"
proof -
  have n: "threads_at (as @ p # bs) consumes = threads_at (as @ bs) consumes + of_bool (consumes p)"
    by (simp add: threads_at_def)
  have "set (owned_nodes (as @ p # bs)) = set (owned_nodes (as @ bs)) \<union> set (owned_node p)" by auto
  moreover have "distinct (owned_nodes (as @ p # bs)) \<longleftrightarrow>
      distinct (owned_nodes (as @ bs)) \<and> set (owned_nodes (as @ bs)) \<inter> set (owned_node p) = {}" by auto
  moreover have "threads_at (as @ p # bs) consumes = of_bool (q_consumer_active q) \<longleftrightarrow> threads_at (as @ bs) consumes \<le> 1
      \<and> (q_consumer_active q \<longleftrightarrow> consumes (the_consumer (as @ bs)) \<or> consumes p) \<and> \<not> (consumes (the_consumer (as @ bs)) \<and> consumes p)"
    unfolding n the_consumer_consumes by (cases "consumes p"; cases "q_consumer_active q") auto
  moreover have "the_consumer (as @ p # bs) = (if consumes p then p else the_consumer (as @ bs))"
    if "threads_at (as @ p # bs) consumes = of_bool (q_consumer_active q)" using that by (intro the_consumer_split) simp
  ultimately show ?thesis using the_consumer_consumes(2) [of "as @ bs"]
    unfolding heap_inv_def queue_local_def by (auto simp del: owned_nodes_simps)
qed

lemma linked_frame: "linked h x \<Longrightarrow> (\<forall>a \<in> set (owned_node x). h' a = h a) \<Longrightarrow> linked h' x"
  by (cases x) auto

lemma heap_inv_step:
  assumes "heap_inv ps q" "i < length ps" "queue_step c (ps ! i) q = (p', q')"
  shows "heap_inv (ps[i := p']) q'"
proof -
  obtain as bs where ps: "ps = as @ ps ! i # bs" "i = length as"
    using id_take_nth_drop [OF assms(2)] assms(2) by (metis length_take min.absorb4)
  let ?o = "set (owned_nodes (as @ bs))" and ?k = "the_consumer (as @ bs)"
  have inv: "distinct (owned_nodes (as @ bs))" "\<forall>x \<in> set (as @ bs). linked (q_heap q) x" "threads_at (as @ bs) consumes \<le> 1"
    "queue_local ?o ?k (ps ! i) q"
    using assms(1) heap_inv_split [of as "ps ! i" bs q] ps(1) by auto
  have ok: "queue_step_ok ?o ?k q p' q'" using queue_local_step [OF inv(4), of c] assms(3) by simp
  have "linked (q_heap q') x" if "x \<in> set (as @ bs)" for x
  proof (rule linked_frame)
    show "linked (q_heap q) x" using inv(2) that by blast
    have "set (owned_node x) \<subseteq> ?o" using that by (auto simp: owned_nodes_def)
    then show "\<forall>a \<in> set (owned_node x). q_heap q' a = q_heap q a" using ok by (auto simp: queue_step_ok_def)
  qed
  moreover have "ps[i := p'] = as @ p' # bs" using ps by (metis list_update_length)
  ultimately show ?thesis using inv ok heap_inv_split [of as p' bs q'] by (simp add: queue_step_ok_def)
qed

section \<open>Closing and counting\<close>

fun waits :: "'m queue_pc \<Rightarrow> bool" where
  "waits (WaitQueue _) = True"
| "waits _ = False"

text \<open>
  Producers are counted while they are inside, a close returns when none is, and the length runs
  ahead of the contents by the messages that are just being pushed or popped.
\<close>

definition counters_ok :: "'m queue_pc counts \<Rightarrow> 'm mpsc \<Rightarrow> bool" where
  "counters_ok n q \<longleftrightarrow>
     q_in_flight q = of_nat (n producing)
     \<and> (n waits > 0 \<or> q_close_returned q \<longrightarrow> q_closed q) \<and> (q_close_returned q \<longrightarrow> n publishes = 0)
     \<and> q_len q + of_nat (length (q_popped q)) = of_nat (length (q_pushed q) + n counted_ahead)"

lemma zero_count: "k < 2 ^ 64 \<Longrightarrow> (of_nat k :: u64) = 0 \<longleftrightarrow> k = 0"
  by (auto simp: word_of_nat_eq_0_iff dest: dvd_imp_le)

lemma counters_step:
  assumes "counters_ok (with_thread r p) q" "r producing + 1 < 2 ^ 64" "r publishes \<le> r producing" "\<not> q_fault (snd (queue_step c p q))"
  shows "case queue_step c p q of (p', q') \<Rightarrow> counters_ok (with_thread r p') q'"
  using assms zero_count [of "r producing"]
  by (cases p; simp add: counters_ok_def with_thread_def fault_def algebra_simps split: queue_choice.splits option.splits if_splits; auto?)

definition queue_inv :: "'m queue_pc list \<Rightarrow> 'm mpsc \<Rightarrow> bool" where
  "queue_inv ps q \<longleftrightarrow> heap_inv ps q \<and> counters_ok (threads_at ps) q"

lemma publishes_producing: "publishes p \<Longrightarrow> producing p"
  by (cases p) simp_all

lemma queue_inv_step:
  assumes "queue_inv ps q" "i < length ps" "length ps < 2 ^ 64" "queue_step c (ps ! i) q = (p', q')"
  shows "queue_inv (ps[i := p']) q'"
proof -
  have h: "heap_inv (ps[i := p']) q'" using heap_inv_step [of ps q i c p' q'] assms by (simp add: queue_inv_def)
  let ?r = "other_threads ps i"
  have "?r producing + 1 < 2 ^ 64" using other_threads_less [OF assms(2), of producing] assms(3) by linarith
  moreover have "?r publishes \<le> ?r producing" by (rule other_threads_mono) (rule publishes_producing)
  moreover have "counters_ok (with_thread ?r (ps ! i)) q" using assms(1) threads_at_other(1) [OF assms(2)] by (simp add: queue_inv_def)
  ultimately have "counters_ok (with_thread ?r p') q'"
    using counters_step [of ?r "ps ! i" q c] assms(4) h by (simp add: heap_inv_def)
  with h show ?thesis using threads_at_other(2) [OF assms(2)] by (simp add: queue_inv_def)
qed

interpretation queue_pool: thread_pool queue_step queue_inv "2 ^ 64"
  by unfold_locales (rule queue_inv_step)

lemma queue_inv_start: "queue_inv (replicate n (QueueIdle :: 'm queue_pc)) mpsc_new"
proof -
  let ?ps = "replicate n (QueueIdle :: 'm queue_pc)"
  have none: "threads_at ?ps P = 0" if "\<not> P QueueIdle" for P
    using that by (simp add: threads_at_def)
  have "owned_nodes ?ps = []" by (induction n) simp_all
  moreover have "the_consumer ?ps = QueueIdle" by (simp add: the_consumer_def)
  moreover have "heap_shape {} QueueIdle (mpsc_new :: 'm mpsc) [] [] [] []" by (simp add: heap_shape_def mpsc_new_def)
  then have "heap_ok {} QueueIdle (mpsc_new :: 'm mpsc)" unfolding heap_ok_def by blast
  ultimately have "heap_inv ?ps mpsc_new" by (simp add: heap_inv_def none) (simp add: mpsc_new_def)
  moreover have "counters_ok (threads_at ?ps) mpsc_new" by (simp add: counters_ok_def none) (simp add: mpsc_new_def)
  ultimately show ?thesis by (simp add: queue_inv_def)
qed

lemma queue_reachable:
  assumes "n < 2 ^ 64" "queue_run as (queue_start n) = (ps, q)"
  shows "queue_inv ps q \<and> length ps = n"
  using queue_pool.run_inv [OF queue_inv_start [of n], of as] assms by (simp add: queue_run_def queue_start_def)

section \<open>A queue at rest\<close>

lemma heap_contents:
  assumes "heap_ok own k q"
  obtains rest where "q_pushed q = q_popped q @ rest" and "own = {} \<Longrightarrow> card (dom (q_heap q)) = length rest"
proof -
  obtain qs es ds hs where s: "heap_shape own k q qs es ds hs" using assms unfolding heap_ok_def by blast
  let ?as = "qs @ es @ ds @ hs"
  have "card (dom (q_heap q)) = length ?as" if "own = {}"
    using s that distinct_card [of ?as] unfolding heap_shape_def by (metis sup_bot_right)
  with s show thesis by (intro that [of "messages (q_heap q) (qs @ rev es @ ds @ rev hs)"]) (simp_all add: heap_shape_def)
qed

lemma idle_counts:
  assumes "\<forall>p \<in> set ps. p = QueueIdle"
  shows "threads_at ps counted_ahead = 0" and "owned_nodes ps = []" and "the_consumer ps = QueueIdle"
  using assms by (auto simp: owned_nodes_def intro!: threads_at_none no_consumer(2)) (auto simp: filter_empty_conv)

lemma free_chain_frees:
  "chain h p as \<Longrightarrow> distinct as \<Longrightarrow> free_chain h p = Some (\<lambda>a. if a \<in> set as then None else h a)"
proof (induction as arbitrary: h p)
  case (Cons a as)
  then obtain n where n: "p = Some a" "h a = Some n" "chain (h(a := None)) (nd_next n) as" by auto
  then have "free_chain h p = free_chain (h(a := None)) (nd_next n)" by (subst free_chain.simps) simp
  also have "\<dots> = Some (\<lambda>b. if b \<in> set as then None else (h(a := None)) b)" using Cons.prems(2) by (intro Cons.IH [OF n(3)]) simp
  also have "(\<lambda>b. if b \<in> set as then None else (h(a := None)) b) = (\<lambda>b. if b \<in> set (a # as) then None else h b)" by auto
  finally show ?case .
qed (simp add: free_chain.simps)

lemma chain_frame: "(\<And>a. a \<in> set as \<Longrightarrow> h' a = h a) \<Longrightarrow> chain h' p as = chain h p as"
  by (induction as arbitrary: p) auto

lemma heap_drop:
  assumes "heap_ok {} QueueIdle q"
  shows "queue_drop q = Some (q\<lparr>q_heap := \<lambda>_. None, q_head := None, q_pending := None\<rparr>)"
proof -
  obtain qs es ds hs where s: "heap_shape {} QueueIdle q qs es ds hs" using assms unfolding heap_ok_def by blast
  let ?h = "\<lambda>a. if a \<in> set hs then None else q_heap q a"
  have "free_chain (q_heap q) (q_head q) = Some ?h" using s by (intro free_chain_frees) (simp_all add: heap_shape_def)
  moreover have "chain ?h (q_pending q) qs = chain (q_heap q) (q_pending q) qs"
    using s by (intro chain_frame) (auto simp: heap_shape_def)
  then have "free_chain ?h (q_pending q) = Some (\<lambda>a. if a \<in> set qs then None else ?h a)"
    using s by (intro free_chain_frees) (simp_all add: heap_shape_def)
  moreover have "(\<lambda>a. if a \<in> set qs then None else ?h a) = (\<lambda>_. None)" using s by (auto simp: heap_shape_def fun_eq_iff dom_def)
  ultimately show ?thesis by (simp add: queue_drop_def)
qed

section \<open>Correctness\<close>

text \<open>
  Claim C6. The queue is a first-in first-out queue under every interleaving of any number of
  producers and consumers: no thread ever touches a freed node, the queue never answers that it is
  empty while a message is published in it, and the messages removed are always a prefix of the
  messages published, in the order of publication. When no call is in progress the length counter
  is the number of messages left, exactly their nodes are allocated, and dropping the queue frees
  each of them once: nothing is leaked.
\<close>

theorem mpsc_fifo:
  assumes "n < 2 ^ 64" and "queue_run as (queue_start n) = (ps, q)"
  shows "\<not> q_fault q \<and> \<not> q_false_empty q \<and>
    (\<exists>rest. q_pushed q = q_popped q @ rest
       \<and> ((\<forall>p \<in> set ps. p = QueueIdle) \<longrightarrow>
            q_len q = of_nat (length rest) \<and> card (dom (q_heap q)) = length rest
            \<and> queue_drop q = Some (q\<lparr>q_heap := \<lambda>_. None, q_head := None, q_pending := None\<rparr>)))"
proof -
  have inv: "heap_inv ps q" "counters_ok (threads_at ps) q" using queue_reachable [OF assms] by (simp_all add: queue_inv_def)
  obtain rest where r: "q_pushed q = q_popped q @ rest" "set (owned_nodes ps) = {} \<Longrightarrow> card (dom (q_heap q)) = length rest"
    using inv(1) heap_contents unfolding heap_inv_def by metis
  have "q_len q = of_nat (length rest) \<and> card (dom (q_heap q)) = length rest" if "\<forall>p \<in> set ps. p = QueueIdle"
    using inv(2) r idle_counts [OF that] by (simp add: counters_ok_def)
  moreover have "heap_ok {} QueueIdle q" if "\<forall>p \<in> set ps. p = QueueIdle"
    using inv(1) idle_counts(2,3) [OF that] by (simp add: heap_inv_def)
  ultimately show ?thesis using r inv(1) heap_drop by (auto simp: heap_inv_def)
qed

lemmas queue_eval = queue_run_def queue_start_def mpsc_new_def pool_run_def pool_step_def numeral_2_eq_2

theorem mpsc_fifo_witness:
  "\<exists>ps q. queue_run [(0, CallPush CHR ''a''), (1, CallPush CHR ''b''), (0, Go), (1, Go), (0, Go), (1, Go), (0, Allocate 7), (1, Allocate 9),
       (0, Go), (1, Go), (0, Go), (1, Go), (0, Go), (1, Go), (0, Go), (1, Go), (1, Go), (1, Go), (1, Go), (0, Go), (1, Go),
       (0, CallPop), (0, Go), (0, Go), (0, Go), (0, Go), (0, Go), (0, Go), (0, Go), (0, Go), (0, Go), (0, Go), (0, Go), (0, Go)] (queue_start 2) = (ps, q)
     \<and> ps = [QueueIdle, QueueIdle] \<and> q_popped q = ''a'' \<and> q_pushed q = ''ab'' \<and> q_len q = 1 \<and> card (dom (q_heap q)) = 1
     \<and> queue_drop q = Some (q\<lparr>q_heap := \<lambda>_. None, q_head := None, q_pending := None\<rparr>)"
  (is "\<exists>ps q. queue_run ?as _ = _ \<and> _")
proof -
  obtain ps q where w: "queue_run ?as (queue_start 2) = (ps, q)" by fastforce
  have "ps = [QueueIdle, QueueIdle] \<and> q_popped q = ''a'' \<and> q_pushed q = ''ab''" using w by (auto simp: queue_eval)
  with mpsc_fifo [OF _ w] w show ?thesis by auto
qed

lemma closed_step:
  assumes "queue_inv ps q" "length ps < 2 ^ 64" "q_close_returned q" "pool_step queue_step a (ps, q) = (ps', q')"
  shows "queue_inv ps' q' \<and> length ps' = length ps \<and> q_close_returned q' \<and> q_pushed q' = q_pushed q"
proof -
  have "q_close_returned q' \<and> q_pushed q' = q_pushed q"
  proof (cases "fst a < length ps")
    case True
    have "\<not> publishes (ps ! fst a)"
      using assms(1,3) True by (auto simp: queue_inv_def counters_ok_def threads_at_def filter_empty_conv)
    with True assms(3,4) show ?thesis
      by (cases "ps ! fst a")
        (auto simp: pool_step_def split_beta fault_def split: queue_choice.splits option.splits if_splits)
  next
    case False
    with assms(3,4) show ?thesis by (auto simp: pool_step_def split_beta)
  qed
  with queue_pool.step_inv [OF assms(1,2,4)] show ?thesis by blast
qed

lemma closed_run:
  "queue_inv ps q \<Longrightarrow> length ps < 2 ^ 64 \<Longrightarrow> q_close_returned q \<Longrightarrow> pool_run queue_step as (ps, q) = (ps', q') \<Longrightarrow>
   q_pushed q' = q_pushed q"
proof (induction as arbitrary: ps q)
  case (Cons a as)
  obtain ps1 q1 where w: "pool_step queue_step a (ps, q) = (ps1, q1)" by fastforce
  with closed_step [OF Cons.prems(1-3) w] Cons.IH [of ps1 q1] Cons.prems show ?case by (simp add: pool_run_def)
qed (simp add: pool_run_def)

text \<open>
  Claim C17. Once a call of \<open>close\<close> or the closing half of \<open>close_and_drain\<close> has returned, no message is
  ever published again, whatever the producers do: a drain after the close sees every message that
  was accepted.
\<close>

theorem mpsc_close:
  assumes "n < 2 ^ 64" and "queue_run as (queue_start n) = (ps, q)" and "q_close_returned q"
    and "queue_run bs (ps, q) = (ps', q')"
  shows "q_pushed q' = q_pushed q"
  using closed_run [of ps q bs ps' q'] queue_reachable [OF assms(1,2)] assms by (simp add: queue_run_def)

theorem mpsc_close_witness:
  "\<exists>ps q q' ps'. queue_run [(0, CallClose), (0, Go), (0, Go)] (queue_start 2) = (ps, q) \<and> q_close_returned q
     \<and> queue_run [(1, CallPush CHR ''a''), (1, Go), (1, Go), (1, Go)] (ps, q) = (ps', q') \<and> q_pushed q' = [] \<and> ps' = [QueueIdle, QueueIdle]"
  (is "\<exists>ps q q' ps'. queue_run ?as _ = _ \<and> _ \<and> queue_run ?bs _ = _ \<and> _")
proof -
  obtain ps q where w: "queue_run ?as (queue_start 2) = (ps, q)" by fastforce
  obtain ps' q' where w': "queue_run ?bs (ps, q) = (ps', q')" by fastforce
  have q: "q_close_returned q" "q_pushed q = []" and "ps' = [QueueIdle, QueueIdle]" using w w' by (auto simp: queue_eval)
  with mpsc_close [OF _ w q(1) w'] w w' show ?thesis by auto
qed

end
