(* ===== verification/Spec2Isabelle.thy ===== *)
theory Spec2Isabelle
  imports OR_Multi_Map Downing_Provider Membership_Table Gossip_State Tcp_Compression Association_Delivery Mailbox_Delivery Mpsc_Linear
begin

text \<open>
  A verification library for fraktor-rs, an actor runtime with remoting and clustering written in
  Rust after Apache Pekko. It models the parts of the runtime that decide: the replicated data
  types, the membership and gossip state, the split brain resolver, the remote protocol, and the
  mailbox of an actor. What is modelled is the Rust code of those modules, function by function; the
  properties compose it into replicas, partitions, byte streams and connections. The mailbox and its
  lock-free queue are modelled with threads, one access to shared memory at a time.

  \<^bold>\<open>The program.\<close> A node of a cluster runs actors (\<open>actor-core-kernel\<close>) and talks to other nodes
  through \<open>remote-core\<close>: an association per peer, protocol data units encoded by the codecs of
  \<open>wire\<close>, and a TCP transport in \<open>remote-adaptor-std\<close> that cuts the byte stream into frames and
  compresses actor references and manifests. \<open>cluster-core-kernel\<close> builds on it: \<open>membership\<close> keeps
  a versioned table of node records which nodes exchange as deltas and gossip; reachability evidence
  from failure detectors is kept per observer; when the cluster is partitioned \<open>downing_provider\<close>
  decides which side survives; \<open>ddata\<close> holds the conflict-free data types that are replicated
  between members by full states and by deltas.

  \<^bold>\<open>Conventions.\<close> Structs are records, enums are datatypes, \<open>Result\<close> is a sum with the error on the
  left, a panic is a value of its own or \<open>None\<close>. Machine integers are words of their width
  (\<open>Fraktor_Prelude\<close>): plain additions wrap, as in a release build, and \<open>checked_add\<close> and
  \<open>saturating_add\<close> are written out. \<open>BTreeMap\<close> and \<open>BTreeSet\<close> are finite maps and sets visited in
  key order (\<open>BTree_Map\<close>); \<open>Vec\<close> and \<open>VecDeque\<close> are lists. A \<open>String\<close> is the list of its UTF-8
  bytes. A method that mutates \<open>self\<close> returns the new value, paired with its result. Every
  definition computes. Loops are structural recursion over what they traverse; the glob matcher,
  whose loop is not, is a partial function into \<open>option\<close> that is proved to return. The only fuel is
  that of \<open>drain\<close> in \<open>Frame_Codec\<close>, which calls the stream decoder until it waits: the length of the
  buffer is enough, since every decoded frame consumes its header.

  \<^bold>\<open>Shared theories.\<close> \<open>Fraktor_Prelude\<close> holds the rule collections, the integer operations and
  \<open>Result\<close>; \<open>BTree_Map\<close> the map loops; \<open>Slot_Map\<close> maps of counters merged by maximum, from which all
  version vectors, counters, dots and clocks draw their merge laws. \<open>CRDT_Contract\<close> states the
  traits \<open>ReplicatedData\<close>, \<open>DeltaReplicatedData\<close> and \<open>RemovedNodePruning\<close> as locales and proves
  strong eventual consistency and delta synchronisation inside them; each data type interprets
  them on its own operations. \<open>Node_Address\<close> has the node identities and their order.

  \<^bold>\<open>Replicated data (\<open>cluster-core-kernel/src/ddata\<close>).\<close> \<open>Version_Vector\<close>, \<open>G_Counter\<close>, \<open>PN_Counter\<close>,
  \<open>LWW_Register\<close> (with \<open>Flag\<close>), \<open>OR_Set\<close>, \<open>OR_Map\<close>, \<open>LWW_Map\<close> and \<open>OR_Multi_Map\<close> model all
  operations of the Rust types of those names: updates, merge, deltas, pruning of removed nodes.
  Shown: replicas that merged the same states agree whatever the order and repetition; merging a
  delta equals merging the full state for a peer that has the previous one; adds win over
  concurrent removes and removed elements are not resurrected, also across pruning; counter values
  are exact or reported as overflow; the comparison of version vectors decides the causal order. Two
  theorems exhibit where the code misses its documented laws: the merge of \<open>ORMap\<close> is not
  associative, and pruning a second node brings the first one back.

  \<^bold>\<open>Membership (\<open>cluster-core-kernel/src/membership\<close>).\<close> \<open>Member_Record\<close> (records, status, age order),
  \<open>Reachability\<close> (the observer matrix refines a plain table), \<open>Membership_Table\<close> (joins, status
  transitions, heartbeat misses, deltas), \<open>Gossip_Sets\<close> (vector clock, seen digest, tombstones,
  quarantine) and \<open>Gossip_State\<close> (the merge of full states). Shown: invariants of every run of the
  table, the status graph, that applying the delta of an operation replicates it, that errors change
  nothing, convergence of gossip, that stale records do not return, when tombstones may be pruned.
  Two theorems exhibit defects in rejoining and in the heartbeat counters.

  \<^bold>\<open>Downing (\<open>cluster-core-kernel/src/downing_provider\<close>).\<close> \<open>Downing_Context\<close> is what a decision sees,
  \<open>Split_Brain_Resolver\<close> the five strategies, \<open>Downing_Provider\<close> the hook a node runs. Shown: the two
  sides of a clean partition never both survive, how the lease strategy decides on both sides for any
  lease backend, a keep decision splits the members, and which gates defer a decision. The lease
  backend is outside the repository and is a parameter, with no hypothesis on it.

  \<^bold>\<open>Wire format (\<open>remote-core/src/wire\<close>).\<close> \<open>Wire_Buffer\<close> has the byte primitives over the operations
  of the \<open>bytes\<close> crate, which are a parameter with their documented behaviour as the hypothesis
  \<open>buf_laws\<close> (\<open>plain_bufs\<close> is an instance); \<open>Wire_Codec\<close> the five codecs, which interpret the locale
  \<open>wire_codec\<close>; \<open>Frame_Codec\<close> the stream codec of the TCP transport. Shown: round trips of every
  data unit and of streams however they are cut, no panic on any input, all-or-nothing encoding,
  well-formedness of whatever is decoded. \<open>Compression_Table\<close> and \<open>Tcp_Compression\<close> model the
  compression tables and a connection that uses them, with the frame limits of its two ends: with
  compatible table sizes compression is transparent under every interleaving until an end refuses a
  frame for its size or the socket fails; with a disabled table at the server, whatever was exchanged
  before, the first reference ends the connection. \<open>Path_Pattern\<close>
  is the matcher that routes large messages.

  \<^bold>\<open>Actor paths (\<open>actor-core-kernel/src/actor/actor_path\<close>, \<open>utils-core/src/net\<close>).\<close> \<open>Uri_Parser\<close> is the
  parser of URIs with percent decoding, \<open>Actor_Path\<close> the paths with their guardians, segments,
  parser and formatter. Shown: the canonical form of a well-formed path parses back to it, and
  whatever string is parsed the result is well formed, so that the large-message matcher accepts it.
  A theorem exhibits that \<open>/systems\<close> is taken for the system guardian.

  \<^bold>\<open>Associations (\<open>remote-core/src/association\<close>).\<close> \<open>Send_Queue\<close> has the envelopes and the three lanes
  of the send queue, \<open>Association\<close> the state machine of one peer: handshakes, gating, quarantine,
  deferral, sequence numbers and acknowledgements of system envelopes, flush sessions.
  \<open>Association_Queues\<close> makes its operations steps and shows that no envelope disappears silently and
  that every run keeps the limits and never panics. \<open>Association_Delivery\<close> puts two associations
  on a network that loses, duplicates and reorders: while both stay active, system envelopes arrive
  exactly once and in order in both directions, and resending recovers from the loss of everything on
  the wire. A theorem exhibits
  how system envelopes are lost when an association is established again.

  \<^bold>\<open>Mailboxes (\<open>actor-core-kernel/src/dispatch\<close>).\<close> \<open>Schedule_State\<close> is the packed word of flags and
  suspensions that threads update by compare-and-swap; \<open>Interleaving\<close> has pools of threads over shared
  state and the locale of their invariants. \<open>Mailbox_Threads\<close> gives the program points of
  \<open>mailbox/base.rs\<close> and of \<open>register_for_execution\<close>: sending, scheduling, running, closing, clean-up,
  suspending; \<open>Mailbox_Invariants\<close> the invariants that every step keeps, and \<open>Mailbox_Delivery\<close> what
  follows for every interleaving of any number of threads: one consumer at a time, no lost wake-up
  unless the executor refuses a task,
  every message once and in order, clean-up once and complete. \<open>Mpsc_Queue\<close> and \<open>Mpsc_Linear\<close> take
  the lock-free queue apart into nodes on a heap and show that it is memory safe, first-in first-out
  and without leaks, which is what \<open>Mailbox_Threads\<close> assumes when it pushes or pops in one step. Memory
  is sequentially consistent. The bounds are those of the counters: fewer than \<open>2 ^ 64\<close> threads and
  messages and fewer than \<open>2 ^ 27\<close> suspensions. Two theorems exhibit defects: a suspended mailbox with
  a waiting message occupies its executor, and a system message for a closed mailbox is stranded.

  \<^bold>\<open>Not modelled.\<close> The rest of the actor kernel (actor cells, supervision, scheduler, dispatchers other
  than the default, bounded and priority mailboxes) and the typed APIs, persistence and streams: large
  bodies of code of their own. Weaker memory orders than sequential consistency. Of the cluster: the coordinators that
  drive the modelled tables from timers and messages, placement, grains, pub-sub and singleton. Of
  remoting: the event loop, the registry of associations, failure detection, sockets and tasks. The adaptors bind to threads, sockets and clocks of the
  platform and hold no logic to verify without a model of the platform; lints, showcases and tests
  are not part of the runtime.
\<close>

end
